(* ===== verification/Prelude.thy ===== *)
theory Prelude
  imports Main "HOL-Library.Word" "HOL-Library.State_Monad"
begin

text \<open>
  Shared vocabulary of the development: the machine integers of the C sources, bytes and
  little-endian words, in-place updates of byte buffers, and the lemmas on lists and words
  that the component theories use.
\<close>

unbundle bit_operations_syntax

section \<open>Machine types\<close>

type_synonym u8 = "8 word"
type_synonym u16 = "16 word"
type_synonym u32 = "32 word"
type_synonym u64 = "64 word"
type_synonym bytes = "8 word list"

named_theorems buf_simps \<open>rewrite rules for updates of byte buffers\<close>
named_theorems le_simps \<open>rewrite rules for little-endian encodings\<close>

text \<open>A C string literal as the bytes before its terminator.\<close>

definition cs :: "string \<Rightarrow> bytes" where
  "cs s = map of_char s"

lemma cs_Nil [simp]: "cs [] = []"
  by (simp add: cs_def)

lemma cs_Cons [simp]: "cs (c # s) = of_char c # cs s"
  by (simp add: cs_def)

lemma length_cs [simp]: "length (cs s) = length s"
  by (simp add: cs_def)

section \<open>Buffers\<close>

text \<open>\<open>put_bytes buf off bs\<close> is a copy of \<open>bs\<close> into \<open>buf\<close> from index \<open>off\<close> on.\<close>

definition put_bytes :: "'a list \<Rightarrow> nat \<Rightarrow> 'a list \<Rightarrow> 'a list" where
  "put_bytes buf off bs = take off buf @ bs @ drop (off + length bs) buf"

lemma length_put_bytes [simp]:
  "off + length bs \<le> length buf \<Longrightarrow> length (put_bytes buf off bs) = length buf"
  by (simp add: put_bytes_def)

lemma put_bytes_Nil [simp]: "put_bytes buf off [] = buf"
  by (simp add: put_bytes_def)

lemma put_bytes_nth [buf_simps]:
  assumes "off + length bs \<le> length buf" and "i < length buf"
  shows "put_bytes buf off bs ! i =
    (if off \<le> i \<and> i < off + length bs then bs ! (i - off) else buf ! i)"
  using assms by (auto simp: put_bytes_def nth_append min_def)

lemma put_bytes_take [buf_simps]:
  "off + length bs \<le> length buf \<Longrightarrow> take off (put_bytes buf off bs) = take off buf"
  by (simp add: put_bytes_def)

lemma put_bytes_take_end [buf_simps]:
  "off + length bs \<le> length buf \<Longrightarrow>
   take (off + length bs) (put_bytes buf off bs) = take off buf @ bs"
  by (simp add: put_bytes_def)

lemma put_bytes_drop_end [buf_simps]:
  "off + length bs \<le> length buf \<Longrightarrow>
   drop (off + length bs) (put_bytes buf off bs) = drop (off + length bs) buf"
  by (simp add: put_bytes_def)

text \<open>Later bytes over earlier ones at the same place.\<close>

definition over :: "bytes \<Rightarrow> bytes \<Rightarrow> bytes" where
  "over bs old = bs @ drop (length bs) old"

section \<open>Little-endian words\<close>

definition le16 :: "u16 \<Rightarrow> bytes" where
  "le16 w = [ucast w, ucast (drop_bit 8 w)]"

definition le32 :: "u32 \<Rightarrow> bytes" where
  "le32 w = [ucast w, ucast (drop_bit 8 w), ucast (drop_bit 16 w), ucast (drop_bit 24 w)]"

definition of_le16 :: "u8 \<Rightarrow> u8 \<Rightarrow> u16" where
  "of_le16 b0 b1 = ucast b0 OR push_bit 8 (ucast b1)"

definition of_le32 :: "u8 \<Rightarrow> u8 \<Rightarrow> u8 \<Rightarrow> u8 \<Rightarrow> u32" where
  "of_le32 b0 b1 b2 b3 =
     ucast b0 OR push_bit 8 (ucast b1) OR push_bit 16 (ucast b2) OR push_bit 24 (ucast b3)"

lemma length_le32 [simp]: "length (le32 w) = 4"
  by (simp add: le32_def)

lemma bit_u8_less: "bit (b :: u8) n \<Longrightarrow> n < 8"
  using bit_imp_le_length [of b n] by simp

lemma bit_u8_high [simp]: "8 \<le> n \<Longrightarrow> \<not> bit (b :: u8) n"
  using bit_u8_less [of b n] by auto

lemma of_le16_bytes [le_simps]: "of_le16 (ucast w) (ucast (drop_bit 8 w)) = w"
  unfolding of_le16_def
  by (rule bit_word_eqI) (auto simp: bit_simps)

lemma of_le32_bytes [le_simps]:
  "of_le32 (ucast w) (ucast (drop_bit 8 w)) (ucast (drop_bit 16 w)) (ucast (drop_bit 24 w)) = w"
proof (rule bit_word_eqI)
  fix n assume "n < LENGTH(32)"
  then consider "n < 8" | "8 \<le> n" "n < 16" | "16 \<le> n" "n < 24" | "24 \<le> n" "n < 32"
    by fastforce
  then show "bit (of_le32 (ucast w) (ucast (drop_bit 8 w)) (ucast (drop_bit 16 w))
      (ucast (drop_bit 24 w))) n = bit w n"
    by cases (auto simp: of_le32_def bit_simps)
qed

lemma le32_of_le32 [le_simps]: "le32 (of_le32 b0 b1 b2 b3) = [b0, b1, b2, b3]"
  unfolding le32_def of_le32_def
  by (auto intro!: bit_word_eqI simp: bit_simps)

lemma le32_inject [simp]: "le32 v = le32 w \<longleftrightarrow> v = w"
proof
  assume eq: "le32 v = le32 w"
  have "v = of_le32 (le32 v ! 0) (le32 v ! 1) (le32 v ! 2) (le32 v ! 3)" for v
    using of_le32_bytes [of v] by (simp add: le32_def)
  from this [of v] this [of w] show "v = w"
    unfolding eq by simp
qed simp

section \<open>Single bits\<close>

lemma clear_lowest_bit:
  fixes x :: "'a::len word"
  assumes "bit x k" and least: "\<And>j. j < k \<Longrightarrow> \<not> bit x j"
  shows "x AND (x - 1) = unset_bit k x"
proof -
  define z where "z = unset_bit k x"
  have k: "k < LENGTH('a)" using assms(1) by (rule bit_imp_le_length)
  have zb: "\<not> bit z n" if "n \<le> k" for n
    using that least [of n] by (cases "n = k") (auto simp: z_def bit_simps)
  have "x = z OR 2 ^ k"
    using assms(1) k by (intro bit_word_eqI) (auto simp: z_def bit_simps bit_exp_iff)
  also have "\<dots> = z + 2 ^ k"
    by (rule disjunctive_add [symmetric]) (use zb in \<open>auto simp: bit_simps\<close>)
  finally have "x - 1 = z + mask k"
    by (simp add: mask_eq_exp_minus_1)
  also have "\<dots> = z OR mask k"
    by (rule disjunctive_add) (use zb in \<open>auto simp: bit_simps\<close>)
  finally have "x AND (x - 1) = x AND (z OR mask k)"
    by simp
  also have "\<dots> = z"
    using least by (intro bit_word_eqI) (auto simp: z_def bit_simps)
  finally show ?thesis by (simp add: z_def)
qed

lemma least_bit_exists:
  fixes x :: "'a::len word"
  assumes "x \<noteq> 0"
  obtains k where "bit x k" "\<And>j. j < k \<Longrightarrow> \<not> bit x j"
proof -
  from assms obtain n where "bit x n"
    by (auto simp: bit_eq_iff)
  then have "bit x (LEAST n. bit x n)"
    by (rule LeastI)
  then show ?thesis
    by (rule that) (blast dest: not_less_Least)
qed

lemma one_bit_iff:
  fixes x :: "'a::len word"
  shows "x \<noteq> 0 \<and> x AND (x - 1) = 0 \<longleftrightarrow> (\<exists>k < LENGTH('a). x = 2 ^ k)"
proof
  assume a: "x \<noteq> 0 \<and> x AND (x - 1) = 0"
  then obtain k where k: "bit x k" "\<And>j. j < k \<Longrightarrow> \<not> bit x j"
    using least_bit_exists by blast
  with a have "unset_bit k x = 0"
    by (simp add: clear_lowest_bit)
  then have z: "bit x n \<longleftrightarrow> n = k" for n
    using k(1) by (metis bit_0_eq bit_unset_bit_iff bot_apply bot_bool_def)
  have "k < LENGTH('a)" using k(1) by (rule bit_imp_le_length)
  moreover have "x = 2 ^ k"
    using z calculation by (intro bit_word_eqI) (auto simp: bit_simps)
  ultimately show "\<exists>k < LENGTH('a). x = 2 ^ k" by blast
next
  assume "\<exists>k < LENGTH('a). x = 2 ^ k"
  then obtain k where k: "k < LENGTH('a)" "x = 2 ^ k" by blast
  then have "bit x k" "\<And>j. j < k \<Longrightarrow> \<not> bit x j"
    by (auto simp: bit_simps)
  then have "x AND (x - 1) = unset_bit k x"
    by (rule clear_lowest_bit)
  also have "\<dots> = 0"
    using k by (intro bit_word_eqI) (auto simp: bit_simps)
  finally show "x \<noteq> 0 \<and> x AND (x - 1) = 0"
    using k by auto
qed

lemma unat_bound: "unat (x :: 'a::len word) < 2 ^ LENGTH('a)"
  by (rule unsigned_less)

lemma unat_u32_bound: "unat (x :: u32) < 4294967296"
  using unat_bound [of x] by simp

lemma unat_push_bit: "unat (push_bit n (w :: 'a::len word)) = unat w * 2 ^ n mod 2 ^ LENGTH('a)"
  unfolding unsigned_push_bit_eq by (simp add: push_bit_eq_mult take_bit_eq_mod)

lemma unat_drop_bit: "unat (drop_bit n (w :: 'a::len word)) = unat w div 2 ^ n"
  unfolding unsigned_drop_bit_eq by (simp add: drop_bit_eq_div take_bit_nat_eq_self unsigned_less)

lemma unat_plus_1_less:
  fixes p e :: "'a::len word"
  assumes "p < e"
  shows "unat (p + 1) = unat p + 1"
proof -
  have "unat p + 1 < 2 ^ LENGTH('a)"
    using assms unat_bound [of e] unfolding word_less_nat_alt by linarith
  then show ?thesis by (simp add: unat_word_ariths)
qed

section \<open>Byte-addressed memory\<close>

type_synonym mem = "u32 \<Rightarrow> u8"

definition mem_range :: "mem \<Rightarrow> u32 \<Rightarrow> nat \<Rightarrow> bytes" where
  "mem_range m a n = map (\<lambda>i. m (a + of_nat i)) [0..<n]"

text \<open>Copy of a byte list to memory from address \<open>a\<close> on.\<close>

fun mem_put :: "mem \<Rightarrow> u32 \<Rightarrow> bytes \<Rightarrow> mem" where
  "mem_put m a [] = m"
| "mem_put m a (b # bs) = mem_put (m(a := b)) (a + 1) bs"

text \<open>Word access of the ARM926EJ-S with alignment checks off: a load ignores the low address
  bits and rotates the word right, a store ignores them.\<close>

definition ld32 :: "mem \<Rightarrow> u32 \<Rightarrow> u32" where
  "ld32 m a =
     (let b = a AND NOT 3
      in word_rotr (8 * unat (a AND 3)) (of_le32 (m b) (m (b + 1)) (m (b + 2)) (m (b + 3))))"

definition st32 :: "mem \<Rightarrow> u32 \<Rightarrow> u32 \<Rightarrow> mem" where
  "st32 m a v = mem_put m (a AND NOT 3) (le32 v)"

lemma length_mem_range [simp]: "length (mem_range m a n) = n"
  by (simp add: mem_range_def)

lemma mem_range_0 [simp]: "mem_range m a 0 = []"
  by (simp add: mem_range_def)

lemma mem_range_Suc: "mem_range m a (Suc n) = mem_range m a n @ [m (a + of_nat n)]"
  by (simp add: mem_range_def)

lemma mem_range_nth [simp]: "i < n \<Longrightarrow> mem_range m a n ! i = m (a + of_nat i)"
  by (simp add: mem_range_def)

lemma mem_range_Suc_left: "mem_range m a (Suc n) = m a # mem_range m (a + 1) n"
  by (rule nth_equalityI) (auto simp: nth_Cons' of_nat_diff algebra_simps simp del: upt_Suc)

lemma of_nat_u32_eq_iff: "i < 2 ^ 32 \<Longrightarrow> j < 2 ^ 32 \<Longrightarrow> (of_nat i :: u32) = of_nat j \<longleftrightarrow> i = j"
  by (simp add: word_of_nat_eq_iff take_bit_nat_eq_self)

lemma mem_range_upd_end:
  "n < 2 ^ 32 \<Longrightarrow> mem_range (m(a + of_nat n := c)) a n = mem_range m a n"
  by (rule nth_equalityI) (auto simp: of_nat_u32_eq_iff)

lemma aligned_low_bits: "a AND 3 = 0 \<Longrightarrow> a AND NOT 3 = (a :: u32)"
proof -
  assume "a AND 3 = 0"
  moreover have "a = (a AND 3) OR (a AND NOT 3)"
    by (rule bit_word_eqI) (auto simp: bit_simps)
  ultimately show ?thesis by simp
qed

lemma mem_put_append: "mem_put m a (xs @ ys) = mem_put (mem_put m a xs) (a + of_nat (length xs)) ys"
  by (induction xs arbitrary: m a) (simp_all add: algebra_simps)

lemma mem_put_apply:
  "length bs \<le> 2 ^ 32 \<Longrightarrow>
   mem_put m a bs x = (if unat (x - a) < length bs then bs ! unat (x - a) else m x)"
proof (induction bs arbitrary: m a)
  case (Cons b bs)
  show ?case
  proof (cases "x = a")
    case True
    then have "unat (x - (a + 1)) = 2 ^ 32 - 1" by (simp add: unsigned_minus_1_eq_mask mask_eq_exp_minus_1)
    with True Cons show ?thesis by simp
  next
    case False
    then have "unat (x - a) \<noteq> 0" by (simp add: unat_0_iff)
    moreover have "unat (x - (a + 1)) = unat (x - a) - 1"
      using False unat_minus_one [of "x - a"] by (simp add: algebra_simps)
    ultimately show ?thesis
      using Cons False by (auto simp: nth_Cons')
  qed
qed simp

lemma st32_apply:
  "st32 m a v x = (let b = a AND NOT 3 in if unat (x - b) < 4 then le32 v ! unat (x - b) else m x)"
  by (simp add: st32_def mem_put_apply Let_def)

lemma st32_aligned:
  "a AND 3 = 0 \<Longrightarrow> st32 m a v x = (if unat (x - a) < 4 then le32 v ! unat (x - a) else m x)"
  unfolding st32_apply by (simp only: aligned_low_bits Let_def)

lemma word_rotr_0: "word_rotr 0 w = (w :: u32)"
  by (rule bit_word_eqI) (simp add: bit_word_rotr_iff)

lemma ld32_aligned:
  "a AND 3 = 0 \<Longrightarrow> ld32 m a = of_le32 (m a) (m (a + 1)) (m (a + 2)) (m (a + 3))"
  unfolding ld32_def Let_def
  by (simp only: aligned_low_bits unsigned_0 mult_0_right word_rotr_0)

lemma le32_ld32:
  "a AND 3 = 0 \<Longrightarrow> le32 (ld32 m a) = [m a, m (a + 1), m (a + 2), m (a + 3)]"
  by (simp add: ld32_aligned le32_of_le32)

lemma and_3_mod: "unat (a AND 3 :: u32) = unat a mod 4"
proof -
  have "(3 :: u32) = mask 2" by (simp add: mask_eq_exp_minus_1)
  then have "unat (a AND 3) = unat (take_bit 2 a)" by (simp only: take_bit_eq_mask)
  also have "\<dots> = take_bit 2 (unat a)" by (rule unsigned_take_bit_eq)
  also have "\<dots> = unat a mod 4" by (simp add: take_bit_eq_mod)
  finally show ?thesis .
qed

lemma aligned_iff: "a AND 3 = (0 :: u32) \<longleftrightarrow> 4 dvd unat a"
  by (simp add: word_unat_eq_iff and_3_mod dvd_eq_mod_eq_0)

lemma byte_masks: "(0xFF :: u32) = mask 8" "(0xFF00 :: u32) = push_bit 8 (mask 8)"
  "(0xFF0000 :: u32) = push_bit 16 (mask 8)" "(0xFF000000 :: u32) = push_bit 24 (mask 8)"
  by (simp_all add: mask_eq_exp_minus_1 push_bit_eq_mult)

lemma of_le32_byte_zero [le_simps]:
  "of_le32 b0 b1 b2 b3 AND 0xFF = 0 \<longleftrightarrow> b0 = 0"
  "of_le32 b0 b1 b2 b3 AND 0xFF00 = 0 \<longleftrightarrow> b1 = 0"
  "of_le32 b0 b1 b2 b3 AND 0xFF0000 = 0 \<longleftrightarrow> b2 = 0"
  "of_le32 b0 b1 b2 b3 AND 0xFF000000 = 0 \<longleftrightarrow> b3 = 0"
proof -
  have "of_le32 b0 b1 b2 b3 AND 0xFF = ucast b0"
    "of_le32 b0 b1 b2 b3 AND 0xFF00 = push_bit 8 (ucast b1)"
    "of_le32 b0 b1 b2 b3 AND 0xFF0000 = push_bit 16 (ucast b2)"
    "of_le32 b0 b1 b2 b3 AND 0xFF000000 = push_bit 24 (ucast b3)"
    unfolding byte_masks of_le32_def
    by (auto intro!: bit_word_eqI simp: bit_simps dest: bit_u8_less)
  moreover have "ucast b = (0 :: u32) \<longleftrightarrow> b = 0" for b :: u8
    by (auto simp: bit_eq_iff bit_simps dest: bit_u8_less)
  moreover have "push_bit n (ucast b) = (0 :: u32) \<longleftrightarrow> b = 0" if "n \<le> 24" for b :: u8 and n
  proof
    assume z: "push_bit n (ucast b) = (0 :: u32)"
    show "b = 0"
    proof (rule bit_word_eqI)
      fix i assume i: "i < LENGTH(8)"
      have "bit (push_bit n (ucast b) :: u32) (n + i) = bit b i"
        using that i by (simp add: bit_simps)
      with z show "bit b i = bit 0 i" by simp
    qed
  qed simp
  ultimately show "of_le32 b0 b1 b2 b3 AND 0xFF = 0 \<longleftrightarrow> b0 = 0"
    "of_le32 b0 b1 b2 b3 AND 0xFF00 = 0 \<longleftrightarrow> b1 = 0"
    "of_le32 b0 b1 b2 b3 AND 0xFF0000 = 0 \<longleftrightarrow> b2 = 0"
    "of_le32 b0 b1 b2 b3 AND 0xFF000000 = 0 \<longleftrightarrow> b3 = 0"
    by simp_all
qed

lemma unat_diff_window:
  fixes d :: u32
  assumes "k + n \<le> 2 ^ 32"
  shows "unat (d - of_nat k) < n \<longleftrightarrow> k \<le> unat d \<and> unat d < k + n"
proof (cases "n = 0")
  case False
  then have "unat (of_nat k :: u32) = k" using assms by (simp add: unat_of_nat)
  then show ?thesis
    using assms unat_u32_bound [of d] False by (auto simp: unat_sub_if_size word_size)
qed simp

lemma ld32_st32_same [simp]: "a AND 3 = 0 \<Longrightarrow> ld32 (st32 m a v) a = v"
  by (simp add: ld32_aligned st32_aligned le32_def of_le32_bytes)

lemma unat_word_offset:
  "unat (x - a) < 4 \<longleftrightarrow> x = a \<or> x = a + 1 \<or> x = a + 2 \<or> x = (a + 3 :: u32)"
proof -
  have "unat d < 4 \<longleftrightarrow> d = 0 \<or> d = 1 \<or> d = 2 \<or> d = 3" for d :: u32
    by (auto simp: word_unat_eq_iff)
  from this [of "x - a"] show ?thesis by (auto simp: algebra_simps)
qed

lemma st32_st32_same: "a AND 3 = 0 \<Longrightarrow> st32 (st32 m a v) a w = st32 m a w"
  by (rule ext) (simp add: st32_aligned)

lemma st32_ld32_same: "a AND 3 = 0 \<Longrightarrow> st32 m a (ld32 m a) = m"
  by (rule ext) (auto simp: st32_aligned le32_ld32 unat_word_offset)

end
