(* ===== verification/Ecc.thy ===== *)
theory Ecc
  imports Prelude
begin

text \<open>
  The decoder of the error positions that the BCH engine of the NAND controller reports
  (lib/ecc.c): \<open>ecc_locate\<close> turns one error register into a byte index and a bit mask,
  \<open>ecc_apply\<close> flips every reported bit of a chunk and its tag.
\<close>

section \<open>Definitions\<close>

definition seg_base :: "int list" where
  "seg_base = [-112, 16, 144, 272, 400]"

text \<open>The scan \<open>while ((sel & (1u << i)) == 0u) i++\<close>. The caller makes sure that a bit
  is set; the bound 32 is the width of \<open>sel\<close>.\<close>

function lowest_set :: "u32 \<Rightarrow> nat \<Rightarrow> nat" where
  "lowest_set sel i = (if i < 32 \<and> sel AND push_bit i 1 = 0 then lowest_set sel (Suc i) else i)"
  by pat_completeness auto
termination
  by (relation "measure (\<lambda>(sel, i). 32 - i)") auto

declare lowest_set.simps [simp del]

text \<open>\<open>None\<close> is the return value -1.\<close>

definition ecc_locate :: "u32 \<Rightarrow> (u32 \<times> u8) option" where
  "ecc_locate reg =
     (let sel = drop_bit 9 reg AND 0x3FF in
      if sel = 0 \<or> sel AND (sel - 1) \<noteq> 0 then None
      else
        let i = lowest_set sel 0;
            base = seg_base ! (i div 2);
            parity = (drop_bit i 0x2AA AND 1 :: int);
            r = 2 * uint (reg AND 0x1FF) + parity - 4;
            (r', base') = (if r < 0 then (r + 8, base - 1) else (r, base));
            idx = base' + drop_bit 3 r'
        in if idx < 0 then None
           else Some (word_of_int idx, push_bit (nat (NOT r' AND 7)) 1))"

text \<open>The loop of \<open>ecc_apply\<close>; the result is the return code with the two buffers.\<close>

fun ecc_apply_loop :: "u32 list \<Rightarrow> bytes \<Rightarrow> bytes \<Rightarrow> u32 \<Rightarrow> u32 \<Rightarrow> int \<times> bytes \<times> bytes" where
  "ecc_apply_loop [] data tag tag_len applied = (if applied \<noteq> 0 then 0 else -1, data, tag)"
| "ecc_apply_loop (r # regs) data tag tag_len applied =
     (if r = 0 then ecc_apply_loop regs data tag tag_len applied
      else case ecc_locate r of
        None \<Rightarrow> (-1, data, tag)
      | Some (byte, msk) \<Rightarrow>
          if byte < 512 then
            ecc_apply_loop regs (data[unat byte := data ! unat byte XOR msk]) tag tag_len (applied + 1)
          else if byte - 512 < tag_len then
            ecc_apply_loop regs data
              (tag[unat (byte - 512) := tag ! unat (byte - 512) XOR msk]) tag_len (applied + 1)
          else (-1, data, tag))"

definition ecc_apply :: "u32 list \<Rightarrow> u32 \<Rightarrow> bytes \<Rightarrow> bytes \<Rightarrow> u32 \<Rightarrow> int \<times> bytes \<times> bytes" where
  "ecc_apply regs n data tag tag_len = ecc_apply_loop (take (unat n) regs) data tag tag_len 0"

section \<open>The located bit\<close>

lemma lowest_set_exp:
  assumes "i \<le> k" and "k < 32"
  shows "lowest_set (2 ^ k) i = k"
  using assms(1)
proof (induction "k - i" arbitrary: i)
  case 0
  then have [simp]: "i = k" by simp
  have "(2 ^ k AND push_bit k 1 :: u32) \<noteq> 0"
    using assms(2) by (simp add: push_bit_eq_mult)
  then show ?case by (simp add: lowest_set.simps [of _ k])
next
  case (Suc n)
  then have "i < k" by simp
  then have "(2 ^ k AND push_bit i 1 :: u32) = 0"
    by (intro bit_word_eqI) (auto simp: bit_simps)
  moreover have "lowest_set (2 ^ k) (Suc i) = k"
    using Suc by (intro Suc.hyps(1)) auto
  ultimately show ?case
    using \<open>i < k\<close> assms(2) by (simp add: lowest_set.simps [of _ i])
qed

definition err_offset :: "nat \<Rightarrow> int \<Rightarrow> int" where
  "err_offset i pos = 8 * (seg_base ! (i div 2)) + 2 * pos + int (i mod 2) - 4"

lemma less_10_cases: "(i::nat) < 10 \<Longrightarrow> i \<in> {0, 1, 2, 3, 4, 5, 6, 7, 8, 9}"
  by auto

lemma parity_bit: "i < 10 \<Longrightarrow> (drop_bit i 0x2AA AND 1 :: int) = int (i mod 2)"
  by (drule less_10_cases) auto

lemma not_and_7: "NOT r AND 7 = 7 - r mod (8::int)"
proof -
  have "NOT r AND 7 = take_bit 3 (NOT r)"
    by (simp add: take_bit_eq_mask mask_eq_exp_minus_1)
  also have "\<dots> = (- r - 1) mod 8"
    by (simp add: take_bit_eq_mod not_int_def)
  also have "\<dots> = 7 - r mod 8"
    by presburger
  finally show ?thesis .
qed

lemma drop_bit_3: "drop_bit 3 (r :: int) = r div 8"
  by (simp add: drop_bit_eq_div)

lemma offset_arith:
  fixes b r :: int
  shows "8 * (b - 1) + (r + 8) = 8 * b + r" "b + r div 8 = (8 * b + r) div 8"
    "r mod 8 = (8 * b + r) mod 8" "(r + 8) mod 8 = (8 * b + r) mod 8"
    "(8 * b + r) div 8 < 0 \<longleftrightarrow> 8 * b + r < 0"
  by (simp_all only: pos_imp_zdiv_neg_iff zero_less_numeral) simp_all

lemma position_arith:
  "1024 * d + m = off + 900 \<Longrightarrow> 2 * p + b = m \<Longrightarrow>
   8 * (128 * int d - 112) + 2 * int p + int b - 4 = int off"
proof -
  assume "1024 * d + m = off + 900" and "2 * p + b = m"
  then have "int (1024 * d + (2 * p + b)) = int (off + 900)" by simp
  then show ?thesis by simp
qed

lemma ecc_locate_one_hot:
  assumes i: "i < 10" and sel: "drop_bit 9 reg AND 0x3FF = (2 ^ i :: u32)"
  shows "ecc_locate reg =
    (let off = err_offset i (uint (reg AND 0x1FF))
     in if off < 0 then None else Some (word_of_int (off div 8), 2 ^ nat (7 - off mod 8)))"
proof -
  let ?r = "2 * uint (reg AND 0x1FF) + int (i mod 2) - 4"
  let ?b = "seg_base ! (i div 2)"
  have nz: "(2 ^ i :: u32) \<noteq> 0" and one: "(2 ^ i AND (2 ^ i - 1) :: u32) = 0"
    using iffD2 [OF one_bit_iff [of "2 ^ i :: u32"], OF exI [of _ i]] i by auto
  have off: "err_offset i (uint (reg AND 0x1FF)) = 8 * ?b + ?r"
    by (simp add: err_offset_def)
  have "ecc_locate reg =
    (let (r', base') = (if ?r < 0 then (?r + 8, ?b - 1) else (?r, ?b)); idx = base' + drop_bit 3 r'
     in if idx < 0 then None else Some (word_of_int idx, 2 ^ nat (7 - r' mod 8)))"
    unfolding ecc_locate_def sel
    using nz one i by (simp add: Let_def lowest_set_exp parity_bit not_and_7 push_bit_eq_mult)
  also have "\<dots> = (let off = 8 * ?b + ?r
     in if off < 0 then None else Some (word_of_int (off div 8), 2 ^ nat (7 - off mod 8)))"
  proof -
    show ?thesis
      by (cases "?r < 0")
        (simp_all only: drop_bit_3 Let_def if_True if_False prod.case
          offset_arith(1,2,5) offset_arith(3,4) [of ?r ?b])
  qed
  finally show ?thesis
    by (simp only: off)
qed

lemma ecc_locate_not_one_hot:
  assumes "\<nexists>i. i < 10 \<and> drop_bit 9 reg AND 0x3FF = (2 ^ i :: u32)"
  shows "ecc_locate reg = None"
proof -
  let ?sel = "drop_bit 9 reg AND 0x3FF :: u32"
  have "\<not> (?sel \<noteq> 0 \<and> ?sel AND (?sel - 1) = 0)"
  proof
    assume "?sel \<noteq> 0 \<and> ?sel AND (?sel - 1) = 0"
    then obtain k where k: "k < 32" "?sel = 2 ^ k"
      using one_bit_iff [of ?sel] by auto
    have "bit ?sel k"
      unfolding k(2) using k(1) by (simp add: bit_simps)
    then have "bit (0x3FF :: u32) k"
      by (simp add: bit_simps)
    moreover have "(0x3FF :: u32) = mask 10"
      by (simp add: mask_eq_exp_minus_1)
    ultimately have "k < 10"
      by (simp only: bit_mask_iff)
    with k(2) assms show False by blast
  qed
  then show ?thesis
    by (simp add: ecc_locate_def Let_def)
qed

text \<open>The register the engine reports for bit \<open>off\<close> of a chunk.\<close>

definition ecc_reg :: "nat \<Rightarrow> u32" where
  "ecc_reg off =
     (let q = off + 900; i = 2 * (q div 1024) + q mod 2
      in push_bit 9 (2 ^ i) OR of_nat (q mod 1024 div 2))"

lemma ecc_reg_fields:
  assumes "off < 4220"
  shows "drop_bit 9 (ecc_reg off) AND 0x3FF = 2 ^ (2 * ((off + 900) div 1024) + (off + 900) mod 2)"
    and "uint (ecc_reg off AND 0x1FF) = int ((off + 900) mod 1024 div 2)"
    and "2 * ((off + 900) div 1024) + (off + 900) mod 2 < 10"
proof -
  let ?i = "2 * ((off + 900) div 1024) + (off + 900) mod 2"
  let ?p = "(off + 900) mod 1024 div 2"
  have "(off + 900) div 1024 \<le> 4" "(off + 900) mod 2 \<le> 1"
    using assms by simp_all
  then show i: "?i < 10" by arith
  have "(off + 900) mod 1024 < 1024" by simp
  then have p: "?p < 512" by arith
  have pb: "\<not> bit (of_nat ?p :: u32) n" if "9 \<le> n" for n
  proof -
    have "?p < 2 ^ n"
      using p power_increasing [OF that, of "2::nat"] by simp
    then have "\<not> bit ?p n"
      by (simp add: bit_iff_odd)
    then show ?thesis
      by (simp add: bit_simps)
  qed
  show "drop_bit 9 (ecc_reg off) AND 0x3FF = 2 ^ ?i"
  proof (rule bit_word_eqI)
    fix n assume n: "n < LENGTH(32)"
    have m: "(0x3FF :: u32) = mask 10" by (simp add: mask_eq_exp_minus_1)
    show "bit (drop_bit 9 (ecc_reg off) AND 0x3FF) n = bit (2 ^ ?i :: u32) n"
      unfolding m ecc_reg_def Let_def using i n pb [of "n + 9"] pb [of "9 + n"]
      by (auto simp: bit_simps)
  qed
  have "ecc_reg off AND 0x1FF = of_nat ?p"
  proof (rule bit_word_eqI)
    fix n assume n: "n < LENGTH(32)"
    have m: "(0x1FF :: u32) = mask 9" by (simp add: mask_eq_exp_minus_1)
    show "bit (ecc_reg off AND 0x1FF) n = bit (of_nat ?p :: u32) n"
      unfolding m ecc_reg_def Let_def using pb [of n] n
      by (cases "n < 9") (auto simp: bit_simps)
  qed
  then show "uint (ecc_reg off AND 0x1FF) = int ?p"
    using p by (simp add: unsigned_of_nat take_bit_nat_eq_self)
qed

lemma ecc_locate_ecc_reg:
  assumes "off < 4220"
  shows "ecc_locate (ecc_reg off) = Some (of_nat (off div 8), 2 ^ (7 - off mod 8))"
proof -
  let ?i = "2 * ((off + 900) div 1024) + (off + 900) mod 2"
  have seg: "(off + 900) div 1024 \<in> {0, 1, 2, 3, 4}"
    using assms by auto
  have "seg_base ! ((off + 900) div 1024) = 128 * int ((off + 900) div 1024) - 112"
    using seg by (auto simp: seg_base_def)
  moreover have "?i div 2 = (off + 900) div 1024" "?i mod 2 = (off + 900) mod 2"
    by simp_all
  moreover have "1024 * ((off + 900) div 1024) + (off + 900) mod 1024 = off + 900"
    "2 * ((off + 900) mod 1024 div 2) + (off + 900) mod 1024 mod 2 = (off + 900) mod 1024"
    "(off + 900) mod 1024 mod 2 = (off + 900) mod 2"
    by (rule mult_div_mod_eq, rule mult_div_mod_eq, rule mod_mod_cancel) simp
  ultimately have "err_offset ?i (int ((off + 900) mod 1024 div 2)) = int off"
    unfolding err_offset_def by (simp only: position_arith)
  then have "ecc_locate (ecc_reg off) = Some (word_of_int (int off div 8), 2 ^ nat (7 - int off mod 8))"
    using ecc_locate_one_hot [OF ecc_reg_fields(3,1) [OF assms]] ecc_reg_fields(2) [OF assms]
    by (simp add: Let_def)
  moreover have "nat (7 - int off mod 8) = 7 - off mod 8"
    by (simp add: nat_diff_distrib nat_mod_distrib)
  moreover have "word_of_int (int off div 8) = (of_nat (off div 8) :: u32)"
    by (metis of_int_of_nat_eq of_nat_numeral zdiv_int)
  ultimately show ?thesis
    by simp
qed

section \<open>Correction of a chunk\<close>

text \<open>Flip bit \<open>off\<close>, counted from the most significant bit of the first byte.\<close>

definition flip_bit_at :: "nat \<Rightarrow> bytes \<Rightarrow> bytes" where
  "flip_bit_at off xs = xs[off div 8 := xs ! (off div 8) XOR 2 ^ (7 - off mod 8)]"

lemma length_flip_bit_at [simp]: "length (flip_bit_at off xs) = length xs"
  by (simp add: flip_bit_at_def)

lemma flip_bit_at_twice [simp]: "flip_bit_at off (flip_bit_at off xs) = xs"
  by (cases "off div 8 < length xs") (simp_all add: flip_bit_at_def xor.assoc list_update_beyond)

lemma flip_bit_at_commute: "flip_bit_at a (flip_bit_at b xs) = flip_bit_at b (flip_bit_at a xs)"
  by (cases "a div 8 = b div 8"; cases "a div 8 < length xs"; cases "b div 8 < length xs")
    (auto simp: flip_bit_at_def list_update_swap list_update_beyond xor.assoc xor.commute
      xor.left_commute)

lemma flip_bit_at_fold:
  "flip_bit_at a (fold flip_bit_at offs xs) = fold flip_bit_at offs (flip_bit_at a xs)"
  by (induction offs arbitrary: xs) (simp_all add: flip_bit_at_commute)

lemma fold_flip_twice: "fold flip_bit_at offs (fold flip_bit_at offs xs) = xs"
  by (induction offs arbitrary: xs) (simp_all add: flip_bit_at_fold)

lemma length_fold_flip [simp]: "length (fold flip_bit_at offs xs) = length xs"
  by (induction offs arbitrary: xs) simp_all

lemma ecc_reg_nonzero: "off < 4220 \<Longrightarrow> ecc_reg off \<noteq> 0"
  using ecc_locate_ecc_reg [of off] by (auto simp: ecc_locate_def Let_def)

lemma ecc_apply_loop_flips:
  assumes "filter (\<lambda>r. r \<noteq> 0) regs = map ecc_reg offs"
    and "\<forall>off \<in> set offs. off div 8 < 512 + unat tag_len"
    and "length data = 512" and "length tag = unat tag_len" and "unat tag_len \<le> 15"
  shows "ecc_apply_loop regs data tag tag_len applied =
    (let out = fold flip_bit_at offs (data @ tag)
     in (if applied + of_nat (length offs) \<noteq> 0 then 0 else -1, take 512 out, drop 512 out))"
  using assms
proof (induction regs arbitrary: offs data tag applied)
  case Nil
  then show ?case by simp
next
  case (Cons r regs)
  show ?case
  proof (cases "r = 0")
    case True
    with Cons show ?thesis by simp
  next
    case False
    with Cons.prems(1) obtain off offs' where offs: "offs = off # offs'" "r = ecc_reg off"
      "filter (\<lambda>r. r \<noteq> 0) regs = map ecc_reg offs'"
      by auto
    have bnd: "off div 8 < 512 + unat tag_len"
      using Cons.prems(2) offs by simp
    then have loc: "ecc_locate r = Some (of_nat (off div 8), 2 ^ (7 - off mod 8))"
      using Cons.prems(5) offs(2) by (simp add: ecc_locate_ecc_reg)
    have un: "unat (of_nat (off div 8) :: u32) = off div 8"
      using bnd Cons.prems(5) by (simp add: unat_of_nat)
    show ?thesis
    proof (cases "off div 8 < 512")
      case True
      have lt: "(of_nat (off div 8) :: u32) < 512"
        using True un by (simp add: word_less_nat_alt)
      have fl: "flip_bit_at off (data @ tag) =
          data[off div 8 := data ! (off div 8) XOR 2 ^ (7 - off mod 8)] @ tag"
        using True Cons.prems(3) by (simp add: flip_bit_at_def nth_append list_update_append)
      show ?thesis
        using False loc lt un Cons.prems offs True
        by (simp add: Cons.IH [OF offs(3)] fl Let_def algebra_simps)
    next
      case ge: False
      have lt: "\<not> (of_nat (off div 8) :: u32) < 512"
        using ge un by (simp add: word_less_nat_alt)
      have un': "unat (of_nat (off div 8) - 512 :: u32) = off div 8 - 512"
        using lt un by (simp add: unat_sub_if_size word_less_nat_alt word_le_nat_alt)
      have lt': "(of_nat (off div 8) - 512 :: u32) < tag_len"
        using bnd ge un' by (simp add: word_less_nat_alt)
      have fl: "flip_bit_at off (data @ tag) = data @
          tag[off div 8 - 512 := tag ! (off div 8 - 512) XOR 2 ^ (7 - off mod 8)]"
        using ge Cons.prems(3) by (simp add: flip_bit_at_def nth_append list_update_append)
      show ?thesis
        using False loc lt lt' un' Cons.prems offs ge
        by (simp add: Cons.IH [OF offs(3)] fl Let_def algebra_simps)
    qed
  qed
qed

section \<open>Properties\<close>

text \<open>An error register is decoded exactly when its ten selector bits are one-hot and the
  bit offset of the source's formula, counted from the first bit of the chunk, is not negative;
  the result is the byte and the bit of that offset.\<close>

theorem ecc_locate_correct:
  "ecc_locate reg = Some (byte, m) \<longleftrightarrow>
    (\<exists>i < 10. drop_bit 9 reg AND 0x3FF = 2 ^ i \<and>
      (let off = err_offset i (uint (reg AND 0x1FF))
       in 0 \<le> off \<and> byte = word_of_int (off div 8) \<and> m = 2 ^ nat (7 - off mod 8)))"
proof (cases "\<exists>i < 10. drop_bit 9 reg AND 0x3FF = (2 ^ i :: u32)")
  case True
  then obtain i where i: "i < 10" "drop_bit 9 reg AND 0x3FF = (2 ^ i :: u32)" by blast
  have uniq: "j = i" if "j < 10" "drop_bit 9 reg AND 0x3FF = (2 ^ j :: u32)" for j
  proof -
    have "(2 ^ i :: u32) = 2 ^ j" using that(2) unfolding i(2) .
    then have "lowest_set (2 ^ i) 0 = lowest_set (2 ^ j) 0" by (rule arg_cong)
    then show ?thesis
      using lowest_set_exp [of 0 i] lowest_set_exp [of 0 j] that(1) i(1) by simp
  qed
  have pick: "(\<exists>j < 10. drop_bit 9 reg AND 0x3FF = (2 ^ j :: u32) \<and> P j) \<longleftrightarrow> P i" for P
    using i uniq by blast
  show ?thesis
    unfolding pick ecc_locate_one_hot [OF i] by (auto simp: Let_def)
next
  case False
  then show ?thesis
    using ecc_locate_not_one_hot [of reg] by auto
qed

text \<open>C25: When the engine reports the flipped bits of a chunk, in any order and with zero
  registers between them, \<open>ecc_apply\<close> returns 0 and restores the data and the tag.\<close>

theorem ecc_apply_corrects:
  assumes regs: "filter (\<lambda>r. r \<noteq> 0) (take (unat n) regs) = map ecc_reg offs" and "offs \<noteq> []"
    and "\<forall>off \<in> set offs. off div 8 < 512 + unat tag_len" and "unat tag_len \<le> 15"
    and "length data = 512" and "length tag = unat tag_len"
    and recv: "recv = fold flip_bit_at offs (data @ tag)"
  shows "ecc_apply regs n (take 512 recv) (drop 512 recv) tag_len = (0, data, tag)"
proof -
  have "length offs \<le> unat n"
    using arg_cong [OF regs, of length] length_filter_le [of "\<lambda>r. r \<noteq> 0" "take (unat n) regs"]
    by (simp add: min_def split: if_splits)
  also have "\<dots> < 2 ^ 32"
    using unsigned_less [of n] by simp
  finally have "(of_nat (length offs) :: u32) \<noteq> 0"
    using \<open>offs \<noteq> []\<close> by (simp add: word_of_nat_eq_0_iff nat_dvd_not_less)
  moreover have "length (take 512 recv) = 512" "length (drop 512 recv) = unat tag_len"
    using assms by simp_all
  ultimately show ?thesis
    using assms
    by (simp add: ecc_apply_def ecc_apply_loop_flips [where offs = offs] fold_flip_twice Let_def)
qed

theorem ecc_apply_corrects_witness:
  "ecc_apply [ecc_reg 13, 0, ecc_reg 4100] 3
     (take 512 (fold flip_bit_at [13, 4100] (replicate 512 0 @ replicate 4 0)))
     (drop 512 (fold flip_bit_at [13, 4100] (replicate 512 0 @ replicate 4 0))) 4 =
   (0, replicate 512 0, replicate 4 0)"
proof (rule ecc_apply_corrects [where offs = "[13, 4100]"])
  show "filter (\<lambda>r. r \<noteq> 0) (take (unat (3 :: u32)) [ecc_reg 13, 0, ecc_reg 4100]) =
      map ecc_reg [13, 4100]"
    by (simp add: ecc_reg_nonzero)
  show "length (replicate 4 0) = unat (4 :: u32)"
    by simp
qed (rule refl length_replicate | simp)+

end
