(* ===== verification/Sink.thy ===== *)
theory Sink
  imports Prelude
begin

text \<open>
  Character output shared by the components: a bounded sink (the log window, the trace buffer,
  the reply buffer of the debugger) as a locale, and the decimal printing by repeated subtraction
  that lib/log.c, gdbstub/trace.c and gdbstub/rsp.c all contain, because there is no libgcc to
  divide with.
\<close>

section \<open>Bounded sinks\<close>

text \<open>A sink takes characters until it is full and then drops them.\<close>

locale bounded_sink =
  fixes putc :: "u8 \<Rightarrow> 's \<Rightarrow> 's"
    and view :: "'s \<Rightarrow> bytes"
    and room :: "'s \<Rightarrow> nat"
    and good :: "'s \<Rightarrow> bool"
  assumes view_putc: "good s \<Longrightarrow> view (putc c s) = (if room s = 0 then view s else view s @ [c])"
    and room_putc: "good s \<Longrightarrow> room (putc c s) = room s - 1"
    and good_putc: "good s \<Longrightarrow> good (putc c s)"
begin

lemma good_fold: "good s \<Longrightarrow> good (fold putc xs s)"
  by (induction xs arbitrary: s) (simp_all add: good_putc)

lemma room_fold: "good s \<Longrightarrow> room (fold putc xs s) = room s - length xs"
  by (induction xs arbitrary: s) (simp_all add: good_putc room_putc)

lemma view_fold: "good s \<Longrightarrow> view (fold putc xs s) = view s @ take (room s) xs"
proof (induction xs arbitrary: s)
  case (Cons x xs)
  then show ?case
    by (cases "room s") (simp_all add: good_putc view_putc room_putc)
qed simp

lemma view_fold_fits:
  "good s \<Longrightarrow> length xs \<le> room s \<Longrightarrow> view (fold putc xs s) = view s @ xs"
  by (simp add: view_fold)

end

section \<open>Decimal printing\<close>

definition pow10 :: "u32 list" where
  "pow10 = [1000000000, 100000000, 10000000, 1000000, 100000, 10000, 1000, 100, 10, 1]"

text \<open>\<open>while (v >= p) { v -= p; n++; }\<close>. The table holds no zero; the guard \<open>p \<noteq> 0\<close> is
  only there for termination.\<close>

function sub_digit :: "u32 \<Rightarrow> u32 \<Rightarrow> 'a::len word \<Rightarrow> 'a word \<times> u32" where
  "sub_digit p v n = (if p \<noteq> 0 \<and> p \<le> v then sub_digit p (v - p) (n + 1) else (n, v))"
  by pat_completeness auto
termination
  by (relation "measure (\<lambda>(p, v, n). unat v)")
    (auto simp: unat_sub word_le_nat_alt unat_0_iff intro!: diff_less gr0I)

declare sub_digit.simps [simp del]

text \<open>The loop over the table, as \<open>trace_dec\<close> and \<open>mon_dec\<close> have it: a digit is printed once
  a digit was printed before, when it is not zero, or when it is the last one.\<close>

fun dec_loop :: "(u8 \<Rightarrow> 's \<Rightarrow> 's) \<Rightarrow> u32 list \<Rightarrow> u32 \<Rightarrow> bool \<Rightarrow> 's \<Rightarrow> 's" where
  "dec_loop putc [] v started s = s"
| "dec_loop putc (p # ps) v started s =
     (let (n, v') = sub_digit p v (0 :: u32)
      in if n \<noteq> 0 \<or> started \<or> ps = [] then dec_loop putc ps v' True (putc (48 + ucast n) s)
         else dec_loop putc ps v' started s)"

section \<open>The decimal numeral it prints\<close>

fun dec_string :: "nat \<Rightarrow> bytes" where
  "dec_string n = (if n < 10 then [48 + of_nat n] else dec_string (n div 10) @ [48 + of_nat (n mod 10)])"

declare dec_string.simps [simp del]

fun pad_digits :: "nat \<Rightarrow> nat \<Rightarrow> bytes" where
  "pad_digits 0 v = []"
| "pad_digits (Suc k) v = (48 + of_nat (v div 10 ^ k)) # pad_digits k (v mod 10 ^ k)"

lemma pad_digits_snoc:
  "v < 10 ^ Suc k \<Longrightarrow> pad_digits (Suc k) v = pad_digits k (v div 10) @ [48 + of_nat (v mod 10)]"
proof (induction k arbitrary: v)
  case (Suc k)
  have lo: "v mod 10 ^ Suc k div 10 = v div 10 mod 10 ^ k"
    by (simp add: mod_mult2_eq)
  have last: "v mod 10 ^ Suc k mod 10 = v mod 10"
    by (rule mod_mod_cancel) simp
  have hi: "v div 10 ^ Suc k = v div 10 div 10 ^ k"
    by (simp add: div_mult2_eq)
  have "pad_digits (Suc k) (v mod 10 ^ Suc k) =
      pad_digits k (v mod 10 ^ Suc k div 10) @ [48 + of_nat (v mod 10 ^ Suc k mod 10)]"
    by (rule Suc.IH) simp
  then show ?case
    unfolding pad_digits.simps(2) [of "Suc k"] lo last hi by simp
qed simp

lemma dec_string_pad:
  "10 ^ k \<le> v \<Longrightarrow> v < 10 ^ Suc k \<Longrightarrow> dec_string v = pad_digits (Suc k) v"
proof (induction k arbitrary: v)
  case 0
  then show ?case by (simp add: dec_string.simps)
next
  case (Suc k)
  then have "10 ^ k \<le> v div 10" "v div 10 < 10 ^ Suc k"
    by (simp_all add: less_eq_div_iff_mult_less_eq div_less_iff_less_mult)
  then have "dec_string (v div 10) = pad_digits (Suc k) (v div 10)"
    by (rule Suc.IH)
  moreover have "10 \<le> v"
  proof -
    have "10 * 1 \<le> 10 * (10 :: nat) ^ k" by (intro mult_le_mono) simp_all
    also have "\<dots> \<le> v" using Suc.prems(1) by simp
    finally show ?thesis by simp
  qed
  ultimately show ?case
    using pad_digits_snoc [OF Suc.prems(2)] by (simp add: dec_string.simps [of v])
qed

lemma sub_digit_eq:
  fixes n :: "'a::len word"
  assumes "p \<noteq> 0"
  shows "sub_digit p v n = (n + of_nat (unat v div unat p), v mod p)"
  using assms
proof (induction p v n rule: sub_digit.induct)
  case (1 p v n)
  have p: "unat p \<noteq> 0" using "1.prems" by (simp add: unat_0_iff)
  show ?case
  proof (cases "p \<le> v")
    case True
    then have "unat (v - p) = unat v - unat p" and le: "unat p \<le> unat v"
      by (simp_all add: unat_sub word_le_nat_alt)
    then have "unat v div unat p = Suc (unat (v - p) div unat p)"
      and "unat (v - p) mod unat p = unat v mod unat p"
      using p by (simp_all add: le_div_geq le_mod_geq)
    then show ?thesis
      using 1 True
      by (simp add: sub_digit.simps [of p v n] word_mod_def flip: unat_mod)
        (metis unat_mod word_unat_eq_iff)
  next
    case False
    then have "unat v < unat p" by (simp add: word_le_nat_alt)
    then have "v mod p = v"
      by (simp add: word_unat_eq_iff unat_mod)
    then show ?thesis
      using False \<open>unat v < unat p\<close> by (simp add: sub_digit.simps [of p v n])
  qed
qed


section \<open>The loop prints the numeral\<close>

text \<open>The powers of ten below \<open>10 ^ k\<close>, largest first.\<close>

definition pow_table :: "nat \<Rightarrow> u32 list" where
  "pow_table k = map (\<lambda>i. 10 ^ i) (rev [0..<k])"

lemma pow_table_0 [simp]: "pow_table 0 = []"
  by (simp add: pow_table_def)

lemma pow_table_Suc [simp]: "pow_table (Suc k) = 10 ^ k # pow_table k"
  by (simp add: pow_table_def)

lemma pow_table_Nil_iff [simp]: "pow_table k = [] \<longleftrightarrow> k = 0"
  by (simp add: pow_table_def)

lemma pow10_table: "pow10 = pow_table 10"
  by (simp add: pow10_def pow_table_def upt_rec)

lemma unat_pow10: "k < 10 \<Longrightarrow> unat (10 ^ k :: u32) = 10 ^ k"
proof -
  assume "k < 10"
  then have "k \<in> {0, 1, 2, 3, 4, 5, 6, 7, 8, 9}" by auto
  then show ?thesis by auto
qed

lemma pow10_nonzero: "k < 10 \<Longrightarrow> (10 ^ k :: u32) \<noteq> 0"
  using unat_pow10 [of k] by (metis power_not_zero unat_0 zero_neq_numeral)

lemma sub_digit_pow10:
  assumes "k < 10" and "unat v < 10 ^ Suc k"
  shows "sub_digit (10 ^ k) v (n :: 'a::len word) = (n + of_nat (unat v div 10 ^ k), v mod 10 ^ k)"
  using assms by (simp add: sub_digit_eq pow10_nonzero unat_pow10)

lemma pow10_div_mod:
  fixes v :: u32
  assumes "k < 10" and "unat v < 10 ^ Suc k"
  shows "unat (v mod 10 ^ k) = unat v mod 10 ^ k"
    and "unat v div 10 ^ k < 10"
proof -
  show "unat (v mod 10 ^ k) = unat v mod 10 ^ k"
    by (simp only: unat_mod unat_pow10 [OF assms(1)])
  show "unat v div 10 ^ k < 10"
    using assms(2) by (simp add: less_mult_imp_div_less)
qed

lemma dec_loop_started:
  "k \<le> 10 \<Longrightarrow> unat v < 10 ^ k \<Longrightarrow>
   dec_loop putc (pow_table k) v True s = fold putc (pad_digits k (unat v)) s"
proof (induction k arbitrary: v s)
  case (Suc k)
  note d = sub_digit_pow10 [of k v "0 :: u32"] pow10_div_mod [of k v]
  have "ucast (of_nat (unat v div 10 ^ k) :: u32) = (of_nat (unat v div 10 ^ k) :: u8)"
    using d(3) Suc.prems by (simp add: word_unat_eq_iff unsigned_of_nat unsigned_ucast_eq take_bit_nat_eq_self)
  then show ?case
    using Suc.prems d by (simp add: Suc.IH)
qed simp

lemma dec_loop_prints:
  "k < 10 \<Longrightarrow> unat v < 10 ^ Suc k \<Longrightarrow>
   dec_loop putc (pow_table (Suc k)) v False s = fold putc (dec_string (unat v)) s"
proof (induction k arbitrary: v s)
  case 0
  then have "unat v < 10" by simp
  then have "ucast v = (of_nat (unat v) :: u8)"
    by (simp add: word_unat_eq_iff unsigned_ucast_eq unsigned_of_nat)
  with 0 sub_digit_pow10 [of 0 v "0 :: u32"] pow10_div_mod [of 0 v] show ?case
    by (simp add: dec_string.simps)
next
  case (Suc k)
  note d = sub_digit_pow10 [of "Suc k" v "0 :: u32"] pow10_div_mod [of "Suc k" v]
  have u: "ucast (of_nat (unat v div 10 ^ Suc k) :: u32) = (of_nat (unat v div 10 ^ Suc k) :: u8)"
    using d(3) Suc.prems
    by (simp add: word_unat_eq_iff unsigned_of_nat unsigned_ucast_eq take_bit_nat_eq_self)
  show ?case
  proof (cases "unat v < 10 ^ Suc k")
    case True
    then show ?thesis
      using Suc.prems d Suc.IH [of "v mod 10 ^ Suc k" s]
      by (simp add: less_imp_le_nat)
  next
    case False
    then have "dec_string (unat v) = pad_digits (Suc (Suc k)) (unat v)"
      using Suc.prems by (intro dec_string_pad) simp_all
    moreover have "0 < unat v div 10 ^ Suc k"
      using False by (simp add: div_greater_zero_iff)
    then have "(of_nat (unat v div 10 ^ Suc k) :: u32) \<noteq> 0"
      using d(3) Suc.prems by (simp add: word_of_nat_eq_0_iff nat_dvd_not_less)
    moreover have "unat (v mod 10 ^ Suc k) < 10 ^ Suc k"
      using d Suc.prems by simp
    ultimately show ?thesis
      using Suc.prems d u dec_loop_started [of "Suc k" "v mod 10 ^ Suc k" putc]
      by (simp add: Let_def)
  qed
qed

theorem dec_loop_decimal:
  "dec_loop putc pow10 v False s = fold putc (dec_string (unat v)) s"
proof -
  have "unat v < 2 ^ 32" using unsigned_less [of v] by simp
  then have "unat v < 10 ^ Suc 9" by simp
  then have "dec_loop putc (pow_table (Suc 9)) v False s = fold putc (dec_string (unat v)) s"
    by (rule dec_loop_prints [rotated]) simp
  then show ?thesis by (simp add: pow10_table)
qed

end
