(* ===== verification/Trace.thy ===== *)
theory Trace
  imports Sink
begin

text \<open>
  The trace buffer of the debugger stub (gdbstub/trace.c): a linear text buffer in DDR that every
  start of the stub moves to a second buffer. The memory is the memory of the target, which the
  debugger reads and writes as well.
\<close>

section \<open>Definitions\<close>

definition TRACE_BASE :: u32 where "TRACE_BASE = 0x301C0000"
definition TRACE_PREV :: u32 where "TRACE_PREV = 0x301D0000"
definition TRACE_SIZE :: u32 where "TRACE_SIZE = 0x00010000"

record trace_st =
  mem :: mem
  g_put :: u32
  g_end :: u32

text \<open>One round of the copy loop of \<open>trace_init\<close>: \<open>prev[i] = live[i]; live[i] = 0;\<close>\<close>

definition trace_move :: "nat \<Rightarrow> mem \<Rightarrow> mem" where
  "trace_move i m =
     (let m1 = st32 m (TRACE_PREV + 4 * of_nat i) (ld32 m (TRACE_BASE + 4 * of_nat i))
      in st32 m1 (TRACE_BASE + 4 * of_nat i) 0)"

definition trace_init :: "'a trace_st_scheme \<Rightarrow> 'a trace_st_scheme" where
  "trace_init s = s\<lparr>mem := fold trace_move [0..<unat (TRACE_SIZE div 4)] (mem s),
     g_put := TRACE_BASE, g_end := TRACE_BASE + TRACE_SIZE - 1\<rparr>"

definition trace_putc :: "u8 \<Rightarrow> 'a trace_st_scheme \<Rightarrow> 'a trace_st_scheme" where
  "trace_putc c s =
     (if g_put s < g_end s then s\<lparr>mem := (mem s)(g_put s := c), g_put := g_put s + 1\<rparr> else s)"

definition trace_puts :: "bytes \<Rightarrow> 'a trace_st_scheme \<Rightarrow> 'a trace_st_scheme" where
  "trace_puts str = fold trace_putc str"

text \<open>\<open>for (i = digits; i > 0; i--)\<close>\<close>

fun trace_hex :: "u32 \<Rightarrow> nat \<Rightarrow> 'a trace_st_scheme \<Rightarrow> 'a trace_st_scheme" where
  "trace_hex v 0 s = s"
| "trace_hex v (Suc i) s =
     trace_hex v i (trace_putc (cs ''0123456789ABCDEF'' ! unat (drop_bit (i * 4) v AND 0xF)) s)"

definition trace_dec :: "u32 \<Rightarrow> 'a trace_st_scheme \<Rightarrow> 'a trace_st_scheme" where
  "trace_dec v s = dec_loop trace_putc pow10 v False s"

definition trace_used :: "'a trace_st_scheme \<Rightarrow> u32" where
  "trace_used s = g_put s - TRACE_BASE"

function prev_scan :: "mem \<Rightarrow> u32 \<Rightarrow> u32" where
  "prev_scan m i =
     (if i < TRACE_SIZE div 4 then
        let w = ld32 m (TRACE_PREV + 4 * i) in
        if w AND 0x000000FF = 0 then i * 4
        else if w AND 0x0000FF00 = 0 then i * 4 + 1
        else if w AND 0x00FF0000 = 0 then i * 4 + 2
        else if w AND 0xFF000000 = 0 then i * 4 + 3
        else prev_scan m (i + 1)
      else TRACE_SIZE)"
  by pat_completeness auto
termination
proof (relation "measure (\<lambda>(m, i). unat (TRACE_SIZE div 4) - unat i)")
  fix m :: mem and i :: u32 and w
  assume a: "i < TRACE_SIZE div 4"
  then have "unat (i + 1) = unat i + 1" by (rule unat_plus_1_less)
  with a show "((m, i + 1), m, i) \<in> measure (\<lambda>(m, i). unat (TRACE_SIZE div 4) - unat i)"
    by (auto simp: word_less_nat_alt)
qed simp

declare prev_scan.simps [simp del]

definition trace_prev_used :: "'a trace_st_scheme \<Rightarrow> u32" where
  "trace_prev_used s = prev_scan (mem s) 0"

definition trace_reg :: "bytes \<Rightarrow> u32 \<Rightarrow> 'a trace_st_scheme \<Rightarrow> 'a trace_st_scheme" where
  "trace_reg name v s = trace_putc 10 (trace_hex v 8 (trace_puts (cs ''=0x'') (trace_puts name s)))"

section \<open>The buffer as a bounded sink\<close>

definition trace_good :: "'a trace_st_scheme \<Rightarrow> bool" where
  "trace_good s \<longleftrightarrow>
     g_end s = TRACE_BASE + TRACE_SIZE - 1 \<and> TRACE_BASE \<le> g_put s \<and> g_put s \<le> g_end s"

definition trace_room :: "'a trace_st_scheme \<Rightarrow> nat" where
  "trace_room s = unat (g_end s) - unat (g_put s)"

definition trace_view :: "'a trace_st_scheme \<Rightarrow> bytes" where
  "trace_view s = mem_range (mem s) TRACE_BASE (unat (trace_used s))"

lemmas trace_layout = TRACE_BASE_def TRACE_PREV_def TRACE_SIZE_def

lemma trace_used_unat: "trace_good s \<Longrightarrow> unat (trace_used s) = unat (g_put s) - unat TRACE_BASE"
  by (simp add: trace_good_def trace_used_def unat_sub)

lemma g_put_index: "TRACE_BASE + of_nat (unat (trace_used s)) = g_put s"
  by (simp add: trace_used_def)

lemma trace_putc_full: "\<not> g_put s < g_end s \<Longrightarrow> trace_putc c s = s"
  by (simp add: trace_putc_def)

lemma trace_putc_room:
  assumes "trace_good s" and "g_put s < g_end s"
  shows "trace_view (trace_putc c s) = trace_view s @ [c]"
    and "unat (g_put (trace_putc c s)) = unat (g_put s) + 1"
    and "trace_good (trace_putc c s)"
proof -
  show n: "unat (g_put (trace_putc c s)) = unat (g_put s) + 1"
    using assms(2) by (simp add: trace_putc_def unat_plus_1_less)
  then show g: "trace_good (trace_putc c s)"
    using assms by (auto simp: trace_good_def trace_putc_def word_le_nat_alt word_less_nat_alt)
  have u: "unat (trace_used (trace_putc c s)) = Suc (unat (trace_used s))"
    using trace_used_unat [OF g] trace_used_unat [OF assms(1)] n assms(1)
    by (auto simp: trace_good_def word_le_nat_alt)
  have "unat (trace_used s) < 2 ^ 32" using unat_u32_bound by simp
  from mem_range_upd_end [OF this, of "mem s" TRACE_BASE c] show
    "trace_view (trace_putc c s) = trace_view s @ [c]"
    unfolding trace_view_def u mem_range_Suc
    using assms(2) g_put_index [of s] by (simp add: trace_putc_def)
qed

interpretation trace_sink: bounded_sink trace_putc trace_view trace_room trace_good
proof
  fix s :: "'a trace_st_scheme" and c
  assume g: "trace_good s"
  show "trace_view (trace_putc c s) = (if trace_room s = 0 then trace_view s else trace_view s @ [c])"
    using g trace_putc_room(1) [OF g]
    by (cases "g_put s < g_end s") (auto simp: trace_putc_full trace_room_def word_less_nat_alt)
  have "g_end (trace_putc c s) = g_end s" by (simp add: trace_putc_def)
  then show "trace_room (trace_putc c s) = trace_room s - 1"
    using g trace_putc_room(2) [OF g, of c]
    by (cases "g_put s < g_end s") (auto simp: trace_putc_full trace_room_def word_less_nat_alt)
  show "trace_good (trace_putc c s)"
    using g trace_putc_room(3) [OF g, of c]
    by (cases "g_put s < g_end s") (auto simp: trace_putc_full)
qed

section \<open>Lemmas\<close>

lemma trace_slot_aligned:
  assumes "i < 16384"
  shows "(TRACE_BASE + 4 * of_nat i) AND 3 = 0" and "(TRACE_PREV + 4 * of_nat i) AND 3 = 0"
proof -
  have "unat (TRACE_BASE + of_nat (4 * i)) = 0x301C0000 + 4 * i"
    and "unat (TRACE_PREV + of_nat (4 * i)) = 0x301D0000 + 4 * i"
    using assms by (simp_all add: trace_layout unat_word_ariths unat_of_nat)
  then show "(TRACE_BASE + 4 * of_nat i) AND 3 = 0" "(TRACE_PREV + 4 * of_nat i) AND 3 = 0"
    by (simp_all add: aligned_iff)
qed

lemma le32_ld32_nth:
  "a AND 3 = 0 \<Longrightarrow> k < 4 \<Longrightarrow> le32 (ld32 m a) ! k = m (a + of_nat k)"
  by (auto simp: le32_ld32 numeral_eq_Suc less_Suc_eq)

lemma trace_move_apply:
  assumes "i < 16384"
  shows "trace_move i m x =
    (if 4 * i \<le> unat (x - TRACE_BASE) \<and> unat (x - TRACE_BASE) < 4 * i + 4 then 0
     else if 4 * i \<le> unat (x - TRACE_PREV) \<and> unat (x - TRACE_PREV) < 4 * i + 4
     then m (x - 0x10000) else m x)"
proof -
  have w: "unat (x - (b + 4 * of_nat i)) < 4 \<longleftrightarrow> 4 * i \<le> unat (x - b) \<and> unat (x - b) < 4 * i + 4" for b
    using unat_diff_window [of "4 * i" 4 "x - b"] assms by (simp add: algebra_simps)
  have z: "le32 0 ! k = 0" if "k < 4" for k
    using that by (auto simp: le32_def numeral_eq_Suc less_Suc_eq)
  have a: "TRACE_BASE + 4 * of_nat i + (x - (TRACE_PREV + 4 * of_nat i)) = x - 0x10000"
    by (simp add: trace_layout algebra_simps)
  show ?thesis
    using trace_slot_aligned [OF assms] z
    by (simp add: trace_move_def Let_def st32_aligned le32_ld32_nth w a)
qed

lemma trace_move_all:
  "n \<le> 16384 \<Longrightarrow> fold trace_move [0..<n] m x =
    (if unat (x - TRACE_BASE) < 4 * n then 0
     else if unat (x - TRACE_PREV) < 4 * n then m (x - 0x10000) else m x)"
proof (induction n arbitrary: x)
  case (Suc n)
  have far: "\<not> unat (d - 0x10000) < 65536" if "unat d < 65536" for d :: u32
    using that by (auto simp: unat_sub_if_size word_size)
  have b: "x - 0x10000 - TRACE_BASE = x - TRACE_PREV" "x - 0x10000 - TRACE_PREV = x - TRACE_PREV - 0x10000"
    "x - TRACE_PREV = x - TRACE_BASE - 0x10000"
    by (simp_all add: trace_layout algebra_simps)
  show ?case
    using Suc.prems Suc.IH [of x] Suc.IH [of "x - 0x10000"] far [of "x - TRACE_BASE"] far [of "x - TRACE_PREV"]
    by (auto simp: trace_move_apply b(1,2) simp flip: b(3))
qed simp

lemma prev_word:
  assumes "i < TRACE_SIZE div 4"
  shows "ld32 m (TRACE_PREV + 4 * i) =
    (let b = 4 * unat i in of_le32 (m (TRACE_PREV + of_nat b)) (m (TRACE_PREV + of_nat (b + 1)))
       (m (TRACE_PREV + of_nat (b + 2))) (m (TRACE_PREV + of_nat (b + 3))))"
proof -
  have "unat i < 16384" using assms by (simp add: trace_layout word_less_nat_alt)
  from trace_slot_aligned(2) [OF this] show ?thesis
    by (simp add: ld32_aligned Let_def algebra_simps)
qed

text \<open>\<open>prev_scan\<close> stops at the first zero byte of the previous buffer.\<close>

lemma prev_scan_first:
  assumes "4 * unat i \<le> q" and "q \<le> 65536"
    and "\<And>k. 4 * unat i \<le> k \<Longrightarrow> k < q \<Longrightarrow> m (TRACE_PREV + of_nat k) \<noteq> 0"
    and "q < 65536 \<Longrightarrow> m (TRACE_PREV + of_nat q) = 0"
  shows "prev_scan m i = of_nat q"
  using assms
proof (induction m i rule: prev_scan.induct)
  case (1 m i)
  show ?case
  proof (cases "i < TRACE_SIZE div 4")
    case False
    then have "q = 65536" using "1.prems"(1,2) by (simp add: trace_layout word_less_nat_alt)
    with False show ?thesis by (simp add: prev_scan.simps [of m i] TRACE_SIZE_def)
  next
    case True
    define b where "b = 4 * unat i"
    have u: "unat (i + 1) = unat i + 1" using True by (rule unat_plus_1_less)
    have b: "b + 4 \<le> 65536" using True by (simp add: b_def trace_layout word_less_nat_alt)
    have i4: "i * 4 = of_nat b" by (simp add: b_def)
    have nz: "m (TRACE_PREV + of_nat (b + k)) \<noteq> 0" if "b + k < q" for k
      using "1.prems"(3) [of "b + k"] that by (simp add: b_def)
    consider "q = b" | "q = b + 1" | "q = b + 2" | "q = b + 3" | "b + 4 \<le> q"
      using "1.prems"(1) by (fold b_def) linarith
    then show ?thesis
    proof cases
      case 5
      have "prev_scan m (i + 1) = of_nat q"
      proof (rule "1.IH" [OF True refl])
        show "4 * unat (i + 1) \<le> q" using 5 u by (simp add: b_def)
        show "m (TRACE_PREV + of_nat k) \<noteq> 0" if "4 * unat (i + 1) \<le> k" "k < q" for k
          using "1.prems"(3) [of k] that u by simp
      qed (use 5 nz [of 0] nz [of 1] nz [of 2] nz [of 3] "1.prems"(2,4) in
          \<open>simp_all add: prev_word [OF True] Let_def le_simps flip: b_def\<close>)
      with 5 True nz [of 0] nz [of 1] nz [of 2] nz [of 3] show ?thesis
        by (simp add: prev_scan.simps [of m i] prev_word [OF True] Let_def le_simps flip: b_def)
    qed (use True b nz [of 0] nz [of 1] nz [of 2] "1.prems"(4) in
        \<open>simp_all add: prev_scan.simps [of m i] prev_word [OF True] Let_def le_simps i4 flip: b_def\<close>)
  qed
qed

definition trace_tail_zero :: "'a trace_st_scheme \<Rightarrow> bool" where
  "trace_tail_zero s \<longleftrightarrow> (\<forall>a. g_put s \<le> a \<and> a \<le> g_end s \<longrightarrow> mem s a = 0)"

lemma trace_putc_tail_zero:
  assumes "trace_tail_zero s" shows "trace_tail_zero (trace_putc c s)"
proof (cases "g_put s < g_end s")
  case True
  have "g_put s \<noteq> a \<and> g_put s \<le> a" if "g_put s + 1 \<le> a" for a
    using that unat_plus_1_less [OF True] by (auto simp: word_le_nat_alt)
  with True assms show ?thesis
    by (auto simp: trace_putc_def trace_tail_zero_def)
next
  case False
  with assms show ?thesis by (simp add: trace_putc_full)
qed

lemma trace_puts_tail_zero: "trace_tail_zero s \<Longrightarrow> trace_tail_zero (trace_puts str s)"
  by (induction str arbitrary: s) (simp_all add: trace_puts_def trace_putc_tail_zero)

lemma mem_trace_init:
  "mem (trace_init s) x =
    (if unat (x - TRACE_BASE) < 65536 then 0
     else if unat (x - TRACE_PREV) < 65536 then mem s (x - 0x10000) else mem s x)"
  by (simp add: trace_init_def TRACE_SIZE_def trace_move_all)

lemma trace_init_good: "trace_good (trace_init s)"
  and trace_init_view: "trace_view (trace_init s) = []"
  and trace_init_room: "trace_room (trace_init s) = 65535"
  by (simp_all add: trace_good_def trace_view_def trace_room_def trace_used_def trace_init_def
      mem_range_def trace_layout)

lemma trace_init_tail_zero: "trace_tail_zero (trace_init s)"
proof -
  have "unat (a - TRACE_BASE) < 65536" if "TRACE_BASE \<le> a" "a \<le> TRACE_BASE + TRACE_SIZE - 1" for a
    using that by (simp add: unat_sub word_le_nat_alt trace_layout)
  moreover have "g_put (trace_init s) = TRACE_BASE" "g_end (trace_init s) = TRACE_BASE + TRACE_SIZE - 1"
    by (simp_all add: trace_init_def)
  ultimately show ?thesis by (simp add: trace_tail_zero_def mem_trace_init)
qed

lemma mem_prev_after_init:
  "k < 65536 \<Longrightarrow> mem (trace_init s) (TRACE_PREV + of_nat k) = mem s (TRACE_BASE + of_nat k)"
proof -
  assume k: "k < 65536"
  have "TRACE_PREV + of_nat k - TRACE_BASE = of_nat (k + 65536)"
    and "TRACE_PREV + of_nat k - 0x10000 = TRACE_BASE + of_nat k"
    by (simp_all add: trace_layout)
  moreover have "unat (of_nat (k + 65536) :: u32) = k + 65536"
    using k by (subst unat_of_nat) simp
  ultimately show ?thesis
    unfolding mem_trace_init using k by (simp only: add_diff_cancel_left') (simp add: unat_of_nat)
qed

text \<open>All trace output is a run of characters.\<close>

definition hex_digits :: "u32 \<Rightarrow> nat \<Rightarrow> bytes" where
  "hex_digits v n = map (\<lambda>i. cs ''0123456789ABCDEF'' ! unat (drop_bit (i * 4) v AND 0xF)) (rev [0..<n])"

lemma trace_hex_puts: "trace_hex v n s = trace_puts (hex_digits v n) s"
  by (induction n arbitrary: s) (simp_all add: hex_digits_def trace_puts_def)

lemma trace_puts_append: "trace_puts ys (trace_puts xs s) = trace_puts (xs @ ys) s"
  by (simp add: trace_puts_def)

section \<open>Properties\<close>

text \<open>A restart of the stub keeps the text of the run before it: after \<open>trace_init\<close> the
  previous buffer holds what was traced (up to the 65535 characters the buffer takes),
  \<open>trace_prev_used\<close> is its length, and the live buffer is empty again.\<close>

theorem trace_restart_keeps:
  assumes "0 \<notin> set txt"
  shows "let s = trace_puts txt (trace_init s0); t = trace_init s
    in trace_prev_used t = trace_used s \<and>
       mem_range (mem t) TRACE_PREV (unat (trace_used s)) = take 65535 txt \<and>
       trace_view t = [] \<and> trace_room t = 65535"
proof -
  define s where "s = trace_puts txt (trace_init s0)"
  define q where "q = unat (trace_used s)"
  have good: "trace_good s" and view: "trace_view s = take 65535 txt"
    by (simp_all add: s_def trace_puts_def trace_init_room trace_init_view trace_init_good
        trace_sink.good_fold trace_sink.view_fold)
  have q: "q < 65536"
    using good trace_used_unat [OF good] by (auto simp: q_def trace_good_def trace_layout word_le_nat_alt)
  have prev: "mem_range (mem (trace_init s)) TRACE_PREV q = trace_view s"
    by (rule nth_equalityI) (use q in \<open>simp_all add: trace_view_def mem_prev_after_init flip: q_def\<close>)
  have "prev_scan (mem (trace_init s)) 0 = of_nat q"
  proof (rule prev_scan_first)
    fix k assume "k < q"
    then have "mem (trace_init s) (TRACE_PREV + of_nat k) \<in> set (trace_view s)"
      by (metis prev length_mem_range mem_range_nth nth_mem)
    with view assms show "mem (trace_init s) (TRACE_PREV + of_nat k) \<noteq> 0"
      by (metis in_set_takeD)
  next
    have "trace_tail_zero s"
      unfolding s_def by (intro trace_puts_tail_zero trace_init_tail_zero)
    then have "mem s (g_put s) = 0"
      using good unfolding trace_tail_zero_def trace_good_def by blast
    then show "mem (trace_init s) (TRACE_PREV + of_nat q) = 0"
      using g_put_index [of s] mem_prev_after_init [OF q, of s] by (simp only: q_def)
  qed (use q in simp_all)
  then show ?thesis
    using prev view trace_init_view [of s] trace_init_room [of s]
    by (simp add: Let_def trace_prev_used_def q_def flip: s_def)
qed

theorem trace_restart_keeps_witness:
  "let s = trace_puts (cs ''reg'') (trace_init \<lparr>mem = \<lambda>_. 7, g_put = 0, g_end = 0\<rparr>); t = trace_init s
   in trace_prev_used t = trace_used s \<and>
      mem_range (mem t) TRACE_PREV (unat (trace_used s)) = cs ''reg''"
  using trace_restart_keeps [of "cs ''reg''" "\<lparr>mem = \<lambda>_. 7, g_put = 0, g_end = 0\<rparr>"]
  by (simp add: Let_def)

lemma trace_dec_numeral: "trace_dec v s = trace_puts (dec_string (unat v)) s"
  by (simp add: trace_dec_def trace_puts_def dec_loop_decimal)

end
