(* ===== verification/Log.thy ===== *)
theory Log
  imports Sink
begin

text \<open>
  The boot log of lib/log.c: a window of DDR that survives a handoff, plus the UART. The UART side
  is the list of the characters given to \<open>uart_putc\<close>, in order.
\<close>

section \<open>Definitions\<close>

definition LOG_BASE :: u32 where "LOG_BASE = 0x301F0000"
definition LOG_SIZE :: u32 where "LOG_SIZE = 0x00010000"

record log_st =
  ddr :: mem
  log_ptr :: u32
  log_end :: u32
  uart :: bytes

definition log_init :: "'a log_st_scheme \<Rightarrow> 'a log_st_scheme" where
  "log_init s = s\<lparr>ddr := (\<lambda>a. if LOG_BASE \<le> a \<and> a < LOG_BASE + LOG_SIZE then 0 else ddr s a),
     log_ptr := LOG_BASE, log_end := LOG_BASE + LOG_SIZE\<rparr>"

text \<open>\<open>while (log_ptr < log_end && *log_ptr) log_ptr++;\<close>\<close>

function log_scan :: "mem \<Rightarrow> u32 \<Rightarrow> u32 \<Rightarrow> u32" where
  "log_scan m p e = (if p < e \<and> m p \<noteq> 0 then log_scan m (p + 1) e else p)"
  by pat_completeness auto
termination
proof (relation "measure (\<lambda>(m, p, e). unat e - unat p)")
  fix m :: mem and p e :: u32
  assume a: "p < e \<and> m p \<noteq> 0"
  then have "unat (p + 1) = unat p + 1"
    using unat_plus_1_less by blast
  with a show "((m, p + 1, e), m, p, e) \<in> measure (\<lambda>(m, p, e). unat e - unat p)"
    by (auto simp: word_less_nat_alt)
qed simp

declare log_scan.simps [simp del]

definition log_resume :: "'a log_st_scheme \<Rightarrow> 'a log_st_scheme" where
  "log_resume s =
     (let p = log_scan (ddr s) LOG_BASE (LOG_BASE + LOG_SIZE);
          t = s\<lparr>log_ptr := p, log_end := LOG_BASE + LOG_SIZE\<rparr>
      in if log_ptr t = log_end t then log_init t else t)"

definition log_detach :: "'a log_st_scheme \<Rightarrow> 'a log_st_scheme" where
  "log_detach s = s\<lparr>log_ptr := log_end s\<rparr>"

definition log_putc :: "u8 \<Rightarrow> 'a log_st_scheme \<Rightarrow> 'a log_st_scheme" where
  "log_putc c s =
     (let t = (if log_ptr s < log_end s
               then s\<lparr>ddr := (ddr s)(log_ptr s := c), log_ptr := log_ptr s + 1\<rparr> else s)
      in t\<lparr>uart := uart t @ [c]\<rparr>)"

definition log_puts :: "bytes \<Rightarrow> 'a log_st_scheme \<Rightarrow> 'a log_st_scheme" where
  "log_puts str = fold log_putc str"

definition hex_upper :: bytes where
  "hex_upper = cs ''0123456789ABCDEF''"

definition log_hex32 :: "u32 \<Rightarrow> 'a log_st_scheme \<Rightarrow> 'a log_st_scheme" where
  "log_hex32 v s =
     fold (\<lambda>i. log_putc (hex_upper ! unat (drop_bit (i * 4) v AND 0xF))) [7, 6, 5, 4, 3, 2, 1, 0]
       (log_putc (of_char (CHR ''x'')) (log_putc (of_char (CHR ''0'')) s))"

text \<open>The digit is counted in a character that starts at \<open>'0'\<close>.\<close>

fun log_dec_loop :: "u32 list \<Rightarrow> u32 \<Rightarrow> bool \<Rightarrow> 'a log_st_scheme \<Rightarrow> 'a log_st_scheme" where
  "log_dec_loop [] v started s = s"
| "log_dec_loop (p # ps) v started s =
     (let (d, v') = sub_digit p v (48 :: u8)
      in if d \<noteq> 48 \<or> started \<or> ps = [] then log_dec_loop ps v' True (log_putc d s)
         else log_dec_loop ps v' started s)"

definition log_dec :: "u32 \<Rightarrow> 'a log_st_scheme \<Rightarrow> 'a log_st_scheme" where
  "log_dec v s = log_dec_loop pow10 v False s"

definition log_rc :: "int \<Rightarrow> 'a log_st_scheme \<Rightarrow> 'a log_st_scheme" where
  "log_rc rc s = log_putc 10 (log_dec (word_of_int (- rc)) (log_puts (cs '' rc='') s))"

section \<open>The window as a bounded sink\<close>

definition log_good :: "'a log_st_scheme \<Rightarrow> bool" where
  "log_good s \<longleftrightarrow> log_end s = LOG_BASE + LOG_SIZE \<and> LOG_BASE \<le> log_ptr s \<and> log_ptr s \<le> log_end s"

definition log_room :: "'a log_st_scheme \<Rightarrow> nat" where
  "log_room s = unat (log_end s) - unat (log_ptr s)"

definition log_view :: "'a log_st_scheme \<Rightarrow> bytes" where
  "log_view s = mem_range (ddr s) LOG_BASE (unat (log_ptr s) - unat LOG_BASE)"

lemmas log_layout = LOG_BASE_def LOG_SIZE_def

lemma log_ptr_index:
  "log_good s \<Longrightarrow> log_ptr s = LOG_BASE + of_nat (unat (log_ptr s) - unat LOG_BASE)"
  by (simp add: log_good_def log_layout word_le_nat_alt word_unat_eq_iff unat_word_ariths unat_of_nat)

lemma log_putc_full: "\<not> log_ptr s < log_end s \<Longrightarrow> log_putc c s = s\<lparr>uart := uart s @ [c]\<rparr>"
  by (simp add: log_putc_def)

lemma log_putc_room:
  assumes "log_good s" and "log_ptr s < log_end s"
  shows "log_view (log_putc c s) = log_view s @ [c]"
    and "unat (log_ptr (log_putc c s)) = unat (log_ptr s) + 1"
proof -
  have le: "unat LOG_BASE \<le> unat (log_ptr s)"
    using assms(1) by (simp add: log_good_def word_le_nat_alt)
  show n: "unat (log_ptr (log_putc c s)) = unat (log_ptr s) + 1"
    using assms(2) by (simp add: log_putc_def unat_plus_1_less)
  have "unat (log_ptr s) - unat LOG_BASE < 2 ^ 32"
    using unat_u32_bound [of "log_ptr s"] by simp
  from mem_range_upd_end [OF this, of "ddr s" LOG_BASE c]
  have "mem_range ((ddr s)(log_ptr s := c)) LOG_BASE (unat (log_ptr s) - unat LOG_BASE) = log_view s"
    using log_ptr_index [OF assms(1)] by (simp add: log_view_def)
  then show "log_view (log_putc c s) = log_view s @ [c]"
    using n le assms log_ptr_index [OF assms(1)]
    by (simp add: log_view_def log_putc_def Suc_diff_le mem_range_Suc)
qed

interpretation log_sink: bounded_sink log_putc log_view log_room log_good
proof
  fix s :: "'a log_st_scheme" and c
  assume g: "log_good s"
  show "log_view (log_putc c s) = (if log_room s = 0 then log_view s else log_view s @ [c])"
    using g log_putc_room(1) [OF g]
    by (cases "log_ptr s < log_end s")
      (auto simp: log_putc_full log_room_def log_view_def word_less_nat_alt)
  show "log_room (log_putc c s) = log_room s - 1"
    using g log_putc_room(2) [OF g, of c]
    by (cases "log_ptr s < log_end s")
      (auto simp: log_putc_full log_room_def word_less_nat_alt, simp add: log_putc_def)
  show "log_good (log_putc c s)"
    using g log_putc_room(2) [OF g, of c]
    by (cases "log_ptr s < log_end s")
      (auto simp: log_putc_full log_good_def word_less_nat_alt word_le_nat_alt, simp_all add: log_putc_def)
qed


section \<open>Lemmas\<close>

lemma log_dec_loop_eq:
  "k \<le> 10 \<Longrightarrow> unat v < 10 ^ k \<Longrightarrow>
   log_dec_loop (pow_table k) v b s = dec_loop log_putc (pow_table k) v b s"
proof (induction k arbitrary: v b s)
  case (Suc k)
  note d = sub_digit_pow10 [of k v "0 :: u32"] sub_digit_pow10 [of k v "48 :: u8"]
    pow10_div_mod [of k v]
  have n: "unat v div 10 ^ k < 10"
    using d(4) Suc.prems by simp
  then have "ucast (of_nat (unat v div 10 ^ k) :: u32) = (of_nat (unat v div 10 ^ k) :: u8)"
    by (simp add: word_unat_eq_iff unsigned_of_nat unsigned_ucast_eq take_bit_nat_eq_self)
  moreover have "(of_nat (unat v div 10 ^ k) :: u8) = 0 \<longleftrightarrow> (of_nat (unat v div 10 ^ k) :: u32) = 0"
    using n by (simp add: word_unat_eq_iff unsigned_of_nat take_bit_nat_eq_self)
  moreover have "unat (v mod 10 ^ k) < 10 ^ k"
    using d(3) Suc.prems by simp
  ultimately show ?case
    using Suc.prems d by (simp add: Suc.IH Let_def)
qed simp

lemma log_puts_ptr_end:
  "\<not> log_ptr s < log_end s \<Longrightarrow> log_puts str s = s\<lparr>uart := uart s @ str\<rparr>"
  by (induction str arbitrary: s) (simp_all add: log_puts_def log_putc_full)

lemma uart_log_putc [simp]: "uart (log_putc c s) = uart s @ [c]"
  by (simp add: log_putc_def Let_def)

lemma log_init_good: "log_good (log_init s)"
  by (simp add: log_good_def log_init_def log_layout)

lemma log_init_view: "log_view (log_init s) = []"
  by (simp add: log_view_def log_init_def mem_range_def)

lemma log_init_room: "log_room (log_init s) = 65536"
  by (simp add: log_room_def log_init_def log_layout)

text \<open>Beyond the pointer the window is still zero.\<close>

definition log_tail_zero :: "'a log_st_scheme \<Rightarrow> bool" where
  "log_tail_zero s \<longleftrightarrow> (\<forall>a. log_ptr s \<le> a \<and> a < log_end s \<longrightarrow> ddr s a = 0)"

lemma log_putc_tail_zero:
  assumes "log_tail_zero s" shows "log_tail_zero (log_putc c s)"
proof (cases "log_ptr s < log_end s")
  case True
  have "log_ptr s \<noteq> a \<and> log_ptr s \<le> a" if "log_ptr s + 1 \<le> a" for a
    using that unat_plus_1_less [OF True] by (auto simp: word_le_nat_alt)
  with True assms show ?thesis
    by (auto simp: log_putc_def log_tail_zero_def)
next
  case False
  with assms show ?thesis by (simp add: log_putc_full log_tail_zero_def)
qed

lemma log_puts_tail_zero: "log_tail_zero s \<Longrightarrow> log_tail_zero (log_puts str s)"
  by (induction str arbitrary: s) (simp_all add: log_puts_def log_putc_tail_zero)

lemma log_scan_stops:
  assumes "p \<le> q" and "q \<le> e" and "\<And>a. p \<le> a \<Longrightarrow> a < q \<Longrightarrow> m a \<noteq> 0" and "q < e \<Longrightarrow> m q = 0"
  shows "log_scan m p e = q"
  using assms
proof (induction m p e rule: log_scan.induct)
  case (1 m p e)
  show ?case
  proof (cases "p = q")
    case True
    with "1.prems" show ?thesis by (auto simp: log_scan.simps [of m q e])
  next
    case False
    with "1.prems"(1) have pq: "p < q" by simp
    then have n: "unat (p + 1) = unat p + 1" by (rule unat_plus_1_less)
    have g: "p < e \<and> m p \<noteq> 0"
      using pq "1.prems"(2,3) by auto
    have "log_scan m (p + 1) e = q"
    proof (rule "1.IH" [OF g])
      show "p + 1 \<le> q" using pq n by (simp add: word_le_nat_alt word_less_nat_alt)
      show "m a \<noteq> 0" if "p + 1 \<le> a" "a < q" for a
        using that n by (intro "1.prems"(3)) (simp_all add: word_le_nat_alt)
    qed (use "1.prems" in auto)
    with g show ?thesis by (simp add: log_scan.simps [of m p e])
  qed
qed

lemma log_view_nonzero:
  assumes "log_good s" and "0 \<notin> set (log_view s)" and "LOG_BASE \<le> a" and "a < log_ptr s"
  shows "ddr s a \<noteq> 0"
proof -
  define i where "i = unat a - unat LOG_BASE"
  have i: "i < unat (log_ptr s) - unat LOG_BASE"
    using assms(3,4) unfolding i_def word_le_nat_alt word_less_nat_alt by linarith
  have "LOG_BASE + of_nat i = a"
    using assms(3) by (simp add: i_def log_layout word_le_nat_alt word_unat_eq_iff unat_word_ariths unat_of_nat)
  then have "ddr s a = log_view s ! i"
    using i by (simp add: log_view_def)
  also have "\<dots> \<in> set (log_view s)"
    using i by (intro nth_mem) (simp add: log_view_def)
  finally show ?thesis using assms(2) by auto
qed

lemma log_dec_puts: "log_dec v s = log_puts (dec_string (unat v)) s"
proof -
  have "unat v < 10 ^ 10" using unat_u32_bound [of v] by simp
  then have "log_dec_loop pow10 v False s = dec_loop log_putc pow10 v False s"
    by (simp add: pow10_table log_dec_loop_eq)
  then show ?thesis by (simp add: log_dec_def log_puts_def dec_loop_decimal)
qed

lemma log_rc_puts:
  "log_rc rc s = log_puts (cs '' rc='' @ dec_string (unat (word_of_int (- rc) :: u32)) @ [10]) s"
  unfolding log_rc_def log_dec_puts by (simp add: log_puts_def)

text \<open>What does not depend on the log's own fields stays the same.\<close>

lemma log_puts_frame: "(\<And>c s. f (log_putc c s) = f s) \<Longrightarrow> f (log_puts t s) = f s"
  by (induction t arbitrary: s) (simp_all add: log_puts_def)

section \<open>Properties\<close>

text \<open>\<open>log_dec\<close> prints the decimal numeral of its argument, without leading zeros, to the
  window and the UART.\<close>

theorem log_dec_numeral: "log_dec v s = log_puts (dec_string (unat v)) s"
  by (rule log_dec_puts)

text \<open>After \<open>log_detach\<close> no log call writes DDR, so a payload that covers the window keeps
  its bytes; the UART still gets the text.\<close>

theorem log_detach_protects:
  "ddr (log_puts str (log_detach s)) = ddr s \<and> uart (log_puts str (log_detach s)) = uart s @ str"
  by (simp add: log_puts_ptr_end log_detach_def)

text \<open>C40: A later stage that calls \<open>log_resume\<close> finds the text of the earlier stage and goes on
  after it, whatever its own pointers held; a window without a free byte starts again empty.\<close>

theorem log_resume_continues:
  assumes "0 \<notin> set txt"
  shows "let s = log_puts txt (log_init s0); t = log_resume (s\<lparr>log_ptr := p, log_end := e\<rparr>)
    in log_good t \<and>
       (if length txt < 65536 then ddr t = ddr s \<and> log_view t = txt \<and> log_room t = 65536 - length txt
        else log_view t = [] \<and> log_room t = 65536)"
proof -
  define s where "s = log_puts txt (log_init s0)"
  have good: "log_good s" and room: "log_room s = 65536 - length txt"
    and view: "log_view s = take 65536 txt"
    by (simp_all add: s_def log_puts_def log_init_room log_init_view log_init_good
        log_sink.good_fold log_sink.room_fold log_sink.view_fold)
  have tz: "log_tail_zero s"
    unfolding s_def by (rule log_puts_tail_zero) (simp add: log_tail_zero_def log_init_def)
  have scan: "log_scan (ddr s) LOG_BASE (LOG_BASE + LOG_SIZE) = log_ptr s"
  proof (rule log_scan_stops)
    show "ddr s a \<noteq> 0" if "LOG_BASE \<le> a" "a < log_ptr s" for a
      using log_view_nonzero [OF good _ that] view assms by (auto dest: in_set_takeD)
  qed (use good tz in \<open>auto simp: log_good_def log_tail_zero_def\<close>)
  show ?thesis
  proof (cases "length txt < 65536")
    case True
    with room have "log_ptr s \<noteq> log_end s" by (auto simp: log_room_def)
    then show ?thesis
      using True scan good view room
      by (auto simp: log_resume_def Let_def log_good_def log_view_def log_room_def simp flip: s_def)
  next
    case False
    with room have "unat (log_end s) \<le> unat (log_ptr s)" by (simp add: log_room_def)
    with good have "log_ptr s = LOG_BASE + LOG_SIZE"
      by (simp add: log_good_def word_le_nat_alt word_unat_eq_iff)
    then have "log_resume (s\<lparr>log_ptr := p, log_end := e\<rparr>) =
        log_init (s\<lparr>log_ptr := log_ptr s, log_end := LOG_BASE + LOG_SIZE\<rparr>)"
      using scan by (simp add: log_resume_def Let_def)
    then show ?thesis
      using False by (simp add: Let_def log_init_good log_init_view log_init_room flip: s_def)
  qed
qed

theorem log_resume_continues_witness:
  "let s = log_puts (cs ''boot'') (log_init \<lparr>ddr = \<lambda>_. 7, log_ptr = 0, log_end = 0, uart = []\<rparr>);
       t = log_resume (s\<lparr>log_ptr := 0, log_end := 0\<rparr>)
   in log_view t = cs ''boot'' \<and> log_room t = 65532"
  using log_resume_continues [of "cs ''boot''"
      "\<lparr>ddr = \<lambda>_. 7, log_ptr = 0, log_end = 0, uart = []\<rparr>" 0 0]
  by (simp add: Let_def)

end
