(* ===== verification/Hw.thy ===== *)
theory Hw
  imports Log
begin

text \<open>
  Memory-mapped devices. The hardware is not part of the sources: it is a parameter, a pair of
  functions that read and write a 32-bit register of an arbitrary hardware state \<open>'h\<close>. A read may
  change that state (FIFO data ports, running counters, latched status). Drivers are state-monad
  programs over a state that extends the boot log's.
\<close>

record 'h bus =
  rd32 :: "u32 \<Rightarrow> 'h \<Rightarrow> u32 \<times> 'h"
  wr32 :: "u32 \<Rightarrow> u32 \<Rightarrow> 'h \<Rightarrow> 'h"

record 'h dev_st = log_st +
  hwst :: 'h

type_synonym ('h, 'z, 'a) dev = "(('h, 'z) dev_st_scheme, 'a) state"

definition reg_rd :: "'h bus \<Rightarrow> u32 \<Rightarrow> ('h, 'z, u32) dev" where
  "reg_rd b a = State (\<lambda>s. let (v, h) = rd32 b a (hwst s) in (v, s\<lparr>hwst := h\<rparr>))"

definition reg_wr :: "'h bus \<Rightarrow> u32 \<Rightarrow> u32 \<Rightarrow> ('h, 'z, unit) dev" where
  "reg_wr b a v = State (\<lambda>s. ((), s\<lparr>hwst := wr32 b a v (hwst s)\<rparr>))"

text \<open>\<open>REG32(a) = (REG32(a) & ~clr) | st\<close>\<close>

definition reg_rmw :: "'h bus \<Rightarrow> u32 \<Rightarrow> u32 \<Rightarrow> u32 \<Rightarrow> ('h, 'z, unit) dev" where
  "reg_rmw b a clr st = do { v \<leftarrow> reg_rd b a; reg_wr b a ((v AND NOT clr) OR st) }"

definition whenM :: "bool \<Rightarrow> ('s, unit) state \<Rightarrow> ('s, unit) state" where
  "whenM c m = (if c then m else State_Monad.return ())"

definition modify :: "('s \<Rightarrow> 's) \<Rightarrow> ('s, unit) state" where
  "modify f = State (\<lambda>s. ((), f s))"

definition gets :: "('s \<Rightarrow> 'a) \<Rightarrow> ('s, 'a) state" where
  "gets f = State (\<lambda>s. (f s, s))"

named_theorems run_simps \<open>running state-monad programs\<close>

lemma run_bind [run_simps]:
  "run_state (State_Monad.bind m f) s = (let (a, t) = run_state m s in run_state (f a) t)"
  by (cases m) (simp add: State_Monad.bind_def split: prod.splits)

lemma run_return [run_simps]: "run_state (State_Monad.return a) s = (a, s)"
  by (simp add: State_Monad.return_def)

lemma run_modify [run_simps]: "run_state (modify f) s = ((), f s)"
  by (simp add: modify_def)

lemma run_gets [run_simps]: "run_state (gets f) s = (f s, s)"
  by (simp add: gets_def)

lemma run_when [run_simps]: "run_state (whenM c m) s = (if c then run_state m s else ((), s))"
  by (simp add: whenM_def run_return)

lemma run_reg_rd [run_simps]:
  "run_state (reg_rd b a) s = (fst (rd32 b a (hwst s)), s\<lparr>hwst := snd (rd32 b a (hwst s))\<rparr>)"
  by (simp add: reg_rd_def split: prod.splits)

lemma run_reg_wr [run_simps]: "run_state (reg_wr b a v) s = ((), s\<lparr>hwst := wr32 b a v (hwst s)\<rparr>)"
  by (simp add: reg_wr_def)


fun read_words :: "'h bus \<Rightarrow> u32 \<Rightarrow> nat \<Rightarrow> ('h, 'z, u32 list) dev" where
  "read_words b a 0 = State_Monad.return []"
| "read_words b a (Suc n) = do { w \<leftarrow> reg_rd b a; ws \<leftarrow> read_words b (a + 4) n; State_Monad.return (w # ws) }"

section \<open>Frames\<close>

text \<open>A part of the state that the register traffic does not touch.\<close>

definition keeps :: "('s \<Rightarrow> 'a) \<Rightarrow> ('s, 'b) state \<Rightarrow> bool" where
  "keeps f m \<longleftrightarrow> (\<forall>s. f (snd (run_state m s)) = f s)"

named_theorems keeps_rules \<open>frame rules of state-monad programs\<close>

lemma keeps_bind [keeps_rules]: "keeps f m \<Longrightarrow> (\<And>a. keeps f (g a)) \<Longrightarrow> keeps f (State_Monad.bind m g)"
  by (simp add: keeps_def run_bind split: prod.splits) (metis fst_conv prod.collapse snd_conv)

lemma keeps_return [keeps_rules]: "keeps f (State_Monad.return a)"
  by (simp add: keeps_def run_return)

lemma keeps_if [keeps_rules]: "keeps f m \<Longrightarrow> keeps f n \<Longrightarrow> keeps f (if c then m else n)"
  by simp

lemma keeps_case_prod [keeps_rules]: "(\<And>a b. keeps f (g a b)) \<Longrightarrow> keeps f (case p of (a, b) \<Rightarrow> g a b)"
  by (cases p) simp

lemma keeps_Let [keeps_rules]: "keeps f (g a) \<Longrightarrow> keeps f (let x = a in g x)"
  by simp


text \<open>What a program's result satisfies, whatever the hardware answers.\<close>

definition yields :: "('a \<Rightarrow> bool) \<Rightarrow> ('s, 'a) state \<Rightarrow> bool" where
  "yields P m \<longleftrightarrow> (\<forall>s. P (fst (run_state m s)))"

lemma yieldsD: "yields P m \<Longrightarrow> P (fst (run_state m s))"
  by (simp add: yields_def)

lemma yields_bind: "yields P m \<Longrightarrow> (\<And>a. P a \<Longrightarrow> yields Q (f a)) \<Longrightarrow> yields Q (State_Monad.bind m f)"
  by (simp add: yields_def run_bind split: prod.splits) (metis fst_conv)

lemma yields_mono: "yields P m \<Longrightarrow> (\<And>a. P a \<Longrightarrow> Q a) \<Longrightarrow> yields Q m"
  by (simp add: yields_def)

lemma yields_then: "(\<And>a. yields Q (f a)) \<Longrightarrow> yields Q (State_Monad.bind m f)"
  by (rule yields_bind [of "\<lambda>_. True"]) (simp_all add: yields_def)

lemma yields_return: "P a \<Longrightarrow> yields P (State_Monad.return a)"
  by (simp add: yields_def run_return)

lemma yields_if: "(c \<Longrightarrow> yields P m) \<Longrightarrow> (\<not> c \<Longrightarrow> yields P n) \<Longrightarrow> yields P (if c then m else n)"
  by simp

lemma keepsD: "keeps f m \<Longrightarrow> f (snd (run_state m s)) = f s"
  by (simp add: keeps_def)


text \<open>An invariant of the state.\<close>

definition preserves :: "('s \<Rightarrow> bool) \<Rightarrow> ('s, 'a) state \<Rightarrow> bool" where
  "preserves I m \<longleftrightarrow> (\<forall>s. I s \<longrightarrow> I (snd (run_state m s)))"

lemma preservesD: "preserves I m \<Longrightarrow> I s \<Longrightarrow> I (snd (run_state m s))"
  by (simp add: preserves_def)

named_theorems preserves_rules \<open>invariants of state-monad programs\<close>

lemma preserves_bind [preserves_rules]:
  "preserves I m \<Longrightarrow> (\<And>a. preserves I (f a)) \<Longrightarrow> preserves I (State_Monad.bind m f)"
  by (simp add: preserves_def run_bind split: prod.splits) (metis snd_conv)

lemma preserves_return [preserves_rules]: "preserves I (State_Monad.return a)"
  by (simp add: preserves_def run_return)

lemma preserves_if [preserves_rules]: "preserves I m \<Longrightarrow> preserves I n \<Longrightarrow> preserves I (if c then m else n)"
  by simp

lemma preserves_Let [preserves_rules]: "preserves I (g a) \<Longrightarrow> preserves I (let x = a in g x)"
  by simp

lemma preserves_case_prod [preserves_rules]:
  "(\<And>a b. preserves I (g a b)) \<Longrightarrow> preserves I (case p of (a, b) \<Rightarrow> g a b)"
  by (cases p) simp

lemma preserves_gets [preserves_rules]: "preserves I (gets f)"
  by (simp add: preserves_def run_gets)

lemma preserves_modify [preserves_rules]: "(\<And>s. I s \<Longrightarrow> I (f s)) \<Longrightarrow> preserves I (modify f)"
  by (simp add: preserves_def run_modify)

lemma preserves_when [preserves_rules]: "preserves I m \<Longrightarrow> preserves I (whenM c m)"
  by (simp add: preserves_def run_when)

lemma preserves_case_option [preserves_rules]:
  "preserves I m \<Longrightarrow> (\<And>x. preserves I (g x)) \<Longrightarrow> preserves I (case x of None \<Rightarrow> m | Some y \<Rightarrow> g y)"
  by (cases x) simp_all

lemma preserves_keeps: "keeps f m \<Longrightarrow> (\<And>s s'. f s' = f s \<Longrightarrow> I s' = I s) \<Longrightarrow> preserves I m"
  unfolding preserves_def keeps_def by blast


text \<open>Pre- and postconditions.\<close>

definition triple :: "('s \<Rightarrow> bool) \<Rightarrow> ('s, 'a) state \<Rightarrow> ('a \<Rightarrow> 's \<Rightarrow> bool) \<Rightarrow> bool" where
  "triple P m Q \<longleftrightarrow> (\<forall>s. P s \<longrightarrow> Q (fst (run_state m s)) (snd (run_state m s)))"

lemma tripleD: "triple P m Q \<Longrightarrow> P s \<Longrightarrow> run_state m s = (x, s') \<Longrightarrow> Q x s'"
  unfolding triple_def by (metis fst_conv snd_conv)

lemma tripleI: "(\<And>s x s'. P s \<Longrightarrow> run_state m s = (x, s') \<Longrightarrow> Q x s') \<Longrightarrow> triple P m Q"
  by (simp add: triple_def)

lemma triple_bind: "triple P m R \<Longrightarrow> (\<And>x. triple (R x) (f x) Q) \<Longrightarrow> triple P (State_Monad.bind m f) Q"
  by (simp add: triple_def run_bind split: prod.splits) (metis fst_conv snd_conv)

lemma triple_return: "(\<And>s. P s \<Longrightarrow> Q a s) \<Longrightarrow> triple P (State_Monad.return a) Q"
  by (simp add: triple_def run_return)

lemma triple_gets: "triple P (gets f) (\<lambda>x s. P s \<and> x = f s)"
  by (simp add: triple_def run_gets)

lemma triple_modify: "(\<And>s. P s \<Longrightarrow> Q () (f s)) \<Longrightarrow> triple P (modify f) Q"
  by (simp add: triple_def run_modify)

lemma triple_if: "(c \<Longrightarrow> triple P m Q) \<Longrightarrow> (\<not> c \<Longrightarrow> triple P n Q) \<Longrightarrow> triple P (if c then m else n) Q"
  by simp

lemma triple_case_prod: "(\<And>a b. p = (a, b) \<Longrightarrow> triple P (g a b) Q) \<Longrightarrow> triple P (case p of (a, b) \<Rightarrow> g a b) Q"
  by (cases p) simp

lemma triple_weaken: "triple P' m Q' \<Longrightarrow> (\<And>s. P s \<Longrightarrow> P' s) \<Longrightarrow> (\<And>x s. Q' x s \<Longrightarrow> Q x s) \<Longrightarrow> triple P m Q"
  by (simp add: triple_def)

lemma triple_assume: "(c \<Longrightarrow> triple P m Q) \<Longrightarrow> triple (\<lambda>s. P s \<and> c) m Q"
  by (simp add: triple_def)

end
