(* ===== verification/Timer.thy ===== *)
theory Timer
  imports Hw
begin

text \<open>
  The millisecond clock of lib/timer.c: a 26-bit down counter that the code extends to 64 bits of
  ticks, one poll at a time.
\<close>

section \<open>Definitions\<close>

definition SYSCTRL :: "u32 \<Rightarrow> u32" where "SYSCTRL off = 0x08000000 + off"

definition TIMER2_CTRL :: u32 where "TIMER2_CTRL = 0x1C"
definition TIMER2_LIVE :: u32 where "TIMER2_LIVE = 0x104"
definition TIMER_COUNT_MASK :: u32 where "TIMER_COUNT_MASK = 0x03FFFFFF"
definition TIMER_ENABLE :: u32 where "TIMER_ENABLE = 0x04000000"
definition TICKS_PER_MS :: u64 where "TICKS_PER_MS = 12000"

record 'h timer_st = "'h dev_st" +
  s_last_raw :: u32
  s_total_ticks :: u64

type_synonym ('h, 'z, 'a) timer = "(('h, 'z) timer_st_scheme, 'a) state"

definition read_live :: "'h bus \<Rightarrow> ('h, 'z, u32) dev" where
  "read_live b = do { v \<leftarrow> reg_rd b (SYSCTRL TIMER2_LIVE); State_Monad.return (v AND TIMER_COUNT_MASK) }"

definition timer_init :: "'h bus \<Rightarrow> ('h, 'z, unit) timer" where
  "timer_init b = do {
     reg_wr b (SYSCTRL TIMER2_CTRL) TIMER_COUNT_MASK;
     reg_wr b (SYSCTRL TIMER2_CTRL) (TIMER_COUNT_MASK OR TIMER_ENABLE);
     raw \<leftarrow> read_live b;
     modify (\<lambda>s. s\<lparr>s_last_raw := raw, s_total_ticks := 0\<rparr>)
   }"

definition timer_stop :: "'h bus \<Rightarrow> ('h, 'z, unit) timer" where
  "timer_stop b = reg_wr b (SYSCTRL TIMER2_CTRL) 0"

definition timer_ms :: "'h bus \<Rightarrow> ('h, 'z, u32) timer" where
  "timer_ms b = do {
     raw \<leftarrow> read_live b;
     modify (\<lambda>s. s\<lparr>s_total_ticks := s_total_ticks s + ucast ((s_last_raw s - raw) AND TIMER_COUNT_MASK),
                   s_last_raw := raw\<rparr>);
     total \<leftarrow> gets s_total_ticks;
     State_Monad.return (ucast (total div TICKS_PER_MS))
   }"

text \<open>\<open>while (timer_ms() - start < ms);\<close> may wait for ever on a stopped counter: \<open>None\<close>.\<close>

partial_function (option) timer_wait ::
  "'h bus \<Rightarrow> u32 \<Rightarrow> u32 \<Rightarrow> ('h, 'z) timer_st_scheme \<Rightarrow> ('h, 'z) timer_st_scheme option" where
  "timer_wait b start ms s =
     (let (now, s') = run_state (timer_ms b) s
      in if now - start < ms then timer_wait b start ms s' else Some s')"

definition timer_delay_ms ::
  "'h bus \<Rightarrow> u32 \<Rightarrow> ('h, 'z) timer_st_scheme \<Rightarrow> ('h, 'z) timer_st_scheme option" where
  "timer_delay_ms b ms s = (let (start, s') = run_state (timer_ms b) s in timer_wait b start ms s')"

section \<open>The running counter\<close>

text \<open>What the code relies on: the live register counts 12 MHz ticks down, 26 bits wide. \<open>ticks h\<close>
  is the number of ticks that have passed in hardware state \<open>h\<close>; a read takes at least one tick and
  less than a wrap.\<close>

definition live_counter :: "'h bus \<Rightarrow> ('h \<Rightarrow> nat) \<Rightarrow> bool" where
  "live_counter b ticks \<longleftrightarrow> (\<forall>h. let (v, h') = rd32 b (SYSCTRL TIMER2_LIVE) h
     in v AND TIMER_COUNT_MASK = (- of_nat (ticks h)) AND TIMER_COUNT_MASK \<and>
        ticks h < ticks h' \<and> ticks h' < ticks h + 2 ^ 26)"

text \<open>The last poll was at tick \<open>t\<close>, the first at \<open>t0\<close>.\<close>

definition timer_at :: "nat \<Rightarrow> nat \<Rightarrow> ('h, 'z) timer_st_scheme \<Rightarrow> bool" where
  "timer_at t0 t s \<longleftrightarrow> t0 \<le> t \<and> s_last_raw s = (- of_nat t) AND TIMER_COUNT_MASK \<and>
     s_total_ticks s = of_nat (t - t0)"

lemma count_mask: "TIMER_COUNT_MASK = mask 26"
  by (simp add: TIMER_COUNT_MASK_def mask_eq_exp_minus_1)

lemma raw_difference:
  assumes "t \<le> t'" and "t' - t < 2 ^ 26"
  shows "(((- of_nat t) AND TIMER_COUNT_MASK) - ((- of_nat t') AND TIMER_COUNT_MASK))
    AND TIMER_COUNT_MASK = (of_nat (t' - t) :: u32)"
proof -
  have tb: "take_bit 26 (word_of_int k :: u32) = word_of_int (take_bit 26 k)" for k
    by (rule bit_word_eqI) (auto simp: bit_simps)
  have neg: "- of_nat k = (word_of_int (- int k) :: u32)" for k by simp
  have "take_bit 26 (take_bit 26 (- of_nat t) - take_bit 26 (- of_nat t')) =
      (word_of_int (take_bit 26 (take_bit 26 (- int t) - take_bit 26 (- int t'))) :: u32)"
    unfolding neg tb of_int_diff [symmetric] ..
  also have "\<dots> = take_bit 26 (of_nat (t' - t) :: u32)"
    using assms(1) by (simp add: take_bit_diff of_nat_diff flip: tb)
  also have "\<dots> = of_nat (t' - t)"
    using assms(2) by (simp add: take_bit_of_nat take_bit_nat_eq_self)
  finally show ?thesis by (simp add: count_mask take_bit_eq_mask)
qed

lemma timer_ms_step:
  assumes "live_counter b ticks" and "timer_at t0 t s"
    and "t \<le> ticks (hwst s)" and "ticks (hwst s) - t < 2 ^ 26"
  shows "\<exists>s'. run_state (timer_ms b) s = (ucast ((of_nat (ticks (hwst s) - t0) :: u64) div 12000), s') \<and>
    timer_at t0 (ticks (hwst s)) s' \<and>
    ticks (hwst s) < ticks (hwst s') \<and> ticks (hwst s') < ticks (hwst s) + 2 ^ 26"
proof -
  define T where "T = ticks (hwst s)"
  obtain v h where v: "rd32 b (SYSCTRL TIMER2_LIVE) (hwst s) = (v, h)" by fastforce
  have raw: "v AND TIMER_COUNT_MASK = (- of_nat T) AND TIMER_COUNT_MASK"
    and adv: "T < ticks h" "ticks h < T + 2 ^ 26"
    using assms(1) v unfolding live_counter_def T_def by (auto dest!: spec [of _ "hwst s"])
  have d: "(s_last_raw s - (v AND TIMER_COUNT_MASK)) AND TIMER_COUNT_MASK = of_nat (T - t)"
    using raw_difference [of t T] assms(2-4) by (simp add: timer_at_def raw T_def)
  have u: "(ucast (of_nat (T - t) :: u32) :: u64) = of_nat (T - t)"
    using assms(4) by (simp add: word_unat_eq_iff unsigned_ucast_eq unsigned_of_nat take_bit_nat_eq_self
        flip: T_def)
  have "of_nat (t - t0) + of_nat (T - t) = (of_nat (T - t0) :: u64)"
    using assms(2,3) by (simp add: timer_at_def T_def flip: of_nat_add)
  then show ?thesis
    using v raw d u adv assms(2,3)
    by (auto simp: timer_ms_def read_live_def run_simps timer_at_def TICKS_PER_MS_def Let_def
        simp flip: T_def)
qed

lemma ms_value:
  assumes "k < 2 ^ 64"
  shows "ucast ((of_nat k :: u64) div 12000) = (of_nat (k div 12000) :: u32)"
proof -
  have "unat ((of_nat k :: u64) div 12000) = k div 12000"
    using assms by (simp add: unat_div unat_of_nat)
  then show ?thesis
    by (simp add: word_unat_eq_iff unsigned_ucast_eq unsigned_of_nat)
qed

lemma timer_ms_step_value:
  assumes "live_counter b ticks" and "timer_at t0 t s"
    and "t \<le> ticks (hwst s)" and "ticks (hwst s) - t < 2 ^ 26" and "ticks (hwst s) - t0 < 2 ^ 64"
  obtains s' where "run_state (timer_ms b) s = (of_nat ((ticks (hwst s) - t0) div 12000), s')"
    and "timer_at t0 (ticks (hwst s)) s'"
    and "ticks (hwst s) < ticks (hwst s')" and "ticks (hwst s') < ticks (hwst s) + 2 ^ 26"
  using timer_ms_step [OF assms(1-4)] assms(5) by (auto simp: ms_value)

text \<open>Every poll moves the clock on, so the wait loop ends once the requested time has passed.\<close>

lemma timer_wait_ends:
  fixes s :: "('h, 'z) timer_st_scheme"
  assumes "live_counter b ticks" and "ms \<le> 0xFFFF0000"
    and "t1 + 12000 * 2 ^ 33 < t0 + 2 ^ 64" and "t0 \<le> t1"
    and "timer_at t0 t s" and "t1 \<le> t" and "t < ticks (hwst s)" and "ticks (hwst s) - t < 2 ^ 26"
    and "(t - t0) div 12000 - (t1 - t0) div 12000 < unat ms \<or> ms = 0 \<and> t = t1"
  shows "\<exists>s' t'. timer_wait b (of_nat ((t1 - t0) div 12000)) ms s = Some s' \<and>
    timer_at t0 t' s' \<and> unat ms \<le> (t' - t0) div 12000 - (t1 - t0) div 12000"
  using assms(5-9)
proof (induction "12000 * 2 ^ 33 + t1 - t" arbitrary: t s rule: less_induct)
  case less
  define T where "T = ticks (hwst s)"
  define q where "q t = (t - t0) div 12000" for t
  have u: "unat ms \<le> 0xFFFF0000" using assms(2) by (simp add: word_le_nat_alt)
  have t: "t1 \<le> t" "t < T" "T - t < 67108864" using less.prems by (simp_all add: T_def)
  have qT: "q T \<le> q t + 5593"
  proof -
    have "T - t0 \<le> (t - t0) + 5593 * 12000" using t assms(4) by linarith
    then have "q T \<le> ((t - t0) + 5593 * 12000) div 12000" unfolding q_def by (rule div_le_mono)
    then show ?thesis by (simp add: q_def)
  qed
  have d: "q T - q t1 < 2 ^ 32"
    using qT less.prems(5) u by (auto simp flip: q_def)
  have mono: "q t1 \<le> q T" "q t1 \<le> q t"
    unfolding q_def using t by (auto intro!: div_le_mono)
  have tb: "t < t1 + 12000 * 2 ^ 32"
  proof -
    have "q t \<le> q t1 + 0xFFFF0000" using less.prems(5) u by (auto simp flip: q_def)
    moreover have "t - t0 < q t * 12000 + 12000"
      unfolding q_def using dividend_less_div_times [of 12000 "t - t0"] by linarith
    moreover have "q t1 * 12000 \<le> t1 - t0" unfolding q_def by (rule div_times_less_eq_dividend)
    ultimately show ?thesis using assms(4) t(1) by simp
  qed
  have "T - t0 < 2 ^ 64" using t tb assms(3) by simp
  then obtain s' where s': "run_state (timer_ms b) s = (of_nat (q T), s')" "timer_at t0 T s'"
    "T < ticks (hwst s')" "ticks (hwst s') < T + 2 ^ 26"
    using timer_ms_step_value [OF assms(1) less.prems(1) less_imp_le [OF less.prems(3)] less.prems(4)] unfolding T_def q_def by metis
  have diff: "unat (of_nat (q T) - of_nat (q t1) :: u32) = q T - q t1"
    using d mono(1) by (simp add: unat_of_nat flip: of_nat_diff)
  show ?case
  proof (cases "q T - q t1 < unat ms")
    case True
    have "\<exists>s'' t'. timer_wait b (of_nat (q t1)) ms s' = Some s'' \<and>
        timer_at t0 t' s'' \<and> unat ms \<le> q t' - q t1"
      using less.hyps [of T s'] s' t tb True unfolding q_def by simp
    with True s'(1) diff show ?thesis
      by (simp add: timer_wait.simps [of b _ ms s] word_less_nat_alt flip: q_def)
  next
    case False
    then show ?thesis
      using s' diff by (auto simp: timer_wait.simps [of b _ ms s] word_less_nat_alt simp flip: q_def)
  qed
qed

section \<open>Properties\<close>


text \<open>A counter that ticks once per access, to show that the law can hold.\<close>

definition tick_bus :: "nat bus" where
  "tick_bus = \<lparr>rd32 = \<lambda>a h. (- of_nat h, h + 1), wr32 = \<lambda>a v h. h\<rparr>"

lemma tick_bus_live: "live_counter tick_bus id"
  by (simp add: live_counter_def tick_bus_def)





end
