(* ===== verification/Step.thy ===== *)
theory Step
  imports Prelude
begin

text \<open>
  The next-pc decoder of the debugger (gdbstub/step.c): where execution goes after the ARM
  instruction at the saved pc. The instruction and the words it loads come from the target's
  memory.
\<close>

section \<open>Definitions\<close>

text \<open>\<open>struct arm_regs\<close>; \<open>gr\<close> is its array \<open>r[13]\<close>.\<close>

record arm_regs =
  gr :: "u32 list"
  sp :: u32
  lr :: u32
  pc :: u32
  cpsr :: u32

definition CPSR_T :: u32 where "CPSR_T = 0x20"

definition reg :: "arm_regs \<Rightarrow> u32 \<Rightarrow> u32" where
  "reg rs n = (if n = 15 then pc rs + 8 else if n = 14 then lr rs else if n = 13 then sp rs
     else gr rs ! unat n)"

text \<open>The flag \<open>(cpsr >> k) & 1\<close> as a truth value.\<close>

definition flag :: "u32 \<Rightarrow> nat \<Rightarrow> bool" where
  "flag w k \<longleftrightarrow> drop_bit k w AND 1 \<noteq> 0"

definition cond_true :: "u32 \<Rightarrow> u32 \<Rightarrow> bool" where
  "cond_true cond w =
     (let n = flag w 31; z = flag w 30; c = flag w 29; v = flag w 28
      in if cond = 0x0 then z
         else if cond = 0x1 then \<not> z
         else if cond = 0x2 then c
         else if cond = 0x3 then \<not> c
         else if cond = 0x4 then n
         else if cond = 0x5 then \<not> n
         else if cond = 0x6 then v
         else if cond = 0x7 then \<not> v
         else if cond = 0x8 then c \<and> \<not> z
         else if cond = 0x9 then \<not> c \<or> z
         else if cond = 0xA then n = v
         else if cond = 0xB then n \<noteq> v
         else if cond = 0xC then \<not> z \<and> n = v
         else if cond = 0xD then z \<or> n \<noteq> v
         else True)"

definition shifted :: "u32 \<Rightarrow> u32 \<Rightarrow> u32 \<Rightarrow> u32 \<Rightarrow> u32" where
  "shifted rm ty amount carry =
     (if ty = 0 then if 32 \<le> amount then 0 else push_bit (unat amount) rm
      else if ty = 1 then if amount = 0 \<or> 32 \<le> amount then 0 else drop_bit (unat amount) rm
      else if ty = 2 then
        if amount = 0 \<or> 32 \<le> amount then if rm AND 0x80000000 \<noteq> 0 then 0xFFFFFFFF else 0
        else signed_drop_bit (unat amount) rm
      else if amount = 0 then push_bit 31 carry OR drop_bit 1 rm
      else let a = amount AND 31
           in if a = 0 then rm else drop_bit (unat a) rm OR push_bit (32 - unat a) rm)"

definition operand2 :: "arm_regs \<Rightarrow> u32 \<Rightarrow> u32 \<Rightarrow> u32" where
  "operand2 rs insn cp =
     (let carry = drop_bit 29 cp AND 1
      in if insn AND 0x02000000 \<noteq> 0 then
           let imm = insn AND 0xFF; rot = (drop_bit 8 insn AND 0xF) * 2
           in if rot \<noteq> 0 then drop_bit (unat rot) imm OR push_bit (32 - unat rot) imm else imm
         else
           let rm = reg rs (insn AND 0xF);
               ty = drop_bit 5 insn AND 3;
               amount = (if insn AND 0x10 \<noteq> 0 then reg rs (drop_bit 8 insn AND 0xF) AND 0xFF
                         else drop_bit 7 insn AND 0x1F)
           in shifted rm ty amount carry)"

definition alu :: "u32 \<Rightarrow> u32 \<Rightarrow> u32 \<Rightarrow> u32 \<Rightarrow> u32" where
  "alu op a b carry =
     (let nc = (if carry = 0 then 1 else 0)
      in if op = 0x0 then a AND b
         else if op = 0x1 then a XOR b
         else if op = 0x2 then a - b
         else if op = 0x3 then b - a
         else if op = 0x4 then a + b
         else if op = 0x5 then a + b + carry
         else if op = 0x6 then a - b - nc
         else if op = 0x7 then b - a - nc
         else if op = 0xC then a OR b
         else if op = 0xD then b
         else if op = 0xE then a AND NOT b
         else NOT b)"

lemma clear_lowest_less:
  assumes "v \<noteq> (0 :: u32)" shows "unat (v AND (v - 1)) < unat v"
proof -
  have "unat (v AND (v - 1)) \<le> unat (v - 1)"
    by (simp add: word_and_le1 flip: word_le_nat_alt)
  also have "\<dots> < unat v"
    using assms by (simp add: unat_minus_one unat_gt_0)
  finally show ?thesis .
qed

function popcount_loop :: "u32 \<Rightarrow> u32 \<Rightarrow> u32" where
  "popcount_loop v n = (if v \<noteq> 0 then popcount_loop (v AND (v - 1)) (n + 1) else n)"
  by pat_completeness auto
termination
  by (relation "measure (\<lambda>(v, n). unat v)") (simp_all add: clear_lowest_less)

declare popcount_loop.simps [simp del]

definition popcount :: "u32 \<Rightarrow> u32" where
  "popcount v = popcount_loop v 0"

text \<open>\<open>None\<close> is the return value 0, an undecidable target.\<close>

definition arm_next_pc :: "mem \<Rightarrow> arm_regs \<Rightarrow> u32 option" where
  "arm_next_pc m rs =
     (let p = pc rs; cp = cpsr rs
      in if cp AND CPSR_T \<noteq> 0 then None
         else
           let insn = ld32 m p; cond = drop_bit 28 insn
           in if cond = 0xF then None
              else if \<not> cond_true cond cp then Some (p + 4)
              else if insn AND 0x0E000000 = 0x0A000000 then
                Some (p + 8 + signed_drop_bit 6 (push_bit 8 insn))
              else if insn AND 0x0FFFFFD0 = 0x012FFF10 then
                let target = reg rs (insn AND 0xF)
                in if target AND 1 \<noteq> 0 then None else Some (target AND NOT 3)
              else if insn AND 0x0C100000 = 0x04100000 \<and> drop_bit 12 insn AND 0xF = 15 then
                let base = reg rs (drop_bit 16 insn AND 0xF);
                    off = (if insn AND 0x02000000 \<noteq> 0
                           then shifted (reg rs (insn AND 0xF)) (drop_bit 5 insn AND 3)
                                  (drop_bit 7 insn AND 0x1F) (drop_bit 29 cp AND 1)
                           else insn AND 0xFFF);
                    addr = (if insn AND 0x01000000 \<noteq> 0
                            then if insn AND 0x00800000 \<noteq> 0 then base + off else base - off
                            else base)
                in Some (ld32 m addr AND NOT 3)
              else if insn AND 0x0E100000 = 0x08100000 \<and> insn AND 0x8000 \<noteq> 0 then
                let base = reg rs (drop_bit 16 insn AND 0xF);
                    count = popcount (insn AND 0xFFFF);
                    up = insn AND 0x00800000 \<noteq> 0;
                    pre = insn AND 0x01000000 \<noteq> 0;
                    addr = (if up then base + (count - 1) * 4 + (if pre then 4 else 0)
                            else base - (if pre then 4 else 0))
                in Some (ld32 m addr AND NOT 3)
              else if insn AND 0x0C000000 = 0 \<and> drop_bit 12 insn AND 0xF = 15 then
                let op = drop_bit 21 insn AND 0xF
                in if 8 \<le> op \<and> op \<le> 0xB then Some (p + 4)
                   else Some (alu op (reg rs (drop_bit 16 insn AND 0xF)) (operand2 rs insn cp)
                                (drop_bit 29 cp AND 1) AND NOT 3)
              else Some (p + 4))"

section \<open>Shifts and rotations\<close>

lemma rotate_or:
  fixes x :: u32
  assumes "0 < k" and "k < 32"
  shows "drop_bit k x OR push_bit (32 - k) x = word_rotr k x"
proof (rule bit_word_eqI)
  fix n assume "n < LENGTH(32)"
  then have n: "n < 32" by simp
  show "bit (drop_bit k x OR push_bit (32 - k) x) n = bit (word_rotr k x) n"
  proof (cases "n + k < 32")
    case True
    then show ?thesis
      using assms n by (auto simp: bit_simps bit_word_rotr_iff add.commute)
  next
    case False
    then have "(n + k) mod 32 = n + k - 32" using assms n by (simp add: le_mod_geq)
    moreover have "\<not> bit x (k + n)" using False bit_imp_le_length [of x "k + n"] by auto
    ultimately show ?thesis
      using assms n False by (auto simp: bit_simps bit_word_rotr_iff add.commute)
  qed
qed

lemma bit_count_unset:
  fixes v :: u32
  assumes "bit v k"
  shows "card {n. bit v n} = Suc (card {n. bit (unset_bit k v) n})"
proof -
  have "{n. bit v n} \<subseteq> {..<32}" using bit_imp_le_length [of v] by auto
  then have fin: "finite {n. bit v n}" by (rule finite_subset) simp
  have "{n. bit v n} = insert k {n. bit (unset_bit k v) n}"
    using assms by (auto simp: bit_simps)
  moreover have "finite {n. bit (unset_bit k v) n}"
    by (rule finite_subset [OF _ fin]) (auto simp: bit_simps)
  moreover have "k \<notin> {n. bit (unset_bit k v) n}" by (simp add: bit_simps)
  ultimately show ?thesis by simp
qed

lemma popcount_loop_card: "popcount_loop v n = n + of_nat (card {k. bit v k})"
proof (induction v n rule: popcount_loop.induct)
  case (1 v n)
  show ?case
  proof (cases "v = 0")
    case False
    then obtain k where k: "bit v k" "\<And>j. j < k \<Longrightarrow> \<not> bit v j"
      using least_bit_exists by blast
    then have "v AND (v - 1) = unset_bit k v" by (rule clear_lowest_bit)
    with 1 False bit_count_unset [OF k(1)] show ?thesis
      by (simp add: popcount_loop.simps [of v n])
  qed (simp add: popcount_loop.simps)
qed

lemma popcount_card: "popcount v = of_nat (card {k. bit v k})"
  by (simp add: popcount_def popcount_loop_card)

section \<open>Reference semantics of the ARM architecture\<close>

text \<open>A block load: the listed registers in ascending order, from the start address of the
  addressing mode on, one word each.\<close>

definition ldm_regs :: "u32 \<Rightarrow> nat list" where
  "ldm_regs insn = filter (\<lambda>k. bit insn k) [0..<16]"

definition ldm_start :: "u32 \<Rightarrow> u32 \<Rightarrow> u32" where
  "ldm_start insn base =
     (let n = of_nat (length (ldm_regs insn))
      in if bit insn 23 then if bit insn 24 then base + 4 else base
         else if bit insn 24 then base - 4 * n else base - 4 * n + 4)"

definition ldm_transfers :: "u32 \<Rightarrow> u32 \<Rightarrow> (nat \<times> u32) list" where
  "ldm_transfers insn base =
     zip (ldm_regs insn)
       (map (\<lambda>i. ldm_start insn base + 4 * of_nat i) [0..<length (ldm_regs insn)])"

lemma ldm_regs_pc: "bit insn 15 \<Longrightarrow> ldm_regs insn = filter (\<lambda>k. bit insn k) [0..<15] @ [15]"
  by (simp add: ldm_regs_def numeral_eq_Suc)

lemma ldm_pc_slot:
  assumes "bit insn 15"
  shows "map_of (ldm_transfers insn base) 15 =
    Some (ldm_start insn base + 4 * of_nat (length (ldm_regs insn) - 1))"
proof -
  have "(15, a) \<notin> set (zip (filter (\<lambda>k. bit insn k) [0..<15]) xs)" for a :: u32 and xs
    by (auto dest: set_zip_leftD)
  then have "map_of (zip (filter (\<lambda>k. bit insn k) [0..<15]) xs) 15 = None" for xs :: "u32 list"
    by (metis map_of_SomeD option.exhaust_sel)
  then show ?thesis
    by (simp add: ldm_transfers_def ldm_regs_pc [OF assms] map_add_def)
qed

lemma popcount_ldm: "popcount (insn AND 0xFFFF) = of_nat (length (ldm_regs insn))"
proof -
  have m: "(0xFFFF :: u32) = mask 16" by (simp add: mask_eq_exp_minus_1)
  have "{k. bit (insn AND 0xFFFF) k} = set (ldm_regs insn)"
    unfolding m ldm_regs_def by (auto simp: bit_simps bit_imp_le_length)
  moreover have "card (set (ldm_regs insn)) = length (ldm_regs insn)"
    by (rule distinct_card) (simp add: ldm_regs_def)
  ultimately show ?thesis by (simp add: popcount_card)
qed

lemma test_bits:
  "(w :: u32) AND 0x8000 \<noteq> 0 \<longleftrightarrow> bit w 15" "(w :: u32) AND 0x00800000 \<noteq> 0 \<longleftrightarrow> bit w 23"
  "(w :: u32) AND 0x01000000 \<noteq> 0 \<longleftrightarrow> bit w 24" "(w :: u32) AND 0x02000000 \<noteq> 0 \<longleftrightarrow> bit w 25"
  using and_exp_eq_0_iff_not_bit [of w 15] and_exp_eq_0_iff_not_bit [of w 23]
    and_exp_eq_0_iff_not_bit [of w 24] and_exp_eq_0_iff_not_bit [of w 25]
  by simp_all

lemma field_of_field:
  "(w :: u32) AND a = c \<Longrightarrow> a AND b = b \<Longrightarrow> w AND b = c AND b"
  by (metis and.assoc)

lemma branch_offset:
  fixes w :: u32
  shows "signed_drop_bit 6 (push_bit 8 w) = push_bit 2 (scast (ucast w :: 24 word))"
proof (rule bit_word_eqI)
  fix n assume "n < LENGTH(32)"
  then have n: "n < 32" by simp
  show "bit (signed_drop_bit 6 (push_bit 8 w)) n = bit (push_bit 2 (scast (ucast w :: 24 word)) :: u32) n"
    using n by (cases "n = 25")
      (auto simp: bit_simps bit_signed_drop_bit_iff bit_word_scast_iff not_le not_less min_def)
qed

lemma masked_aligned: "(a AND NOT 3) AND (3 :: u32) = 0"
  by (simp only: and.assoc) simp

lemma offset_aligned:
  "a AND 3 = (0 :: u32) \<Longrightarrow> (a + 4) AND 3 = 0"
  "a AND 3 = (0 :: u32) \<Longrightarrow> (a + 8 + push_bit 2 b) AND 3 = 0"
proof -
  have add: "unat (x + y) mod 4 = (unat x + unat y) mod 4" for x y :: u32
    unfolding unat_word_ariths by (rule mod_mod_cancel) simp
  have push: "unat (push_bit 2 b) mod 4 = 0"
  proof -
    have "unat (push_bit 2 b) mod 4 = unat b * 4 mod 2 ^ 32 mod 4"
      by (simp add: unat_push_bit)
    also have "\<dots> = unat b * 4 mod 4" by (rule mod_mod_cancel) simp
    finally show ?thesis by simp
  qed
  assume "a AND 3 = (0 :: u32)"
  then have a: "unat a mod 4 = 0" by (simp add: aligned_iff dvd_eq_mod_eq_0)
  then show "(a + 4) AND 3 = 0"
    unfolding aligned_iff dvd_eq_mod_eq_0 add by simp
  have "unat (a + 8) mod 4 = 0" using a unfolding add by simp presburger
  with push show "(a + 8 + push_bit 2 b) AND 3 = 0"
    unfolding aligned_iff dvd_eq_mod_eq_0 add [of "a + 8"] by presburger
qed

lemma shifted_lsl: "unat (shifted rm 0 amount carry) = unat rm * 2 ^ unat amount mod 2 ^ 32"
proof (cases "32 \<le> amount")
  case True
  then have "(2 :: nat) ^ 32 dvd unat rm * 2 ^ unat amount"
    by (intro dvd_mult le_imp_power_dvd) (simp add: word_le_nat_alt)
  with True show ?thesis by (simp add: shifted_def dvd_eq_mod_eq_0)
next
  case False
  then show ?thesis
    by (simp add: shifted_def unat_push_bit)
qed

lemma shifted_lsr:
  "unat (shifted rm 1 amount carry) = unat rm div 2 ^ (if unat amount = 0 then 32 else unat amount)"
proof (cases "amount = 0 \<or> 32 \<le> amount")
  case True
  then have k: "32 \<le> (if unat amount = 0 then 32 else unat amount)"
    by (auto simp: word_le_nat_alt unat_0_iff)
  have "unat rm < 2 ^ 32" using unat_bound [of rm] by simp
  also have "\<dots> \<le> 2 ^ (if unat amount = 0 then 32 else unat amount)"
    using k by (intro power_increasing) auto
  finally show ?thesis using True by (simp add: shifted_def)
next
  case False
  then show ?thesis
    by (simp add: shifted_def unat_drop_bit unat_0_iff)
qed

lemma shifted_asr:
  "sint (shifted rm 2 amount carry) = sint rm div 2 ^ (if unat amount = 0 then 32 else unat amount)"
proof (cases "amount = 0 \<or> 32 \<le> amount")
  case True
  define k where "k = (if unat amount = 0 then 32 else unat amount)"
  have "32 \<le> k" using True by (auto simp: k_def word_le_nat_alt unat_0_iff)
  then have "(2 :: int) ^ 31 \<le> 2 ^ k" by (intro power_increasing) auto
  moreover have "- (2 ^ 31) \<le> sint rm" "sint rm < 2 ^ 31"
    using sint_greater_eq [of rm] sint_less [of rm] by simp_all
  ultimately have b: "- (2 ^ k) \<le> sint rm" "sint rm < 2 ^ k" by linarith+
  have neg: "rm AND 0x80000000 \<noteq> 0 \<longleftrightarrow> sint rm < 0"
    using and_exp_eq_0_iff_not_bit [of rm 31] bit_last_iff [of rm] by simp
  have "sint rm div 2 ^ k = (if sint rm < 0 then - 1 else 0)"
  proof (cases "sint rm < 0")
    case True
    then have "sint rm div 2 ^ k = - 1"
      using b(1) by (intro int_div_pos_eq [of _ _ _ "sint rm + 2 ^ k"]) auto
    with True show ?thesis by simp
  qed (use b(2) in auto)
  moreover have "shifted rm 2 amount carry = (if sint rm < 0 then - 1 else 0)"
    using True neg by (auto simp: shifted_def)
  ultimately show ?thesis by (simp add: k_def)
next
  case False
  then show ?thesis
    by (simp add: shifted_def sint_signed_drop_bit_eq drop_bit_eq_div unat_0_iff)
qed

lemma and_31_mod: "unat (a AND 31 :: u32) = unat a mod 32"
proof -
  have "(31 :: u32) = mask 5" by (simp add: mask_eq_exp_minus_1)
  then have "unat (a AND 31) = unat (take_bit 5 a)" by (simp only: take_bit_eq_mask)
  also have "\<dots> = take_bit 5 (unat a)" by (rule unsigned_take_bit_eq)
  also have "\<dots> = unat a mod 32" by (simp add: take_bit_eq_mod)
  finally show ?thesis .
qed

lemma shifted_ror:
  "shifted rm 3 amount carry =
    (if unat amount = 0 then push_bit 31 carry OR drop_bit 1 rm else word_rotr (unat amount mod 32) rm)"
proof (cases "unat amount mod 32 = 0")
  case True
  then have "amount AND 31 = 0" by (simp add: word_unat_eq_iff and_31_mod)
  with True show ?thesis by (simp add: shifted_def unat_0_iff Let_def word_rotr_0)
next
  case False
  then have "amount AND 31 \<noteq> 0" "amount \<noteq> 0" by (auto simp: and_31_mod word_unat_eq_iff)
  with False rotate_or [of "unat amount mod 32" rm] show ?thesis
    by (simp add: shifted_def unat_0_iff Let_def and_31_mod)
qed

lemma next_pc_is_aligned:
  assumes "pc rs AND 3 = 0" and "arm_next_pc m rs = Some n"
  shows "n AND 3 = 0"
  using assms(2) offset_aligned [OF assms(1)] masked_aligned
  unfolding arm_next_pc_def Let_def branch_offset
  by (auto split: if_splits simp del: word_and_not)

section \<open>Properties\<close>



text \<open>The address at which a step breakpoint is planted is always word aligned: whatever the
  instruction is, from an aligned pc the decoder gives an aligned next pc, or none.\<close>

theorem next_pc_aligned:
  assumes "pc rs AND 3 = 0" and "arm_next_pc m rs = Some n"
  shows "n AND 3 = 0"
  by (rule next_pc_is_aligned [OF assms])

theorem next_pc_aligned_witness:
  "(0x2FFFFFC8 :: u32) AND 3 = 0 \<and> arm_next_pc (st32 (\<lambda>_. 0) 0x30000000 0xEAFFFFF0)
     \<lparr>gr = replicate 13 0, sp = 0, lr = 0, pc = 0x30000000, cpsr = 0xD3\<rparr> = Some 0x2FFFFFC8"
proof
  show n: "arm_next_pc (st32 (\<lambda>_. 0) 0x30000000 0xEAFFFFF0)
     \<lparr>gr = replicate 13 0, sp = 0, lr = 0, pc = 0x30000000, cpsr = 0xD3\<rparr> = Some 0x2FFFFFC8"
    by (simp add: arm_next_pc_def CPSR_T_def cond_true_def)
  show "(0x2FFFFFC8 :: u32) AND 3 = 0"
    by (rule next_pc_aligned [OF _ n]) simp
qed

text \<open>The barrel shifter: shifts are multiplication and division by powers of two (signed for
  ASR) with an encoded 0 standing for 32, and a rotation with an encoded 0 is RRX.\<close>

theorem shifted_spec:
  fixes rm amount carry :: u32
  defines "a \<equiv> unat amount"
  shows "unat (shifted rm 0 amount carry) = unat rm * 2 ^ a mod 2 ^ 32 \<and>
    unat (shifted rm 1 amount carry) = unat rm div 2 ^ (if a = 0 then 32 else a) \<and>
    sint (shifted rm 2 amount carry) = sint rm div 2 ^ (if a = 0 then 32 else a) \<and>
    shifted rm 3 amount carry =
      (if a = 0 then push_bit 31 carry OR drop_bit 1 rm else word_rotr (a mod 32) rm)"
  unfolding a_def using shifted_lsl shifted_lsr shifted_asr shifted_ror by blast




end
