(* ===== verification/Reply.thy ===== *)
theory Reply
  imports Trace Step
begin

text \<open>
  State of the remote-protocol server (gdbstub/rsp.c), its hex coding and its reply buffer. The
  memory is the target's; the stub's own variables are fields of the record and are not reached
  through it. Packets given to \<open>musb_bulk_send\<close> are collected in \<open>sent\<close>. \<open>rsp_resume\<close> does not
  return: it is recorded in \<open>resumed\<close>.
\<close>

section \<open>Constants and state\<close>

definition PACKET_SIZE :: nat where "PACKET_SIZE = 0x2000"
definition CMD_SIZE :: nat where "CMD_SIZE = PACKET_SIZE"
definition OUT_SIZE :: nat where "OUT_SIZE = PACKET_SIZE + 16"
definition MD32_MAX :: u32 where "MD32_MAX = 0x100"
definition MONITOR_CHUNK :: u32 where "MONITOR_CHUNK = (of_nat PACKET_SIZE - 8) div 2"
definition TRACE_CMD_LIMIT :: nat where "TRACE_CMD_LIMIT = 60"

definition SIG_ILL :: u32 where "SIG_ILL = 4"
definition SIG_TRAP :: u32 where "SIG_TRAP = 5"
definition SIG_BUS :: u32 where "SIG_BUS = 10"
definition SIG_SEGV :: u32 where "SIG_SEGV = 11"

definition BP_INSN :: u32 where "BP_INSN = 0xE7FFDEFE"
definition BP_MAX :: nat where "BP_MAX = 16"

record bp_slot =
  bp_addr :: u32
  bp_saved :: u32
  bp_active :: bool

datatype parser_state = ST_IDLE | ST_BODY | ST_CSUM1 | ST_CSUM2

text \<open>\<open>g_cmd\<close> holds the first \<open>g_cmd_len\<close> bytes of the command buffer.\<close>

record rsp_st = trace_st +
  g_regs :: arm_regs
  g_cmd :: bytes
  g_out :: "nat \<Rightarrow> u8"
  g_out_len :: nat
  g_body_start :: nat
  g_state :: parser_state
  g_sum :: u32
  g_csum_hi :: u8
  g_traced :: nat
  g_last_sig :: u32
  g_bp :: "bp_slot list"
  g_step_addr :: u32
  g_step_saved :: u32
  g_step_active :: bool
  sent :: "bytes list"
  resumed :: "arm_regs option"

section \<open>Hex coding\<close>

definition hexval :: "u8 \<Rightarrow> u32" where
  "hexval c =
     (if 48 \<le> c \<and> c \<le> 57 then ucast c - 48
      else if 97 \<le> c \<and> c \<le> 102 then ucast c - 97 + 10
      else if 65 \<le> c \<and> c \<le> 70 then ucast c - 65 + 10
      else 0xFFFFFFFF)"

definition hexdigit :: "u32 \<Rightarrow> u8" where
  "hexdigit v = ucast (if v < 10 then 48 + v else 97 + v - 10)"

text \<open>A pointer that a parser moves is the list of the bytes from it to the end.\<close>

fun parse_hex_from :: "u32 \<Rightarrow> bytes \<Rightarrow> u32 \<times> bytes" where
  "parse_hex_from v [] = (v, [])"
| "parse_hex_from v (c # p) =
     (let d = hexval c in if d = 0xFFFFFFFF then (v, c # p) else parse_hex_from (push_bit 4 v OR d) p)"

definition parse_hex :: "bytes \<Rightarrow> u32 \<times> bytes" where
  "parse_hex p = parse_hex_from 0 p"

section \<open>The reply buffer\<close>

definition out_ch :: "u8 \<Rightarrow> 'a rsp_st_scheme \<Rightarrow> 'a rsp_st_scheme" where
  "out_ch c s =
     (if g_out_len s < OUT_SIZE
      then s\<lparr>g_out := (g_out s)(g_out_len s := c), g_out_len := g_out_len s + 1\<rparr> else s)"

definition out_str :: "string \<Rightarrow> 'a rsp_st_scheme \<Rightarrow> 'a rsp_st_scheme" where
  "out_str str = fold out_ch (cs str)"

definition out_byte :: "u8 \<Rightarrow> 'a rsp_st_scheme \<Rightarrow> 'a rsp_st_scheme" where
  "out_byte b s = out_ch (hexdigit (ucast (b AND 0xF))) (out_ch (hexdigit (ucast (drop_bit 4 b))) s)"

text \<open>The scan for the first non-zero digit, and the digits from there down. \<open>k\<close> is \<open>shift / 4\<close>.\<close>

fun hex_top :: "u32 \<Rightarrow> nat \<Rightarrow> nat" where
  "hex_top v 0 = 0"
| "hex_top v (Suc k) = (if drop_bit (4 * Suc k) v AND 0xF = 0 then hex_top v k else Suc k)"

fun out_hex_digits :: "u32 \<Rightarrow> nat \<Rightarrow> 'a rsp_st_scheme \<Rightarrow> 'a rsp_st_scheme" where
  "out_hex_digits v 0 s = out_ch (hexdigit (v AND 0xF)) s"
| "out_hex_digits v (Suc k) s =
     out_hex_digits v k (out_ch (hexdigit (drop_bit (4 * Suc k) v AND 0xF)) s)"

definition out_hex :: "u32 \<Rightarrow> 'a rsp_st_scheme \<Rightarrow> 'a rsp_st_scheme" where
  "out_hex v = out_hex_digits v (hex_top v 7)"

text \<open>One word store into \<open>g_out\<close>, which is word aligned; as in \<open>st32\<close> the store ignores the low
  bits of its address. There is no bounds check.\<close>

definition out_pair :: "u8 \<Rightarrow> u8 \<Rightarrow> 'a rsp_st_scheme \<Rightarrow> 'a rsp_st_scheme" where
  "out_pair b0 b1 s =
     (let w = ucast (hexdigit (ucast (drop_bit 4 b0))) OR
              push_bit 8 (ucast (hexdigit (ucast (b0 AND 0xF)))) OR
              push_bit 16 (ucast (hexdigit (ucast (drop_bit 4 b1)))) OR
              push_bit 24 (ucast (hexdigit (ucast (b1 AND 0xF))));
          a = g_out_len s div 4 * 4
      in s\<lparr>g_out := (\<lambda>i. if a \<le> i \<and> i < a + 4 then le32 w ! (i - a) else g_out s i),
           g_out_len := g_out_len s + 4\<rparr>)"

definition out_word :: "u32 \<Rightarrow> 'a rsp_st_scheme \<Rightarrow> 'a rsp_st_scheme" where
  "out_word v = fold (\<lambda>i. out_byte (ucast (drop_bit (8 * i) v))) [0, 1, 2, 3]"

definition out_begin_ack :: "bool \<Rightarrow> 'a rsp_st_scheme \<Rightarrow> 'a rsp_st_scheme" where
  "out_begin_ack ack s =
     (let s1 = s\<lparr>g_out_len := 0\<rparr>;
          s2 = (if ack then out_ch (of_char (CHR ''+'')) s1 else s1);
          s3 = out_ch (of_char (CHR ''$'')) s2
      in s3\<lparr>g_body_start := g_out_len s3\<rparr>)"

definition out_begin :: "'a rsp_st_scheme \<Rightarrow> 'a rsp_st_scheme" where
  "out_begin = out_begin_ack True"

definition out_bytes :: "'a rsp_st_scheme \<Rightarrow> bytes" where
  "out_bytes s = map (g_out s) [0..<g_out_len s]"

definition musb_bulk_send :: "'a rsp_st_scheme \<Rightarrow> 'a rsp_st_scheme" where
  "musb_bulk_send s = s\<lparr>sent := sent s @ [out_bytes s]\<rparr>"

definition out_finish :: "'a rsp_st_scheme \<Rightarrow> 'a rsp_st_scheme" where
  "out_finish s =
     (let sum = fold (\<lambda>i a. a + ucast (g_out s i)) [g_body_start s..<g_out_len s] (0 :: u32)
      in musb_bulk_send (out_byte (ucast sum) (out_ch (of_char (CHR ''#'')) s)))"

definition send_output :: "bytes \<Rightarrow> bool \<Rightarrow> 'a rsp_st_scheme \<Rightarrow> 'a rsp_st_scheme" where
  "send_output txt ack s =
     out_finish (fold out_byte txt (out_ch (of_char (CHR ''O'')) (out_begin_ack ack s)))"

definition send_text :: "bytes \<Rightarrow> bool \<Rightarrow> 'a rsp_st_scheme \<Rightarrow> 'a rsp_st_scheme" where
  "send_text txt ack s = out_finish (fold out_byte txt (out_begin_ack ack s))"

section \<open>The reply buffer as a bounded sink\<close>

definition out_room :: "'a rsp_st_scheme \<Rightarrow> nat" where
  "out_room s = OUT_SIZE - g_out_len s"

definition out_good :: "'a rsp_st_scheme \<Rightarrow> bool" where
  "out_good s \<longleftrightarrow> g_out_len s \<le> OUT_SIZE"

interpretation out_sink: bounded_sink out_ch out_bytes out_room out_good
  by unfold_locales (auto simp: out_ch_def out_bytes_def out_room_def out_good_def)

text \<open>Output only changes the buffer.\<close>

lemma emit_frame: "\<exists>f n. fold out_ch xs s = s\<lparr>g_out := f, g_out_len := n\<rparr>"
proof (induction xs arbitrary: s)
  case Nil
  show ?case by (intro exI [of _ "g_out s"] exI [of _ "g_out_len s"]) simp
next
  case (Cons x xs)
  have "\<exists>f n. out_ch x s = s\<lparr>g_out := f, g_out_len := n\<rparr>"
    by (cases "g_out_len s < OUT_SIZE", simp_all add: out_ch_def, blast)
      (intro exI [of _ "g_out s"] exI [of _ "g_out_len s"], simp)
  then obtain f n where "out_ch x s = s\<lparr>g_out := f, g_out_len := n\<rparr>" by blast
  with Cons [of "out_ch x s"] show ?case by auto
qed

lemma emit_fields [simp]:
  "mem (fold out_ch xs s) = mem s" "g_put (fold out_ch xs s) = g_put s"
  "g_end (fold out_ch xs s) = g_end s" "g_regs (fold out_ch xs s) = g_regs s"
  "g_cmd (fold out_ch xs s) = g_cmd s" "g_body_start (fold out_ch xs s) = g_body_start s"
  "g_state (fold out_ch xs s) = g_state s" "g_sum (fold out_ch xs s) = g_sum s"
  "g_csum_hi (fold out_ch xs s) = g_csum_hi s" "g_traced (fold out_ch xs s) = g_traced s"
  "g_last_sig (fold out_ch xs s) = g_last_sig s" "g_bp (fold out_ch xs s) = g_bp s"
  "g_step_addr (fold out_ch xs s) = g_step_addr s" "g_step_saved (fold out_ch xs s) = g_step_saved s"
  "g_step_active (fold out_ch xs s) = g_step_active s" "sent (fold out_ch xs s) = sent s"
  "resumed (fold out_ch xs s) = resumed s"
  using emit_frame [of xs s] by auto

lemmas out_ch_fields [simp] = emit_fields [of "[c]" for c, simplified]

lemma emit_len:
  "out_good s \<Longrightarrow> g_out_len (fold out_ch xs s) = min OUT_SIZE (g_out_len s + length xs)"
  using out_sink.room_fold [of s xs] out_sink.good_fold [of s xs]
  by (auto simp: out_room_def out_good_def)

section \<open>Printing as character lists\<close>

definition hex2 :: "u8 \<Rightarrow> bytes" where
  "hex2 b = [hexdigit (ucast (drop_bit 4 b)), hexdigit (ucast (b AND 0xF))]"

definition hex_of :: "bytes \<Rightarrow> bytes" where
  "hex_of bs = concat (map hex2 bs)"

lemma hex_of_simps [simp]: "hex_of [] = []" "hex_of (b # bs) = hex2 b @ hex_of bs"
  "hex_of (xs @ ys) = hex_of xs @ hex_of ys"
  by (simp_all add: hex_of_def)

lemma length_hex2 [simp]: "length (hex2 b) = 2"
  by (simp add: hex2_def)

lemma length_hex_of [simp]: "length (hex_of bs) = 2 * length bs"
  by (induction bs) simp_all

lemma out_byte_emit: "out_byte b = fold out_ch (hex2 b)"
  by (rule ext) (simp add: out_byte_def hex2_def)

lemma out_bytes_emit: "fold out_byte bs s = fold out_ch (hex_of bs) s"
  by (induction bs arbitrary: s) (simp_all add: out_byte_emit)

lemma out_str_emit: "out_str str = fold out_ch (cs str)"
  by (simp add: out_str_def)

lemma out_word_emit: "out_word v = fold out_ch (hex_of (le32 v))"
  by (rule ext) (simp add: out_word_def le32_def out_byte_emit)

lemma out_hex_digits_emit:
  "out_hex_digits v k s = fold out_ch (map (\<lambda>i. hexdigit (drop_bit (4 * i) v AND 0xF)) (rev [0..<Suc k])) s"
  by (induction k arbitrary: s) simp_all

text \<open>On a word boundary with room for it, the word store of \<open>out_pair\<close> is four characters.\<close>

lemma out_pair_emit:
  assumes "g_out_len s mod 4 = 0" and "g_out_len s + 4 \<le> OUT_SIZE"
  shows "out_pair b0 b1 s = fold out_ch (hex2 b0 @ hex2 b1) s"
proof -
  define n where "n = g_out_len s"
  have a: "n div 4 * 4 = n" using assms(1) unfolding n_def by presburger
  have lt: "n < OUT_SIZE" "Suc n < OUT_SIZE" "Suc (Suc n) < OUT_SIZE" "Suc (Suc (Suc n)) < OUT_SIZE"
    using assms(2) by (simp_all add: n_def)
  have w: "le32 (ucast c0 OR push_bit 8 (ucast c1) OR push_bit 16 (ucast c2) OR push_bit 24 (ucast c3))
      = [c0, c1, c2, c3]" for c0 c1 c2 c3 :: u8
    using le32_of_le32 [of c0 c1 c2 c3] by (simp add: of_le32_def)
  have upd: "(\<lambda>i. if n \<le> i \<and> i < n + 4 then [c0, c1, c2, c3] ! (i - n) else f i) =
      (f(n := c0))(Suc n := c1, Suc (Suc n) := c2, Suc (Suc (Suc n)) := c3)"
    for c0 c1 c2 c3 :: u8 and f
  proof (rule ext)
    fix i
    consider "i = n" | "i = Suc n" | "i = Suc (Suc n)" | "i = Suc (Suc (Suc n))" | "i < n" | "n + 4 \<le> i"
      by linarith
    then show "(if n \<le> i \<and> i < n + 4 then [c0, c1, c2, c3] ! (i - n) else f i) =
      ((f(n := c0))(Suc n := c1, Suc (Suc n) := c2, Suc (Suc (Suc n)) := c3)) i"
      by cases auto
  qed
  show ?thesis
    using lt unfolding out_pair_def Let_def n_def [symmetric] a w upd
    by (simp add: hex2_def out_ch_def flip: n_def)
qed

section \<open>Frames\<close>

text \<open>A packet on the wire: the acknowledgement if there is one, the body between \<open>$\<close> and \<open>#\<close>, and the sum
  of its bytes in hex.\<close>

definition frame :: "bool \<Rightarrow> bytes \<Rightarrow> bytes" where
  "frame ack body =
     (if ack then [43] else []) @ [36] @ body @ [35] @ hex2 (sum_list body)"

lemma fold_sum: "fold (\<lambda>i a. a + f i) xs (a :: 'a::comm_monoid_add) = a + sum_list (map f xs)"
  by (induction xs arbitrary: a) (simp_all add: algebra_simps)

lemma ucast_sum_list: "ucast (sum_list (map (ucast :: u8 \<Rightarrow> u32) bs)) = (sum_list bs :: u8)"
proof (induction bs)
  case (Cons b bs)
  have "ucast (x + y) = (ucast x + ucast y :: u8)" for x y :: u32
    by (simp add: word_unat_eq_iff unsigned_ucast_eq unat_word_ariths take_bit_eq_mod mod_mod_cancel
        mod_add_eq)
  moreover have "ucast (ucast b :: u32) = b"
    by (rule bit_word_eqI) (auto simp: bit_simps)
  ultimately show ?case using Cons by simp
qed simp

text \<open>A whole reply: open a packet, print the body, close it.\<close>

definition reply :: "bool \<Rightarrow> bytes \<Rightarrow> 'a rsp_st_scheme \<Rightarrow> 'a rsp_st_scheme" where
  "reply ack body s = out_finish (fold out_ch body (out_begin_ack ack s))"

lemma begin_emit:
  "out_begin_ack ack s =
    (fold out_ch ((if ack then [43] else []) @ [36]) (s\<lparr>g_out_len := 0\<rparr>))
      \<lparr>g_body_start := if ack then 2 else 1\<rparr>"
  by (simp add: out_begin_ack_def out_ch_def OUT_SIZE_def PACKET_SIZE_def Let_def)

lemma begin_fields [simp]:
  "mem (out_begin_ack ack s) = mem s" "g_regs (out_begin_ack ack s) = g_regs s"
  "g_cmd (out_begin_ack ack s) = g_cmd s" "g_state (out_begin_ack ack s) = g_state s"
  "g_bp (out_begin_ack ack s) = g_bp s" "g_last_sig (out_begin_ack ack s) = g_last_sig s"
  "g_put (out_begin_ack ack s) = g_put s" "g_end (out_begin_ack ack s) = g_end s"
  "g_sum (out_begin_ack ack s) = g_sum s" "g_csum_hi (out_begin_ack ack s) = g_csum_hi s"
  "g_traced (out_begin_ack ack s) = g_traced s"
  "g_step_addr (out_begin_ack ack s) = g_step_addr s" "g_step_saved (out_begin_ack ack s) = g_step_saved s"
  "g_step_active (out_begin_ack ack s) = g_step_active s" "sent (out_begin_ack ack s) = sent s"
  "resumed (out_begin_ack ack s) = resumed s"
  unfolding begin_emit by simp_all

lemma begin_view:
  "out_bytes (out_begin_ack ack s) = (if ack then [43] else []) @ [36]"
  "g_out_len (out_begin_ack ack s) = (if ack then 2 else 1)"
  "g_body_start (out_begin_ack ack s) = (if ack then 2 else 1)"
  "out_good (out_begin_ack ack s)"
  by (simp_all add: out_begin_ack_def out_ch_def out_bytes_def out_good_def OUT_SIZE_def
      PACKET_SIZE_def Let_def)

lemma finish_emit:
  assumes "out_bytes s = pre @ body" and "g_body_start s = length pre"
    and "length pre + length body + 3 \<le> OUT_SIZE"
  shows "out_finish s =
    (fold out_ch (35 # hex2 (sum_list body)) s)\<lparr>sent := sent s @ [pre @ body @ 35 # hex2 (sum_list body)]\<rparr>"
proof -
  have len: "g_out_len s = length pre + length body"
    using arg_cong [OF assms(1), of length] by (simp add: out_bytes_def)
  then have good: "out_good s" using assms(3) by (simp add: out_good_def)
  have "map (g_out s) [length pre..<g_out_len s] = body"
  proof -
    have "body = drop (length pre) (out_bytes s)" using assms(1) by simp
    then show ?thesis by (simp add: out_bytes_def drop_map)
  qed
  then have "map (\<lambda>i. ucast (g_out s i) :: u32) [length pre..<g_out_len s] = map ucast body"
    by (subst (asm) eq_commute) simp
  then have sum: "ucast (fold (\<lambda>i a. a + ucast (g_out s i)) [g_body_start s..<g_out_len s] (0 :: u32))
      = sum_list body"
    unfolding fold_sum assms(2) by (simp only: add_0 ucast_sum_list)
  have "out_finish s = musb_bulk_send (fold out_ch (35 # hex2 (sum_list body)) s)"
    by (simp add: out_finish_def sum out_byte_emit)
  moreover have "out_bytes (fold out_ch (35 # hex2 (sum_list body)) s) =
      pre @ body @ 35 # hex2 (sum_list body)"
    using assms len by (subst out_sink.view_fold_fits [OF good]) (simp_all add: out_room_def)
  ultimately show ?thesis
    unfolding musb_bulk_send_def by (simp del: fold.simps)
qed

text \<open>A body that leaves room for the checksum is sent as one correct frame, and nothing else
  changes but the buffer.\<close>

lemma reply_spec:
  assumes "length body \<le> PACKET_SIZE + 11"
  obtains f n k where "reply ack body s =
    s\<lparr>g_out := f, g_out_len := n, g_body_start := k, sent := sent s @ [frame ack body]\<rparr>"
    and "n \<le> OUT_SIZE"
proof -
  define t where "t = fold out_ch body (out_begin_ack ack s)"
  have view: "out_bytes t = ((if ack then [43] else []) @ [36]) @ body"
    unfolding t_def using assms
    by (subst out_sink.view_fold_fits) (auto simp: begin_view out_room_def OUT_SIZE_def)
  have "out_finish t = (fold out_ch (35 # hex2 (sum_list body)) t)
      \<lparr>sent := sent t @ [((if ack then [43] else []) @ [36]) @ body @ 35 # hex2 (sum_list body)]\<rparr>"
    using assms by (intro finish_emit [OF view]) (auto simp: t_def begin_view OUT_SIZE_def)
  then have e: "reply ack body s = (fold out_ch (35 # hex2 (sum_list body)) t)
      \<lparr>sent := sent s @ [frame ack body]\<rparr>"
    by (simp add: reply_def t_def frame_def)
  moreover obtain f n where fn: "fold out_ch (35 # hex2 (sum_list body)) t = t\<lparr>g_out := f, g_out_len := n\<rparr>"
    using emit_frame by blast
  moreover obtain f2 n2 where "t = (out_begin_ack ack s)\<lparr>g_out := f2, g_out_len := n2\<rparr>"
    unfolding t_def using emit_frame by blast
  moreover obtain f3 n3 k where "out_begin_ack ack s = s\<lparr>g_out := f3, g_out_len := n3, g_body_start := k\<rparr>"
  proof -
    obtain f n where "fold out_ch ((if ack then [43] else []) @ [36]) (s\<lparr>g_out_len := 0\<rparr>) =
        s\<lparr>g_out_len := 0, g_out := f, g_out_len := n\<rparr>"
      using emit_frame by blast
    then show ?thesis by (intro that) (simp only: begin_emit, simp)
  qed
  moreover have "out_good (fold out_ch (35 # hex2 (sum_list body)) t)"
    unfolding t_def by (intro out_sink.good_fold begin_view)
  ultimately show ?thesis
    by (intro that [of k n f]) (simp_all add: out_good_def)
qed

end
