(* ===== verification/RspCmd.thy ===== *)
theory RspCmd
  imports Reply
begin

text \<open>
  The command handlers of gdbstub/rsp.c: queries, monitor commands, breakpoints, memory and register
  access, continue and single step.
\<close>

section \<open>Queries\<close>

text \<open>The description of the target that GDB asks for.\<close>

definition xml_reg :: "string \<Rightarrow> string" where
  "xml_reg name = ''<reg name=\"'' @ name @ ''\" bitsize=\"32\"/>''"

definition target_xml :: bytes where
  "target_xml = cs (concat [
     ''<?xml version=\"1.0\"?>'',
     ''<!DOCTYPE target SYSTEM \"gdb-target.dtd\">'',
     ''<target version=\"1.0\">'',
     ''<architecture>arm</architecture>'',
     ''<feature name=\"org.gnu.gdb.arm.core\">'',
     xml_reg ''r0'', xml_reg ''r1'', xml_reg ''r2'', xml_reg ''r3'', xml_reg ''r4'', xml_reg ''r5'',
     xml_reg ''r6'', xml_reg ''r7'', xml_reg ''r8'', xml_reg ''r9'', xml_reg ''r10'', xml_reg ''r11'',
     xml_reg ''r12'',
     ''<reg name=\"sp\" bitsize=\"32\" type=\"data_ptr\"/>'',
     xml_reg ''lr'',
     ''<reg name=\"pc\" bitsize=\"32\" type=\"code_ptr\"/>'',
     ''<reg name=\"cpsr\" bitsize=\"32\" regnum=\"25\"/>'',
     ''</feature>'',
     ''</target>''])"

text \<open>Length of \<open>str\<close> when \<open>p\<close> starts with it, 0 otherwise.\<close>

fun starts_with :: "bytes \<Rightarrow> bytes \<Rightarrow> bool" where
  "starts_with p [] = True"
| "starts_with [] (d # str) = False"
| "starts_with (c # p) (d # str) = (c = d \<and> starts_with p str)"

definition prefix :: "bytes \<Rightarrow> string \<Rightarrow> nat" where
  "prefix p str = (if starts_with p (cs str) then length str else 0)"

definition skip_ch :: "char \<Rightarrow> bytes \<Rightarrow> bytes" where
  "skip_ch c p = (case p of [] \<Rightarrow> [] | d # q \<Rightarrow> if d = of_char c then q else p)"

text \<open>One piece of the target description: \<open>q\<close> is what follows the prefix.\<close>

definition handle_xfer :: "bytes \<Rightarrow> 'a rsp_st_scheme \<Rightarrow> 'a rsp_st_scheme" where
  "handle_xfer q s =
     (let (off, q1) = parse_hex q;
          (len, q2) = parse_hex (skip_ch CHR '','' q1);
          total = of_nat (length target_xml) :: u32
      in if total \<le> off then out_str ''l'' s
         else
           let n0 = total - off;
               n1 = (if len < n0 then len else n0);
               n = (if of_nat PACKET_SIZE - 16 < n1 then of_nat PACKET_SIZE - 16 else n1)
           in fold out_ch (take (unat n) (drop (unat off) target_xml))
                (out_ch (of_char (if off + n < total then CHR ''m'' else CHR ''l'')) s))"

definition at_ch :: "bytes \<Rightarrow> nat \<Rightarrow> char \<Rightarrow> bool" where
  "at_ch p i c \<longleftrightarrow> p ! i = of_char c"

definition handle_query :: "bytes \<Rightarrow> 'a rsp_st_scheme \<Rightarrow> 'a rsp_st_scheme" where
  "handle_query p s =
     (if starts_with p (cs ''qSupported'') then
        out_str '';qXfer:features:read+;vContSupported+''
          (out_hex (of_nat PACKET_SIZE) (out_str ''PacketSize='' s))
      else if starts_with p (cs ''qXfer:features:read:target.xml:'') then
        handle_xfer (drop 31 p) s
      else if 8 \<le> length p \<and> at_ch p 1 CHR ''A'' \<and> at_ch p 2 CHR ''t'' \<and> at_ch p 3 CHR ''t'' then
        out_str ''1'' s
      else if length p = 2 \<and> at_ch p 1 CHR ''C'' then out_str ''QC1'' s
      else if 12 \<le> length p \<and> at_ch p 1 CHR ''f'' \<and> at_ch p 2 CHR ''T'' then out_str ''m1'' s
      else if 12 \<le> length p \<and> at_ch p 1 CHR ''s'' \<and> at_ch p 2 CHR ''T'' then out_str ''l'' s
      else s)"

section \<open>Monitor commands\<close>

fun equals :: "bytes \<Rightarrow> nat \<Rightarrow> bytes \<Rightarrow> bool" where
  "equals p 0 str = (str = [])"
| "equals (c # p) (Suc n) (d # str) = (c = d \<and> equals p n str)"
| "equals p (Suc n) str = False"

text \<open>A region of memory as console packets of at most \<open>MONITOR_CHUNK\<close> bytes, then \<open>OK\<close>. Only the
  first packet of the reply carries the acknowledgement.\<close>

function send_chunks :: "u32 \<Rightarrow> u32 \<Rightarrow> u32 \<Rightarrow> bool \<Rightarrow> 'a rsp_st_scheme \<Rightarrow> bool \<times> 'a rsp_st_scheme" where
  "send_chunks base len off ack s =
     (if off < len then
        let chunk = (if MONITOR_CHUNK < len - off then MONITOR_CHUNK else len - off)
        in send_chunks base len (off + chunk) False
             (send_output (mem_range (mem s) (base + off) (unat chunk)) ack s)
      else (ack, s))"
  by pat_completeness auto
termination
proof (relation "measure (\<lambda>(base, len, off, ack, s). unat len - unat off)")
  fix base len off :: u32 and ack and s :: "'a rsp_st_scheme" and chunk
  assume a: "off < len" and c: "chunk = (if MONITOR_CHUNK < len - off then MONITOR_CHUNK else len - off)"
  have d: "unat (len - off) = unat len - unat off" using a by (simp add: unat_sub)
  have "unat chunk \<le> unat len - unat off"
    using d by (auto simp: c word_less_nat_alt)
  moreover have "0 < unat chunk"
    using a d by (auto simp: c MONITOR_CHUNK_def PACKET_SIZE_def word_less_nat_alt)
  moreover have "unat (off + chunk) = unat off + unat chunk"
    using calculation(1) a unat_u32_bound [of len]
    by (subst unat_word_ariths) (simp add: word_less_nat_alt)
  ultimately show "((base, len, off + chunk, False, send_output (mem_range (mem s) (base + off) (unat chunk)) ack s),
      base, len, off, ack, s) \<in> measure (\<lambda>(base, len, off, ack, s). unat len - unat off)"
    using a by (auto simp: word_less_nat_alt)
qed simp

declare send_chunks.simps [simp del]

definition send_region :: "u32 \<Rightarrow> u32 \<Rightarrow> 'a rsp_st_scheme \<Rightarrow> 'a rsp_st_scheme" where
  "send_region base len s =
     (let (ack, s1) = send_chunks base len 0 True s
      in out_finish (out_str ''OK'' (out_begin_ack ack s1)))"

fun parse_dec_from :: "u32 \<Rightarrow> bytes \<Rightarrow> u32 \<times> bytes" where
  "parse_dec_from v [] = (v, [])"
| "parse_dec_from v (c # p) =
     (if 48 \<le> c \<and> c \<le> 57 then parse_dec_from (v * 10 + ucast (c - 48)) p else (v, c # p))"

definition parse_dec :: "bytes \<Rightarrow> u32 \<times> bytes" where
  "parse_dec p = parse_dec_from 0 p"

definition mon_ch :: "u8 \<Rightarrow> 'a rsp_st_scheme \<Rightarrow> 'a rsp_st_scheme" where
  "mon_ch c = out_byte c"

definition mon_str :: "bytes \<Rightarrow> 'a rsp_st_scheme \<Rightarrow> 'a rsp_st_scheme" where
  "mon_str str = fold mon_ch str"

definition mon_word :: "u32 \<Rightarrow> 'a rsp_st_scheme \<Rightarrow> 'a rsp_st_scheme" where
  "mon_word v s =
     fold (\<lambda>k. mon_ch (hexdigit (drop_bit (k * 4) v AND 0xF))) [7, 6, 5, 4, 3, 2, 1, 0]
       (mon_str (cs ''0x'') s)"

definition mon_dec :: "u32 \<Rightarrow> 'a rsp_st_scheme \<Rightarrow> 'a rsp_st_scheme" where
  "mon_dec v s = dec_loop mon_ch pow10 v False s"

definition md32_item :: "u32 \<Rightarrow> nat \<Rightarrow> nat \<Rightarrow> 'a rsp_st_scheme \<Rightarrow> 'a rsp_st_scheme" where
  "md32_item addr count i s =
     (let a = addr + of_nat i * 4;
          s1 = (if i mod 4 = 0 then mon_ch (of_char CHR '':'') (mon_word a s) else s);
          s2 = mon_word (ld32 (mem s1) a) (mon_ch 32 s1)
      in if i mod 4 = 3 \<or> i + 1 = count then mon_ch 10 s2 else s2)"

definition monitor_md32 :: "bytes \<Rightarrow> 'a rsp_st_scheme \<Rightarrow> 'a rsp_st_scheme" where
  "monitor_md32 p s =
     (let p1 = dropWhile (\<lambda>c. c = 32) p
      in if \<not> starts_with p1 (cs ''0x'') then
           send_text (cs ''md32: address must be hex with an 0x prefix'' @ [10]) True s
         else
           let (a, p2) = parse_hex (drop 2 p1);
               addr = a AND NOT 3;
               (c0, p3) = parse_dec (dropWhile (\<lambda>c. c = 32) p2);
               c1 = (if c0 = 0 then 4 else c0);
               s1 = out_begin_ack True s;
               s2 = (if MD32_MAX < c1
                     then mon_str (cs '' words'' @ [10]) (mon_dec MD32_MAX (mon_str (cs ''clamped to '') s1))
                     else s1);
               count = (if MD32_MAX < c1 then MD32_MAX else c1)
           in out_finish (fold (md32_item addr (unat count)) [0..<unat count] s2))"

text \<open>The hex pairs of a command, at most 63 characters.\<close>

fun mon_decode :: "nat \<Rightarrow> bytes \<Rightarrow> bytes" where
  "mon_decode (Suc n) (c0 # c1 # p) = ucast (push_bit 4 (hexval c0) OR hexval c1) # mon_decode n p"
| "mon_decode n p = []"

definition handle_monitor :: "bytes \<Rightarrow> 'a rsp_st_scheme \<Rightarrow> 'a rsp_st_scheme" where
  "handle_monitor p s =
     (let cmd = mon_decode 63 p; n = length cmd
      in if 5 < n \<and> equals cmd 5 (cs ''md32 '') then monitor_md32 (drop 5 cmd) s
         else if equals cmd n (cs ''trace'') then send_region TRACE_BASE (trace_used s) s
         else if equals cmd n (cs ''oldtrace'') then send_region TRACE_PREV (trace_prev_used s) s
         else send_text (cs ''commands: trace, oldtrace, md32 0x<addr> [<words>]'' @ [10]) True s)"

definition vcont_action :: "bytes \<Rightarrow> u8" where
  "vcont_action p =
     (case dropWhile (\<lambda>c. c \<noteq> of_char CHR '';'') p of c # d # q \<Rightarrow> d | _ \<Rightarrow> 0)"

section \<open>Breakpoints\<close>

definition bp_install :: "u32 \<Rightarrow> u32 \<Rightarrow> u32 \<Rightarrow> 'a rsp_st_scheme \<Rightarrow> 'a rsp_st_scheme" where
  "bp_install bp_undef bp_pabort bp_dabort s =
     s\<lparr>mem := fold (\<lambda>(a, v) m. st32 m a v)
       [(0x30000800, bp_undef), (0x30000804, bp_pabort), (0x30000808, bp_dabort),
        (0x30000004, 0xE59FF7F4), (0x3000000C, 0xE59FF7F0), (0x30000010, 0xE59FF7F0)] (mem s)\<rparr>"

text \<open>Indices of the table; the callers of \<open>bp_lookup\<close> only test whether there is one.\<close>

definition bp_lookup :: "u32 \<Rightarrow> 'a rsp_st_scheme \<Rightarrow> nat option" where
  "bp_lookup addr s =
     find (\<lambda>i. bp_active (g_bp s ! i) \<and> bp_addr (g_bp s ! i) = addr) [0..<BP_MAX]"

definition bp_set :: "u32 \<Rightarrow> 'a rsp_st_scheme \<Rightarrow> bool \<times> 'a rsp_st_scheme" where
  "bp_set addr s =
     (if bp_lookup addr s \<noteq> None then (True, s)
      else case find (\<lambda>i. \<not> bp_active (g_bp s ! i)) [0..<BP_MAX] of
        None \<Rightarrow> (False, s)
      | Some i \<Rightarrow>
          (True, s\<lparr>g_bp := (g_bp s)[i := \<lparr>bp_addr = addr, bp_saved = ld32 (mem s) addr, bp_active = True\<rparr>],
                   mem := st32 (mem s) addr BP_INSN\<rparr>))"

definition bp_clear :: "u32 \<Rightarrow> 'a rsp_st_scheme \<Rightarrow> bool \<times> 'a rsp_st_scheme" where
  "bp_clear addr s =
     (case find (\<lambda>i. bp_active (g_bp s ! i) \<and> bp_addr (g_bp s ! i) = addr) [0..<BP_MAX] of
        None \<Rightarrow> (True, s)
      | Some i \<Rightarrow>
          (True, s\<lparr>mem := st32 (mem s) addr (bp_saved (g_bp s ! i)),
                   g_bp := (g_bp s)[i := (g_bp s ! i)\<lparr>bp_active := False\<rparr>]\<rparr>))"

definition handle_breakpoint :: "bytes \<Rightarrow> 'a rsp_st_scheme \<Rightarrow> 'a rsp_st_scheme" where
  "handle_breakpoint p s =
     (case p of [] \<Rightarrow> s | c # p1 \<Rightarrow>
        (case p1 of [] \<Rightarrow> s | d # p2 \<Rightarrow>
          if d \<noteq> of_char CHR ''0'' then s
          else
            let (addr, p3) = parse_hex (skip_ch CHR '','' p2);
                (ok, s1) = (if c = of_char CHR ''Z'' then bp_set addr s else bp_clear addr s)
            in out_str (if ok then ''OK'' else ''E01'') s1))"

section \<open>Memory and registers\<close>

text \<open>The three loops of \<open>read_memory\<close>. Each is at address \<open>addr + i\<close> with \<open>len - i\<close> bytes to go.\<close>

fun read_align :: "u32 \<Rightarrow> nat \<Rightarrow> 'a rsp_st_scheme \<Rightarrow> u32 \<times> nat \<times> 'a rsp_st_scheme" where
  "read_align a 0 s = (a, 0, s)"
| "read_align a (Suc k) s =
     (if g_out_len s mod 4 \<noteq> 0 then read_align (a + 1) k (out_byte (mem s a) s) else (a, Suc k, s))"

fun read_pairs :: "u32 \<Rightarrow> nat \<Rightarrow> 'a rsp_st_scheme \<Rightarrow> u32 \<times> nat \<times> 'a rsp_st_scheme" where
  "read_pairs a (Suc (Suc k)) s = read_pairs (a + 2) k (out_pair (mem s a) (mem s (a + 1)) s)"
| "read_pairs a k s = (a, k, s)"

fun read_tail :: "u32 \<Rightarrow> nat \<Rightarrow> 'a rsp_st_scheme \<Rightarrow> 'a rsp_st_scheme" where
  "read_tail a 0 s = s"
| "read_tail a (Suc k) s = read_tail (a + 1) k (out_byte (mem s a) s)"

definition read_bytes :: "u32 \<Rightarrow> nat \<Rightarrow> 'a rsp_st_scheme \<Rightarrow> 'a rsp_st_scheme" where
  "read_bytes a len s =
     (let (a1, k1, s1) = read_align a len s; (a2, k2, s2) = read_pairs a1 k1 s1 in read_tail a2 k2 s2)"

definition read_memory :: "bytes \<Rightarrow> 'a rsp_st_scheme \<Rightarrow> 'a rsp_st_scheme" where
  "read_memory p s =
     (let (addr, p1) = parse_hex p;
          (len0, p2) = parse_hex (skip_ch CHR '','' p1);
          lim = of_nat (OUT_SIZE - 16) div 2;
          len = (if lim < len0 then lim else len0)
      in read_bytes addr (unat len) s)"

fun write_hex_loop :: "u32 \<Rightarrow> nat \<Rightarrow> bytes \<Rightarrow> mem \<Rightarrow> mem" where
  "write_hex_loop a (Suc k) (c0 # c1 # p) m =
     write_hex_loop (a + 1) k p (m(a := ucast (push_bit 4 (hexval c0) OR hexval c1)))"
| "write_hex_loop a k p m = m"

definition write_memory_hex :: "bytes \<Rightarrow> 'a rsp_st_scheme \<Rightarrow> 'a rsp_st_scheme" where
  "write_memory_hex p s =
     (let (addr, p1) = parse_hex p;
          (len, p2) = parse_hex (skip_ch CHR '','' p1);
          p3 = skip_ch CHR '':'' p2
      in out_str ''OK'' (s\<lparr>mem := write_hex_loop addr (unat len) p3 (mem s)\<rparr>))"

text \<open>Word stores for aligned runs without escapes, byte stores otherwise.\<close>

definition word_run :: "bytes \<Rightarrow> bool" where
  "word_run p \<longleftrightarrow> 4 \<le> length p \<and> p ! 0 \<noteq> 0x7D \<and> p ! 1 \<noteq> 0x7D \<and> p ! 2 \<noteq> 0x7D \<and> p ! 3 \<noteq> 0x7D"

function write_bin_loop :: "u32 \<Rightarrow> u32 \<Rightarrow> u32 \<Rightarrow> bytes \<Rightarrow> mem \<Rightarrow> mem" where
  "write_bin_loop addr i len p m =
     (if i < len \<and> p \<noteq> [] then
        if (addr + i) AND 3 = 0 \<and> i + 4 \<le> len \<and> word_run p then
          write_bin_loop addr (i + 4) len (drop 4 p)
            (st32 m (addr + i) (ucast (p ! 0) OR push_bit 8 (ucast (p ! 1)) OR
               push_bit 16 (ucast (p ! 2)) OR push_bit 24 (ucast (p ! 3))))
        else
          let (b, q) = (if hd p = 0x7D \<and> tl p \<noteq> [] then (hd (tl p) XOR 0x20, tl (tl p)) else (hd p, tl p))
          in write_bin_loop addr (i + 1) len q (m(addr + i := b))
      else m)"
  by pat_completeness auto
termination
  by (relation "measure (\<lambda>(addr, i, len, p, m). length p)") (auto simp: neq_Nil_conv split: if_splits)

declare write_bin_loop.simps [simp del]

definition write_memory_bin :: "bytes \<Rightarrow> 'a rsp_st_scheme \<Rightarrow> 'a rsp_st_scheme" where
  "write_memory_bin p s =
     (let (addr, p1) = parse_hex p;
          (len, p2) = parse_hex (skip_ch CHR '','' p1);
          p3 = skip_ch CHR '':'' p2
      in out_str ''OK'' (s\<lparr>mem := write_bin_loop addr 0 len p3 (mem s)\<rparr>))"

definition read_regs :: "'a rsp_st_scheme \<Rightarrow> 'a rsp_st_scheme" where
  "read_regs s =
     (let r = g_regs s
      in out_word (cpsr r) (out_word (pc r) (out_word (lr r) (out_word (sp r)
           (fold (\<lambda>i. out_word (gr r ! i)) [0..<13] s)))))"

text \<open>One register of \<open>write_regs\<close>: up to four bytes from the hex pairs, as many as there are.\<close>

fun parse_reg :: "nat \<Rightarrow> nat \<Rightarrow> u32 \<Rightarrow> bytes \<Rightarrow> u32 \<times> bytes" where
  "parse_reg (Suc k) j v (c0 # c1 # p) =
     parse_reg k (Suc j) (v OR push_bit (8 * j) (push_bit 4 (hexval c0) OR hexval c1)) p"
| "parse_reg k j v p = (v, p)"

fun parse_regs :: "nat \<Rightarrow> bytes \<Rightarrow> u32 list" where
  "parse_regs 0 p = []"
| "parse_regs (Suc n) p = (let (v, q) = parse_reg 4 0 0 p in v # parse_regs n q)"

definition regs_of_slots :: "u32 list \<Rightarrow> arm_regs" where
  "regs_of_slots ws = \<lparr>gr = take 13 ws, sp = ws ! 13, lr = ws ! 14, pc = ws ! 15, cpsr = ws ! 16\<rparr>"

definition write_regs :: "bytes \<Rightarrow> 'a rsp_st_scheme \<Rightarrow> 'a rsp_st_scheme" where
  "write_regs p s = out_str ''OK'' (s\<lparr>g_regs := regs_of_slots (parse_regs 17 p)\<rparr>)"

section \<open>Running the target\<close>

definition rsp_resume :: "'a rsp_st_scheme \<Rightarrow> 'a rsp_st_scheme" where
  "rsp_resume s = s\<lparr>resumed := Some (g_regs s)\<rparr>"

definition send_plus :: "'a rsp_st_scheme \<Rightarrow> 'a rsp_st_scheme" where
  "send_plus s = musb_bulk_send (out_ch (of_char CHR ''+'') (s\<lparr>g_out_len := 0\<rparr>))"

definition rsp_resume_here :: "'a rsp_st_scheme \<Rightarrow> 'a rsp_st_scheme" where
  "rsp_resume_here s = rsp_resume (send_plus s)"

definition resume :: "bytes \<Rightarrow> 'a rsp_st_scheme \<Rightarrow> 'a rsp_st_scheme" where
  "resume p s =
     (let s1 = (if p \<noteq> [] then s\<lparr>g_regs := (g_regs s)\<lparr>pc := fst (parse_hex p)\<rparr>\<rparr> else s);
          s2 = send_plus s1;
          s3 = trace_puts [10] (trace_hex (pc (g_regs s2)) 8 (trace_puts (cs ''resume pc=0x'') s2))
      in rsp_resume s3)"

definition do_step :: "'a rsp_st_scheme \<Rightarrow> 'a rsp_st_scheme" where
  "do_step s =
     (case arm_next_pc (mem s) (g_regs s) of
        None \<Rightarrow> out_finish (out_str ''E01'' (out_begin s))
      | Some n \<Rightarrow>
          if n = pc (g_regs s) then
            out_finish (out_byte (ucast SIG_TRAP) (out_ch (of_char CHR ''S'') (out_begin s)))
          else
            let s1 = (if bp_lookup n s = None
                      then s\<lparr>g_step_addr := n, g_step_saved := ld32 (mem s) n,
                             mem := st32 (mem s) n BP_INSN, g_step_active := True\<rparr>
                      else s)
            in rsp_resume_here (trace_puts [10] (trace_hex n 8 (trace_puts (cs ''step to 0x'') s1))))"

text \<open>Entered from the exception vectors. The code then polls USB for ever; the polls are the
  later calls of the parser.\<close>

definition rsp_trapped :: "u32 \<Rightarrow> 'a rsp_st_scheme \<Rightarrow> 'a rsp_st_scheme" where
  "rsp_trapped sig0 s =
     (let (sig1, s1) =
            (if g_step_active s
             then (if pc (g_regs s) = g_step_addr s then SIG_TRAP else sig0,
                   s\<lparr>mem := st32 (mem s) (g_step_addr s) (g_step_saved s), g_step_active := False\<rparr>)
             else (sig0, s));
          sig = (if bp_lookup (pc (g_regs s1)) s1 \<noteq> None then SIG_TRAP else sig1);
          s2 = s1\<lparr>g_last_sig := sig\<rparr>;
          s3 = trace_dec sig (trace_puts (cs ''trap sig='') s2);
          s4 = trace_hex (pc (g_regs s3)) 8 (trace_puts (cs '' pc=0x'') s3);
          s5 = trace_hex (cpsr (g_regs s4)) 8 (trace_puts (cs '' cpsr=0x'') s4);
          s6 = trace_puts [10] s5
      in out_finish (out_byte (ucast sig) (out_ch (of_char CHR ''S'') (out_begin_ack False s6))))"

section \<open>What the handlers print\<close>

lemma read_tail_emit: "read_tail a k s = fold out_ch (hex_of (mem_range (mem s) a k)) s"
  by (induction k arbitrary: a s) (simp_all add: mem_range_Suc_left out_byte_emit)

lemma read_pairs_emit:
  assumes "g_out_len s mod 4 = 0" and "g_out_len s + 2 * k \<le> OUT_SIZE"
  shows "read_pairs a k s =
    (a + of_nat (k - k mod 2), k mod 2, fold out_ch (hex_of (mem_range (mem s) a (k - k mod 2))) s)"
  using assms
proof (induction a k s rule: read_pairs.induct)
  case (1 a k s)
  define t where "t = fold out_ch (hex2 (mem s a) @ hex2 (mem s (a + 1))) s"
  have e: "out_pair (mem s a) (mem s (a + 1)) s = t"
    unfolding t_def by (rule out_pair_emit) (use "1.prems" in auto)
  have l: "g_out_len t = g_out_len s + 4"
    unfolding t_def using "1.prems" by (subst emit_len) (auto simp: out_good_def)
  have m: "mem t = mem s" by (simp add: t_def del: fold_append)
  have "read_pairs (a + 2) k t =
    (a + 2 + of_nat (k - k mod 2), k mod 2, fold out_ch (hex_of (mem_range (mem t) (a + 2) (k - k mod 2))) t)"
    using "1.IH" "1.prems" e l by simp
  moreover have "Suc (Suc k) - Suc (Suc k) mod 2 = Suc (Suc (k - k mod 2))"
    by (simp add: Suc_diff_le)
  moreover have "a + 2 + of_nat (k - k mod 2) = a + of_nat (Suc (Suc (k - k mod 2)))"
    by simp
  ultimately show ?case
    using m by (simp add: e mem_range_Suc_left t_def add.assoc del: of_nat_Suc) 
qed simp_all

lemma read_bytes_emit:
  assumes "even (g_out_len s)" and "g_out_len s + 2 * k \<le> OUT_SIZE"
  shows "read_bytes a k s = fold out_ch (hex_of (mem_range (mem s) a k)) s"
proof -
  have body: "(let (a2, k2, s2) = read_pairs a k s in read_tail a2 k2 s2) =
      fold out_ch (hex_of (mem_range (mem s) a k)) s"
    if "g_out_len s mod 4 = 0" "g_out_len s + 2 * k \<le> OUT_SIZE" for a k and s :: "'a rsp_st_scheme"
  proof (cases "k mod 2 = 0")
    case True
    then show ?thesis using that by (simp add: read_pairs_emit)
  next
    case False
    then have "k = Suc (k - k mod 2)" "k mod 2 = Suc 0" by presburger+
    then have "mem_range (mem s) a k = mem_range (mem s) a (k - k mod 2) @ [mem s (a + of_nat (k - k mod 2))]"
      by (metis mem_range_Suc)
    then show ?thesis
      using that \<open>k mod 2 = Suc 0\<close> by (simp add: read_pairs_emit out_byte_emit)
  qed
  show ?thesis
  proof (cases "k = 0 \<or> g_out_len s mod 4 = 0")
    case True
    then have "read_align a k s = (a, k, s)" by (cases k) auto
    with True body [of s k a] assms(2) show ?thesis
      by (auto simp: read_bytes_def)
  next
    case False
    then obtain j where k: "k = Suc j" by (cases k) auto
    define t where "t = fold out_ch (hex2 (mem s a)) s"
    have t: "g_out_len t = g_out_len s + 2" "mem t = mem s"
      using assms k by (simp_all add: t_def emit_len out_good_def)
    then have "g_out_len t mod 4 = 0" using False assms(1) by presburger
    moreover from this have "read_align (a + 1) j t = (a + 1, j, t)" by (cases j) auto
    ultimately show ?thesis
      using False body [of t j "a + 1"] assms(2) t k
      by (simp add: read_bytes_def out_byte_emit mem_range_Suc_left flip: t_def)
  qed
qed

definition mem_args :: "bytes \<Rightarrow> u32 \<times> u32 \<times> bytes" where
  "mem_args p = (let (addr, p1) = parse_hex p; (len, p2) = parse_hex (skip_ch CHR '','' p1) in (addr, len, p2))"

definition read_text :: "bytes \<Rightarrow> mem \<Rightarrow> bytes" where
  "read_text p m = (let (addr, len, p2) = mem_args p in hex_of (mem_range m addr (min 4096 (unat len))))"

lemma read_memory_emit:
  assumes "g_out_len s = 2"
  shows "read_memory p s = fold out_ch (read_text p (mem s)) s"
proof -
  obtain addr p1 where 1: "parse_hex p = (addr, p1)" by fastforce
  obtain len p2 where 2: "parse_hex (skip_ch CHR '','' p1) = (len, p2)" by fastforce
  have "unat (if (of_nat (OUT_SIZE - 16) div 2 :: u32) < len then of_nat (OUT_SIZE - 16) div 2 else len)
      = min 4096 (unat len)"
    by (auto simp: OUT_SIZE_def PACKET_SIZE_def word_less_nat_alt)
  then show ?thesis
    using 1 2 assms
    by (simp add: read_memory_def read_text_def mem_args_def)
      (subst read_bytes_emit, auto simp: OUT_SIZE_def PACKET_SIZE_def)
qed

end
