(* ===== verification/Rsp.thy ===== *)
theory Rsp
  imports RspCmd
begin

text \<open>
  Command dispatch and packet framing of gdbstub/rsp.c. \<open>rsp_feed\<close> stops at the byte after which
  control leaves for the target (\<open>rsp_resume\<close> does not return).
\<close>

section \<open>Definitions\<close>

definition trace_cmd :: "'a rsp_st_scheme \<Rightarrow> 'a rsp_st_scheme" where
  "trace_cmd s =
     (if g_traced s < TRACE_CMD_LIMIT then
        let s1 = s\<lparr>g_traced := g_traced s + 1\<rparr>;
            echo = takeWhile (\<lambda>c. c \<noteq> 0) (take 24 (g_cmd s))
        in trace_puts [10] (trace_puts echo (trace_puts (cs ''cmd '') s1))
      else s)"

definition is_ch :: "u8 \<Rightarrow> char \<Rightarrow> bool" where
  "is_ch b c \<longleftrightarrow> b = of_char c"

text \<open>The switch over the first byte: the body of the reply.\<close>

definition dispatch_body :: "bytes \<Rightarrow> 'a rsp_st_scheme \<Rightarrow> 'a rsp_st_scheme" where
  "dispatch_body p s =
     (let c = hd p
      in if is_ch c CHR ''?'' then out_byte (ucast (g_last_sig s)) (out_ch (of_char CHR ''S'') s)
         else if is_ch c CHR ''g'' then read_regs s
         else if is_ch c CHR ''G'' then write_regs (tl p) s
         else if is_ch c CHR ''m'' then read_memory (tl p) s
         else if is_ch c CHR ''M'' then write_memory_hex (tl p) s
         else if is_ch c CHR ''X'' then write_memory_bin (tl p) s
         else if is_ch c CHR ''q'' then handle_query p s
         else if is_ch c CHR ''v'' then
           if prefix p ''vCont?'' \<noteq> 0 then out_str ''vCont;c;C;s;S'' s else s
         else if is_ch c CHR ''Z'' \<or> is_ch c CHR ''z'' then handle_breakpoint p s
         else if is_ch c CHR ''H'' \<or> is_ch c CHR ''D'' \<or> is_ch c CHR ''k'' then out_str ''OK'' s
         else s)"

definition dispatch :: "'a rsp_st_scheme \<Rightarrow> 'a rsp_st_scheme" where
  "dispatch s0 =
     (let s = trace_cmd s0; p = g_cmd s
      in if p = [] then out_finish (out_begin s)
         else if is_ch (hd p) CHR ''c'' \<or> is_ch (hd p) CHR ''C'' then resume (tl p) s
         else if is_ch (hd p) CHR ''s'' \<and> length p = 1 then do_step s
         else
           let act = (if prefix p ''vCont;'' \<noteq> 0 then vcont_action (drop 5 p) else 0)
           in if is_ch act CHR ''c'' \<or> is_ch act CHR ''C'' then resume [] s
              else if is_ch act CHR ''s'' \<or> is_ch act CHR ''S'' then do_step s
              else if prefix p ''qRcmd,'' \<noteq> 0 then handle_monitor (drop (prefix p ''qRcmd,'') p) s
              else out_finish (dispatch_body p (out_begin s)))"

definition send_minus :: "'a rsp_st_scheme \<Rightarrow> 'a rsp_st_scheme" where
  "send_minus s = musb_bulk_send (out_ch (of_char CHR ''-'') (s\<lparr>g_out_len := 0\<rparr>))"

definition feed_byte :: "u8 \<Rightarrow> 'a rsp_st_scheme \<Rightarrow> 'a rsp_st_scheme" where
  "feed_byte c s =
     (case g_state s of
        ST_IDLE \<Rightarrow>
          if is_ch c CHR ''$'' then s\<lparr>g_cmd := [], g_sum := 0, g_state := ST_BODY\<rparr> else s
      | ST_CSUM1 \<Rightarrow> s\<lparr>g_csum_hi := c, g_state := ST_CSUM2\<rparr>
      | _ \<Rightarrow>
          let s1 = s\<lparr>g_state := ST_IDLE\<rparr>
          in if push_bit 4 (hexval (g_csum_hi s1)) OR hexval c = g_sum s1 AND 0xFF
             then dispatch s1 else send_minus s1)"

text \<open>The copy loop: what is left of the input, the command, its sum, and whether it was dropped.\<close>

fun feed_body_loop :: "bytes \<Rightarrow> bytes \<Rightarrow> u32 \<Rightarrow> bytes \<times> bytes \<times> u32 \<times> bool" where
  "feed_body_loop [] cmd sm = ([], cmd, sm, False)"
| "feed_body_loop (c # data) cmd sm =
     (if is_ch c CHR ''#'' then (c # data, cmd, sm, False)
      else if CMD_SIZE \<le> length cmd then (c # data, cmd, sm, True)
      else feed_body_loop data (cmd @ [c]) (sm + ucast c))"

definition feed_body :: "bytes \<Rightarrow> 'a rsp_st_scheme \<Rightarrow> bytes \<times> 'a rsp_st_scheme" where
  "feed_body data s =
     (let (rest, cmd, sm, dropped) = feed_body_loop data (g_cmd s) (g_sum s);
          s1 = (if dropped then s\<lparr>g_state := ST_IDLE\<rparr> else s)
      in (rest, s1\<lparr>g_cmd := cmd, g_sum := sm\<rparr>))"

lemma feed_body_loop_length:
  "feed_body_loop data cmd sm = (rest, cmd', sm', d) \<Longrightarrow> length rest \<le> length data"
  by (induction data cmd sm rule: feed_body_loop.induct) (auto split: if_splits)

lemma feed_body_loop_stops:
  "feed_body_loop data cmd sm = (rest, cmd', sm', d) \<Longrightarrow> length rest = length data \<Longrightarrow>
   data \<noteq> [] \<Longrightarrow> d \<or> is_ch (hd data) CHR ''#''"
  by (cases data) (auto split: if_splits dest: feed_body_loop_length)

function rsp_feed :: "bytes \<Rightarrow> 'a rsp_st_scheme \<Rightarrow> 'a rsp_st_scheme" where
  "rsp_feed data s =
     (if data = [] \<or> resumed s \<noteq> None then s
      else if g_state s \<noteq> ST_BODY then rsp_feed (tl data) (feed_byte (hd data) s)
      else
        let (rest, s1) = feed_body data s
        in if g_state s1 = ST_BODY \<and> rest \<noteq> []
           then rsp_feed (tl rest) (s1\<lparr>g_state := ST_CSUM1\<rparr>)
           else rsp_feed rest s1)"
  by pat_completeness auto
termination
proof (relation "measure (\<lambda>(data, s). 2 * length data + (if g_state s = ST_BODY then 1 else 0))", goal_cases)
  case (2 data s)
  then show ?case by (cases data) auto
next
  case (3 data s x rest s1)
  then show ?case
    by (cases rest) (auto simp: feed_body_def split: prod.splits dest!: feed_body_loop_length)
next
  case (4 data s x rest s1)
  obtain r cmd sm d where f: "feed_body_loop data (g_cmd s) (g_sum s) = (r, cmd, sm, d)"
    by (cases "feed_body_loop data (g_cmd s) (g_sum s)") auto
  then have r: "rest = r" "g_state s1 = (if d then ST_IDLE else g_state s)"
    using 4 by (auto simp: feed_body_def)
  have "feed_body data s = (rest, s1)" using 4 by simp
  with r f 4 show ?case
    using feed_body_loop_length [OF f] by (cases d) auto
qed simp

declare rsp_feed.simps [simp del]

end
