(* ===== verification/RspSpec.thy ===== *)
theory RspSpec
  imports Rsp
begin

text \<open>
  What a command does, as an abstract specification: the text of its reply and its effect on
  registers, memory and breakpoints. The handlers of \<open>RspCmd\<close> refine it, and every packet of the
  server is a correct frame that fits the reply buffer.
\<close>

section \<open>Reply texts\<close>

definition regs_words :: "arm_regs \<Rightarrow> u32 list" where
  "regs_words r = map (\<lambda>i. gr r ! i) [0..<13] @ [sp r, lr r, pc r, cpsr r]"

definition regs_text :: "arm_regs \<Rightarrow> bytes" where
  "regs_text r = hex_of (concat (map le32 (regs_words r)))"

lemma out_words_emit:
  "fold (\<lambda>i. out_word (f i)) xs s = fold out_ch (hex_of (concat (map (\<lambda>i. le32 (f i)) xs))) s"
  by (induction xs arbitrary: s) (simp_all add: out_word_emit)

lemma read_regs_emit: "read_regs s = fold out_ch (regs_text (g_regs s)) s"
  unfolding read_regs_def regs_text_def regs_words_def out_words_emit Let_def
  by (simp add: out_word_emit comp_def del: upt_Suc)

definition hex_text :: "u32 \<Rightarrow> bytes" where
  "hex_text v = map (\<lambda>i. hexdigit (drop_bit (4 * i) v AND 0xF)) (rev [0..<Suc (hex_top v 7)])"

lemma out_hex_emit: "out_hex v s = fold out_ch (hex_text v) s"
  unfolding out_hex_def hex_text_def by (rule out_hex_digits_emit)

definition xfer_text :: "bytes \<Rightarrow> bytes" where
  "xfer_text q =
     (let (off, len, q2) = mem_args q; total = length target_xml;
          n = min (PACKET_SIZE - 16) (min (unat len) (total - unat off))
      in if total \<le> unat off then cs ''l''
         else (if unat off + n < total then cs ''m'' else cs ''l'') @ take n (drop (unat off) target_xml))"

lemma target_xml_length: "length target_xml = 714"
  by (simp add: target_xml_def xml_reg_def)

lemma handle_xfer_emit: "handle_xfer q s = fold out_ch (xfer_text q) s"
proof -
  obtain off q1 where 1: "parse_hex q = (off, q1)" by fastforce
  obtain len q2 where 2: "parse_hex (skip_ch CHR '','' q1) = (len, q2)" by fastforce
  define n where "n = (if (of_nat PACKET_SIZE - 16 :: u32) < (if len < 714 - off then len else 714 - off)
    then of_nat PACKET_SIZE - 16 else if len < 714 - off then len else 714 - off)"
  show ?thesis
  proof (cases "714 \<le> unat off")
    case True
    then show ?thesis
      by (simp add: handle_xfer_def xfer_text_def mem_args_def 1 2 target_xml_length word_le_nat_alt
          out_str_emit)
  next
    case False
    then have d: "unat (714 - off) = 714 - unat off"
      by (simp add: unat_sub word_le_nat_alt)
    then have n: "unat n = min (PACKET_SIZE - 16) (min (unat len) (714 - unat off))"
      by (auto simp: n_def PACKET_SIZE_def word_less_nat_alt)
    then have "unat (off + n) = unat off + unat n"
      using False by (subst unat_word_ariths) simp
    then have "off + n < 714 \<longleftrightarrow> unat off + unat n < 714"
      by (simp add: word_less_nat_alt)
    moreover have "\<not> 714 \<le> off" using False by (simp add: word_le_nat_alt)
    ultimately have "handle_xfer q s = fold out_ch (take (unat n) (drop (unat off) target_xml))
        (out_ch (of_char (if unat off + unat n < 714 then CHR ''m'' else CHR ''l'')) s)"
      unfolding handle_xfer_def
      by (simp only: 1 2 target_xml_length of_nat_numeral Let_def prod.case if_False flip: n_def)
    moreover have "xfer_text q = (if unat off + unat n < 714 then cs ''m'' else cs ''l'') @
        take (unat n) (drop (unat off) target_xml)"
      using False unfolding n xfer_text_def mem_args_def
      by (simp only: 1 2 target_xml_length Let_def prod.case if_False)
    ultimately show ?thesis by simp
  qed
qed

definition query_text :: "bytes \<Rightarrow> bytes" where
  "query_text p =
     (if starts_with p (cs ''qSupported'')
      then cs ''PacketSize='' @ hex_text (of_nat PACKET_SIZE) @ cs '';qXfer:features:read+;vContSupported+''
      else if starts_with p (cs ''qXfer:features:read:target.xml:'') then xfer_text (drop 31 p)
      else if 8 \<le> length p \<and> at_ch p 1 CHR ''A'' \<and> at_ch p 2 CHR ''t'' \<and> at_ch p 3 CHR ''t'' then cs ''1''
      else if length p = 2 \<and> at_ch p 1 CHR ''C'' then cs ''QC1''
      else if 12 \<le> length p \<and> at_ch p 1 CHR ''f'' \<and> at_ch p 2 CHR ''T'' then cs ''m1''
      else if 12 \<le> length p \<and> at_ch p 1 CHR ''s'' \<and> at_ch p 2 CHR ''T'' then cs ''l''
      else [])"

lemma handle_query_emit: "handle_query p s = fold out_ch (query_text p) s"
  unfolding handle_query_def query_text_def out_hex_emit handle_xfer_emit out_str_emit
  by (simp only: fold_append o_apply fold.simps(1) id_apply split: if_split) blast

section \<open>Effects\<close>

definition bp_args :: "bytes \<Rightarrow> (bool \<times> u32) option" where
  "bp_args p =
     (case p of c # d # p2 \<Rightarrow>
        if d = of_char CHR ''0'' then Some (c = of_char CHR ''Z'', fst (parse_hex (skip_ch CHR '','' p2)))
        else None
      | _ \<Rightarrow> None)"

definition bp_do :: "bool \<times> u32 \<Rightarrow> 'a rsp_st_scheme \<Rightarrow> bool \<times> 'a rsp_st_scheme" where
  "bp_do arg s = (if fst arg then bp_set (snd arg) s else bp_clear (snd arg) s)"

definition cmd_effect :: "bytes \<Rightarrow> 'a rsp_st_scheme \<Rightarrow> 'a rsp_st_scheme" where
  "cmd_effect p s =
     (let c = hd p; (addr, len, q) = mem_args (tl p)
      in if is_ch c CHR ''G'' then s\<lparr>g_regs := regs_of_slots (parse_regs 17 (tl p))\<rparr>
         else if is_ch c CHR ''M'' then s\<lparr>mem := write_hex_loop addr (unat len) (skip_ch CHR '':'' q) (mem s)\<rparr>
         else if is_ch c CHR ''X'' then s\<lparr>mem := write_bin_loop addr 0 len (skip_ch CHR '':'' q) (mem s)\<rparr>
         else if is_ch c CHR ''Z'' \<or> is_ch c CHR ''z'' then
           (case bp_args p of None \<Rightarrow> s | Some arg \<Rightarrow> snd (bp_do arg s))
         else s)"

definition cmd_reply :: "bytes \<Rightarrow> 'a rsp_st_scheme \<Rightarrow> bytes" where
  "cmd_reply p s =
     (let c = hd p
      in if is_ch c CHR ''?'' then of_char CHR ''S'' # hex2 (ucast (g_last_sig s))
         else if is_ch c CHR ''g'' then regs_text (g_regs s)
         else if is_ch c CHR ''m'' then read_text (tl p) (mem s)
         else if is_ch c CHR ''q'' then query_text p
         else if is_ch c CHR ''v'' then if prefix p ''vCont?'' \<noteq> 0 then cs ''vCont;c;C;s;S'' else []
         else if is_ch c CHR ''Z'' \<or> is_ch c CHR ''z'' then
           (case bp_args p of None \<Rightarrow> [] | Some arg \<Rightarrow> cs (if fst (bp_do arg s) then ''OK'' else ''E01''))
         else if is_ch c CHR ''G'' \<or> is_ch c CHR ''M'' \<or> is_ch c CHR ''X'' \<or> is_ch c CHR ''H'' \<or>
           is_ch c CHR ''D'' \<or> is_ch c CHR ''k'' then cs ''OK''
         else [])"

section \<open>Refinement\<close>

text \<open>The trace does not touch the server's state.\<close>

lemma trace_puts_fields [simp]:
  "g_regs (trace_puts xs s) = g_regs s" "g_cmd (trace_puts xs s) = g_cmd s"
  "g_out (trace_puts xs s) = g_out s" "g_out_len (trace_puts xs s) = g_out_len s"
  "g_body_start (trace_puts xs s) = g_body_start s" "g_state (trace_puts xs s) = g_state s"
  "g_sum (trace_puts xs s) = g_sum s" "g_csum_hi (trace_puts xs s) = g_csum_hi s"
  "g_traced (trace_puts xs s) = g_traced s" "g_last_sig (trace_puts xs s) = g_last_sig s"
  "g_bp (trace_puts xs s) = g_bp s" "g_step_addr (trace_puts xs s) = g_step_addr s"
  "g_step_saved (trace_puts xs s) = g_step_saved s" "g_step_active (trace_puts xs s) = g_step_active s"
  "sent (trace_puts xs s) = sent s" "resumed (trace_puts xs s) = resumed s"
proof -
  have "\<exists>m p. trace_puts xs s = s\<lparr>mem := m, g_put := p\<rparr>"
  proof (induction xs arbitrary: s)
    case Nil
    show ?case by (intro exI [of _ "mem s"] exI [of _ "g_put s"]) (simp add: trace_puts_def)
  next
    case (Cons c xs)
    from Cons [of "trace_putc c s"] show ?case
      by (cases "g_put s < g_end s") (auto simp: trace_puts_def trace_putc_def)
  qed
  then obtain m p where e: "trace_puts xs s = s\<lparr>mem := m, g_put := p\<rparr>" by blast
  show "g_regs (trace_puts xs s) = g_regs s" "g_cmd (trace_puts xs s) = g_cmd s"
    "g_out (trace_puts xs s) = g_out s" "g_out_len (trace_puts xs s) = g_out_len s"
    "g_body_start (trace_puts xs s) = g_body_start s" "g_state (trace_puts xs s) = g_state s"
    "g_sum (trace_puts xs s) = g_sum s" "g_csum_hi (trace_puts xs s) = g_csum_hi s"
    "g_traced (trace_puts xs s) = g_traced s" "g_last_sig (trace_puts xs s) = g_last_sig s"
    "g_bp (trace_puts xs s) = g_bp s" "g_step_addr (trace_puts xs s) = g_step_addr s"
    "g_step_saved (trace_puts xs s) = g_step_saved s" "g_step_active (trace_puts xs s) = g_step_active s"
    "sent (trace_puts xs s) = sent s" "resumed (trace_puts xs s) = resumed s"
    by (simp_all add: e)
qed

lemma trace_cmd_fields [simp]:
  "g_cmd (trace_cmd s) = g_cmd s" "g_regs (trace_cmd s) = g_regs s" "g_bp (trace_cmd s) = g_bp s"
  "sent (trace_cmd s) = sent s" "resumed (trace_cmd s) = resumed s" "g_state (trace_cmd s) = g_state s"
  "g_out_len (trace_cmd s) = g_out_len s" "g_last_sig (trace_cmd s) = g_last_sig s"
  "g_step_active (trace_cmd s) = g_step_active s"
  by (simp_all add: trace_cmd_def Let_def)

text \<open>Effects do not look at the reply buffer.\<close>

lemma bp_do_out:
  "bp_do arg (s\<lparr>g_out := f, g_out_len := n, g_body_start := k\<rparr>) =
    (fst (bp_do arg s), (snd (bp_do arg s))\<lparr>g_out := f, g_out_len := n, g_body_start := k\<rparr>)"
  by (simp add: bp_do_def bp_set_def bp_clear_def bp_lookup_def split: option.split)

lemma cmd_effect_out:
  "cmd_effect p (s\<lparr>g_out := f, g_out_len := n, g_body_start := k\<rparr>) =
    (cmd_effect p s)\<lparr>g_out := f, g_out_len := n, g_body_start := k\<rparr>"
  by (cases "mem_args (tl p)", cases "bp_args p") (simp_all add: cmd_effect_def bp_do_out Let_def)

lemma cmd_reply_out:
  "cmd_reply p (s\<lparr>g_out := f, g_out_len := n, g_body_start := k\<rparr>) = cmd_reply p s"
  by (cases "bp_args p") (simp_all add: cmd_reply_def bp_do_out Let_def)

lemma begin_as_update:
  fixes s :: "'a rsp_st_scheme"
  obtains f n k where "\<And>s' :: 'a rsp_st_scheme. g_out s' = g_out s \<Longrightarrow>
    out_begin_ack ack s' = s'\<lparr>g_out := f, g_out_len := n, g_body_start := k\<rparr>"
proof
  fix s' :: "'a rsp_st_scheme" assume e: "g_out s' = g_out s"
  show "out_begin_ack ack s' = s'
      \<lparr>g_out := g_out (out_begin_ack ack s), g_out_len := if ack then 2 else 1,
       g_body_start := if ack then 2 else 1\<rparr>"
    using e by (simp add: out_begin_ack_def out_ch_def OUT_SIZE_def PACKET_SIZE_def Let_def)
qed

lemma bp_do_g_out: "g_out (snd (bp_do arg s)) = g_out s"
  by (simp add: bp_do_def bp_set_def bp_clear_def split: option.split)

lemma cmd_effect_g_out: "g_out (cmd_effect p s) = g_out s"
  by (cases "mem_args (tl p)", cases "bp_args p") (simp_all add: cmd_effect_def bp_do_g_out Let_def)

lemma cmd_effect_begin: "cmd_effect p (out_begin_ack ack s) = out_begin_ack ack (cmd_effect p s)"
  by (rule begin_as_update [of s ack]) (simp add: cmd_effect_out cmd_effect_g_out)

lemma cmd_reply_begin: "cmd_reply p (out_begin_ack ack s) = cmd_reply p s"
  by (rule begin_as_update [of s ack]) (simp add: cmd_reply_out)

lemma handle_breakpoint_emit:
  "handle_breakpoint p s =
    (case bp_args p of None \<Rightarrow> s
     | Some arg \<Rightarrow> fold out_ch (cs (if fst (bp_do arg s) then ''OK'' else ''E01'')) (snd (bp_do arg s)))"
  by (simp add: handle_breakpoint_def bp_args_def bp_do_def out_str_emit Let_def
      split: list.split prod.split)

lemma write_hex_emit:
  "mem_args p = (addr, len, q) \<Longrightarrow> write_memory_hex p s =
    fold out_ch (cs ''OK'') (s\<lparr>mem := write_hex_loop addr (unat len) (skip_ch CHR '':'' q) (mem s)\<rparr>)"
  by (auto simp: write_memory_hex_def mem_args_def out_str_emit split: prod.splits)

lemma write_bin_emit:
  "mem_args p = (addr, len, q) \<Longrightarrow> write_memory_bin p s =
    fold out_ch (cs ''OK'') (s\<lparr>mem := write_bin_loop addr 0 len (skip_ch CHR '':'' q) (mem s)\<rparr>)"
  by (auto simp: write_memory_bin_def mem_args_def out_str_emit split: prod.splits)

lemma dispatch_body_refines:
  assumes "g_out_len s = 2"
  shows "dispatch_body p s = fold out_ch (cmd_reply p s) (cmd_effect p s)"
proof -
  obtain addr len q where a: "mem_args (tl p) = (addr, len, q)" by (metis prod_cases3)
  show ?thesis
    unfolding dispatch_body_def cmd_reply_def cmd_effect_def Let_def a prod.case is_ch_def
      read_regs_emit read_memory_emit [OF assms] handle_query_emit handle_breakpoint_emit
      write_hex_emit [OF a] write_bin_emit [OF a] write_regs_def out_str_emit out_byte_emit
    by (auto split: option.split)
qed

text \<open>A command that is neither a continue, a step nor a monitor command.\<close>

definition plain_cmd :: "bytes \<Rightarrow> bool" where
  "plain_cmd p \<longleftrightarrow> p \<noteq> [] \<and> \<not> is_ch (hd p) CHR ''c'' \<and> \<not> is_ch (hd p) CHR ''C'' \<and>
     \<not> (is_ch (hd p) CHR ''s'' \<and> length p = 1) \<and>
     (let act = (if prefix p ''vCont;'' \<noteq> 0 then vcont_action (drop 5 p) else 0)
      in \<not> is_ch act CHR ''c'' \<and> \<not> is_ch act CHR ''C'' \<and> \<not> is_ch act CHR ''s'' \<and> \<not> is_ch act CHR ''S'') \<and>
     prefix p ''qRcmd,'' = 0"

lemma dispatch_plain:
  assumes "plain_cmd (g_cmd s)"
  shows "dispatch s = reply True (cmd_reply (g_cmd s) (trace_cmd s)) (cmd_effect (g_cmd s) (trace_cmd s))"
proof -
  define act where "act = (if prefix (g_cmd s) ''vCont;'' \<noteq> 0 then vcont_action (drop 5 (g_cmd s)) else 0)"
  have n: "g_cmd s \<noteq> []"
    "\<not> (is_ch (hd (g_cmd s)) CHR ''c'' \<or> is_ch (hd (g_cmd s)) CHR ''C'')"
    "\<not> (is_ch (hd (g_cmd s)) CHR ''s'' \<and> length (g_cmd s) = 1)"
    "\<not> (is_ch act CHR ''c'' \<or> is_ch act CHR ''C'')" "\<not> (is_ch act CHR ''s'' \<or> is_ch act CHR ''S'')"
    "\<not> prefix (g_cmd s) ''qRcmd,'' \<noteq> 0"
    using assms unfolding plain_cmd_def Let_def act_def [symmetric] by (blast+, simp)
  have "dispatch s = out_finish (dispatch_body (g_cmd s) (out_begin (trace_cmd s)))"
    unfolding dispatch_def Let_def trace_cmd_fields act_def [symmetric] using n
    by (simp only: if_False)
  then show ?thesis
    using dispatch_body_refines [of "out_begin (trace_cmd s)" "g_cmd s"]
    by (simp add: reply_def out_begin_def begin_view cmd_reply_begin cmd_effect_begin)
qed

section \<open>Bounds of the reply texts\<close>

lemma xfer_text_length: "length (xfer_text q) \<le> PACKET_SIZE"
  by (cases "mem_args q") (auto simp: xfer_text_def Let_def PACKET_SIZE_def)

lemma hex_top_le: "hex_top v k \<le> k"
  by (induction k) auto

lemma query_text_length: "length (query_text p) \<le> PACKET_SIZE"
proof -
  have "length (hex_text v) \<le> 8" for v using hex_top_le [of v 7] by (simp add: hex_text_def)
  from this [of "of_nat PACKET_SIZE"] show ?thesis
    using xfer_text_length [of "drop 31 p"] unfolding query_text_def
    by (auto simp: PACKET_SIZE_def)
qed

lemma read_text_length: "length (read_text p m) \<le> PACKET_SIZE"
  by (cases "mem_args p") (simp add: read_text_def PACKET_SIZE_def)

lemma regs_text_length: "length (regs_text r) = 136"
  by (simp add: regs_text_def regs_words_def length_concat comp_def sum_list_triv)

lemma cmd_reply_length: "length (cmd_reply p s) \<le> PACKET_SIZE"
  using query_text_length [of p] read_text_length [of "tl p" "mem s"] regs_text_length [of "g_regs s"]
  by (simp add: cmd_reply_def Let_def PACKET_SIZE_def split: option.split)

text \<open>The memory dump of \<open>md32\<close>.\<close>

definition word_text :: "u32 \<Rightarrow> bytes" where
  "word_text v = cs ''0x'' @ map (\<lambda>k. hexdigit (drop_bit (k * 4) v AND 0xF)) [7, 6, 5, 4, 3, 2, 1, 0]"

definition item_text :: "mem \<Rightarrow> u32 \<Rightarrow> nat \<Rightarrow> nat \<Rightarrow> bytes" where
  "item_text m addr count i =
     (if i mod 4 = 0 then word_text (addr + of_nat i * 4) @ cs '':'' else []) @ [32] @
     word_text (ld32 m (addr + of_nat i * 4)) @ (if i mod 4 = 3 \<or> i + 1 = count then [10] else [])"

lemma mon_str_emit: "mon_str str s = fold out_ch (hex_of str) s"
  by (induction str arbitrary: s) (simp_all add: mon_str_def mon_ch_def out_byte_emit)

lemma mon_word_emit: "mon_word v s = fold out_ch (hex_of (word_text v)) s"
  by (simp add: mon_word_def mon_ch_def mon_str_emit word_text_def out_byte_emit)

lemma md32_item_emit:
  "md32_item addr count i s = fold out_ch (hex_of (item_text (mem s) addr count i)) s"
  unfolding md32_item_def item_text_def Let_def mon_word_emit mon_ch_def out_byte_emit
  by (simp del: of_char_of)

lemma md32_items_emit:
  "fold (md32_item addr count) xs s =
    fold out_ch (hex_of (concat (map (item_text (mem s) addr count) xs))) s"
  by (induction xs arbitrary: s) (simp_all add: md32_item_emit)

lemma length_word_text [simp]: "length (word_text v) = 10"
  by (simp add: word_text_def)

lemma items_text_length:
  "length (concat (map (item_text m addr count) [0..<n])) \<le> 12 * n + 11 * ((n + 3) div 4)"
proof (induction n)
  case (Suc n)
  have "length (item_text m addr count n) \<le> 12 + (if n mod 4 = 0 then 11 else 0)"
    by (simp add: item_text_def)
  moreover have "(Suc n + 3) div 4 = (n + 3) div 4 + (if n mod 4 = 0 then 1 else 0)"
    by (simp, presburger)
  ultimately show ?case using Suc by (auto split: if_splits)
qed simp

section \<open>Packets and the state invariant\<close>

text \<open>What goes out: a bare acknowledgement, a bare refusal, or a frame with its checksum.\<close>

definition wf_packet :: "bytes \<Rightarrow> bool" where
  "wf_packet x \<longleftrightarrow> x = [43] \<or> x = [45] \<or> (\<exists>ack body. x = frame ack body \<and> length x \<le> OUT_SIZE)"

definition rsp_ok :: "'a rsp_st_scheme \<Rightarrow> bool" where
  "rsp_ok s \<longleftrightarrow> length (g_cmd s) \<le> CMD_SIZE \<and> g_out_len s \<le> OUT_SIZE \<and> length (g_bp s) = BP_MAX \<and>
     length (gr (g_regs s)) = 13"

text \<open>From a good state to a good state, with well-formed packets only.\<close>

definition safe_step :: "'a rsp_st_scheme \<Rightarrow> 'a rsp_st_scheme \<Rightarrow> bool" where
  "safe_step s t \<longleftrightarrow> rsp_ok t \<and> (\<exists>ps. sent t = sent s @ ps \<and> list_all wf_packet ps)"

lemma safe_step_refl: "rsp_ok s \<Longrightarrow> safe_step s s"
  by (simp add: safe_step_def)

lemma safe_step_trans: "safe_step s t \<Longrightarrow> safe_step t u \<Longrightarrow> safe_step s u"
  by (auto simp: safe_step_def)

lemma safe_step_cong:
  "safe_step s t \<Longrightarrow> sent s' = sent s \<Longrightarrow> safe_step s' t"
  by (simp add: safe_step_def)

lemma safe_reply:
  assumes "length body \<le> PACKET_SIZE + 11" and "rsp_ok s"
  shows "safe_step s (reply ack body s)"
proof -
  have "length (frame ack body) \<le> OUT_SIZE"
    using assms(1) by (simp add: frame_def OUT_SIZE_def)
  then have "wf_packet (frame ack body)" unfolding wf_packet_def by blast
  moreover obtain f n k where "reply ack body s =
      s\<lparr>g_out := f, g_out_len := n, g_body_start := k, sent := sent s @ [frame ack body]\<rparr>"
    "n \<le> OUT_SIZE"
    by (rule reply_spec [OF assms(1)])
  ultimately show ?thesis
    using assms(2) by (simp add: safe_step_def rsp_ok_def)
qed

lemma send_output_reply: "send_output txt ack s = reply ack (of_char CHR ''O'' # hex_of txt) s"
  by (simp add: send_output_def reply_def out_bytes_emit)

lemma send_text_reply: "send_text txt ack s = reply ack (hex_of txt) s"
  by (simp add: send_text_def reply_def out_bytes_emit)

lemma safe_chunks:
  "rsp_ok s \<Longrightarrow> safe_step s (snd (send_chunks base len off ack s))"
proof (induction base len off ack s rule: send_chunks.induct)
  case (1 base len off ack s)
  show ?case
  proof (cases "off < len")
    case True
    define chunk where "chunk = (if MONITOR_CHUNK < len - off then MONITOR_CHUNK else len - off)"
    have "chunk \<le> MONITOR_CHUNK" by (auto simp: chunk_def)
    then have "unat chunk \<le> 4092"
      by (simp add: word_le_nat_alt MONITOR_CHUNK_def PACKET_SIZE_def)
    then have a: "safe_step s (send_output (mem_range (mem s) (base + off) (unat chunk)) ack s)"
      unfolding send_output_reply using "1.prems" by (intro safe_reply) (simp_all add: PACKET_SIZE_def)
    then have "rsp_ok (send_output (mem_range (mem s) (base + off) (unat chunk)) ack s)"
      by (simp add: safe_step_def)
    then have "safe_step (send_output (mem_range (mem s) (base + off) (unat chunk)) ack s)
        (snd (send_chunks base len (off + chunk) False
          (send_output (mem_range (mem s) (base + off) (unat chunk)) ack s)))"
      by (rule "1.IH" [OF True chunk_def])
    moreover have "send_chunks base len off ack s = send_chunks base len (off + chunk) False
        (send_output (mem_range (mem s) (base + off) (unat chunk)) ack s)"
      unfolding chunk_def using True by (subst send_chunks.simps) (simp only: Let_def if_True)
    ultimately show ?thesis using a by (simp only:) (rule safe_step_trans)
  next
    case False
    with 1 show ?thesis by (simp add: send_chunks.simps [of base len off] safe_step_refl)
  qed
qed

lemma safe_region: "rsp_ok s \<Longrightarrow> safe_step s (send_region base len s)"
proof -
  assume ok: "rsp_ok s"
  obtain ack t where t: "send_chunks base len 0 True s = (ack, t)" by fastforce
  have st: "safe_step s t" using safe_chunks [OF ok, of base len 0 True] t by simp
  have "send_region base len s = reply ack (cs ''OK'') t"
    by (simp add: send_region_def t reply_def out_str_emit)
  with st show ?thesis
    using safe_reply [of "cs ''OK''" t ack] by (auto simp: safe_step_def PACKET_SIZE_def)
qed

lemma dec_256: "dec_string 256 = cs ''256''"
  by (simp add: dec_string.simps)

lemma mon_dec_emit: "mon_dec v s = fold out_ch (hex_of (dec_string (unat v))) s"
  using mon_str_emit [of "dec_string (unat v)" s] by (simp add: mon_dec_def dec_loop_decimal mon_str_def)

definition md32_text :: "mem \<Rightarrow> u32 \<Rightarrow> u32 \<Rightarrow> bytes" where
  "md32_text m addr c =
     (if MD32_MAX < c then cs ''clamped to 256 words'' @ [10] else []) @
     (let n = unat (if MD32_MAX < c then MD32_MAX else c)
      in concat (map (item_text m addr n) [0..<n]))"

lemma md32_text_length: "length (md32_text m addr c) \<le> 3797"
proof -
  define n where "n = unat (if MD32_MAX < c then MD32_MAX else c)"
  have "n \<le> 256" by (auto simp: n_def MD32_MAX_def word_less_nat_alt)
  moreover have "(n + 3) div 4 \<le> 64" using calculation div_le_mono [of "n + 3" 259 4] by simp
  ultimately have "12 * n + 11 * ((n + 3) div 4) \<le> 3776" by linarith
  then show ?thesis
    using items_text_length [of m addr n n] unfolding md32_text_def n_def [symmetric] Let_def
    by (auto simp: length_concat)
qed

lemma monitor_md32_reply:
  "monitor_md32 p s =
    (let p1 = dropWhile (\<lambda>c. c = 32) p; (a, p2) = parse_hex (drop 2 p1);
         c0 = fst (parse_dec (dropWhile (\<lambda>c. c = 32) p2))
     in if starts_with p1 (cs ''0x'')
        then reply True (hex_of (md32_text (mem s) (a AND NOT 3) (if c0 = 0 then 4 else c0))) s
        else reply True (hex_of (cs ''md32: address must be hex with an 0x prefix'' @ [10])) s)"
proof -
  define p1 where "p1 = dropWhile (\<lambda>c. c = (32 :: u8)) p"
  obtain a p2 where a: "parse_hex (drop 2 p1) = (a, p2)" by fastforce
  obtain c0 p3 where c: "parse_dec (dropWhile (\<lambda>c. c = 32) p2) = (c0, p3)" by fastforce
  define c1 where "c1 = (if c0 = 0 then 4 else c0)"
  show ?thesis
  proof (cases "starts_with p1 (cs ''0x'')")
    case True
    have "monitor_md32 p s = reply True (hex_of (md32_text (mem s) (a AND NOT 3) c1)) s"
      using True unfolding monitor_md32_def p1_def [symmetric] Let_def a prod.case c c1_def [symmetric]
      by (simp add: reply_def md32_text_def md32_items_emit mon_str_emit mon_dec_emit Let_def
          dec_256 MD32_MAX_def)
    with True show ?thesis
      unfolding p1_def [symmetric] Let_def a prod.case c c1_def by (simp only: fst_conv if_True)
  next
    case False
    then show ?thesis
      by (simp add: monitor_md32_def Let_def a c send_text_reply flip: p1_def)
  qed
qed

lemma safe_md32: "rsp_ok s \<Longrightarrow> safe_step s (monitor_md32 p s)"
proof -
  assume ok: "rsp_ok s"
  have "length (hex_of (md32_text m addr c)) \<le> PACKET_SIZE + 11" for m addr c
    using md32_text_length [of m addr c] by (simp add: PACKET_SIZE_def)
  then show ?thesis
    unfolding monitor_md32_reply Let_def
    by (auto intro!: safe_reply ok simp: PACKET_SIZE_def split: prod.split simp del: length_hex_of)
qed

lemma safe_monitor: "rsp_ok s \<Longrightarrow> safe_step s (handle_monitor p s)"
  by (simp add: handle_monitor_def Let_def safe_md32 safe_region send_text_reply)
    (auto intro!: safe_reply simp: PACKET_SIZE_def)

lemma length_parse_regs [simp]: "length (parse_regs n p) = n"
  by (induction n arbitrary: p) (simp_all split: prod.split)

lemma bp_do_fields:
  "sent (snd (bp_do arg s)) = sent s" "g_cmd (snd (bp_do arg s)) = g_cmd s"
  "g_out_len (snd (bp_do arg s)) = g_out_len s" "g_regs (snd (bp_do arg s)) = g_regs s"
  "length (g_bp (snd (bp_do arg s))) = length (g_bp s)" "resumed (snd (bp_do arg s)) = resumed s"
  by (simp_all add: bp_do_def bp_set_def bp_clear_def split: option.split)

lemma cmd_effect_ok:
  "rsp_ok s \<Longrightarrow> rsp_ok (cmd_effect p s) \<and> sent (cmd_effect p s) = sent s"
  by (cases "mem_args (tl p)", cases "bp_args p")
    (auto simp: cmd_effect_def rsp_ok_def bp_do_fields regs_of_slots_def Let_def)

lemma rsp_ok_fields:
  "rsp_ok s \<Longrightarrow> g_cmd t = g_cmd s \<Longrightarrow> g_out_len t = g_out_len s \<Longrightarrow> g_bp t = g_bp s \<Longrightarrow>
   gr (g_regs t) = gr (g_regs s) \<Longrightarrow> rsp_ok t"
  by (simp add: rsp_ok_def)

lemma send_plus_fields:
  "sent (send_plus s) = sent s @ [[43]]" "g_cmd (send_plus s) = g_cmd s" "g_out_len (send_plus s) = 1"
  "g_bp (send_plus s) = g_bp s" "g_regs (send_plus s) = g_regs s" "mem (send_plus s) = mem s"
  "g_step_active (send_plus s) = g_step_active s" "g_step_addr (send_plus s) = g_step_addr s"
  "g_step_saved (send_plus s) = g_step_saved s"
  by (simp_all add: send_plus_def musb_bulk_send_def out_bytes_def out_ch_def OUT_SIZE_def PACKET_SIZE_def)

lemma safe_resume: "rsp_ok s \<Longrightarrow> safe_step s (resume p s)"
  by (simp add: resume_def rsp_resume_def safe_step_def rsp_ok_def send_plus_fields trace_hex_puts
      Let_def wf_packet_def OUT_SIZE_def)

lemma safe_step_cmd: "rsp_ok s \<Longrightarrow> safe_step s (do_step s)"
proof -
  assume ok: "rsp_ok s"
  have e: "safe_step s (out_finish (out_str ''E01'' (out_begin s)))"
    using safe_reply [of "cs ''E01''" s True] ok
    by (simp add: reply_def out_begin_def out_str_emit PACKET_SIZE_def)
  have t: "safe_step s (out_finish (out_byte (ucast SIG_TRAP) (out_ch (of_char CHR ''S'') (out_begin s))))"
    using safe_reply [of "of_char CHR ''S'' # hex2 (ucast SIG_TRAP)" s True] ok
    by (simp add: reply_def out_begin_def out_byte_emit PACKET_SIZE_def)
  show ?thesis
    using e t ok
    by (auto simp: do_step_def rsp_resume_here_def rsp_resume_def safe_step_def rsp_ok_def
        send_plus_fields trace_hex_puts Let_def wf_packet_def OUT_SIZE_def split: option.split)
qed

lemma safe_dispatch:
  assumes "rsp_ok s" shows "safe_step s (dispatch s)"
proof -
  define t where "t = trace_cmd s"
  have t: "rsp_ok t" "sent t = sent s" "g_cmd t = g_cmd s"
    using assms by (simp_all add: t_def rsp_ok_def)
  consider "g_cmd s = []" | "plain_cmd (g_cmd s)" | "g_cmd s \<noteq> []" "\<not> plain_cmd (g_cmd s)" by blast
  then have "safe_step t (dispatch s)"
  proof cases
    case 1
    with t show ?thesis
      using safe_reply [of "[]" t True] by (simp add: dispatch_def Let_def reply_def out_begin_def flip: t_def)
  next
    case 2
    have "safe_step (cmd_effect (g_cmd s) t) (reply True (cmd_reply (g_cmd s) t) (cmd_effect (g_cmd s) t))"
      using cmd_reply_length [of "g_cmd s" t] cmd_effect_ok [OF t(1)] by (intro safe_reply) auto
    then show ?thesis
      using cmd_effect_ok [OF t(1)] by (simp add: dispatch_plain [OF 2] safe_step_def flip: t_def)
  next
    case 3
    then have "dispatch s \<in> {resume (tl (g_cmd s)) t, do_step t, resume [] t,
        handle_monitor (drop (prefix (g_cmd s) ''qRcmd,'') (g_cmd s)) t}"
      unfolding dispatch_def Let_def t_def [symmetric] t(3) plain_cmd_def by (auto split: if_splits)
    then show ?thesis
      using safe_resume [OF t(1)] safe_step_cmd [OF t(1)] safe_monitor [OF t(1)] by auto
  qed
  then show ?thesis by (rule safe_step_cong) (simp add: t)
qed

lemma safe_feed_byte:
  assumes "rsp_ok s" shows "safe_step s (feed_byte c s)"
proof -
  have d: "safe_step s (dispatch (s\<lparr>g_state := ST_IDLE\<rparr>))"
    by (rule safe_step_cong [OF safe_dispatch]) (use assms in \<open>simp_all add: rsp_ok_def\<close>)
  have "safe_step s (send_minus (s\<lparr>g_state := ST_IDLE\<rparr>))"
    using assms by (simp add: send_minus_def musb_bulk_send_def out_bytes_def out_ch_def safe_step_def
        rsp_ok_def wf_packet_def OUT_SIZE_def PACKET_SIZE_def)
  with d show ?thesis
    using assms by (auto simp: feed_byte_def safe_step_def rsp_ok_def Let_def split: parser_state.split)
qed

lemma feed_body_loop_bound:
  "feed_body_loop data cmd sm = (rest, cmd', sm', d) \<Longrightarrow> length cmd \<le> CMD_SIZE \<Longrightarrow> length cmd' \<le> CMD_SIZE"
  by (induction data cmd sm rule: feed_body_loop.induct) (auto split: if_splits)

lemma safe_feed_body:
  assumes "rsp_ok s" shows "safe_step s (snd (feed_body data s))"
proof -
  obtain r cmd sm d where f: "feed_body_loop data (g_cmd s) (g_sum s) = (r, cmd, sm, d)"
    by (metis prod_cases4)
  with assms feed_body_loop_bound [OF f] show ?thesis
    by (simp add: feed_body_def safe_step_def rsp_ok_def)
qed

lemma safe_feed: "rsp_ok s \<Longrightarrow> safe_step s (rsp_feed data s)"
proof (induction data s rule: rsp_feed.induct)
  case (1 data s)
  obtain rest s1 where b: "feed_body data s = (rest, s1)" by fastforce
  have s1: "safe_step s s1" using safe_feed_body [OF "1.prems", of data] b by simp
  have fb: "safe_step s (feed_byte (hd data) s)" using "1.prems" by (rule safe_feed_byte)
  consider "data = [] \<or> resumed s \<noteq> None" | "\<not> (data = [] \<or> resumed s \<noteq> None)" "g_state s \<noteq> ST_BODY"
    | "\<not> (data = [] \<or> resumed s \<noteq> None)" "\<not> g_state s \<noteq> ST_BODY" "g_state s1 = ST_BODY \<and> rest \<noteq> []"
    | "\<not> (data = [] \<or> resumed s \<noteq> None)" "\<not> g_state s \<noteq> ST_BODY" "\<not> (g_state s1 = ST_BODY \<and> rest \<noteq> [])"
    by blast
  then show ?case
  proof cases
    case 1
    with "1.prems" show ?thesis by (simp add: rsp_feed.simps [of data s] safe_step_refl)
  next
    case 2
    have "safe_step (feed_byte (hd data) s) (rsp_feed (tl data) (feed_byte (hd data) s))"
      using fb by (intro "1.IH"(1) [OF 2]) (simp add: safe_step_def)
    with 2 safe_step_trans [OF fb] show ?thesis by (simp add: rsp_feed.simps [of data s])
  next
    case 3
    have "safe_step (s1\<lparr>g_state := ST_CSUM1\<rparr>) (rsp_feed (tl rest) (s1\<lparr>g_state := ST_CSUM1\<rparr>))"
      using s1 by (intro "1.IH"(2) [OF 3(1,2) b [symmetric] refl 3(3)]) (simp add: safe_step_def rsp_ok_def)
    with 3 s1 show ?thesis
      by (simp add: rsp_feed.simps [of data s] b) (auto simp: safe_step_def)
  next
    case 4
    have "safe_step s1 (rsp_feed rest s1)"
      using s1 by (intro "1.IH"(3) [OF 4(1,2) b [symmetric] refl 4(3)]) (simp add: safe_step_def)
    with 4 safe_step_trans [OF s1] show ?thesis by (auto simp: rsp_feed.simps [of data s] b)
  qed
qed

section \<open>Framing\<close>

lemma feed_body_loop_append:
  "feed_body_loop (a @ b) cmd sm =
    (let (r, c, x, d) = feed_body_loop a cmd sm in if r = [] \<and> \<not> d then feed_body_loop b c x else (r @ b, c, x, d))"
  by (induction a cmd sm rule: feed_body_loop.induct) auto

lemma feed_body_loop_dropped: "feed_body_loop data cmd sm = (r, c, x, True) \<Longrightarrow> r \<noteq> []"
  by (induction data cmd sm rule: feed_body_loop.induct) (auto split: if_splits)

lemma feed_body_append:
  assumes "feed_body a s = (r, t)" and "g_state s = ST_BODY"
  shows "feed_body (a @ b) s = (if r = [] \<and> g_state t = ST_BODY then feed_body b t else (r @ b, t))"
proof -
  obtain r' c x d where f: "feed_body_loop a (g_cmd s) (g_sum s) = (r', c, x, d)" by (metis prod_cases4)
  then have r: "r' = r" "t = s\<lparr>g_state := if d then ST_IDLE else ST_BODY, g_cmd := c, g_sum := x\<rparr>"
    using assms by (auto simp: feed_body_def)
  show ?thesis
  proof (cases "r = [] \<and> \<not> d")
    case True
    with f r assms(2) show ?thesis
      by (simp add: feed_body_def feed_body_loop_append split: prod.split)
  next
    case False
    with f r assms(2) show ?thesis
      by (auto simp: feed_body_def feed_body_loop_append dest: feed_body_loop_dropped)
  qed
qed

lemma rsp_feed_Nil [simp]: "rsp_feed [] s = s"
  by (simp add: rsp_feed.simps)

lemma rsp_feed_resumed: "resumed s \<noteq> None \<Longrightarrow> rsp_feed data s = s"
  by (simp add: rsp_feed.simps)

lemma feed_body_resumed: "feed_body a s = (r, t) \<Longrightarrow> resumed t = resumed s"
  by (auto simp: feed_body_def split: prod.splits if_splits)

lemma rsp_feed_split: "rsp_feed (a @ b) s = rsp_feed b (rsp_feed a s)"
proof (induction a s rule: rsp_feed.induct)
  case (1 a s)
  obtain r t where b: "feed_body a s = (r, t)" by fastforce
  consider "a = []" | "resumed s \<noteq> None" | "\<not> (a = [] \<or> resumed s \<noteq> None)" "g_state s \<noteq> ST_BODY"
    | "\<not> (a = [] \<or> resumed s \<noteq> None)" "\<not> g_state s \<noteq> ST_BODY" "g_state t = ST_BODY \<and> r \<noteq> []"
    | "\<not> (a = [] \<or> resumed s \<noteq> None)" "\<not> g_state s \<noteq> ST_BODY" "\<not> (g_state t = ST_BODY \<and> r \<noteq> [])"
    by blast
  then show ?case
  proof cases
    case 2
    then show ?thesis by (simp add: rsp_feed_resumed)
  next
    case 3
    with "1.IH"(1) [OF 3] show ?thesis
      by (simp add: rsp_feed.simps [of "a @ b" s] rsp_feed.simps [of a s])
  next
    case 4
    have "feed_body (a @ b) s = (r @ b, t)"
      using 4 feed_body_append [OF b] by simp
    with 4 "1.IH"(2) [OF 4(1,2) b [symmetric] refl 4(3)] show ?thesis
      by (simp add: rsp_feed.simps [of "a @ b" s] rsp_feed.simps [of a s] b)
  next
    case 5
    have a: "rsp_feed a s = rsp_feed r t" using 5 by (auto simp: rsp_feed.simps [of a s] b)
    show ?thesis
    proof (cases "r = [] \<and> g_state t = ST_BODY")
      case True
      then have e: "feed_body (a @ b) s = feed_body b t" using 5 feed_body_append [OF b] by simp
      show ?thesis
      proof (cases "b = []")
        case False
        with True 5 e a feed_body_resumed [OF b] show ?thesis
          by (simp add: rsp_feed.simps [of "a @ b" s] rsp_feed.simps [of b t])
      qed simp
    next
      case False
      then have "feed_body (a @ b) s = (r @ b, t)" using 5 feed_body_append [OF b] by auto
      moreover from False 5 have "g_state t \<noteq> ST_BODY" by auto
      ultimately show ?thesis
        using 5 "1.IH"(3) [OF 5(1,2) b [symmetric] refl 5(3)] a
        by (simp add: rsp_feed.simps [of "a @ b" s])
    qed
  qed simp
qed

end
