(* ===== verification/RspProps.thy ===== *)
theory RspProps
  imports RspSpec
begin

text \<open>
  Properties of the remote-protocol server: framing, memory access, registers, breakpoints and
  single steps.
\<close>

section \<open>Whole packets\<close>

lemma hexval_cases: "hexval c = 0xFFFFFFFF \<or> hexval c < 16"
proof -
  have "unat c < 256" using unat_bound [of c] by simp
  then have u: "unat (ucast c :: u32) = unat c" by (simp add: unsigned_ucast_eq take_bit_nat_eq_self)
  consider "48 \<le> c \<and> c \<le> 57" | "97 \<le> c \<and> c \<le> 102" | "65 \<le> c \<and> c \<le> 70"
    | "\<not> (48 \<le> c \<and> c \<le> 57)" "\<not> (97 \<le> c \<and> c \<le> 102)" "\<not> (65 \<le> c \<and> c \<le> 70)" by blast
  then show ?thesis
  proof cases
    case 1
    then have "unat (ucast c - 48 :: u32) = unat c - 48" using u by (simp add: unat_sub word_le_nat_alt)
    with 1 show ?thesis by (auto simp: hexval_def word_less_nat_alt word_le_nat_alt)
  next
    case 2
    then have d: "unat (ucast c - 97 :: u32) = unat c - 97" using u by (simp add: unat_sub word_le_nat_alt)
    then have "unat (ucast c - 97 + 10 :: u32) = unat c - 97 + 10"
      using 2 by (subst unat_word_ariths) (auto simp: word_le_nat_alt)
    with 2 show ?thesis by (auto simp: hexval_def word_less_nat_alt word_le_nat_alt)
  next
    case 3
    then have d: "unat (ucast c - 65 :: u32) = unat c - 65" using u by (simp add: unat_sub word_le_nat_alt)
    then have "unat (ucast c - 65 + 10 :: u32) = unat c - 65 + 10"
      using 3 by (subst unat_word_ariths) (auto simp: word_le_nat_alt)
    with 3 show ?thesis by (auto simp: hexval_def word_less_nat_alt word_le_nat_alt)
  next
    case 4
    then have "hexval c = 0xFFFFFFFF" unfolding hexval_def by (simp only: if_False)
    then show ?thesis by simp
  qed
qed

text \<open>Every digit printed is read back.\<close>

lemma hexval_hexdigit: "v < 16 \<Longrightarrow> hexval (hexdigit v) = v"
proof -
  assume "v < 16"
  then have v: "v = of_nat (unat v)" "unat v < 16" by (simp_all add: word_less_nat_alt)
  have "list_all (\<lambda>n. hexval (hexdigit (of_nat n)) = of_nat n) [0..<16]" by code_simp
  then have "hexval (hexdigit (of_nat n)) = of_nat n" if "n < 16" for n
    using that by (simp add: list_all_iff)
  with v show ?thesis by metis
qed

lemma nibbles_less: "ucast (drop_bit 4 (b :: u8)) < (16 :: u32)" "ucast (b AND 0xF) < (16 :: u32)"
proof -
  have "unat b < 256" using unat_bound [of b] by simp
  then show "ucast (drop_bit 4 b) < (16 :: u32)"
    by (simp add: word_less_nat_alt unsigned_ucast_eq unat_drop_bit take_bit_nat_eq_self less_mult_imp_div_less)
  have "b AND 0xF \<le> 0xF" by (rule word_and_le1)
  then show "ucast (b AND 0xF) < (16 :: u32)"
    by (simp add: word_less_nat_alt word_le_nat_alt unsigned_ucast_eq take_bit_nat_eq_self)
qed

lemma hex2_join:
  fixes b :: u8
  shows "push_bit 4 (ucast (drop_bit 4 b)) OR ucast (b AND 0xF) = (ucast b :: u32)"
proof -
  have m: "(0xF :: u8) = mask 4" by (simp add: mask_eq_exp_minus_1)
  show ?thesis
    unfolding m by (rule bit_word_eqI) (auto simp: bit_simps dest: bit_u8_less)
qed

lemma hex2_pair: "push_bit 4 (hexval (hex2 b ! 0)) OR hexval (hex2 b ! 1) = ucast b"
  by (simp add: hex2_def hexval_hexdigit nibbles_less hex2_join)

lemma hex2_value:
  "hex2 b = [c0, c1] \<Longrightarrow> push_bit 4 (hexval c0) OR hexval c1 = ucast b"
  using hex2_pair [of b] by (simp add: hex2_def)

lemma ucast_u8_u32 [simp]: "ucast (ucast b :: u32) = (b :: u8)"
  by (rule bit_word_eqI) (auto simp: bit_simps)

lemma feed_body_loop_run:
  "35 \<notin> set body \<Longrightarrow> length cmd + length body \<le> CMD_SIZE \<Longrightarrow>
   feed_body_loop body cmd sm = ([], cmd @ body, sm + sum_list (map ucast body), False)"
  by (induction body arbitrary: cmd sm) (auto simp: is_ch_def algebra_simps)

definition packet_state :: "bytes \<Rightarrow> u8 \<Rightarrow> 'a rsp_st_scheme \<Rightarrow> 'a rsp_st_scheme" where
  "packet_state body h s =
     s\<lparr>g_cmd := body, g_sum := sum_list (map ucast body), g_csum_hi := h, g_state := ST_IDLE\<rparr>"

lemma low_byte: "(w :: u32) AND 0xFF = ucast (ucast w :: u8)"
proof -
  have m: "(0xFF :: u32) = mask 8" by (simp add: mask_eq_exp_minus_1)
  show ?thesis unfolding m by (rule bit_word_eqI) (auto simp: bit_simps)
qed

lemma rsp_feed_packet:
  assumes "g_state s = ST_IDLE" and "resumed s = None" and "35 \<notin> set body" and "length body \<le> CMD_SIZE"
  shows "rsp_feed (36 # body @ [35, h, l]) s =
    (if push_bit 4 (hexval h) OR hexval l = ucast (sum_list body)
     then dispatch (packet_state body h s) else send_minus (packet_state body h s))"
proof -
  define s1 where "s1 = s\<lparr>g_cmd := [], g_sum := 0, g_state := ST_BODY\<rparr>"
  define s2 where "s2 = s1\<lparr>g_cmd := body, g_sum := sum_list (map ucast body)\<rparr>"
  have 1: "rsp_feed [36] s = s1"
    using assms by (simp add: rsp_feed.simps feed_byte_def is_ch_def s1_def)
  have 2: "rsp_feed body s1 = s2"
    using assms(2,4) feed_body_loop_run [OF assms(3), of "[]" 0]
    by (cases "body = []")
      (simp_all add: rsp_feed.simps [of body] feed_body_def s1_def s2_def)
  have 3: "rsp_feed [35] s2 = s2\<lparr>g_state := ST_CSUM1\<rparr>"
    using assms(2) by (simp add: rsp_feed.simps feed_body_def s1_def s2_def is_ch_def)
  have 4: "rsp_feed [h, l] (s2\<lparr>g_state := ST_CSUM1\<rparr>) =
      (if push_bit 4 (hexval h) OR hexval l = ucast (sum_list body)
       then dispatch (packet_state body h s) else send_minus (packet_state body h s))"
    using assms(1,2) ucast_sum_list [of body]
    by (simp add: rsp_feed.simps feed_byte_def s1_def s2_def packet_state_def low_byte Let_def)
  have "rsp_feed (36 # body @ [35, h, l]) s = rsp_feed ([36] @ body @ [35] @ [h, l]) s" by simp
  also have "\<dots> = rsp_feed [h, l] (rsp_feed [35] (rsp_feed body (rsp_feed [36] s)))"
    by (simp only: rsp_feed_split)
  finally show ?thesis by (simp only: 1 2 3 4)
qed

section \<open>Numbers on the wire\<close>

lemma nibble_less: "(x :: u32) AND 0xF < 16"
proof -
  have "x AND 0xF \<le> 0xF" by (rule word_and_le1)
  then show ?thesis by (simp add: word_less_nat_alt word_le_nat_alt)
qed

lemma nibble_hex: "hexval (hexdigit (x AND 0xF)) = x AND 0xF"
  by (rule hexval_hexdigit) (rule nibble_less)

lemma nibble_not_invalid: "(x :: u32) AND 0xF \<noteq> 0xFFFFFFFF"
  using nibble_less [of x] by auto

lemma nibble_step:
  fixes v w :: u32
  shows "push_bit (4 * k) (push_bit 4 w OR (drop_bit (4 * k) v AND 0xF)) OR take_bit (4 * k) v =
    push_bit (4 * Suc k) w OR take_bit (4 * Suc k) v"
proof -
  have m: "(0xF :: u32) = mask 4" by (simp add: mask_eq_exp_minus_1)
  show ?thesis
    unfolding m
  proof (rule bit_word_eqI)
    fix n assume "n < LENGTH(32)"
    then show "bit (push_bit (4 * k) (push_bit 4 w OR (drop_bit (4 * k) v AND mask 4)) OR take_bit (4 * k) v) n
        = bit (push_bit (4 * Suc k) w OR take_bit (4 * Suc k) v) n"
      by (cases "n < 4 * k"; cases "n < 4 * Suc k") (auto simp: bit_simps add.commute)
  qed
qed

lemma parse_digits:
  "parse_hex_from w (map (\<lambda>i. hexdigit (drop_bit (4 * i) v AND 0xF)) (rev [0..<k]) @ rest) =
    parse_hex_from (push_bit (4 * k) w OR take_bit (4 * k) v) rest"
proof (induction k arbitrary: w)
  case (Suc k)
  show ?case
    using Suc [of "push_bit 4 w OR (drop_bit (4 * k) v AND 0xF)"] nibble_step [of k w v]
    by (simp add: nibble_hex nibble_not_invalid Let_def)
qed simp

lemma drop_nibble:
  fixes v :: u32
  assumes "drop_bit n v AND 0xF = 0" and "drop_bit (n + 4) v = 0"
  shows "drop_bit n v = 0"
proof -
  have m: "(0xF :: u32) = mask 4" by (simp add: mask_eq_exp_minus_1)
  have "\<not> bit v (n + i)" for i
  proof (cases "i < 4")
    case True
    have "bit (drop_bit n v AND mask 4) i = bit v (n + i)" using True by (simp add: bit_simps)
    then show ?thesis using assms(1) unfolding m by simp
  next
    case False
    then have "bit (drop_bit (n + 4) v) (i - 4) = bit v (n + i)" by (simp add: bit_simps)
    then show ?thesis using assms(2) by simp
  qed
  then show ?thesis by (simp add: bit_eq_iff bit_simps)
qed

lemma hex_top_zero: "drop_bit (4 * Suc k) v = 0 \<Longrightarrow> drop_bit (4 * Suc (hex_top v k)) v = 0"
proof (induction k)
  case (Suc k)
  then show ?case
    using drop_nibble [of "4 * Suc k" v] by (auto simp: algebra_simps)
qed simp

definition nonhex :: "bytes \<Rightarrow> bool" where
  "nonhex p \<longleftrightarrow> (case p of [] \<Rightarrow> True | c # _ \<Rightarrow> hexval c = 0xFFFFFFFF)"

lemma parse_hex_nonhex: "nonhex rest \<Longrightarrow> parse_hex_from v rest = (v, rest)"
  by (cases rest) (simp_all add: nonhex_def)

lemma parse_hex_text: "nonhex rest \<Longrightarrow> parse_hex (hex_text v @ rest) = (v, rest)"
proof -
  assume r: "nonhex rest"
  define k where "k = Suc (hex_top v 7)"
  have "drop_bit (4 * k) v = 0"
    unfolding k_def by (rule hex_top_zero) (rule bit_word_eqI, auto simp: bit_simps dest: bit_imp_le_length)
  then have "take_bit (4 * k) v = v"
    by (metis bits_ident add.left_neutral push_bit_of_0)
  then show ?thesis
    using r by (simp only: parse_hex_def hex_text_def parse_digits flip: k_def) (simp add: parse_hex_nonhex)
qed

lemma hexdigit_range: "v < 16 \<Longrightarrow> hexdigit v \<noteq> 35"
  using hexval_hexdigit [of v] by (auto simp: hexval_def)

lemma no_hash:
  "35 \<notin> set (hex_text v)" "35 \<notin> set (hex_of bs)"
proof -
  show "35 \<notin> set (hex_text v)"
    using hexdigit_range [OF nibble_less] by (auto simp: hex_text_def)
  show "35 \<notin> set (hex_of bs)"
    using hexdigit_range [OF nibbles_less(1)] hexdigit_range [OF nibbles_less(2)]
    by (induction bs) (auto simp: hex2_def)
qed

lemma checksum_digits:
  "push_bit 4 (hexval h) OR hexval l = ucast (b :: u8) \<longleftrightarrow>
    hexval h < 16 \<and> hexval l < 16 \<and> 16 * hexval h + hexval l = ucast b"
proof (cases "hexval h < 16 \<and> hexval l < 16")
  case True
  have hl: "\<not> bit (hexval l) n" if "4 \<le> n" for n
  proof -
    have "unat (hexval l) < 2 ^ 4" using True by (simp add: word_less_nat_alt)
    then have "\<not> bit (unat (hexval l)) n"
      using that by (metis bit_take_bit_iff not_less take_bit_nat_eq_self)
    then show ?thesis by (auto simp: bit_unsigned_iff dest: bit_imp_le_length)
  qed
  have "push_bit 4 (hexval h) OR hexval l = push_bit 4 (hexval h) + hexval l"
    by (rule disjunctive_add [symmetric]) (auto simp: bit_simps hl)
  with True show ?thesis by (simp add: push_bit_eq_mult mult.commute)
next
  case False
  then have inv: "hexval h = 0xFFFFFFFF \<or> hexval l = 0xFFFFFFFF"
    using hexval_cases by blast
  have "bit (push_bit 4 (hexval h) OR hexval l) 31"
    using inv by (auto simp: bit_simps)
  moreover have "\<not> bit (ucast b :: u32) 31" by (simp add: bit_simps)
  ultimately show ?thesis using False by metis
qed

section \<open>One command over the wire\<close>

lemma cmd_effect_fields [simp]:
  "sent (cmd_effect p s) = sent s" "g_state (cmd_effect p s) = g_state s"
  "resumed (cmd_effect p s) = resumed s" "g_put (cmd_effect p s) = g_put s"
  "g_end (cmd_effect p s) = g_end s"
  by (cases "mem_args (tl p)", cases "bp_args p";
      simp add: cmd_effect_def bp_do_def bp_set_def bp_clear_def Let_def split: option.split)+

text \<open>The state in which a command runs: its packet has been taken in and traced.\<close>

definition cmd_state :: "bytes \<Rightarrow> 'a rsp_st_scheme \<Rightarrow> 'a rsp_st_scheme" where
  "cmd_state body s = trace_cmd (packet_state body (hex2 (sum_list body) ! 0) s)"

lemma frame_False: "frame False body = 36 # body @ [35, hex2 (sum_list body) ! 0, hex2 (sum_list body) ! 1]"
  by (simp add: frame_def hex2_def)

lemma plain_packet:
  assumes "g_state s = ST_IDLE" and "resumed s = None" and "35 \<notin> set body" and "length body \<le> CMD_SIZE"
    and "plain_cmd body"
  obtains f n k where "rsp_feed (frame False body) s =
    (cmd_effect body (cmd_state body s))\<lparr>g_out := f, g_out_len := n, g_body_start := k,
      sent := sent s @ [frame True (cmd_reply body (cmd_state body s))]\<rparr>"
proof -
  define t where "t = packet_state body (hex2 (sum_list body) ! 0) s"
  have c: "g_cmd t = body" "sent t = sent s" by (simp_all add: t_def packet_state_def)
  have "rsp_feed (frame False body) s = dispatch t"
    unfolding frame_False t_def using rsp_feed_packet [OF assms(1-4)] hex2_pair [of "sum_list body"] by simp
  also have "\<dots> = reply True (cmd_reply body (cmd_state body s)) (cmd_effect body (cmd_state body s))"
    using dispatch_plain [of t] assms(5) by (simp add: c cmd_state_def flip: t_def)
  finally have r: "rsp_feed (frame False body) s =
      reply True (cmd_reply body (cmd_state body s)) (cmd_effect body (cmd_state body s))" .
  have "length (cmd_reply body (cmd_state body s)) \<le> PACKET_SIZE + 11"
    using cmd_reply_length [of body "cmd_state body s"] by simp
  from reply_spec [OF this, of True "cmd_effect body (cmd_state body s)"] obtain f n k where
    "reply True (cmd_reply body (cmd_state body s)) (cmd_effect body (cmd_state body s)) =
      (cmd_effect body (cmd_state body s))\<lparr>g_out := f, g_out_len := n, g_body_start := k,
      sent := sent (cmd_effect body (cmd_state body s)) @ [frame True (cmd_reply body (cmd_state body s))]\<rparr>"
    by metis
  moreover have "sent (cmd_effect body (cmd_state body s)) = sent s"
    using c by (simp add: cmd_state_def flip: t_def)
  ultimately show ?thesis using r that by simp
qed

lemma cmd_state_fields [simp]:
  "g_state (cmd_state body s) = ST_IDLE" "resumed (cmd_state body s) = resumed s"
  "g_regs (cmd_state body s) = g_regs s" "g_bp (cmd_state body s) = g_bp s"
  by (simp_all add: cmd_state_def packet_state_def)

text \<open>Tracing writes nothing outside the trace buffer.\<close>

definition untraced :: "u32 \<Rightarrow> bool" where
  "untraced x \<longleftrightarrow> 65536 \<le> unat (x - TRACE_BASE)"

lemma trace_puts_untraced:
  assumes "trace_good s" and "untraced x"
  shows "mem (trace_puts xs s) x = mem s x"
  using assms(1)
proof (induction xs arbitrary: s)
  case (Cons c xs)
  have "x \<noteq> g_put s"
  proof
    assume "x = g_put s"
    then have "unat (x - TRACE_BASE) = unat (g_put s) - unat TRACE_BASE"
      using Cons.prems by (simp add: trace_good_def unat_sub)
    then show False
      using Cons.prems assms(2) \<open>x = g_put s\<close>
      by (auto simp: trace_good_def untraced_def trace_layout word_le_nat_alt)
  qed
  then have "mem (trace_putc c s) x = mem s x" by (simp add: trace_putc_def)
  moreover have "trace_good (trace_putc c s)" using Cons.prems by (rule trace_sink.good_putc)
  ultimately show ?case using Cons.IH [of "trace_putc c s"] by (simp add: trace_puts_def)
qed (simp add: trace_puts_def)

lemma trace_good_puts: "trace_good s \<Longrightarrow> trace_good (trace_puts xs s)"
  unfolding trace_puts_def by (rule trace_sink.good_fold)

lemma trace_good_cong: "g_put t = g_put s \<Longrightarrow> g_end t = g_end s \<Longrightarrow> trace_good t = trace_good s"
  by (simp add: trace_good_def)

lemma cmd_state_trace:
  assumes "trace_good s"
  shows "trace_good (cmd_state body s)" and "untraced x \<Longrightarrow> mem (cmd_state body s) x = mem s x"
proof -
  define t where "t = packet_state body (hex2 (sum_list body) ! 0) s"
  define u where "u = t\<lparr>g_traced := g_traced t + 1\<rparr>"
  have g: "trace_good t" "trace_good u" "mem u = mem s" "mem t = mem s"
    using assms by (auto simp: trace_good_def t_def u_def packet_state_def)
  have "cmd_state body s = t \<or> (\<exists>xs. cmd_state body s = trace_puts xs u)"
    unfolding cmd_state_def trace_cmd_def Let_def t_def [symmetric] u_def [symmetric]
    by (auto simp: trace_puts_append)
  then show "trace_good (cmd_state body s)" and "untraced x \<Longrightarrow> mem (cmd_state body s) x = mem s x"
    using g by (auto simp: trace_good_puts trace_puts_untraced)
qed

section \<open>Memory\<close>

lemma write_hex_loop_put: "write_hex_loop a k (hex_of bs) m = mem_put m a (take k bs)"
proof (induction bs arbitrary: a k m)
  case (Cons b bs)
  then show ?case
    using hex2_pair [of b] by (cases k) (simp_all add: hex2_def fun_upd_def)
qed simp

lemma mem_range_put:
  "length bs \<le> 2 ^ 32 \<Longrightarrow> mem_range (mem_put m a bs) a (length bs) = bs"
  by (rule nth_equalityI) (simp_all add: mem_put_apply unat_of_nat)

lemma mem_args_text:
  "nonhex rest \<Longrightarrow> mem_args (hex_text a @ 44 # hex_text n @ rest) = (a, n, rest)"
  by (simp add: mem_args_def parse_hex_text nonhex_def skip_ch_def hexval_def)

text \<open>The bytes of a binary write with its escapes undone; an escape at the very end stands for
  itself.\<close>

fun unescape :: "bytes \<Rightarrow> bytes" where
  "unescape [] = []"
| "unescape [b] = [b]"
| "unescape (b # c # p) = (if b = 0x7D then (c XOR 0x20) # unescape p else b # unescape (c # p))"

lemma unescape_Cons: "b \<noteq> 0x7D \<Longrightarrow> unescape (b # p) = b # unescape p"
  by (cases p) simp_all

lemma unescape_word_run:
  assumes "word_run p"
  shows "unescape p = p ! 0 # p ! 1 # p ! 2 # p ! 3 # unescape (drop 4 p)"
proof -
  obtain b0 b1 b2 b3 q where p: "p = b0 # b1 # b2 # b3 # q"
    using assms by (auto simp: word_run_def numeral_eq_Suc Suc_le_length_iff)
  with assms show ?thesis by (simp add: word_run_def unescape_Cons numeral_eq_Suc)
qed

lemma unescape_step:
  assumes "p \<noteq> []"
    and "(b, q) = (if hd p = 0x7D \<and> tl p \<noteq> [] then (hd (tl p) XOR 0x20, tl (tl p)) else (hd p, tl p))"
  shows "unescape p = b # unescape q" and "length q < length p"
  using assms by (cases p rule: unescape.cases; auto split: if_splits)+

lemma word_store_put:
  "a AND 3 = 0 \<Longrightarrow> st32 m a (ucast b0 OR push_bit 8 (ucast b1) OR push_bit 16 (ucast b2) OR push_bit 24 (ucast b3))
    = mem_put m a [b0, b1, b2, b3]"
  using le32_of_le32 [of b0 b1 b2 b3] unfolding st32_def of_le32_def by (simp only: aligned_low_bits)

lemma write_bin_loop_put:
  assumes "unat i + length p < 2 ^ 32"
  shows "write_bin_loop addr i len p m = mem_put m (addr + i) (take (unat len - unat i) (unescape p))"
  using assms
proof (induction addr i len p m rule: write_bin_loop.induct)
  case (1 addr i len p m)
  show ?case
  proof (cases "i < len \<and> p \<noteq> []")
    case False
    then show ?thesis
      by (auto simp: write_bin_loop.simps [of addr i len p m] word_less_nat_alt)
  next
    case True
    then have d: "unat len - unat i = Suc (unat len - Suc (unat i))"
      by (auto simp: word_less_nat_alt)
    show ?thesis
    proof (cases "(addr + i) AND 3 = 0 \<and> i + 4 \<le> len \<and> word_run p")
      case w: True
      then have "4 \<le> length p" by (simp add: word_run_def)
      with "1.prems" have i4: "unat (i + 4) = unat i + 4" by (subst unat_word_ariths) simp
      with w have "4 \<le> unat len - unat i" by (auto simp: word_le_nat_alt)
      then obtain k where k: "unat len - unat i = Suc (Suc (Suc (Suc k)))" "unat len - unat (i + 4) = k"
        unfolding i4 by (auto simp: numeral_eq_Suc Suc_le_eq dest!: less_imp_Suc_add)
      have "write_bin_loop addr i len p m = write_bin_loop addr (i + 4) len (drop 4 p)
          (mem_put m (addr + i) [p ! 0, p ! 1, p ! 2, p ! 3])"
        using True w by (simp add: write_bin_loop.simps [of addr i len p m] word_store_put del: mem_put.simps)
      also have "\<dots> = mem_put (mem_put m (addr + i) [p ! 0, p ! 1, p ! 2, p ! 3]) (addr + i + 4)
          (take k (unescape (drop 4 p)))"
        using "1.IH"(1) [OF True w] w "1.prems" i4 \<open>4 \<le> length p\<close>
        by (simp add: word_store_put k(2) [unfolded i4] add.assoc del: mem_put.simps)
      finally show ?thesis
        using mem_put_append [of m "addr + i" "[p ! 0, p ! 1, p ! 2, p ! 3]"] w
        by (simp add: k(1) unescape_word_run)
    next
      case w: False
      obtain b q where bq: "(b, q) =
          (if hd p = 0x7D \<and> tl p \<noteq> [] then (hd (tl p) XOR 0x20, tl (tl p)) else (hd p, tl p))"
        by (metis surj_pair)
      have u: "unescape p = b # unescape q" "length q < length p"
        using unescape_step [OF _ bq] True by auto
      have i1: "unat (i + 1) = Suc (unat i)"
        using True unat_plus_1_less [of i len] by simp
      have "write_bin_loop addr i len p m = write_bin_loop addr (i + 1) len q (m(addr + i := b))"
        using True w unfolding write_bin_loop.simps [of addr i len p m]
        by (simp only: if_True if_False bq [symmetric] Let_def prod.case simp_thms)
      moreover have "write_bin_loop addr (i + 1) len q (m(addr + i := b)) =
          mem_put (m(addr + i := b)) (addr + (i + 1)) (take (unat len - Suc (unat i)) (unescape q))"
        using "1.IH"(2) [OF True w bq refl] u(2) "1.prems" i1 by (simp add: fun_upd_def)
      ultimately show ?thesis
        unfolding u(1) d by (simp add: add.assoc)
    qed
  qed
qed

lemma hex_text_length: "length (hex_text v) \<le> 8"
  using hex_top_le [of v 7] by (simp add: hex_text_def)

definition M_cmd :: "u32 \<Rightarrow> bytes \<Rightarrow> bytes" where
  "M_cmd addr bs = 77 # hex_text addr @ 44 # hex_text (of_nat (length bs)) @ 58 # hex_of bs"

definition m_cmd :: "u32 \<Rightarrow> nat \<Rightarrow> bytes" where
  "m_cmd addr n = 109 # hex_text addr @ 44 # hex_text (of_nat n)"

lemma M_cmd_wire:
  assumes "length bs \<le> 4086"
  shows "35 \<notin> set (M_cmd addr bs)" "length (M_cmd addr bs) \<le> CMD_SIZE" "plain_cmd (M_cmd addr bs)"
  using no_hash(1) [of addr] no_hash(1) [of "of_nat (length bs)"] no_hash(2) [of bs]
    hex_text_length [of addr] hex_text_length [of "of_nat (length bs)"] assms
  by (simp_all add: M_cmd_def CMD_SIZE_def PACKET_SIZE_def plain_cmd_def is_ch_def prefix_def)

lemma m_cmd_wire:
  "35 \<notin> set (m_cmd addr n)" "length (m_cmd addr n) \<le> CMD_SIZE" "plain_cmd (m_cmd addr n)"
  using no_hash(1) [of addr] no_hash(1) [of "of_nat n"]
    hex_text_length [of addr] hex_text_length [of "of_nat n"]
  by (simp_all add: m_cmd_def CMD_SIZE_def PACKET_SIZE_def plain_cmd_def is_ch_def prefix_def)

lemma m_cmd_reply:
  assumes "n \<le> 4096"
  shows "cmd_reply (m_cmd addr n) s = hex_of (mem_range (mem s) addr n)"
    and "cmd_effect (m_cmd addr n) s = s"
  using assms mem_args_text [of "[]" addr "of_nat n"]
  by (simp_all add: cmd_reply_def cmd_effect_def m_cmd_def is_ch_def read_text_def Let_def nonhex_def
      unat_of_nat)

lemma M_cmd_effect:
  assumes "length bs \<le> 4086"
  shows "cmd_reply (M_cmd addr bs) s = cs ''OK''"
    and "cmd_effect (M_cmd addr bs) s = s\<lparr>mem := mem_put (mem s) addr bs\<rparr>"
  using assms mem_args_text [of "58 # hex_of bs" addr "of_nat (length bs)"]
  by (simp_all add: cmd_reply_def cmd_effect_def M_cmd_def is_ch_def Let_def nonhex_def hexval_def
      skip_ch_def write_hex_loop_put unat_of_nat)

lemma memory_round_trip:
  assumes "g_state s = ST_IDLE" and "resumed s = None" and "trace_good s"
    and "length bs \<le> 4086" and "\<And>i. i < length bs \<Longrightarrow> untraced (addr + of_nat i)"
  shows "sent (rsp_feed (frame False (M_cmd addr bs) @ frame False (m_cmd addr (length bs))) s) =
    sent s @ [frame True (cs ''OK''), frame True (hex_of bs)]"
proof -
  define t where "t = rsp_feed (frame False (M_cmd addr bs)) s"
  obtain f n k where t: "t = (cmd_state (M_cmd addr bs) s)
      \<lparr>mem := mem_put (mem (cmd_state (M_cmd addr bs) s)) addr bs, g_out := f, g_out_len := n,
       g_body_start := k, sent := sent s @ [frame True (cs ''OK'')]\<rparr>"
    using plain_packet [OF assms(1,2) M_cmd_wire [OF assms(4), of addr]]
    unfolding M_cmd_effect [OF assms(4)] t_def by metis
  have good: "trace_good t"
    using cmd_state_trace(1) [OF assms(3)] trace_good_cong [of t "cmd_state (M_cmd addr bs) s"] by (simp add: t)
  have idle: "g_state t = ST_IDLE" "resumed t = None" by (simp_all add: t assms(2))
  have n4096: "length bs \<le> 4096" using assms(4) by simp
  obtain f2 n2 k2 where u: "rsp_feed (frame False (m_cmd addr (length bs))) t =
      (cmd_state (m_cmd addr (length bs)) t)\<lparr>g_out := f2, g_out_len := n2, g_body_start := k2,
       sent := sent t @ [frame True (hex_of (mem_range (mem (cmd_state (m_cmd addr (length bs)) t)) addr (length bs)))]\<rparr>"
    using plain_packet [OF idle m_cmd_wire [of addr "length bs"]]
    unfolding m_cmd_reply [OF n4096] by metis
  have "mem_range (mem (cmd_state (m_cmd addr (length bs)) t)) addr (length bs) = mem_range (mem t) addr (length bs)"
    by (rule nth_equalityI) (use assms(5) cmd_state_trace(2) [OF good] in auto)
  also have "\<dots> = bs"
    using assms(4) mem_range_put [of bs] by (simp add: t)
  finally show ?thesis
    unfolding rsp_feed_split t_def [symmetric] u by (simp add: t)
qed

section \<open>Registers\<close>

lemma parse_reg_word: "parse_reg 4 0 0 (hex_of (le32 w) @ rest) = (w, rest)"
proof -
  obtain b0 b1 b2 b3 where w: "le32 w = [b0, b1, b2, b3]" by (simp add: le32_def)
  have "w = of_le32 b0 b1 b2 b3" using w by (simp flip: le32_inject add: le32_of_le32)
  moreover have "parse_reg 4 0 0 (hex_of (le32 w) @ rest) = (of_le32 b0 b1 b2 b3, rest)"
    using hex2_pair [of b0] hex2_pair [of b1] hex2_pair [of b2] hex2_pair [of b3]
    by (simp add: w hex2_def of_le32_def numeral_eq_Suc or.assoc)
  ultimately show ?thesis by simp
qed

lemma parse_regs_words: "parse_regs (length ws) (hex_of (concat (map le32 ws))) = ws"
  by (induction ws) (simp_all add: parse_reg_word)

lemma regs_of_words: "length (gr r) = 13 \<Longrightarrow> regs_of_slots (regs_words r) = r"
  using map_nth [of "gr r"]
  by (intro arm_regs.equality) (simp_all add: regs_of_slots_def regs_words_def nth_append)

section \<open>Breakpoints\<close>

text \<open>The table as a map from addresses to saved instructions.\<close>

definition bp_abs :: "'a rsp_st_scheme \<Rightarrow> u32 \<rightharpoonup> u32" where
  "bp_abs s addr = map_option (\<lambda>i. bp_saved (g_bp s ! i)) (bp_lookup addr s)"

definition bp_inv :: "'a rsp_st_scheme \<Rightarrow> bool" where
  "bp_inv s \<longleftrightarrow> length (g_bp s) = BP_MAX \<and>
     (\<forall>i < BP_MAX. \<forall>j < BP_MAX. bp_active (g_bp s ! i) \<and> bp_active (g_bp s ! j) \<and>
        bp_addr (g_bp s ! i) = bp_addr (g_bp s ! j) \<longrightarrow> i = j)"

definition bp_full :: "'a rsp_st_scheme \<Rightarrow> bool" where
  "bp_full s \<longleftrightarrow> (\<forall>i < BP_MAX. bp_active (g_bp s ! i))"

lemma find_upt_None: "find P [0..<n] = None \<longleftrightarrow> (\<forall>i < n. \<not> P i)"
  by (auto simp: find_None_iff)

lemma find_upt_Some: "find P [0..<n] = Some i \<Longrightarrow> i < n \<and> P i"
  by (auto simp: find_Some_iff)

lemma bp_lookup_unique:
  assumes "bp_inv s" and "i < BP_MAX" and "bp_active (g_bp s ! i)"
  shows "bp_lookup (bp_addr (g_bp s ! i)) s = Some i"
proof (cases "bp_lookup (bp_addr (g_bp s ! i)) s")
  case None
  with assms show ?thesis by (auto simp: bp_lookup_def find_upt_None)
next
  case (Some j)
  then have "j < BP_MAX" "bp_active (g_bp s ! j)" "bp_addr (g_bp s ! j) = bp_addr (g_bp s ! i)"
    unfolding bp_lookup_def by (auto dest: find_upt_Some)
  with assms Some show ?thesis unfolding bp_inv_def by metis
qed

lemma bp_abs_iff:
  assumes "bp_inv s"
  shows "bp_abs s a = Some v \<longleftrightarrow> (\<exists>i < BP_MAX. bp_active (g_bp s ! i) \<and> bp_addr (g_bp s ! i) = a \<and> bp_saved (g_bp s ! i) = v)"
proof
  assume "bp_abs s a = Some v"
  then obtain i where "bp_lookup a s = Some i" "bp_saved (g_bp s ! i) = v" by (auto simp: bp_abs_def)
  then show "\<exists>i < BP_MAX. bp_active (g_bp s ! i) \<and> bp_addr (g_bp s ! i) = a \<and> bp_saved (g_bp s ! i) = v"
    unfolding bp_lookup_def by (auto dest!: find_upt_Some)
next
  assume "\<exists>i < BP_MAX. bp_active (g_bp s ! i) \<and> bp_addr (g_bp s ! i) = a \<and> bp_saved (g_bp s ! i) = v"
  then show "bp_abs s a = Some v" using bp_lookup_unique [OF assms] by (auto simp: bp_abs_def)
qed

lemma bp_set_spec:
  assumes "bp_inv s"
  shows "bp_abs s addr \<noteq> None \<Longrightarrow> bp_set addr s = (True, s)"
    and "bp_abs s addr = None \<Longrightarrow> bp_full s \<Longrightarrow> bp_set addr s = (False, s)"
    and "bp_abs s addr = None \<Longrightarrow> \<not> bp_full s \<Longrightarrow> \<exists>t. bp_set addr s = (True, t) \<and> bp_inv t \<and>
      bp_abs t = (bp_abs s)(addr \<mapsto> ld32 (mem s) addr) \<and> mem t = st32 (mem s) addr BP_INSN"
proof -
  show "bp_abs s addr \<noteq> None \<Longrightarrow> bp_set addr s = (True, s)"
    by (simp add: bp_set_def bp_abs_def)
  show "bp_abs s addr = None \<Longrightarrow> bp_full s \<Longrightarrow> bp_set addr s = (False, s)"
    by (simp add: bp_set_def bp_abs_def bp_full_def find_upt_None [THEN iffD2])
  assume none: "bp_abs s addr = None" and "\<not> bp_full s"
  then obtain i where i: "find (\<lambda>i. \<not> bp_active (g_bp s ! i)) [0..<BP_MAX] = Some i"
    unfolding bp_full_def by (metis find_upt_None not_None_eq)
  then have i': "i < BP_MAX" "\<not> bp_active (g_bp s ! i)" using find_upt_Some by fast+
  define t where "t = s\<lparr>g_bp := (g_bp s)[i := \<lparr>bp_addr = addr, bp_saved = ld32 (mem s) addr, bp_active = True\<rparr>],
    mem := st32 (mem s) addr BP_INSN\<rparr>"
  have set: "bp_set addr s = (True, t)"
    using none i by (simp add: bp_set_def bp_abs_def t_def)
  have na: "bp_addr (g_bp s ! j) \<noteq> addr" if "j < BP_MAX" "bp_active (g_bp s ! j)" for j
    using none that by (auto simp: bp_abs_def bp_lookup_def find_upt_None)
  have nth: "g_bp t ! j = (if j = i then \<lparr>bp_addr = addr, bp_saved = ld32 (mem s) addr, bp_active = True\<rparr>
      else g_bp s ! j)" if "j < BP_MAX" for j
    using that assms by (simp add: t_def bp_inv_def nth_list_update)
  have len: "length (g_bp t) = BP_MAX" using assms by (simp add: bp_inv_def t_def)
  have inv: "bp_inv t"
    using assms na i' by (auto simp: bp_inv_def nth len)
  have "bp_abs t a = ((bp_abs s)(addr \<mapsto> ld32 (mem s) addr)) a" for a
  proof -
    have "bp_abs t a = Some v \<longleftrightarrow> ((bp_abs s)(addr \<mapsto> ld32 (mem s) addr)) a = Some v" for v
      unfolding fun_upd_apply bp_abs_iff [OF inv]
      using bp_abs_iff [OF assms, of a v] i' na by (auto simp: nth split: if_splits)
    then show ?thesis by (metis option.exhaust)
  qed
  then show "\<exists>t. bp_set addr s = (True, t) \<and> bp_inv t \<and>
      bp_abs t = (bp_abs s)(addr \<mapsto> ld32 (mem s) addr) \<and> mem t = st32 (mem s) addr BP_INSN"
    using set inv by (intro exI [of _ t]) (auto simp: t_def)
qed

lemma bp_clear_spec:
  assumes "bp_inv s"
  shows "\<exists>t. bp_clear addr s = (True, t) \<and> bp_inv t \<and> bp_abs t = (bp_abs s)(addr := None) \<and>
    mem t = (case bp_abs s addr of None \<Rightarrow> mem s | Some v \<Rightarrow> st32 (mem s) addr v)"
proof (cases "bp_lookup addr s")
  case None
  then show ?thesis
    using assms by (auto simp: bp_clear_def bp_abs_def simp flip: bp_lookup_def intro!: ext)
next
  case (Some i)
  then have i: "i < BP_MAX" "bp_active (g_bp s ! i)" "bp_addr (g_bp s ! i) = addr"
    unfolding bp_lookup_def by (auto dest: find_upt_Some)
  define t where "t = s\<lparr>mem := st32 (mem s) addr (bp_saved (g_bp s ! i)),
    g_bp := (g_bp s)[i := (g_bp s ! i)\<lparr>bp_active := False\<rparr>]\<rparr>"
  have clear: "bp_clear addr s = (True, t)"
    using Some by (simp add: bp_clear_def t_def flip: bp_lookup_def)
  have nth: "g_bp t ! j = (if j = i then (g_bp s ! i)\<lparr>bp_active := False\<rparr> else g_bp s ! j)"
    if "j < BP_MAX" for j
    using that assms by (simp add: t_def bp_inv_def nth_list_update)
  have len: "length (g_bp t) = BP_MAX" using assms by (simp add: bp_inv_def t_def)
  have inv: "bp_inv t"
    using assms by (auto simp: bp_inv_def nth len)
  have only: "j = i" if "j < BP_MAX" "bp_active (g_bp s ! j)" "bp_addr (g_bp s ! j) = addr" for j
    using that i assms unfolding bp_inv_def by metis
  have act: "bp_active (g_bp t ! j) \<and> bp_addr (g_bp t ! j) = a \<and> bp_saved (g_bp t ! j) = v \<longleftrightarrow>
      a \<noteq> addr \<and> bp_active (g_bp s ! j) \<and> bp_addr (g_bp s ! j) = a \<and> bp_saved (g_bp s ! j) = v"
    if "j < BP_MAX" for j a v
  proof (cases "j = i")
    case True
    with i(3) show ?thesis by (auto simp: nth [OF i(1)])
  next
    case False
    with nth [OF that] have "g_bp t ! j = g_bp s ! j" by simp
    with False only [OF that] show ?thesis by auto
  qed
  have "bp_abs t a = ((bp_abs s)(addr := None)) a" for a
  proof -
    have "bp_abs t a = Some v \<longleftrightarrow> ((bp_abs s)(addr := None)) a = Some v" for v
      using bp_abs_iff [OF assms, of a v] unfolding bp_abs_iff [OF inv] by (simp add: act cong: conj_cong)
    then show ?thesis by (metis option.exhaust)
  qed
  moreover have "bp_abs s addr = Some (bp_saved (g_bp s ! i))" using Some by (simp add: bp_abs_def)
  ultimately show ?thesis
    using clear inv by (intro exI [of _ t]) (auto simp: t_def)
qed

section \<open>Single steps\<close>

lemma out_finish_fields [simp]:
  "mem (out_finish s) = mem s" "g_regs (out_finish s) = g_regs s" "g_bp (out_finish s) = g_bp s"
  "g_step_active (out_finish s) = g_step_active s" "g_last_sig (out_finish s) = g_last_sig s"
  "g_step_addr (out_finish s) = g_step_addr s" "g_step_saved (out_finish s) = g_step_saved s"
  by (simp_all add: out_finish_def musb_bulk_send_def out_byte_emit Let_def)

text \<open>A step that is carried out plants its breakpoint and hands over to the target.\<close>

lemma do_step_plants:
  assumes "arm_next_pc (mem s) (g_regs s) = Some n" and "n \<noteq> pc (g_regs s)" and "bp_lookup n s = None"
    and "trace_good s"
  shows "resumed (do_step s) = Some (g_regs s)" and "g_step_active (do_step s)"
    and "g_step_addr (do_step s) = n" and "g_step_saved (do_step s) = ld32 (mem s) n"
    and "trace_good (do_step s)" and "g_bp (do_step s) = g_bp s"
    and "untraced x \<Longrightarrow> mem (do_step s) x = st32 (mem s) n BP_INSN x"
proof -
  define s1 where "s1 = s\<lparr>g_step_addr := n, g_step_saved := ld32 (mem s) n,
    mem := st32 (mem s) n BP_INSN, g_step_active := True\<rparr>"
  define xs where "xs = cs ''step to 0x'' @ hex_digits n 8 @ [10]"
  have g: "trace_good s1" using assms(4) trace_good_cong [of s1 s] by (simp add: s1_def)
  have e: "do_step s = rsp_resume_here (trace_puts xs s1)"
    using assms(1-3) by (simp add: do_step_def s1_def xs_def trace_hex_puts trace_puts_append Let_def)
  have "trace_good (do_step s) = trace_good (trace_puts xs s1)"
    by (rule trace_good_cong) (simp_all add: e rsp_resume_here_def rsp_resume_def send_plus_def musb_bulk_send_def)
  then show "trace_good (do_step s)" using g trace_good_puts by blast
  show "resumed (do_step s) = Some (g_regs s)" "g_step_active (do_step s)" "g_step_addr (do_step s) = n"
    "g_step_saved (do_step s) = ld32 (mem s) n" "g_bp (do_step s) = g_bp s"
    by (simp_all add: e rsp_resume_here_def rsp_resume_def send_plus_fields s1_def)
  show "untraced x \<Longrightarrow> mem (do_step s) x = st32 (mem s) n BP_INSN x"
    using trace_puts_untraced [OF g, of x xs]
    by (simp add: e rsp_resume_here_def rsp_resume_def send_plus_fields) (simp add: s1_def)
qed

lemma rsp_trapped_step:
  assumes "g_step_active s" and "trace_good s"
  shows "\<not> g_step_active (rsp_trapped sig s)"
    and "pc (g_regs s) = g_step_addr s \<Longrightarrow> g_last_sig (rsp_trapped sig s) = SIG_TRAP"
    and "g_bp (rsp_trapped sig s) = g_bp s"
    and "untraced x \<Longrightarrow> mem (rsp_trapped sig s) x = st32 (mem s) (g_step_addr s) (g_step_saved s) x"
proof -
  define s1 where "s1 = s\<lparr>mem := st32 (mem s) (g_step_addr s) (g_step_saved s), g_step_active := False\<rparr>"
  define sg where "sg = (if bp_lookup (pc (g_regs s1)) s1 \<noteq> None then SIG_TRAP
    else if pc (g_regs s) = g_step_addr s then SIG_TRAP else sig)"
  define s2 where "s2 = s1\<lparr>g_last_sig := sg\<rparr>"
  define xs where "xs = cs ''trap sig='' @ dec_string (unat sg) @ cs '' pc=0x'' @ hex_digits (pc (g_regs s)) 8 @
    cs '' cpsr=0x'' @ hex_digits (cpsr (g_regs s)) 8 @ [10]"
  have g: "trace_good s2" using assms(2) trace_good_cong [of s2 s] by (simp add: s1_def s2_def)
  have r: "g_regs s1 = g_regs s" by (simp add: s1_def)
  have e: "rsp_trapped sig s = out_finish (out_byte (ucast sg) (out_ch (of_char CHR ''S'')
      (out_begin_ack False (trace_puts xs s2))))"
    using assms(1) unfolding rsp_trapped_def if_P [OF assms(1)] prod.case Let_def
      s1_def [symmetric] sg_def [symmetric] s2_def [symmetric]
    by (simp add: trace_hex_puts trace_dec_numeral trace_puts_append xs_def s2_def r del: cs_Cons)
  show "\<not> g_step_active (rsp_trapped sig s)" "g_bp (rsp_trapped sig s) = g_bp s"
    "pc (g_regs s) = g_step_addr s \<Longrightarrow> g_last_sig (rsp_trapped sig s) = SIG_TRAP"
    by (simp_all add: e out_byte_emit s2_def s1_def sg_def)
  show "untraced x \<Longrightarrow> mem (rsp_trapped sig s) x = st32 (mem s) (g_step_addr s) (g_step_saved s) x"
    using trace_puts_untraced [OF g, of x xs] by (simp add: e out_byte_emit s2_def s1_def)
qed

section \<open>A server that has just started\<close>

definition rsp_start :: rsp_st where
  "rsp_start = \<lparr>mem = st32 (\<lambda>_. 0) 0x30000000 0xEAFFFFF0, g_put = TRACE_BASE, g_end = TRACE_BASE + TRACE_SIZE - 1,
     g_regs = \<lparr>gr = replicate 13 0, sp = 0, lr = 0, pc = 0x30000000, cpsr = 0xD3\<rparr>,
     g_cmd = [], g_out = (\<lambda>_. 0), g_out_len = 0, g_body_start = 0, g_state = ST_IDLE, g_sum = 0,
     g_csum_hi = 0, g_traced = 0, g_last_sig = SIG_TRAP,
     g_bp = replicate BP_MAX \<lparr>bp_addr = 0, bp_saved = 0, bp_active = False\<rparr>,
     g_step_addr = 0, g_step_saved = 0, g_step_active = False, sent = [], resumed = None\<rparr>"

lemma rsp_start_facts:
  "rsp_ok rsp_start" "bp_inv rsp_start" "trace_good rsp_start" "g_state rsp_start = ST_IDLE"
  "resumed rsp_start = None" "sent rsp_start = []" "bp_lookup a rsp_start = None" "bp_abs rsp_start a = None"
  by (simp_all add: rsp_start_def rsp_ok_def bp_inv_def trace_good_def trace_layout bp_lookup_def
      find_upt_None bp_abs_def)

section \<open>Properties\<close>

text \<open>C38: How the USB transfers cut the byte stream does not matter: feeding two pieces is the same
  as feeding them in one.\<close>

theorem rsp_feed_chunks: "rsp_feed (a @ b) s = rsp_feed b (rsp_feed a s)"
  by (rule rsp_feed_split)

text \<open>C1: Whatever bytes arrive, the server stays in a good state (the command buffer holds at most
  \<open>CMD_SIZE\<close> bytes, the reply buffer at most \<open>OUT_SIZE\<close>, also behind the unchecked word stores of
  \<open>out_pair\<close>) and everything it sends is an acknowledgement, a refusal, or a frame that fits the buffer
  with the sum of its body as checksum.\<close>

theorem rsp_feed_safe:
  assumes "rsp_ok s"
  shows "rsp_ok (rsp_feed data s) \<and>
    (\<exists>ps. sent (rsp_feed data s) = sent s @ ps \<and> list_all wf_packet ps)"
  using safe_feed [OF assms, of data] by (simp add: safe_step_def)

theorem rsp_feed_safe_witness:
  "rsp_ok (rsp_feed (cs ''+$?#3f$m0,4#zz'') rsp_start) \<and>
    (\<exists>ps. sent (rsp_feed (cs ''+$?#3f$m0,4#zz'') rsp_start) = ps \<and> list_all wf_packet ps)"
  using rsp_feed_safe [OF rsp_start_facts(1), of "cs ''+$?#3f$m0,4#zz''"] by (simp add: rsp_start_facts)

text \<open>C26: A packet is dispatched when its two checksum digits are hex digits (of either case) for the
  sum of its body; otherwise the server only answers with a refusal. Either way the next packet is
  awaited.\<close>

theorem rsp_packet_checked:
  assumes "g_state s = ST_IDLE" and "resumed s = None" and "35 \<notin> set body" and "length body \<le> CMD_SIZE"
  shows "rsp_feed (36 # body @ [35, h, l]) s =
    (if hexval h < 16 \<and> hexval l < 16 \<and> 16 * hexval h + hexval l = ucast (sum_list body)
     then dispatch (packet_state body h s)
     else (out_ch 45 ((packet_state body h s)\<lparr>g_out_len := 0\<rparr>))\<lparr>sent := sent s @ [[45]]\<rparr>)"
proof -
  have "push_bit 4 (hexval h) OR hexval l = ucast (sum_list body) \<longleftrightarrow>
      hexval h < 16 \<and> hexval l < 16 \<and> 16 * hexval h + hexval l = ucast (sum_list body)"
    by (rule checksum_digits)
  moreover have "send_minus t = (out_ch 45 (t\<lparr>g_out_len := 0\<rparr>))\<lparr>sent := sent t @ [[45]]\<rparr>"
    for t :: "'a rsp_st_scheme"
    by (simp add: send_minus_def musb_bulk_send_def out_bytes_def out_ch_def OUT_SIZE_def PACKET_SIZE_def)
  moreover have "sent (packet_state body h s) = sent s" by (simp add: packet_state_def)
  ultimately show ?thesis using rsp_feed_packet [OF assms, of h l] by simp
qed

theorem rsp_packet_checked_witness:
  "rsp_feed (36 # [63] @ [35, 51, 102]) rsp_start = dispatch (packet_state [63] 51 rsp_start)"
  using rsp_packet_checked [OF rsp_start_facts(4,5), of "[63]" 51 102]
  by (simp add: CMD_SIZE_def PACKET_SIZE_def hexval_def)



text \<open>C36: Bytes written with an \<open>M\<close> packet are read back by an \<open>m\<close> packet, over the wire and for every
  address range outside the trace buffer.\<close>

theorem memory_write_read:
  assumes "g_state s = ST_IDLE" and "resumed s = None" and "trace_good s"
    and "length bs \<le> 4086" and "\<And>i. i < length bs \<Longrightarrow> untraced (addr + of_nat i)"
  shows "sent (rsp_feed (frame False (M_cmd addr bs) @ frame False (m_cmd addr (length bs))) s) =
    sent s @ [frame True (cs ''OK''), frame True (hex_of bs)]"
  by (rule memory_round_trip [OF assms])

theorem memory_write_read_witness:
  "sent (rsp_feed (frame False (M_cmd 0x30100000 [1, 2]) @ frame False (m_cmd 0x30100000 2)) rsp_start) =
    [frame True (cs ''OK''), frame True (hex_of [1, 2])]"
proof -
  have "untraced (0x30100000 + of_nat i)" if "i < length [1, 2 :: u8]" for i
    using that by (auto simp: less_Suc_eq untraced_def trace_layout)
  then have "sent (rsp_feed (frame False (M_cmd 0x30100000 [1, 2]) @
      frame False (m_cmd 0x30100000 (length [1, 2 :: u8]))) rsp_start) =
      sent rsp_start @ [frame True (cs ''OK''), frame True (hex_of [1, 2])]"
    by (intro memory_write_read [OF rsp_start_facts(4,5,3)]) simp_all
  then show ?thesis by (simp add: rsp_start_facts numeral_2_eq_2)
qed

text \<open>C30: The binary write with its word-wide fast path stores exactly the unescaped bytes, at most
  \<open>len\<close> of them, one after the other from the address.\<close>

theorem write_bin_bytes:
  assumes "length p < 2 ^ 32"
  shows "write_bin_loop addr 0 len p m = mem_put m addr (take (unat len) (unescape p))"
  using write_bin_loop_put [of 0 p addr len m] assms by simp

theorem write_bin_bytes_witness:
  "write_bin_loop 0x30000000 0 3 [1, 0x7D, 0x5D, 3] (\<lambda>_. 0) = mem_put (\<lambda>_. 0) 0x30000000 [1, 0x7D, 3]"
  using write_bin_bytes [where p = "[1, 0x7D, 0x5D, 3]" and addr = "0x30000000" and len = 3 and m = "\<lambda>_. 0"]
  by simp

text \<open>A \<open>G\<close> packet with the text that \<open>g\<close> replied restores the registers.\<close>

theorem registers_round_trip:
  assumes "length (gr r) = 13"
  shows "g_regs (write_regs (regs_text r) s) = r \<and>
    read_regs (write_regs (regs_text r) s) = fold out_ch (regs_text r) (write_regs (regs_text r) s)"
proof -
  have "length (regs_words r) = 17" by (simp add: regs_words_def)
  then have "parse_regs 17 (regs_text r) = regs_words r"
    using parse_regs_words [of "regs_words r"] by (simp add: regs_text_def)
  then have "g_regs (write_regs (regs_text r) s) = r"
    by (simp add: write_regs_def out_str_emit regs_of_words [OF assms])
  then show ?thesis by (simp add: read_regs_emit)
qed

theorem registers_round_trip_witness:
  "g_regs (write_regs (regs_text \<lparr>gr = replicate 13 7, sp = 1, lr = 2, pc = 3, cpsr = 0xD3\<rparr>) rsp_start) =
    \<lparr>gr = replicate 13 7, sp = 1, lr = 2, pc = 3, cpsr = 0xD3\<rparr>"
  using registers_round_trip [of "\<lparr>gr = replicate 13 7, sp = 1, lr = 2, pc = 3, cpsr = 0xD3\<rparr>" rsp_start] by simp

text \<open>C21: The breakpoint table is a map of at most 16 addresses to saved instructions: setting an
  address adds it and plants the trap instruction unless it is there already or the table is full,
  and clearing it restores the word.\<close>

theorem breakpoint_table:
  assumes "bp_inv s"
  shows "(if bp_abs s addr \<noteq> None then bp_set addr s = (True, s)
     else if bp_full s then bp_set addr s = (False, s)
     else \<exists>t. bp_set addr s = (True, t) \<and> bp_inv t \<and>
       bp_abs t = (bp_abs s)(addr \<mapsto> ld32 (mem s) addr) \<and> mem t = st32 (mem s) addr BP_INSN) \<and>
    (\<exists>t. bp_clear addr s = (True, t) \<and> bp_inv t \<and> bp_abs t = (bp_abs s)(addr := None) \<and>
       mem t = (case bp_abs s addr of None \<Rightarrow> mem s | Some v \<Rightarrow> st32 (mem s) addr v))"
  using bp_set_spec [OF assms] bp_clear_spec [OF assms] by simp

theorem breakpoint_table_witness:
  "\<exists>t. bp_set 0x30000000 rsp_start = (True, t) \<and> bp_abs t = [0x30000000 \<mapsto> 0xEAFFFFF0]"
proof -
  have e: "bp_abs rsp_start = Map.empty" by (rule ext) (simp add: rsp_start_facts)
  have "\<not> bp_full rsp_start" by (auto simp: bp_full_def rsp_start_def BP_MAX_def intro: exI [of _ 0])
  moreover have "ld32 (mem rsp_start) 0x30000000 = 0xEAFFFFF0" by (simp add: rsp_start_def)
  ultimately show ?thesis
    using breakpoint_table [OF rsp_start_facts(2), of "0x30000000"] by (auto simp: e)
qed

text \<open>A breakpoint at an aligned address leaves no trace once it is cleared: memory and table are
  as before.\<close>

theorem breakpoint_restores:
  assumes "bp_inv s" and "addr AND 3 = 0" and "bp_set addr s = (True, t)" and "bp_abs s addr = None"
  shows "mem (snd (bp_clear addr t)) = mem s \<and> bp_abs (snd (bp_clear addr t)) = bp_abs s"
proof -
  have "\<not> bp_full s" using bp_set_spec(2) [OF assms(1,4)] assms(3) by auto
  with bp_set_spec(3) [OF assms(1,4)] assms(3)
  have t: "bp_inv t" "bp_abs t = (bp_abs s)(addr \<mapsto> ld32 (mem s) addr)" "mem t = st32 (mem s) addr BP_INSN"
    by auto
  with bp_clear_spec [OF t(1), of addr] assms(2,4) show ?thesis
    by (auto simp: st32_st32_same st32_ld32_same)
qed

theorem breakpoint_restores_witness:
  "mem (snd (bp_clear 0x30000000 (snd (bp_set 0x30000000 rsp_start)))) = mem rsp_start"
proof -
  have "fst (bp_set 0x30000000 rsp_start)"
    by (simp add: bp_set_def rsp_start_facts) (simp add: rsp_start_def BP_MAX_def upt_rec)
  then have "bp_set 0x30000000 rsp_start = (True, snd (bp_set 0x30000000 rsp_start))"
    by (cases "bp_set 0x30000000 rsp_start") auto
  from breakpoint_restores [OF rsp_start_facts(2) _ this rsp_start_facts(8)] show ?thesis by simp
qed



end
