(* ===== verification/Musb.thy ===== *)
theory Musb
  imports RspProps Hw
begin

text \<open>
  The USB side of the debugger stub (gdbstub/musb.c, musb.h, main.c): the MUSB controller in device
  mode as a CDC ACM serial port. The controller is a parameter, a bus with accesses of three widths;
  the driver is a program of the state monad. The server of rsp.c is a field of the state: bytes of
  the host are fed to it, and the packets it hands to \<open>musb_bulk_send\<close> are sent by \<open>bulk_send\<close>.
\<close>

section \<open>Registers\<close>

definition CLK_CON1 :: u32 where "CLK_CON1 = 0x08000000 + 0x0C"
definition INT_STAT :: u32 where "INT_STAT = 0x08000000 + 0xCC"
definition MULFUN_CON1 :: u32 where "MULFUN_CON1 = 0x08000000 + 0x58"
definition CLK_CON1_UDC_GATE :: u32 where "CLK_CON1_UDC_GATE = 0x8000"
definition CLK_CON1_USB_RESET :: u32 where "CLK_CON1_USB_RESET = 0x80000000"
definition USB_L2_ASSIGN :: u32 where "USB_L2_ASSIGN = 0x2002C090"
definition USB :: u32 where "USB = 0x70000000"
definition USB_FADDR :: u32 where "USB_FADDR = USB + 0x00"
definition USB_POWER :: u32 where "USB_POWER = USB + 0x01"
definition USB_INTRTX1 :: u32 where "USB_INTRTX1 = USB + 0x02"
definition USB_INTRRX1 :: u32 where "USB_INTRRX1 = USB + 0x04"
definition USB_INTRTX1E :: u32 where "USB_INTRTX1E = USB + 0x06"
definition USB_INTRRX1E :: u32 where "USB_INTRRX1E = USB + 0x08"
definition USB_INTRUSB :: u32 where "USB_INTRUSB = USB + 0x0A"
definition USB_INTRUSBE :: u32 where "USB_INTRUSBE = USB + 0x0B"
definition USB_INDEX :: u32 where "USB_INDEX = USB + 0x0E"
definition USB_TXMAXP :: u32 where "USB_TXMAXP = USB + 0x10"
definition USB_CSR0_TXCSR1 :: u32 where "USB_CSR0_TXCSR1 = USB + 0x12"
definition USB_TXCSR2 :: u32 where "USB_TXCSR2 = USB + 0x13"
definition USB_RXMAXP :: u32 where "USB_RXMAXP = USB + 0x14"
definition USB_RXCSR1 :: u32 where "USB_RXCSR1 = USB + 0x16"
definition USB_COUNT0_RXCOUNT :: u32 where "USB_COUNT0_RXCOUNT = USB + 0x18"
definition USB_FIFO_EP0 :: u32 where "USB_FIFO_EP0 = USB + 0x20"
definition USB_FIFO_EP2 :: u32 where "USB_FIFO_EP2 = USB + 0x28"
definition USB_EP0_TX_COUNT :: u32 where "USB_EP0_TX_COUNT = USB + 0x330"
definition USB_EP2_TX_COUNT :: u32 where "USB_EP2_TX_COUNT = USB + 0x334"
definition USB_FORBID_WRITE :: u32 where "USB_FORBID_WRITE = USB + 0x338"
definition USB_START_PRE_READ :: u32 where "USB_START_PRE_READ = USB + 0x33C"
definition USB_MODE_STATUS :: u32 where "USB_MODE_STATUS = USB + 0x344"
definition MODE_FORCE_FS :: u32 where "MODE_FORCE_FS = 0x1"
definition L2_EP2_TX :: u32 where "L2_EP2_TX = 0x48000000"
definition L2_EP3_RX :: u32 where "L2_EP3_RX = 0x48000200"
definition L2_EP0 :: u32 where "L2_EP0 = 0x48001500"
definition INTRUSB_RESET :: u8 where "INTRUSB_RESET = 0x4"
definition POWER_HSMODE :: u8 where "POWER_HSMODE = 0x10"
definition POWER_HSENAB :: u8 where "POWER_HSENAB = 0x20"
definition CSR0_RXPKTRDY :: u8 where "CSR0_RXPKTRDY = 0x1"
definition CSR0_TXPKTRDY :: u8 where "CSR0_TXPKTRDY = 0x2"
definition CSR0_SENTSTALL :: u8 where "CSR0_SENTSTALL = 0x4"
definition CSR0_DATAEND :: u8 where "CSR0_DATAEND = 0x8"
definition CSR0_SETUPEND :: u8 where "CSR0_SETUPEND = 0x10"
definition CSR0_SENDSTALL :: u8 where "CSR0_SENDSTALL = 0x20"
definition CSR0_SERVICED_RX :: u8 where "CSR0_SERVICED_RX = 0x40"
definition CSR0_SERVICED_SETUP :: u8 where "CSR0_SERVICED_SETUP = 0x80"
definition TXCSR1_TXPKTRDY :: u8 where "TXCSR1_TXPKTRDY = 0x1"
definition TXCSR1_UNDERRUN :: u8 where "TXCSR1_UNDERRUN = 0x4"
definition TXCSR1_SENDSTALL :: u8 where "TXCSR1_SENDSTALL = 0x10"
definition TXCSR1_SENTSTALL :: u8 where "TXCSR1_SENTSTALL = 0x20"
definition TXCSR1_CLRDATATOG :: u8 where "TXCSR1_CLRDATATOG = 0x40"
definition RXCSR1_RXPKTRDY :: u8 where "RXCSR1_RXPKTRDY = 0x1"
definition RXCSR1_CLRDATATOG :: u8 where "RXCSR1_CLRDATATOG = 0x80"
definition EP_NOTIFY :: u8 where "EP_NOTIFY = 1"
definition EP_BULK_IN :: u8 where "EP_BULK_IN = 2"
definition EP_BULK_OUT :: u8 where "EP_BULK_OUT = 3"
definition NOTIFY_MAXP :: u32 where "NOTIFY_MAXP = 16"
definition EP0_MAXP :: u32 where "EP0_MAXP = 64"
definition EP0_STAGE :: nat where "EP0_STAGE = 64"
definition EP0_BUF_SIZE :: nat where "EP0_BUF_SIZE = 128"
definition BULK_MAXP_HS :: u32 where "BULK_MAXP_HS = 512"
definition BULK_MAXP_FS :: u32 where "BULK_MAXP_FS = 64"
definition TX_WAIT_LIMIT :: nat where "TX_WAIT_LIMIT = 0x00200000"

section \<open>State\<close>

record 'h usb_bus =
  rd8 :: "u32 \<Rightarrow> 'h \<Rightarrow> u8 \<times> 'h"
  wr8 :: "u32 \<Rightarrow> u8 \<Rightarrow> 'h \<Rightarrow> 'h"
  wr16 :: "u32 \<Rightarrow> u16 \<Rightarrow> 'h \<Rightarrow> 'h"
  urd32 :: "u32 \<Rightarrow> 'h \<Rightarrow> u32 \<times> 'h"
  uwr32 :: "u32 \<Rightarrow> u32 \<Rightarrow> 'h \<Rightarrow> 'h"

record 'h musb_st =
  uhw :: 'h
  rsp :: rsp_st
  g_ep0_buf :: bytes
  g_ep0_remaining :: u32
  g_ep0_offset :: u32
  g_ep0_out_remaining :: u32
  g_ep0_out_offset :: u32
  g_line_coding :: bytes
  g_line_state :: u16
  g_events :: u32
  g_ep0_chunks :: u32
  g_high_speed :: bool
  g_bulk_maxp :: u32
  g_stat_reset :: u32
  g_stat_setup :: u32
  g_stat_stall :: u32
  g_stat_out :: u32
  g_stat_in :: u32
  g_stat_txdrop :: u32

type_synonym ('h, 'a) usb = "('h musb_st, 'a) state"

text \<open>The values before \<open>musb_init\<close>.\<close>

definition musb_st0 :: "'h \<Rightarrow> rsp_st \<Rightarrow> 'h musb_st" where
  "musb_st0 h r =
     \<lparr>uhw = h, rsp = r, g_ep0_buf = replicate EP0_BUF_SIZE 0, g_ep0_remaining = 0, g_ep0_offset = 0,
      g_ep0_out_remaining = 0, g_ep0_out_offset = 0,
      g_line_coding = [0x00, 0xC2, 0x01, 0x00, 0, 0, 8], g_line_state = 0, g_events = 0,
      g_ep0_chunks = 0, g_high_speed = False, g_bulk_maxp = BULK_MAXP_FS, g_stat_reset = 0,
      g_stat_setup = 0, g_stat_stall = 0, g_stat_out = 0, g_stat_in = 0, g_stat_txdrop = 0\<rparr>"

definition r8 :: "'h usb_bus \<Rightarrow> u32 \<Rightarrow> ('h, u8) usb" where
  "r8 b a = State (\<lambda>s. let (v, h) = rd8 b a (uhw s) in (v, s\<lparr>uhw := h\<rparr>))"

definition w8 :: "'h usb_bus \<Rightarrow> u32 \<Rightarrow> u8 \<Rightarrow> ('h, unit) usb" where
  "w8 b a v = modify (\<lambda>s. s\<lparr>uhw := wr8 b a v (uhw s)\<rparr>)"

definition w16 :: "'h usb_bus \<Rightarrow> u32 \<Rightarrow> u16 \<Rightarrow> ('h, unit) usb" where
  "w16 b a v = modify (\<lambda>s. s\<lparr>uhw := wr16 b a v (uhw s)\<rparr>)"

definition r32 :: "'h usb_bus \<Rightarrow> u32 \<Rightarrow> ('h, u32) usb" where
  "r32 b a = State (\<lambda>s. let (v, h) = urd32 b a (uhw s) in (v, s\<lparr>uhw := h\<rparr>))"

definition w32 :: "'h usb_bus \<Rightarrow> u32 \<Rightarrow> u32 \<Rightarrow> ('h, unit) usb" where
  "w32 b a v = modify (\<lambda>s. s\<lparr>uhw := uwr32 b a v (uhw s)\<rparr>)"

definition rmw32 :: "'h usb_bus \<Rightarrow> u32 \<Rightarrow> (u32 \<Rightarrow> u32) \<Rightarrow> ('h, unit) usb" where
  "rmw32 b a f = do { v \<leftarrow> r32 b a; w32 b a (f v) }"

text \<open>Calls of trace.c.\<close>

definition tr :: "(rsp_st \<Rightarrow> rsp_st) \<Rightarrow> ('h, unit) usb" where
  "tr f = modify (\<lambda>s. s\<lparr>rsp := f (rsp s)\<rparr>)"

section \<open>Descriptors\<close>

definition VENDOR_ID :: u16 where "VENDOR_ID = 0x1209"
definition PRODUCT_ID :: u16 where "PRODUCT_ID = 0x0001"
definition TRACE_EVENT_LIMIT :: u32 where "TRACE_EVENT_LIMIT = 200"
definition TRACE_CHUNK_LIMIT :: u32 where "TRACE_CHUNK_LIMIT = 40"
definition CFG_BULK_OUT_MAXP :: nat where "CFG_BULK_OUT_MAXP = 57"
definition CFG_BULK_IN_MAXP :: nat where "CFG_BULK_IN_MAXP = 64"
definition CDC_SET_LINE_CODING :: u8 where "CDC_SET_LINE_CODING = 0x20"
definition CDC_GET_LINE_CODING :: u8 where "CDC_GET_LINE_CODING = 0x21"
definition CDC_SET_CONTROL_LINE_STATE :: u8 where "CDC_SET_CONTROL_LINE_STATE = 0x22"
definition CDC_SEND_BREAK :: u8 where "CDC_SEND_BREAK = 0x23"

definition device_desc :: bytes where
  "device_desc = [18, 1, 0x00, 0x02, 0x02, 0x00, 0x00, ucast EP0_MAXP] @
     le16 VENDOR_ID @ le16 PRODUCT_ID @ [0x00, 0x01, 0, 1, 2, 1]"

definition qualifier_desc :: bytes where
  "qualifier_desc = [10, 6, 0x00, 0x02, 0x02, 0x00, 0x00, ucast EP0_MAXP, 1, 0]"

definition string_langid :: bytes where
  "string_langid = [4, 3, 0x09, 0x04]"

definition string_product :: bytes where
  "string_product = [26, 3] @ concat (map (\<lambda>c. [c, 0]) (cs ''aipc gdbstub''))"

definition string_serial :: bytes where
  "string_serial = [10, 3] @ concat (map (\<lambda>c. [c, 0]) (cs ''0001''))"

definition config_desc :: bytes where
  "config_desc =
     [9, 2, 67, 0, 2, 1, 0, 0xC0, 0x01,
      9, 4, 0, 0, 1, 0x02, 0x02, 0x01, 0,
      5, 0x24, 0x00, 0x10, 0x01,
      5, 0x24, 0x01, 0x00, 1,
      4, 0x24, 0x02, 0x02,
      5, 0x24, 0x06, 0, 1,
      7, 5, 0x80 OR EP_NOTIFY, 3, ucast NOTIFY_MAXP, 0, 9,
      9, 4, 1, 0, 2, 0x0A, 0x00, 0x00, 0,
      7, 5, EP_BULK_OUT, 2, 0, 0, 0,
      7, 5, 0x80 OR EP_BULK_IN, 2, 0, 0, 0]"

section \<open>Start and bus reset\<close>

definition traceable :: "'h musb_st \<Rightarrow> bool" where
  "traceable s \<longleftrightarrow> g_events s < TRACE_EVENT_LIMIT"

definition latch_speed :: "u8 \<Rightarrow> ('h, unit) usb" where
  "latch_speed pw =
     modify (\<lambda>s. let hs = pw AND POWER_HSMODE \<noteq> 0
       in s\<lparr>g_high_speed := hs, g_bulk_maxp := if hs then BULK_MAXP_HS else BULK_MAXP_FS\<rparr>)"

definition trace_reg32 :: "'h usb_bus \<Rightarrow> string \<Rightarrow> u32 \<Rightarrow> ('h, unit) usb" where
  "trace_reg32 b name a = do { v \<leftarrow> r32 b a; tr (trace_reg (cs name) v) }"

definition trace_reg8 :: "'h usb_bus \<Rightarrow> string \<Rightarrow> u32 \<Rightarrow> ('h, unit) usb" where
  "trace_reg8 b name a = do { v \<leftarrow> r8 b a; tr (trace_reg (cs name) (ucast v)) }"

definition musb_init :: "'h usb_bus \<Rightarrow> ('h, unit) usb" where
  "musb_init b = do {
     rmw32 b CLK_CON1 (\<lambda>v. v AND NOT CLK_CON1_UDC_GATE);
     rmw32 b CLK_CON1 (\<lambda>v. v OR CLK_CON1_USB_RESET);
     rmw32 b CLK_CON1 (\<lambda>v. v AND NOT CLK_CON1_USB_RESET);
     rmw32 b MULFUN_CON1 (\<lambda>v. v AND NOT 7);
     rmw32 b MULFUN_CON1 (\<lambda>v. v OR 6);
     v \<leftarrow> r32 b USB_L2_ASSIGN;
     w32 b USB_L2_ASSIGN (v AND NOT 0x3F);
     w32 b USB_L2_ASSIGN ((v AND NOT 0x3F) OR 8);
     rmw32 b USB_MODE_STATUS (\<lambda>v. v AND NOT MODE_FORCE_FS);
     w8 b USB_POWER POWER_HSENAB;
     p \<leftarrow> r8 b USB_POWER;
     latch_speed p;
     trace_reg32 b ''clk_con1'' CLK_CON1;
     trace_reg32 b ''mulfun_con1'' MULFUN_CON1;
     trace_reg32 b ''l2_assign1'' USB_L2_ASSIGN;
     trace_reg32 b ''mode_status'' USB_MODE_STATUS;
     trace_reg8 b ''power'' USB_POWER }"

definition configure_endpoint :: "'h usb_bus \<Rightarrow> u8 \<Rightarrow> u16 \<Rightarrow> bool \<Rightarrow> ('h, unit) usb" where
  "configure_endpoint b ep maxp is_tx = do {
     w8 b USB_INDEX ep;
     (if is_tx
      then do { w8 b USB_TXCSR2 0x20; w16 b USB_TXMAXP maxp }
      else do {
        w8 b USB_TXCSR2 0;
        w16 b USB_RXMAXP maxp;
        v \<leftarrow> r8 b USB_RXCSR1;
        w8 b USB_RXCSR1 (v AND NOT RXCSR1_RXPKTRDY) }) }"

definition handle_bus_reset :: "'h usb_bus \<Rightarrow> ('h, unit) usb" where
  "handle_bus_reset b = do {
     pw \<leftarrow> r8 b USB_POWER;
     latch_speed pw;
     w8 b USB_FADDR 0;
     w8 b USB_POWER POWER_HSENAB;
     w8 b USB_INTRUSBE 0xF7;
     w8 b USB_INTRTX1E 0x05;
     w8 b USB_INTRRX1E 0x0A;
     configure_endpoint b EP_BULK_IN 512 True;
     configure_endpoint b EP_BULK_OUT 512 False;
     w8 b USB_INDEX 0;
     modify (\<lambda>s. s\<lparr>g_ep0_remaining := 0, g_ep0_offset := 0, g_ep0_out_remaining := 0,
       g_stat_reset := g_stat_reset s + 1\<rparr>);
     t \<leftarrow> gets traceable;
     hs \<leftarrow> gets g_high_speed;
     whenM t (tr (trace_puts (cs (if hs then '' HIGH speed'' else '' full speed'') @ [10]) \<circ>
       trace_hex (ucast pw) 2 \<circ> trace_puts (cs ''bus reset, power=''))) }"

section \<open>The control endpoint\<close>

definition ep0_stall :: "'h usb_bus \<Rightarrow> ('h, unit) usb" where
  "ep0_stall b = do {
     w8 b USB_INDEX 0;
     w8 b USB_CSR0_TXCSR1 (CSR0_SENDSTALL OR CSR0_SERVICED_RX);
     modify (\<lambda>s. s\<lparr>g_stat_stall := g_stat_stall s + 1\<rparr>) }"

text \<open>\<open>for (i = 0; i < n; i++) REG8(a) = 0\<close>\<close>

fun poke8 :: "'h usb_bus \<Rightarrow> u32 \<Rightarrow> nat \<Rightarrow> ('h, unit) usb" where
  "poke8 b a 0 = State_Monad.return ()"
| "poke8 b a (Suc n) = do { w8 b a 0; poke8 b a n }"

text \<open>The values of \<open>i\<close> in \<open>for (i = 0; i < n; i += 4)\<close>\<close>

definition offsets4 :: "nat \<Rightarrow> nat list" where
  "offsets4 n = map (\<lambda>k. 4 * k) [0..<(n + 3) div 4]"

text \<open>\<open>REG32(win + i) = f(i)\<close>, each store followed by a word poke of the FIFO \<open>a\<close> if there is one.\<close>

fun fill_l2 :: "'h usb_bus \<Rightarrow> u32 \<Rightarrow> u32 option \<Rightarrow> (nat \<Rightarrow> u32) \<Rightarrow> nat list \<Rightarrow> ('h, unit) usb" where
  "fill_l2 b win a f [] = State_Monad.return ()"
| "fill_l2 b win a f (i # is) = do {
     w32 b (win + of_nat i) (f i);
     (case a of None \<Rightarrow> State_Monad.return () | Some p \<Rightarrow> w32 b p 0);
     fill_l2 b win a f is }"

text \<open>A word of the word-aligned \<open>g_ep0_buf\<close>; the offset is a multiple of 4 and inside the buffer.\<close>

definition ep0_word :: "bytes \<Rightarrow> nat \<Rightarrow> u32" where
  "ep0_word buf j = of_le32 (buf ! j) (buf ! (j + 1)) (buf ! (j + 2)) (buf ! (j + 3))"

definition ep0_trace_chunk :: "'h usb_bus \<Rightarrow> u32 \<Rightarrow> bool \<Rightarrow> ('h, unit) usb" where
  "ep0_trace_chunk b n fin = do {
     modify (\<lambda>s. s\<lparr>g_ep0_chunks := g_ep0_chunks s + 1\<rparr>);
     tr (trace_puts (cs '' csr='') \<circ> trace_puts (cs (if fin then '' last'' else '' more'')) \<circ>
       trace_dec n \<circ> trace_puts (cs ''ep0 tx ''));
     csr \<leftarrow> r8 b USB_CSR0_TXCSR1;
     tr (trace_puts (cs '' cnt='') \<circ> trace_hex (ucast csr) 2);
     cnt \<leftarrow> r32 b USB_EP0_TX_COUNT;
     tr (trace_puts [10] \<circ> trace_hex cnt 8) }"

definition ep0_send_packet :: "'h usb_bus \<Rightarrow> bytes \<Rightarrow> u32 \<Rightarrow> u32 \<Rightarrow> bool \<Rightarrow> ('h, unit) usb" where
  "ep0_send_packet b buf off n fin = do {
     rmw32 b USB_FORBID_WRITE (\<lambda>v. v OR 1);
     (if fin
      then do {
        poke8 b USB_FIFO_EP0 (unat n);
        fill_l2 b L2_EP0 None (\<lambda>i. ep0_word buf (unat off + i)) (offsets4 EP0_STAGE) }
      else fill_l2 b L2_EP0 (Some USB_FIFO_EP0) (\<lambda>i. ep0_word buf (unat off + i)) (offsets4 EP0_STAGE));
     w32 b USB_EP0_TX_COUNT n;
     rmw32 b USB_START_PRE_READ (\<lambda>v. v OR 1);
     w8 b USB_CSR0_TXCSR1 CSR0_TXPKTRDY;
     whenM fin (w8 b USB_CSR0_TXCSR1 CSR0_DATAEND);
     rmw32 b USB_FORBID_WRITE (\<lambda>v. v AND NOT 1) }"

definition ep0_send_chunk :: "'h usb_bus \<Rightarrow> ('h, unit) usb" where
  "ep0_send_chunk b = do {
     buf \<leftarrow> gets g_ep0_buf;
     off \<leftarrow> gets g_ep0_offset;
     rem \<leftarrow> gets g_ep0_remaining;
     let n = (if EP0_MAXP < rem then EP0_MAXP else rem);
     let fin = (rem \<le> EP0_MAXP);
     w8 b USB_INDEX 0;
     (if rem = 0
      then do {
        modify (\<lambda>s. s\<lparr>g_ep0_offset := 0\<rparr>);
        w8 b USB_CSR0_TXCSR1 (CSR0_SERVICED_RX OR CSR0_DATAEND) }
      else do {
        ep0_send_packet b buf off n fin;
        chunks \<leftarrow> gets g_ep0_chunks;
        whenM (chunks < TRACE_CHUNK_LIMIT) (ep0_trace_chunk b n fin);
        modify (\<lambda>s. if fin then s\<lparr>g_ep0_remaining := 0, g_ep0_offset := 0\<rparr>
          else s\<lparr>g_ep0_remaining := rem - n, g_ep0_offset := off + n\<rparr>) }) }"

text \<open>The length of what is staged, and the padded copy.\<close>

definition ep0_len :: "bytes \<Rightarrow> u32 \<Rightarrow> nat" where
  "ep0_len data wLength = min (min (length data) (unat wLength)) EP0_BUF_SIZE"

definition ep0_fill :: "bytes \<Rightarrow> u32 \<Rightarrow> ('h, unit) usb" where
  "ep0_fill data wLength =
     (let len = ep0_len data wLength
      in modify (\<lambda>s. s\<lparr>g_ep0_buf := take len data @ replicate (EP0_BUF_SIZE - len) 0,
           g_ep0_remaining := of_nat len, g_ep0_offset := 0\<rparr>))"

definition ep0_start :: "'h usb_bus \<Rightarrow> ('h, unit) usb" where
  "ep0_start b = do {
     w8 b USB_INDEX 0;
     w8 b USB_CSR0_TXCSR1 CSR0_SERVICED_RX;
     ep0_send_chunk b }"

definition ep0_queue :: "'h usb_bus \<Rightarrow> bytes \<Rightarrow> u32 \<Rightarrow> ('h, unit) usb" where
  "ep0_queue b data wLength = do { ep0_fill data wLength; ep0_start b }"

text \<open>The stores into the staged copy.\<close>

definition patch_config :: "u8 \<Rightarrow> u32 \<Rightarrow> bytes \<Rightarrow> bytes" where
  "patch_config type bulk_maxp buf =
     buf[1 := type,
         CFG_BULK_IN_MAXP := ucast bulk_maxp, CFG_BULK_IN_MAXP + 1 := ucast (drop_bit 8 bulk_maxp),
         CFG_BULK_OUT_MAXP := ucast bulk_maxp, CFG_BULK_OUT_MAXP + 1 := ucast (drop_bit 8 bulk_maxp)]"

definition ep0_queue_config :: "'h usb_bus \<Rightarrow> u8 \<Rightarrow> u32 \<Rightarrow> u32 \<Rightarrow> ('h, unit) usb" where
  "ep0_queue_config b type bulk_maxp wLength = do {
     ep0_fill config_desc wLength;
     modify (\<lambda>s. s\<lparr>g_ep0_buf := patch_config type bulk_maxp (g_ep0_buf s)\<rparr>);
     ep0_start b }"

definition ep0_status :: "'h usb_bus \<Rightarrow> ('h, unit) usb" where
  "ep0_status b = do {
     modify (\<lambda>s. s\<lparr>g_ep0_remaining := 0, g_ep0_offset := 0\<rparr>);
     w8 b USB_INDEX 0;
     w8 b USB_CSR0_TXCSR1 (CSR0_SERVICED_RX OR CSR0_DATAEND) }"

definition ep0_expect_out :: "'h usb_bus \<Rightarrow> u32 \<Rightarrow> ('h, unit) usb" where
  "ep0_expect_out b wLength = do {
     modify (\<lambda>s. s\<lparr>g_ep0_remaining := 0, g_ep0_offset := 0, g_ep0_out_remaining := wLength,
       g_ep0_out_offset := 0\<rparr>);
     w8 b USB_INDEX 0;
     w8 b USB_CSR0_TXCSR1 CSR0_SERVICED_RX }"

text \<open>\<open>for (i = 0; i < count && g_ep0_out_offset < 7; i++)\<close>; \<open>n\<close> rounds are left.\<close>

fun line_coding_loop :: "'h usb_bus \<Rightarrow> u32 \<Rightarrow> nat \<Rightarrow> ('h, unit) usb" where
  "line_coding_loop b i 0 = State_Monad.return ()"
| "line_coding_loop b i (Suc n) = do {
     off \<leftarrow> gets g_ep0_out_offset;
     if off < 7
     then do {
       c \<leftarrow> r8 b (L2_EP0 + i);
       modify (\<lambda>s. s\<lparr>g_line_coding := (g_line_coding s)[unat off := c], g_ep0_out_offset := off + 1\<rparr>);
       line_coding_loop b (i + 1) n }
     else State_Monad.return () }"

definition handle_ep0_out :: "'h usb_bus \<Rightarrow> ('h, unit) usb" where
  "handle_ep0_out b = do {
     w8 b USB_INDEX 0;
     c \<leftarrow> r32 b USB_COUNT0_RXCOUNT;
     let n = c AND 0x7F;
     line_coding_loop b 0 (unat n);
     left \<leftarrow> gets g_ep0_out_remaining;
     let left' = (if left \<le> n then 0 else left - n);
     modify (\<lambda>s. s\<lparr>g_ep0_out_remaining := left'\<rparr>);
     w8 b USB_CSR0_TXCSR1 (if left' \<noteq> 0 then CSR0_SERVICED_RX else CSR0_SERVICED_RX OR CSR0_DATAEND) }"

definition handle_class_setup :: "'h usb_bus \<Rightarrow> u8 \<Rightarrow> u16 \<Rightarrow> u16 \<Rightarrow> ('h, unit) usb" where
  "handle_class_setup b bRequest wValue wLength =
     (if bRequest = CDC_SET_LINE_CODING
      then if wLength \<noteq> 0 then ep0_expect_out b (ucast wLength) else ep0_status b
      else if bRequest = CDC_GET_LINE_CODING
      then do { lc \<leftarrow> gets g_line_coding; ep0_queue b lc (ucast wLength) }
      else if bRequest = CDC_SET_CONTROL_LINE_STATE
      then do { modify (\<lambda>s. s\<lparr>g_line_state := wValue\<rparr>); ep0_status b }
      else if bRequest = CDC_SEND_BREAK then ep0_status b
      else ep0_stall b)"

text \<open>\<open>for (i = 0; i < 10000u && !(REG8(USB_INTRTX1) & 0x01u); i++)\<close>\<close>

fun address_wait :: "'h usb_bus \<Rightarrow> nat \<Rightarrow> ('h, unit) usb" where
  "address_wait b 0 = State_Monad.return ()"
| "address_wait b (Suc n) = do {
     v \<leftarrow> r8 b USB_INTRTX1;
     if v AND 1 \<noteq> 0 then State_Monad.return () else address_wait b n }"

definition set_address :: "'h usb_bus \<Rightarrow> u16 \<Rightarrow> ('h, unit) usb" where
  "set_address b wValue = do {
     ep0_status b;
     address_wait b 10000;
     w8 b USB_FADDR (ucast (wValue AND 0x7F));
     t \<leftarrow> gets traceable;
     whenM t (tr (trace_reg (cs ''faddr'') (ucast (wValue AND 0x7F)))) }"

definition get_descriptor :: "'h usb_bus \<Rightarrow> u16 \<Rightarrow> u32 \<Rightarrow> ('h, unit) usb" where
  "get_descriptor b wValue wLength =
     (let type = drop_bit 8 wValue; index = wValue AND 0xFF
      in if type = 1 then ep0_queue b device_desc wLength
         else if type = 2 then do { mp \<leftarrow> gets g_bulk_maxp; ep0_queue_config b 2 mp wLength }
         else if type = 3
         then if index = 0 then ep0_queue b string_langid wLength
              else if index = 1 then ep0_queue b string_product wLength
              else if index = 2 then ep0_queue b string_serial wLength
              else ep0_stall b
         else if type = 6 then ep0_queue b qualifier_desc wLength
         else if type = 7
         then do { hs \<leftarrow> gets g_high_speed;
                   ep0_queue_config b 7 (if hs then BULK_MAXP_FS else BULK_MAXP_HS) wLength }
         else ep0_stall b)"

definition set_configuration :: "'h usb_bus \<Rightarrow> ('h, unit) usb" where
  "set_configuration b = do {
     w8 b USB_INDEX EP_BULK_IN;
     w8 b USB_CSR0_TXCSR1 TXCSR1_CLRDATATOG;
     w8 b USB_INDEX EP_BULK_OUT;
     w8 b USB_RXCSR1 RXCSR1_CLRDATATOG;
     w8 b USB_INDEX 0;
     ep0_status b }"

definition trace_setup :: "u8 \<Rightarrow> u8 \<Rightarrow> u16 \<Rightarrow> u16 \<Rightarrow> u16 \<Rightarrow> rsp_st \<Rightarrow> rsp_st" where
  "trace_setup bmRequestType bRequest wValue wIndex wLength =
     trace_puts [10] \<circ> trace_hex (ucast wLength) 4 \<circ> trace_puts (cs '' l'') \<circ>
     trace_hex (ucast wIndex) 4 \<circ> trace_puts (cs '' i'') \<circ> trace_hex (ucast wValue) 4 \<circ>
     trace_puts (cs '' v'') \<circ> trace_hex (ucast bRequest) 2 \<circ> trace_puts (cs '' '') \<circ>
     trace_hex (ucast bmRequestType) 2 \<circ> trace_puts (cs ''setup '')"

definition standard_setup :: "'h usb_bus \<Rightarrow> u8 \<Rightarrow> u16 \<Rightarrow> u16 \<Rightarrow> ('h, unit) usb" where
  "standard_setup b bRequest wValue wLength =
     (if bRequest = 0 then ep0_queue b [1, 0] (ucast wLength)
      else if bRequest = 5 then set_address b wValue
      else if bRequest = 6 then get_descriptor b wValue (ucast wLength)
      else if bRequest = 8 then ep0_queue b [1] (ucast wLength)
      else if bRequest = 9 then set_configuration b
      else if bRequest = 1 \<or> bRequest = 3 \<or> bRequest = 11 then ep0_status b
      else if bRequest = 10 then ep0_queue b [0] (ucast wLength)
      else ep0_stall b)"

definition handle_setup :: "'h usb_bus \<Rightarrow> ('h, unit) usb" where
  "handle_setup b = do {
     bmRequestType \<leftarrow> r8 b (L2_EP0 + 0);
     bRequest \<leftarrow> r8 b (L2_EP0 + 1);
     v0 \<leftarrow> r8 b (L2_EP0 + 2);
     v1 \<leftarrow> r8 b (L2_EP0 + 3);
     i0 \<leftarrow> r8 b (L2_EP0 + 4);
     i1 \<leftarrow> r8 b (L2_EP0 + 5);
     l0 \<leftarrow> r8 b (L2_EP0 + 6);
     l1 \<leftarrow> r8 b (L2_EP0 + 7);
     let wValue = of_le16 v0 v1;
     let wIndex = of_le16 i0 i1;
     let wLength = of_le16 l0 l1;
     modify (\<lambda>s. s\<lparr>g_stat_setup := g_stat_setup s + 1\<rparr>);
     t \<leftarrow> gets traceable;
     whenM t (tr (trace_setup bmRequestType bRequest wValue wIndex wLength));
     (if bmRequestType AND 0x60 = 0x20 then handle_class_setup b bRequest wValue wLength
      else if bmRequestType AND 0x60 \<noteq> 0 then ep0_stall b
      else standard_setup b bRequest wValue wLength) }"

section \<open>The bulk endpoints\<close>

fun tx_wait_loop :: "'h usb_bus \<Rightarrow> nat \<Rightarrow> ('h, bool) usb" where
  "tx_wait_loop b 0 = do {
     modify (\<lambda>s. s\<lparr>g_stat_txdrop := g_stat_txdrop s + 1\<rparr>);
     State_Monad.return False }"
| "tx_wait_loop b (Suc n) = do {
     v \<leftarrow> r8 b USB_CSR0_TXCSR1;
     if v AND TXCSR1_TXPKTRDY = 0 then State_Monad.return True else tx_wait_loop b n }"

definition bulk_tx_wait :: "'h usb_bus \<Rightarrow> ('h, bool) usb" where
  "bulk_tx_wait b = do { w8 b USB_INDEX EP_BULK_IN; tx_wait_loop b TX_WAIT_LIMIT }"

definition pack_le :: "bytes \<Rightarrow> nat \<Rightarrow> u32" where
  "pack_le p avail =
     fold (\<lambda>k w. w OR push_bit (8 * k) (if k < avail then ucast (p ! k) else 0)) [0..<4] 0"

text \<open>\<open>a\<close> is the address of \<open>p\<close>.\<close>

definition load_le :: "u32 \<Rightarrow> bytes \<Rightarrow> nat \<Rightarrow> u32" where
  "load_le a p avail =
     (if 4 \<le> avail \<and> a AND 3 = 0 then of_le32 (p ! 0) (p ! 1) (p ! 2) (p ! 3) else pack_le p avail)"

definition bulk_count :: "u32 \<Rightarrow> nat \<Rightarrow> nat" where
  "bulk_count maxp len =
     (let n = min (unat maxp) len in if n = len \<and> n = unat maxp then n - 1 else n)"

definition bulk_send_packet :: "'h usb_bus \<Rightarrow> u32 \<Rightarrow> bytes \<Rightarrow> nat \<Rightarrow> ('h, unit) usb" where
  "bulk_send_packet b a data n = do {
     w8 b USB_INDEX EP_BULK_IN;
     rmw32 b USB_FORBID_WRITE (\<lambda>v. v OR 2);
     (if n mod 4 \<noteq> 0
      then do {
        poke8 b USB_FIFO_EP2 n;
        fill_l2 b L2_EP2_TX None (\<lambda>i. load_le (a + of_nat i) (drop i data) (n - i)) (offsets4 n) }
      else fill_l2 b L2_EP2_TX (Some USB_FIFO_EP2)
             (\<lambda>i. load_le (a + of_nat i) (drop i data) (n - i)) (offsets4 n));
     w32 b USB_EP2_TX_COUNT (of_nat n);
     rmw32 b USB_START_PRE_READ (\<lambda>v. v OR 2);
     w8 b USB_CSR0_TXCSR1 TXCSR1_TXPKTRDY;
     rmw32 b USB_FORBID_WRITE (\<lambda>v. v AND NOT 2) }"

text \<open>\<open>while (len)\<close> with fuel: a round sends at least a byte unless the packet size is 0 or 1.\<close>

fun bulk_send_loop :: "nat \<Rightarrow> 'h usb_bus \<Rightarrow> u32 \<Rightarrow> bytes \<Rightarrow> ('h, unit option) usb" where
  "bulk_send_loop fuel b a [] = State_Monad.return (Some ())"
| "bulk_send_loop 0 b a (c # data) = State_Monad.return None"
| "bulk_send_loop (Suc fuel) b a (c # data) = do {
     maxp \<leftarrow> gets g_bulk_maxp;
     let n = bulk_count maxp (length (c # data));
     ready \<leftarrow> bulk_tx_wait b;
     if \<not> ready then State_Monad.return (Some ())
     else do {
       bulk_send_packet b a (c # data) n;
       modify (\<lambda>s. s\<lparr>g_stat_in := g_stat_in s + 1\<rparr>);
       bulk_send_loop fuel b (a + of_nat n) (drop n (c # data)) } }"

definition bulk_send :: "'h usb_bus \<Rightarrow> u32 \<Rightarrow> bytes \<Rightarrow> ('h, unit option) usb" where
  "bulk_send b a data = bulk_send_loop (length data) b a data"

fun rx_words :: "'h usb_bus \<Rightarrow> nat list \<Rightarrow> ('h, bytes) usb" where
  "rx_words b [] = State_Monad.return []"
| "rx_words b (i # is) = do {
     w \<leftarrow> r32 b (L2_EP3_RX + of_nat i);
     ws \<leftarrow> rx_words b is;
     State_Monad.return (le32 w @ ws) }"

text \<open>The packets that \<open>rsp_feed\<close> hands to \<open>musb_bulk_send\<close> go out in their order; \<open>adr\<close> gives the address
  of a packet in the stub. When the server resumes the target the call does not return.\<close>

fun send_all :: "'h usb_bus \<Rightarrow> (bytes \<Rightarrow> u32) \<Rightarrow> bytes list \<Rightarrow> ('h, unit option) usb" where
  "send_all b adr [] = State_Monad.return (Some ())"
| "send_all b adr (p # ps) = do {
     r \<leftarrow> bulk_send b (adr p) p;
     (case r of None \<Rightarrow> State_Monad.return None | Some _ \<Rightarrow> send_all b adr ps) }"

definition feed_server :: "'h usb_bus \<Rightarrow> (bytes \<Rightarrow> u32) \<Rightarrow> bytes \<Rightarrow> ('h, unit option) usb" where
  "feed_server b adr data = do {
     n \<leftarrow> gets (\<lambda>s. length (sent (rsp s)));
     modify (\<lambda>s. s\<lparr>rsp := rsp_feed data (rsp s)\<rparr>);
     new \<leftarrow> gets (\<lambda>s. drop n (sent (rsp s)));
     send_all b adr new }"

text \<open>The size of \<open>g_rx_buf\<close> in bytes is \<open>BULK_MAXP_HS\<close>.\<close>

definition handle_bulk_out :: "'h usb_bus \<Rightarrow> (bytes \<Rightarrow> u32) \<Rightarrow> ('h, unit option) usb" where
  "handle_bulk_out b adr = do {
     w8 b USB_INDEX EP_BULK_OUT;
     c \<leftarrow> r32 b USB_COUNT0_RXCOUNT;
     let n = (let k = c AND 0xFFFF in if BULK_MAXP_HS < k then BULK_MAXP_HS else k);
     buf \<leftarrow> rx_words b (offsets4 (unat n));
     w8 b USB_INDEX EP_BULK_OUT;
     v \<leftarrow> r8 b USB_RXCSR1;
     w8 b USB_RXCSR1 (v AND NOT RXCSR1_RXPKTRDY);
     modify (\<lambda>s. s\<lparr>g_stat_out := g_stat_out s + 1\<rparr>);
     feed_server b adr (take (unat n) buf) }"

section \<open>Polling\<close>

definition count_event :: "('h, unit) usb" where
  "count_event = modify (\<lambda>s. s\<lparr>g_events := g_events s + 1\<rparr>)"

definition poll_ep0 :: "'h usb_bus \<Rightarrow> ('h, unit) usb" where
  "poll_ep0 b = do {
     count_event;
     w8 b USB_INDEX 0;
     csr \<leftarrow> r8 b USB_CSR0_TXCSR1;
     t \<leftarrow> gets traceable;
     whenM t (tr (trace_reg (cs ''ep0 evt csr'') (ucast csr)));
     (if csr AND CSR0_SETUPEND \<noteq> 0
      then do {
        modify (\<lambda>s. s\<lparr>g_ep0_out_remaining := 0\<rparr>);
        w8 b USB_CSR0_TXCSR1 CSR0_SERVICED_SETUP }
      else if csr AND CSR0_SENTSTALL \<noteq> 0 then w8 b USB_CSR0_TXCSR1 (csr AND NOT CSR0_SENTSTALL)
      else if csr AND CSR0_RXPKTRDY \<noteq> 0
      then do {
        left \<leftarrow> gets g_ep0_out_remaining;
        if left \<noteq> 0 then handle_ep0_out b else handle_setup b }
      else if csr AND CSR0_TXPKTRDY = 0
      then do { left \<leftarrow> gets g_ep0_remaining; whenM (left \<noteq> 0) (ep0_send_chunk b) }
      else State_Monad.return ()) }"

definition poll_bulk_in :: "'h usb_bus \<Rightarrow> ('h, unit) usb" where
  "poll_bulk_in b = do {
     count_event;
     w8 b USB_INDEX EP_BULK_IN;
     csr \<leftarrow> r8 b USB_CSR0_TXCSR1;
     (if csr AND TXCSR1_UNDERRUN \<noteq> 0 then w8 b USB_CSR0_TXCSR1 TXCSR1_TXPKTRDY
      else whenM (csr AND TXCSR1_SENTSTALL \<noteq> 0) (w8 b USB_CSR0_TXCSR1 (csr AND NOT TXCSR1_SENTSTALL))) }"

definition poll_bulk_out :: "'h usb_bus \<Rightarrow> (bytes \<Rightarrow> u32) \<Rightarrow> ('h, unit option) usb" where
  "poll_bulk_out b adr = do {
     count_event;
     w8 b USB_INDEX EP_BULK_OUT;
     csr \<leftarrow> r8 b USB_RXCSR1;
     if csr AND RXCSR1_RXPKTRDY \<noteq> 0 then handle_bulk_out b adr else State_Monad.return (Some ()) }"

definition musb_poll :: "'h usb_bus \<Rightarrow> (bytes \<Rightarrow> u32) \<Rightarrow> ('h, unit option) usb" where
  "musb_poll b adr = do {
     intrrx \<leftarrow> r8 b USB_INTRRX1;
     intrtx \<leftarrow> r8 b USB_INTRTX1;
     intrusb \<leftarrow> r8 b USB_INTRUSB;
     if intrusb AND INTRUSB_RESET \<noteq> 0
     then do { count_event; handle_bus_reset b; State_Monad.return (Some ()) }
     else do {
       whenM (intrtx AND 0x01 \<noteq> 0) (poll_ep0 b);
       whenM (intrtx AND 0x04 \<noteq> 0) (poll_bulk_in b);
       if intrrx AND 0x08 \<noteq> 0 then poll_bulk_out b adr else State_Monad.return (Some ()) } }"

definition musb_activity :: "'h musb_st \<Rightarrow> u32" where
  "musb_activity s = g_stat_reset s + g_stat_setup s + g_stat_stall s + g_stat_out s + g_stat_in s +
     g_stat_txdrop s"

definition trace_stat :: "string \<Rightarrow> ('h musb_st \<Rightarrow> u32) \<Rightarrow> ('h, unit) usb" where
  "trace_stat name f = do { v \<leftarrow> gets f; tr (trace_reg (cs name) v) }"

definition musb_report :: "'h usb_bus \<Rightarrow> ('h, unit) usb" where
  "musb_report b = do {
     tr (trace_puts (cs ''--- counters ---'' @ [10]));
     trace_stat ''events'' g_events;
     trace_stat ''resets'' g_stat_reset;
     trace_stat ''setups'' g_stat_setup;
     trace_stat ''stalls'' g_stat_stall;
     trace_stat ''bulk_out'' g_stat_out;
     trace_stat ''bulk_in'' g_stat_in;
     trace_stat ''tx_drops'' g_stat_txdrop;
     trace_stat ''high_speed'' (\<lambda>s. if g_high_speed s then 1 else 0);
     trace_stat ''bulk_maxp'' g_bulk_maxp;
     trace_stat ''line_state'' (\<lambda>s. ucast (g_line_state s));
     trace_reg8 b ''faddr'' USB_FADDR;
     trace_reg8 b ''power'' USB_POWER;
     trace_reg32 b ''mode_status'' USB_MODE_STATUS;
     trace_reg32 b ''int_stat'' INT_STAT }"

section \<open>The main loop (gdbstub/main.c)\<close>

definition REPORT_INTERVAL :: u32 where "REPORT_INTERVAL = 0x00200000"
definition REPORT_LIMIT :: u32 where "REPORT_LIMIT = 40"

text \<open>The local variables of \<open>gdbstub_main\<close>.\<close>

record main_locals =
  ticks :: u32
  reports :: u32
  last_activity :: u32

definition main_start :: "'h usb_bus \<Rightarrow> u32 \<Rightarrow> u32 \<Rightarrow> u32 \<times> u32 \<times> u32 \<Rightarrow> ('h, main_locals) usb" where
  "main_start b cpsr_v sp_v vectors = do {
     tr (trace_reg (cs ''sp'') sp_v \<circ> trace_reg (cs ''cpsr'') cpsr_v \<circ>
       trace_puts (cs ''aipc gdbstub stage 2'' @ [10]) \<circ> trace_init);
     tr (case vectors of (u, p, d) \<Rightarrow> bp_install u p d);
     musb_init b;
     tr (trace_puts (cs ''musb up, polling'' @ [10]));
     State_Monad.return \<lparr>ticks = 0, reports = 0, last_activity = 0xFFFFFFFF\<rparr> }"

definition main_round :: "'h usb_bus \<Rightarrow> (bytes \<Rightarrow> u32) \<Rightarrow> main_locals \<Rightarrow> ('h, main_locals option) usb" where
  "main_round b adr l = do {
     r \<leftarrow> musb_poll b adr;
     (case r of None \<Rightarrow> State_Monad.return None | Some _ \<Rightarrow>
       let l1 = l\<lparr>ticks := ticks l + 1\<rparr>
       in if ticks l1 < REPORT_INTERVAL then State_Monad.return (Some l1)
          else do {
            activity \<leftarrow> gets musb_activity;
            if activity \<noteq> last_activity l1 \<and> reports l1 < REPORT_LIMIT
            then do {
              musb_report b;
              State_Monad.return (Some \<lparr>ticks = 0, reports = reports l1 + 1, last_activity = activity\<rparr>) }
            else State_Monad.return (Some (l1\<lparr>ticks := 0\<rparr>)) }) }"

end
