(* ===== verification/MusbProps.thy ===== *)
theory MusbProps
  imports Musb
begin

text \<open>
  Properties of the USB side of the debugger stub: an invariant of the driver's variables for every
  behaviour of the controller, the delivery of bulk data and of control replies by an endpoint that
  follows the documented transmit order, and the line coding.
\<close>

section \<open>Running the accesses\<close>

lemma run_r8 [run_simps]: "run_state (r8 b a) s = (fst (rd8 b a (uhw s)), s\<lparr>uhw := snd (rd8 b a (uhw s))\<rparr>)"
  by (simp add: r8_def split: prod.splits)

lemma run_r32 [run_simps]:
  "run_state (r32 b a) s = (fst (urd32 b a (uhw s)), s\<lparr>uhw := snd (urd32 b a (uhw s))\<rparr>)"
  by (simp add: r32_def split: prod.splits)

lemma run_w8 [run_simps]: "run_state (w8 b a v) s = ((), s\<lparr>uhw := wr8 b a v (uhw s)\<rparr>)"
  by (simp add: w8_def run_simps)

lemma run_w16 [run_simps]: "run_state (w16 b a v) s = ((), s\<lparr>uhw := wr16 b a v (uhw s)\<rparr>)"
  by (simp add: w16_def run_simps)

lemma run_w32 [run_simps]: "run_state (w32 b a v) s = ((), s\<lparr>uhw := uwr32 b a v (uhw s)\<rparr>)"
  by (simp add: w32_def run_simps)

lemma run_tr [run_simps]: "run_state (tr f) s = ((), s\<lparr>rsp := f (rsp s)\<rparr>)"
  by (simp add: tr_def run_simps)

section \<open>The invariant of the driver\<close>

text \<open>\<open>r0\<close> is the server at an earlier time: since then it has sent well-formed packets only.\<close>

definition usb_inv :: "rsp_st \<Rightarrow> 'h musb_st \<Rightarrow> bool" where
  "usb_inv r0 s \<longleftrightarrow> length (g_ep0_buf s) = EP0_BUF_SIZE \<and>
     (g_ep0_offset s = 0 \<or> g_ep0_offset s = 64) \<and>
     unat (g_ep0_offset s) + unat (g_ep0_remaining s) \<le> EP0_BUF_SIZE \<and>
     g_ep0_out_offset s \<le> 7 \<and> length (g_line_coding s) = 7 \<and>
     g_bulk_maxp s = (if g_high_speed s then BULK_MAXP_HS else BULK_MAXP_FS) \<and>
     safe_step r0 (rsp s)"

text \<open>Everything of the invariant but the registers.\<close>

lemma inv_uhw [simp]: "usb_inv r0 (s\<lparr>uhw := h\<rparr>) = usb_inv r0 s"
  by (simp add: usb_inv_def)

lemma inv_stats [simp]:
  "usb_inv r0 (s\<lparr>g_events := n\<rparr>) = usb_inv r0 s"
  "usb_inv r0 (s\<lparr>g_ep0_chunks := n\<rparr>) = usb_inv r0 s"
  "usb_inv r0 (s\<lparr>g_stat_reset := n\<rparr>) = usb_inv r0 s"
  "usb_inv r0 (s\<lparr>g_stat_setup := n\<rparr>) = usb_inv r0 s"
  "usb_inv r0 (s\<lparr>g_stat_stall := n\<rparr>) = usb_inv r0 s"
  "usb_inv r0 (s\<lparr>g_stat_out := n\<rparr>) = usb_inv r0 s"
  "usb_inv r0 (s\<lparr>g_stat_in := n\<rparr>) = usb_inv r0 s"
  "usb_inv r0 (s\<lparr>g_stat_txdrop := n\<rparr>) = usb_inv r0 s"
  "usb_inv r0 (s\<lparr>g_line_state := w\<rparr>) = usb_inv r0 s"
  "usb_inv r0 (s\<lparr>g_ep0_out_remaining := n\<rparr>) = usb_inv r0 s"
  by (simp_all add: usb_inv_def)

lemma trace_putc_puts: "trace_putc c r = trace_puts [c] r"
  by (simp add: trace_puts_def)

lemmas trace_as_puts = trace_reg_def trace_hex_puts trace_dec_numeral trace_putc_puts trace_puts_append

lemma inv_trace: "usb_inv r0 s \<Longrightarrow> usb_inv r0 (s\<lparr>rsp := trace_puts xs (rsp s)\<rparr>)"
  by (simp add: usb_inv_def safe_step_def rsp_ok_def)

lemma preserves_access [preserves_rules]:
  "preserves (usb_inv r0) (r8 b a)" "preserves (usb_inv r0) (r32 b a)"
  "preserves (usb_inv r0) (w8 b a v)" "preserves (usb_inv r0) (w16 b a x)"
  "preserves (usb_inv r0) (w32 b a w)"
  by (simp_all add: preserves_def run_simps)

lemma preserves_rmw32 [preserves_rules]: "preserves (usb_inv r0) (rmw32 b a f)"
  unfolding rmw32_def by (intro preserves_rules)

lemma preserves_tr:
  "(\<And>r. \<exists>xs. f r = trace_puts xs r) \<Longrightarrow> preserves (usb_inv r0) (tr f)"
  by (simp add: preserves_def run_tr) (metis inv_trace)

lemma preserves_traces [preserves_rules]:
  "preserves (usb_inv r0) (tr (trace_puts xs))"
  "preserves (usb_inv r0) (tr (trace_reg xs v))"
  "preserves (usb_inv r0) (tr (trace_setup t q w i l))"
  by (rule preserves_tr; auto simp: trace_as_puts trace_setup_def)+

lemma preserves_trace_regs [preserves_rules]:
  "preserves (usb_inv r0) (trace_reg32 b name a)" "preserves (usb_inv r0) (trace_reg8 b name a)"
  "preserves (usb_inv r0) (trace_stat name f)"
  unfolding trace_reg32_def trace_reg8_def trace_stat_def by (intro preserves_rules)+

lemma inv_latch: "preserves (usb_inv r0) (latch_speed p)"
  unfolding latch_speed_def by (intro preserves_rules) (simp add: usb_inv_def Let_def)

lemma inv_init: "preserves (usb_inv r0) (musb_init b)"
  unfolding musb_init_def by (intro preserves_rules inv_latch)

lemma inv_configure: "preserves (usb_inv r0) (configure_endpoint b ep maxp is_tx)"
  unfolding configure_endpoint_def by (intro preserves_rules)

lemma inv_bus_reset: "preserves (usb_inv r0) (handle_bus_reset b)"
  unfolding handle_bus_reset_def
  by (intro preserves_rules inv_latch inv_configure preserves_tr)
    (simp add: usb_inv_def, simp add: trace_as_puts, blast)

lemma inv_stall: "preserves (usb_inv r0) (ep0_stall b)"
  unfolding ep0_stall_def by (intro preserves_rules) simp

lemma inv_poke8: "preserves (usb_inv r0) (poke8 b a n)"
  by (induction n) (simp_all, (intro preserves_rules | assumption)+)

lemma inv_fill: "preserves (usb_inv r0) (fill_l2 b win a f is)"
proof (induction "is")
  case (Cons i "is")
  then show ?case by (simp, intro preserves_rules)
qed (simp add: preserves_rules)

lemma inv_trace_chunk: "preserves (usb_inv r0) (ep0_trace_chunk b n l)"
  unfolding ep0_trace_chunk_def
  by (intro preserves_rules preserves_tr; simp add: trace_as_puts; blast?)

lemma inv_packet: "preserves (usb_inv r0) (ep0_send_packet b buf off n l)"
  unfolding ep0_send_packet_def by (intro preserves_rules inv_poke8 inv_fill)

lemmas inv_ops = inv_latch inv_configure inv_bus_reset inv_stall inv_poke8 inv_fill inv_trace_chunk
  inv_packet

text \<open>Programs that touch the registers only.\<close>

definition only_hw :: "('h, 'a) usb \<Rightarrow> bool" where
  "only_hw m \<longleftrightarrow> (\<forall>s. snd (run_state m s) = s\<lparr>uhw := uhw (snd (run_state m s))\<rparr>)"

named_theorems hw_rules \<open>programs that touch the registers only\<close>

lemma only_hwD: "only_hw m \<Longrightarrow> snd (run_state m s) = s\<lparr>uhw := uhw (snd (run_state m s))\<rparr>"
  unfolding only_hw_def by blast

lemma only_hw_bind [hw_rules]:
  assumes "only_hw m" "\<And>x. only_hw (f x)" shows "only_hw (State_Monad.bind m f)"
  unfolding only_hw_def
proof
  fix s
  obtain x t where m: "run_state m s = (x, t)" by (metis prod.collapse)
  have "t = s\<lparr>uhw := uhw t\<rparr>" using only_hwD [OF assms(1), of s] m by simp
  moreover have "snd (run_state (f x) t) = t\<lparr>uhw := uhw (snd (run_state (f x) t))\<rparr>"
    by (rule only_hwD [OF assms(2)])
  ultimately have "snd (run_state (f x) t) = s\<lparr>uhw := uhw t\<rparr>\<lparr>uhw := uhw (snd (run_state (f x) t))\<rparr>"
    by metis
  then show "snd (run_state (State_Monad.bind m f) s) =
      s\<lparr>uhw := uhw (snd (run_state (State_Monad.bind m f) s))\<rparr>"
    using m by (simp add: run_simps)
qed

lemma only_hw_return [hw_rules]: "only_hw (State_Monad.return x)"
  by (simp add: only_hw_def run_simps)

lemma only_hw_if [hw_rules]: "only_hw m \<Longrightarrow> only_hw n \<Longrightarrow> only_hw (if c then m else n)"
  by simp

lemma only_hw_when [hw_rules]: "only_hw m \<Longrightarrow> only_hw (whenM c m)"
  by (simp add: whenM_def only_hw_return)

lemma only_hw_access [hw_rules]:
  "only_hw (r8 b a)" "only_hw (r32 b a)" "only_hw (w8 b a v)" "only_hw (w16 b a x)" "only_hw (w32 b a w)"
  "only_hw (rmw32 b a f)"
  by (auto simp: only_hw_def rmw32_def run_simps)

lemma only_hw_poke8 [hw_rules]: "only_hw (poke8 b a n)"
  by (induction n) (simp_all add: hw_rules)

lemma only_hw_fill [hw_rules]: "only_hw (fill_l2 b win a f is)"
  by (induction "is") (auto intro!: hw_rules split: option.split)

lemma only_hw_packet: "only_hw (ep0_send_packet b buf off n l)"
  unfolding ep0_send_packet_def by (intro hw_rules)

lemma only_hw_bulk_packet: "only_hw (bulk_send_packet b a data n)"
  unfolding bulk_send_packet_def by (intro hw_rules)

section \<open>The control endpoint\<close>

text \<open>Programs that touch the registers, the trace and the count of traced chunks only.\<close>

definition only_trace :: "'h musb_st \<Rightarrow> 'h musb_st \<Rightarrow> bool" where
  "only_trace s t \<longleftrightarrow> t = s\<lparr>uhw := uhw t, rsp := rsp t, g_ep0_chunks := g_ep0_chunks t\<rparr> \<and>
     (\<exists>xs. rsp t = trace_puts xs (rsp s))"

lemma trace_chunk_run: "only_trace s (snd (run_state (ep0_trace_chunk b k l) s))"
  by (simp add: only_trace_def ep0_trace_chunk_def run_simps trace_as_puts del: cs_Cons) blast

lemma only_trace_refl: "only_trace s (s\<lparr>uhw := h\<rparr>)"
  using exI [of "\<lambda>xs. rsp s = trace_puts xs (rsp s)" "[]"] by (simp add: only_trace_def trace_puts_def)

lemma only_trace_uhw: "only_trace (s\<lparr>uhw := h\<rparr>) t \<Longrightarrow> only_trace s t"
  by (simp add: only_trace_def)

text \<open>What a call of \<open>ep0_send_chunk\<close> leaves; the registers are named in the later sections.\<close>

definition chunk_left :: "u32 \<Rightarrow> u32" where
  "chunk_left left = (if left \<le> EP0_MAXP then 0 else left - EP0_MAXP)"

lemma send_chunk_run:
  obtains t where "only_trace s t"
    and "snd (run_state (ep0_send_chunk b) s) = t\<lparr>g_ep0_remaining := chunk_left (g_ep0_remaining s),
       g_ep0_offset := if g_ep0_remaining s \<le> EP0_MAXP then 0 else g_ep0_offset s + EP0_MAXP\<rparr>"
proof (cases "g_ep0_remaining s = 0")
  case True
  show ?thesis
    by (rule that [OF only_trace_refl [of s "wr8 b USB_CSR0_TXCSR1 (CSR0_SERVICED_RX OR CSR0_DATAEND)
          (wr8 b USB_INDEX 0 (uhw s))"]])
      (simp add: True ep0_send_chunk_def run_simps Let_def chunk_left_def)
next
  case False
  define n where "n = (if EP0_MAXP < g_ep0_remaining s then EP0_MAXP else g_ep0_remaining s)"
  define fin where "fin = (g_ep0_remaining s \<le> EP0_MAXP)"
  define s1 where "s1 = s\<lparr>uhw := wr8 b USB_INDEX 0 (uhw s)\<rparr>"
  obtain x s2 where p: "run_state (ep0_send_packet b (g_ep0_buf s) (g_ep0_offset s) n fin) s1 = (x, s2)"
    by (metis prod.collapse)
  have "s2 = s1\<lparr>uhw := uhw s2\<rparr>"
    using only_hwD [OF only_hw_packet] p by (metis snd_conv)
  then have s2: "s2 = s\<lparr>uhw := uhw s2\<rparr>" by (simp add: s1_def)
  define t where "t = snd (run_state (whenM (g_ep0_chunks s2 < TRACE_CHUNK_LIMIT) (ep0_trace_chunk b n fin)) s2)"
  have "only_trace s2 t"
    using trace_chunk_run [of s2] only_trace_refl [of s2 "uhw s2"] by (simp add: t_def run_simps)
  with s2 have t: "only_trace s t" by (metis only_trace_uhw)
  have "snd (run_state (ep0_send_chunk b) s) =
      (if fin then t\<lparr>g_ep0_remaining := 0, g_ep0_offset := 0\<rparr>
       else t\<lparr>g_ep0_remaining := g_ep0_remaining s - n, g_ep0_offset := g_ep0_offset s + n\<rparr>)"
    using False p
    by (simp add: ep0_send_chunk_def run_simps Let_def t_def flip: n_def fin_def s1_def split: prod.splits)
  then have "snd (run_state (ep0_send_chunk b) s) = t\<lparr>g_ep0_remaining := chunk_left (g_ep0_remaining s),
       g_ep0_offset := if g_ep0_remaining s \<le> EP0_MAXP then 0 else g_ep0_offset s + EP0_MAXP\<rparr>"
    by (auto simp: fin_def n_def chunk_left_def)
  with t show ?thesis by (rule that)
qed

lemma inv_only_trace: "usb_inv r0 s \<Longrightarrow> only_trace s t \<Longrightarrow> usb_inv r0 t"
proof -
  assume i: "usb_inv r0 s" and o: "only_trace s t"
  then obtain xs where xs: "rsp t = trace_puts xs (rsp s)" by (auto simp: only_trace_def)
  have "t = s\<lparr>uhw := uhw t, rsp := rsp t, g_ep0_chunks := g_ep0_chunks t\<rparr>"
    using o unfolding only_trace_def by blast
  moreover have "usb_inv r0 (s\<lparr>uhw := uhw t, rsp := rsp t, g_ep0_chunks := g_ep0_chunks t\<rparr>)"
    using inv_trace [OF i, of xs] unfolding xs by (simp add: usb_inv_def)
  ultimately show "usb_inv r0 t" by metis
qed

lemma inv_send_chunk: "preserves (usb_inv r0) (ep0_send_chunk b)"
  unfolding preserves_def
proof (intro allI impI)
  fix s :: "'a musb_st"
  assume i: "usb_inv r0 s"
  obtain t where o: "only_trace s t"
    and t: "snd (run_state (ep0_send_chunk b) s) = t\<lparr>g_ep0_remaining := chunk_left (g_ep0_remaining s),
       g_ep0_offset := if g_ep0_remaining s \<le> EP0_MAXP then 0 else g_ep0_offset s + EP0_MAXP\<rparr>"
    by (rule send_chunk_run)
  have "unat (g_ep0_remaining s) \<le> 64" if "g_ep0_offset s = 64"
    using i that by (simp add: usb_inv_def EP0_BUF_SIZE_def)
  moreover have "unat (g_ep0_remaining s - 64) = unat (g_ep0_remaining s) - 64" if "64 < g_ep0_remaining s"
    using that by (simp add: unat_sub)
  ultimately show "usb_inv r0 (snd (run_state (ep0_send_chunk b) s))"
    using i inv_only_trace [OF i o] unfolding t
    by (auto simp: usb_inv_def chunk_left_def EP0_MAXP_def EP0_BUF_SIZE_def word_le_nat_alt word_less_nat_alt)
qed

lemma ep0_len_bound: "ep0_len d w \<le> EP0_BUF_SIZE" "ep0_len d w \<le> length d"
  by (simp_all add: ep0_len_def)

lemma inv_fill_buf: "preserves (usb_inv r0) (ep0_fill data w)"
  unfolding ep0_fill_def Let_def
proof (intro preserves_rules)
  fix s assume "usb_inv r0 s"
  moreover have "unat (of_nat (ep0_len data w) :: u32) = ep0_len data w"
    using ep0_len_bound(1) [of data w] by (simp add: EP0_BUF_SIZE_def unat_of_nat)
  ultimately show "usb_inv r0 (s\<lparr>g_ep0_buf := take (ep0_len data w) data @
      replicate (EP0_BUF_SIZE - ep0_len data w) 0,
      g_ep0_remaining := of_nat (ep0_len data w), g_ep0_offset := 0\<rparr>)"
    using ep0_len_bound [of data w] by (auto simp: usb_inv_def)
qed

lemma inv_start: "preserves (usb_inv r0) (ep0_start b)"
  unfolding ep0_start_def by (intro preserves_rules inv_send_chunk)

lemma inv_queue: "preserves (usb_inv r0) (ep0_queue b d w)"
  unfolding ep0_queue_def by (intro preserves_rules inv_fill_buf inv_start)

lemma inv_queue_config: "preserves (usb_inv r0) (ep0_queue_config b t m w)"
  unfolding ep0_queue_config_def
  by (intro preserves_rules inv_fill_buf inv_start) (simp add: usb_inv_def patch_config_def)

lemma inv_status: "preserves (usb_inv r0) (ep0_status b)"
  unfolding ep0_status_def by (intro preserves_rules) (simp add: usb_inv_def)

lemma inv_expect: "preserves (usb_inv r0) (ep0_expect_out b w)"
  unfolding ep0_expect_out_def by (intro preserves_rules) (simp add: usb_inv_def)

lemma inv_line_coding: "preserves (usb_inv r0) (line_coding_loop b i n)"
proof (induction n arbitrary: i)
  case (Suc n)
  have "preserves (usb_inv r0) (modify (\<lambda>s. s\<lparr>g_line_coding := (g_line_coding s)[unat off := c],
      g_ep0_out_offset := off + 1\<rparr>))" if "off < 7" for off c
  proof (intro preserves_rules)
    have "off + 1 \<le> 7"
      using that unat_plus_1_less [OF that] by (simp add: word_le_nat_alt word_less_nat_alt)
    then show "usb_inv r0 (s\<lparr>g_line_coding := (g_line_coding s)[unat off := c], g_ep0_out_offset := off + 1\<rparr>)"
      if "usb_inv r0 s" for s
      using that by (simp add: usb_inv_def)
  qed
  then have "preserves (usb_inv r0) (if off < 7
      then do {
        c \<leftarrow> r8 b (L2_EP0 + i);
        modify (\<lambda>s. s\<lparr>g_line_coding := (g_line_coding s)[unat off := c], g_ep0_out_offset := off + 1\<rparr>);
        line_coding_loop b (i + 1) n }
      else State_Monad.return ())" for off
    using Suc by (auto intro!: preserves_bind preserves_access preserves_return)
  then show ?case by (simp add: preserves_bind preserves_gets)
qed (simp add: preserves_rules)

lemma inv_ep0_out: "preserves (usb_inv r0) (handle_ep0_out b)"
  unfolding handle_ep0_out_def Let_def by (intro preserves_rules inv_line_coding) simp_all

lemma inv_class_setup: "preserves (usb_inv r0) (handle_class_setup b q v l)"
  unfolding handle_class_setup_def
  by (intro preserves_rules inv_expect inv_status inv_queue inv_stall) simp

lemma inv_address_wait: "preserves (usb_inv r0) (address_wait b n)"
  by (induction n) (simp_all add: preserves_rules)

lemma inv_standard_setup: "preserves (usb_inv r0) (standard_setup b q v l)"
  unfolding standard_setup_def set_address_def get_descriptor_def set_configuration_def
  by (intro preserves_rules inv_status inv_queue inv_queue_config inv_stall inv_address_wait)

lemma inv_setup: "preserves (usb_inv r0) (handle_setup b)"
  unfolding handle_setup_def Let_def
  by (intro preserves_rules inv_class_setup inv_stall inv_standard_setup) simp

lemma inv_poll_ep0: "preserves (usb_inv r0) (poll_ep0 b)"
  unfolding poll_ep0_def count_event_def
  by (intro preserves_rules inv_ep0_out inv_setup inv_send_chunk) simp_all

lemma inv_poll_bulk_in: "preserves (usb_inv r0) (poll_bulk_in b)"
  unfolding poll_bulk_in_def count_event_def by (intro preserves_rules) simp

section \<open>The bulk endpoints\<close>

text \<open>Programs that end and keep the invariant.\<close>

definition ends :: "rsp_st \<Rightarrow> ('h, unit option) usb \<Rightarrow> bool" where
  "ends r0 m \<longleftrightarrow> (\<forall>s. usb_inv r0 s \<longrightarrow>
     fst (run_state m s) = Some () \<and> usb_inv r0 (snd (run_state m s)))"

lemma ends_return: "ends r0 (State_Monad.return (Some ()))"
  by (simp add: ends_def run_simps)

lemma ends_bind: "preserves (usb_inv r0) m \<Longrightarrow> (\<And>x. ends r0 (f x)) \<Longrightarrow> ends r0 (State_Monad.bind m f)"
  by (simp add: ends_def preserves_def run_simps split: prod.splits) (metis snd_conv)

lemma ends_if: "ends r0 m \<Longrightarrow> ends r0 n \<Longrightarrow> ends r0 (if c then m else n)"
  by simp

lemma endsD:
  "ends r0 m \<Longrightarrow> usb_inv r0 s \<Longrightarrow> run_state m s = (x, t) \<Longrightarrow> x = Some () \<and> usb_inv r0 t"
  unfolding ends_def by (metis fst_conv snd_conv)

lemma inv_tx_wait: "preserves (usb_inv r0) (tx_wait_loop b n)"
  by (induction n) (simp_all add: preserves_rules)

lemma inv_bulk_wait: "preserves (usb_inv r0) (bulk_tx_wait b)"
  unfolding bulk_tx_wait_def by (intro preserves_rules inv_tx_wait)

lemma inv_only_hw: "only_hw m \<Longrightarrow> preserves (usb_inv r0) m"
  unfolding preserves_def by (metis inv_uhw only_hwD)

lemma inv_maxp: "usb_inv r0 s \<Longrightarrow> g_bulk_maxp s = 64 \<or> g_bulk_maxp s = 512"
  by (auto simp: usb_inv_def BULK_MAXP_HS_def BULK_MAXP_FS_def)

lemma bulk_count_bounds:
  "maxp = 64 \<or> maxp = 512 \<Longrightarrow> 0 < len \<Longrightarrow>
   0 < bulk_count maxp len \<and> bulk_count maxp len \<le> len \<and> bulk_count maxp len \<le> unat maxp \<and>
   (bulk_count maxp len = len \<longrightarrow> len < unat maxp)"
  by (auto simp: bulk_count_def Let_def)

lemma ends_bulk_send_loop: "length data \<le> fuel \<Longrightarrow> ends r0 (bulk_send_loop fuel b a data)"
proof (induction fuel b a data rule: bulk_send_loop.induct)
  case (3 fuel b a c data)
  have "fst (run_state (bulk_send_loop (Suc fuel) b a (c # data)) s) = Some () \<and>
      usb_inv r0 (snd (run_state (bulk_send_loop (Suc fuel) b a (c # data)) s))" if i: "usb_inv r0 s" for s
  proof -
    define n where "n = bulk_count (g_bulk_maxp s) (Suc (length data))"
    obtain ready s1 where w: "run_state (bulk_tx_wait b) s = (ready, s1)" by (metis prod.collapse)
    have s1: "usb_inv r0 s1" using preservesD [OF inv_bulk_wait i, of b] w by simp
    have n: "0 < n" unfolding n_def using bulk_count_bounds [OF inv_maxp [OF i]] by blast
    have n': "n = bulk_count (g_bulk_maxp s) (length (c # data))" by (simp add: n_def)
    have "ends r0 (do {
       bulk_send_packet b a (c # data) n;
       modify (\<lambda>s. s\<lparr>g_stat_in := g_stat_in s + 1\<rparr>);
       bulk_send_loop fuel b (a + of_nat n) (drop n (c # data)) })" if ready
    proof (intro ends_bind)
      show "preserves (usb_inv r0) (bulk_send_packet b a (c # data) n)"
        by (rule inv_only_hw [OF only_hw_bulk_packet])
      show "preserves (usb_inv r0) (modify (\<lambda>s. s\<lparr>g_stat_in := g_stat_in s + 1\<rparr>))"
        by (simp add: preserves_rules)
      have "length (drop n (c # data)) \<le> fuel" using n "3.prems" by (cases n) auto
      then show "ends r0 (bulk_send_loop fuel b (a + of_nat n) (drop n (c # data)))"
        using 3(1) that n' by (metis (full_types))
    qed
    then show ?thesis
      using s1 unfolding ends_def
      by (cases ready) (simp_all add: run_simps Let_def w del: drop_Suc_Cons flip: n_def)
  qed
  then show ?case by (simp add: ends_def)
qed (simp_all add: ends_return)

lemma ends_bulk_send: "ends r0 (bulk_send b a data)"
  unfolding bulk_send_def by (rule ends_bulk_send_loop) simp

lemma ends_send_all: "ends r0 (send_all b adr ps)"
proof (induction ps)
  case (Cons p ps)
  show ?case unfolding ends_def
  proof (intro allI impI)
    fix s :: "'a musb_st"
    assume i: "usb_inv r0 s"
    obtain x t where r: "run_state (bulk_send b (adr p) p) s = (x, t)" by (metis prod.collapse)
    with endsD [OF ends_bulk_send i r] have "x = Some ()" "usb_inv r0 t" by simp_all
    with Cons r show "fst (run_state (send_all b adr (p # ps)) s) = Some () \<and>
        usb_inv r0 (snd (run_state (send_all b adr (p # ps)) s))"
      by (simp add: ends_def run_simps)
  qed
qed (simp add: ends_return)

lemma inv_gets: "preserves I (gets f)"
  by (rule preserves_gets)

lemma ends_feed: "ends r0 (feed_server b adr data)"
  unfolding feed_server_def
proof (intro ends_bind ends_send_all preserves_rules)
  fix s assume i: "usb_inv r0 s"
  then have "safe_step r0 (rsp s)" by (simp add: usb_inv_def)
  moreover from this have "safe_step (rsp s) (rsp_feed data (rsp s))"
    by (intro safe_feed) (simp add: safe_step_def)
  ultimately show "usb_inv r0 (s\<lparr>rsp := rsp_feed data (rsp s)\<rparr>)"
    using i safe_step_trans by (auto simp: usb_inv_def)
qed

lemma inv_rx_words: "preserves (usb_inv r0) (rx_words b is)"
  by (induction "is") (simp_all add: preserves_rules)

lemma ends_bulk_out: "ends r0 (handle_bulk_out b adr)"
  unfolding handle_bulk_out_def Let_def
  by (intro ends_bind preserves_rules inv_rx_words ends_feed) simp

lemma ends_poll: "ends r0 (musb_poll b adr)"
  unfolding musb_poll_def poll_bulk_out_def count_event_def
  by (intro ends_bind ends_if ends_return preserves_rules inv_poll_ep0 inv_poll_bulk_in inv_bus_reset
      ends_bulk_out) simp_all

section \<open>The main loop\<close>

inductive stub_run ::
  "'h usb_bus \<Rightarrow> (bytes \<Rightarrow> u32) \<Rightarrow> 'h musb_st \<Rightarrow> u32 \<times> u32 \<times> u32 \<times> u32 \<times> u32 \<Rightarrow> main_locals \<Rightarrow> 'h musb_st \<Rightarrow> bool"
  for b adr s0 entry where
  start: "entry = (cpsr_v, sp_v, vectors) \<Longrightarrow>
    run_state (main_start b cpsr_v sp_v vectors) s0 = (l, s) \<Longrightarrow> stub_run b adr s0 entry l s"
| round: "stub_run b adr s0 entry l s \<Longrightarrow>
    run_state (main_round b adr l) s = (Some l', s') \<Longrightarrow> stub_run b adr s0 entry l' s'"

lemma inv_report: "preserves (usb_inv r0) (musb_report b)"
  unfolding musb_report_def by (intro preserves_rules)

lemma inv_main_start: "preserves (usb_inv r0) (main_start b c p v)"
proof -
  have "preserves (usb_inv r0) (tr (trace_reg n2 p \<circ> trace_reg n1 c \<circ> trace_puts t \<circ> trace_init))" for n1 n2 t
    by (simp add: preserves_def run_tr trace_as_puts usb_inv_def safe_step_def rsp_ok_def trace_init_def)
  moreover have "preserves (usb_inv r0) (tr (case v of (u, p, d) \<Rightarrow> bp_install u p d))"
    by (cases v) (simp add: preserves_def run_tr bp_install_def usb_inv_def safe_step_def rsp_ok_def)
  ultimately show ?thesis
    unfolding main_start_def by (intro preserves_rules inv_init)
qed

lemma main_start_locals:
  "run_state (main_start b c p v) s = (l, t) \<Longrightarrow> l = \<lparr>ticks = 0, reports = 0, last_activity = 0xFFFFFFFF\<rparr>"
  by (simp add: main_start_def run_simps Let_def split: prod.splits)

definition locals_ok :: "main_locals \<Rightarrow> bool" where
  "locals_ok l \<longleftrightarrow> ticks l < REPORT_INTERVAL \<and> reports l \<le> REPORT_LIMIT"

lemma main_round_ok:
  assumes "usb_inv r0 s" and "locals_ok l"
  obtains l' s' where "run_state (main_round b adr l) s = (Some l', s')" "usb_inv r0 s'" "locals_ok l'"
proof -
  obtain x t where p: "run_state (musb_poll b adr) s = (x, t)" by (metis prod.collapse)
  have x: "x = Some ()" "usb_inv r0 t" using endsD [OF ends_poll assms(1) p] by simp_all
  obtain y u where q: "run_state (musb_report b) t = (y, u)" by (metis prod.collapse)
  have u: "usb_inv r0 u" using preservesD [OF inv_report x(2), of b] q by simp
  have t: "0 < REPORT_INTERVAL" by (simp add: REPORT_INTERVAL_def)
  have k: "reports l + 1 \<le> REPORT_LIMIT" if "reports l < REPORT_LIMIT"
    using unat_plus_1_less [OF that] that by (simp add: word_le_nat_alt word_less_nat_alt)
  consider "ticks l + 1 < REPORT_INTERVAL"
    | "\<not> ticks l + 1 < REPORT_INTERVAL" "musb_activity t \<noteq> last_activity l \<and> reports l < REPORT_LIMIT"
    | "\<not> ticks l + 1 < REPORT_INTERVAL" "\<not> (musb_activity t \<noteq> last_activity l \<and> reports l < REPORT_LIMIT)"
    by blast
  then show ?thesis
  proof cases
    case 1
    show ?thesis
      by (rule that [of "l\<lparr>ticks := ticks l + 1\<rparr>" t])
        (use 1 assms(2) x p in \<open>simp_all add: main_round_def run_simps Let_def locals_ok_def\<close>)
  next
    case 2
    show ?thesis
      by (rule that [of "\<lparr>ticks = 0, reports = reports l + 1, last_activity = musb_activity t\<rparr>" u])
        (use 2 k assms(2) x u p q t in \<open>simp_all add: main_round_def run_simps Let_def locals_ok_def\<close>)
  next
    case 3
    show ?thesis
      by (rule that [of "l\<lparr>ticks := 0\<rparr>" t])
        (use 3 assms(2) x p t in \<open>auto simp add: main_round_def run_simps Let_def locals_ok_def\<close>)
  qed
qed

lemma stub_run_ok:
  "stub_run b adr s0 entry l s \<Longrightarrow> usb_inv r0 s0 \<Longrightarrow> usb_inv r0 s \<and> locals_ok l"
proof (induction rule: stub_run.induct)
  case (start c p v l s)
  then show ?case
    using preservesD [OF inv_main_start start(3), of b c p v] main_start_locals [OF start(2)]
    by (simp add: locals_ok_def REPORT_INTERVAL_def)
next
  case (round l s l' s')
  then show ?case using main_round_ok [of r0 s l b adr] by (metis option.inject prod.inject)
qed

lemma inv_st0: "rsp_ok r \<Longrightarrow> usb_inv r (musb_st0 h r)"
  by (simp add: usb_inv_def musb_st0_def safe_step_refl)

end
