(* ===== verification/MusbWire.thy ===== *)
theory MusbWire
  imports MusbProps
begin

text \<open>
  What the host sees. An endpoint of the controller is described by a small device: a window in L2,
  a FIFO pointer that only counts, and a packet that goes on the wire when the ready bit is written.
  It dies when the transmit order that musb.c documents is not kept. The controller is any bus whose
  accesses act on such a device.
\<close>

section \<open>An endpoint\<close>

record pipe =
  pindex :: u8
  pbit :: nat
  pready :: u8
  pend :: u8
  pwin :: u32
  pfifo :: u32
  pcount :: u32

definition bulk_in_pipe :: pipe where
  "bulk_in_pipe = \<lparr>pindex = EP_BULK_IN, pbit = 1, pready = TXCSR1_TXPKTRDY, pend = 0, pwin = L2_EP2_TX,
     pfifo = USB_FIFO_EP2, pcount = USB_EP2_TX_COUNT\<rparr>"

definition ep0_pipe :: pipe where
  "ep0_pipe = \<lparr>pindex = 0, pbit = 0, pready = CSR0_TXPKTRDY, pend = CSR0_DATAEND, pwin = L2_EP0,
     pfifo = USB_FIFO_EP0, pcount = USB_EP0_TX_COUNT\<rparr>"

record ep_dev =
  d_index :: u8
  d_win :: mem
  d_fifo :: nat
  d_forbid :: bool
  d_count :: u32
  d_fetched :: bool
  d_wire :: "bytes list"
  d_ended :: nat
  d_dead :: bool

text \<open>FIFO pokes and the fetch have to come between the two writes of \<open>FORBID_WRITE\<close>, the fetch after
  the count, and the count has to be that of the pokes.\<close>

definition ep_poke :: "nat \<Rightarrow> ep_dev \<Rightarrow> ep_dev" where
  "ep_poke n e = e\<lparr>d_fifo := d_fifo e + n, d_dead := d_dead e \<or> \<not> d_forbid e\<rparr>"

definition ep_fetch :: "ep_dev \<Rightarrow> ep_dev" where
  "ep_fetch e = e\<lparr>d_fetched := True,
     d_dead := d_dead e \<or> \<not> d_forbid e \<or> unat (d_count e) \<noteq> d_fifo e\<rparr>"

definition ep_ready :: "pipe \<Rightarrow> ep_dev \<Rightarrow> ep_dev" where
  "ep_ready P e = e\<lparr>d_wire := d_wire e @ [mem_range (d_win e) (pwin P) (d_fifo e)],
     d_fifo := 0, d_count := 0, d_fetched := False,
     d_dead := d_dead e \<or> \<not> d_forbid e \<or> \<not> d_fetched e\<rparr>"

definition ep_csr :: "pipe \<Rightarrow> u8 \<Rightarrow> ep_dev \<Rightarrow> ep_dev" where
  "ep_csr P v e =
     (let e1 = (if v AND pready P \<noteq> 0 then ep_ready P e else e)
      in if v AND pend P \<noteq> 0 then e1\<lparr>d_ended := d_ended e1 + 1\<rparr> else e1)"

definition ep_w8 :: "pipe \<Rightarrow> u32 \<Rightarrow> u8 \<Rightarrow> ep_dev \<Rightarrow> ep_dev" where
  "ep_w8 P a v e =
     (if a = USB_INDEX then e\<lparr>d_index := v\<rparr>
      else if a = pfifo P then ep_poke 1 e
      else if a = USB_CSR0_TXCSR1 \<and> d_index e = pindex P then ep_csr P v e
      else e)"

definition ep_w32 :: "pipe \<Rightarrow> u32 \<Rightarrow> u32 \<Rightarrow> ep_dev \<Rightarrow> ep_dev" where
  "ep_w32 P a v e =
     (if a = USB_FORBID_WRITE then e\<lparr>d_forbid := bit v (pbit P)\<rparr>
      else if a = pfifo P then ep_poke 4 e
      else if a = pcount P then e\<lparr>d_count := v\<rparr>
      else if a = USB_START_PRE_READ then if bit v (pbit P) then ep_fetch e else e
      else if unat (a - pwin P) < 512 then e\<lparr>d_win := st32 (d_win e) a v\<rparr>
      else e)"

definition ep_law :: "pipe \<Rightarrow> 'h usb_bus \<Rightarrow> ('h \<Rightarrow> ep_dev) \<Rightarrow> bool" where
  "ep_law P b ep \<longleftrightarrow>
     (\<forall>a v h. ep (wr8 b a v h) = ep_w8 P a v (ep h)) \<and> (\<forall>a v h. ep (uwr32 b a v h) = ep_w32 P a v (ep h)) \<and>
     (\<forall>a h. ep (snd (rd8 b a h)) = ep h) \<and> (\<forall>a h. ep (snd (urd32 b a h)) = ep h)"

definition ep_idle :: "ep_dev \<Rightarrow> bool" where
  "ep_idle e \<longleftrightarrow> \<not> d_dead e \<and> d_fifo e = 0"

text \<open>The device as a controller of its own. Its transmit register reads as \<open>busy\<close>.\<close>

definition ep_bus :: "pipe \<Rightarrow> u8 \<Rightarrow> ep_dev usb_bus" where
  "ep_bus P busy = \<lparr>rd8 = (\<lambda>a e. (if a = USB_CSR0_TXCSR1 then busy else 0, e)), wr8 = ep_w8 P,
     wr16 = (\<lambda>a v e. e), urd32 = (\<lambda>a e. (0, e)), uwr32 = ep_w32 P\<rparr>"

definition ep_dev0 :: ep_dev where
  "ep_dev0 = \<lparr>d_index = 0, d_win = (\<lambda>_. 0), d_fifo = 0, d_forbid = False, d_count = 0, d_fetched = False,
     d_wire = [], d_ended = 0, d_dead = False\<rparr>"

lemma ep_law_bus: "ep_law P (ep_bus P busy) (\<lambda>e. e)"
  by (simp add: ep_law_def ep_bus_def)

lemma ep_idle_dev0: "ep_idle ep_dev0"
  by (simp add: ep_idle_def ep_dev0_def)

section \<open>Programs that drive the endpoint\<close>

definition drives :: "('h \<Rightarrow> ep_dev) \<Rightarrow> ep_dev \<Rightarrow> ('h, 'a) usb \<Rightarrow> ep_dev \<Rightarrow> bool" where
  "drives ep e m e' \<longleftrightarrow> (\<forall>s. ep (uhw s) = e \<longrightarrow> ep (uhw (snd (run_state m s))) = e')"

lemma drivesD: "drives ep e m e' \<Longrightarrow> ep (uhw s) = e \<Longrightarrow> run_state m s = (x, t) \<Longrightarrow> ep (uhw t) = e'"
  unfolding drives_def by (metis snd_conv)

lemma drives_bind:
  "drives ep e m e1 \<Longrightarrow> (\<And>x. drives ep e1 (f x) e2) \<Longrightarrow> drives ep e (State_Monad.bind m f) e2"
  by (simp add: drives_def run_simps split: prod.splits) (metis snd_conv)

lemma drives_return: "drives ep e (State_Monad.return x) e"
  by (simp add: drives_def run_simps)

lemma drives_w8: "ep_law P b ep \<Longrightarrow> ep_w8 P a v e = e' \<Longrightarrow> drives ep e (w8 b a v) e'"
  by (simp add: drives_def run_simps ep_law_def)

lemma drives_w32: "ep_law P b ep \<Longrightarrow> ep_w32 P a v e = e' \<Longrightarrow> drives ep e (w32 b a v) e'"
  by (simp add: drives_def run_simps ep_law_def)

lemma drives_rmw32:
  "ep_law P b ep \<Longrightarrow> (\<And>v. ep_w32 P a (f v) e = e') \<Longrightarrow> drives ep e (rmw32 b a f) e'"
  by (simp add: drives_def rmw32_def run_simps ep_law_def)

lemma drives_r8: "ep_law P b ep \<Longrightarrow> drives ep e (r8 b a) e"
  by (simp add: drives_def run_simps ep_law_def)

lemma drives_r32: "ep_law P b ep \<Longrightarrow> drives ep e (r32 b a) e"
  by (simp add: drives_def run_simps ep_law_def)

definition pipe_known :: "pipe \<Rightarrow> bool" where
  "pipe_known P \<longleftrightarrow> P = bulk_in_pipe \<or> P = ep0_pipe"

lemmas usb_addr = USB_def USB_INDEX_def USB_CSR0_TXCSR1_def USB_FIFO_EP0_def USB_FIFO_EP2_def
  USB_EP0_TX_COUNT_def USB_EP2_TX_COUNT_def USB_FORBID_WRITE_def USB_START_PRE_READ_def
  L2_EP2_TX_def L2_EP0_def

lemmas pipe_defs = bulk_in_pipe_def ep0_pipe_def

lemma drives_poke8:
  assumes "ep_law P b ep" "pipe_known P" "d_forbid e"
  shows "drives ep e (poke8 b (pfifo P) n) (e\<lparr>d_fifo := d_fifo e + n\<rparr>)"
  using assms(3)
proof (induction n arbitrary: e)
  case (Suc n)
  have "pfifo P \<noteq> USB_INDEX" using assms(2) by (auto simp: pipe_known_def pipe_defs usb_addr)
  then have "drives ep e (w8 b (pfifo P) 0) (e\<lparr>d_fifo := d_fifo e + 1\<rparr>)"
    using Suc.prems by (intro drives_w8 [OF assms(1)]) (simp add: ep_w8_def ep_poke_def)
  from drives_bind [OF this Suc.IH] show ?case using Suc.prems by simp
qed (simp add: drives_return)

lemma win_offset: "i < 512 \<Longrightarrow> unat ((w + of_nat i) - w :: u32) = i"
  by (simp add: unat_of_nat)

lemma win_ne: "i < 512 \<Longrightarrow> 512 \<le> unat (c - w) \<Longrightarrow> w + of_nat i \<noteq> (c :: u32)"
  using win_offset [of i w] by auto

lemma ep_w32_win:
  assumes "pipe_known P" "i < 512"
  shows "ep_w32 P (pwin P + of_nat i) v e = e\<lparr>d_win := st32 (d_win e) (pwin P + of_nat i) v\<rparr>"
proof -
  have "pwin P + of_nat i \<noteq> c" if "c \<in> {USB_FORBID_WRITE, pfifo P, pcount P, USB_START_PRE_READ}" for c
    using that assms(1) by (intro win_ne [OF assms(2)]) (auto simp: pipe_known_def pipe_defs usb_addr)
  then show ?thesis using win_offset [OF assms(2)] assms(2) by (simp add: ep_w32_def)
qed

lemma ep_w32_poke:
  "pipe_known P \<Longrightarrow> d_forbid e \<Longrightarrow> ep_w32 P (pfifo P) v e = e\<lparr>d_fifo := d_fifo e + 4\<rparr>"
  by (auto simp: ep_w32_def ep_poke_def pipe_known_def pipe_defs usb_addr)

lemma drives_fill:
  assumes "ep_law P b ep" "pipe_known P" and a: "a = None \<or> a = Some (pfifo P)"
    and "d_forbid e" "list_all (\<lambda>i. i < 512) is"
  shows "drives ep e (fill_l2 b (pwin P) a f is)
    (e\<lparr>d_win := fold (\<lambda>i m. st32 m (pwin P + of_nat i) (f i)) is (d_win e),
       d_fifo := d_fifo e + (if a = None then 0 else 4 * length is)\<rparr>)"
  using assms(4,5)
proof (induction "is" arbitrary: e)
  case (Cons i "is")
  define e1 where "e1 = e\<lparr>d_win := st32 (d_win e) (pwin P + of_nat i) (f i)\<rparr>"
  define e2 where "e2 = e1\<lparr>d_fifo := d_fifo e1 + (if a = None then 0 else 4)\<rparr>"
  have w: "drives ep e (w32 b (pwin P + of_nat i) (f i)) e1"
    using Cons.prems ep_w32_win [OF assms(2)] by (intro drives_w32 [OF assms(1)]) (simp add: e1_def)
  have k: "drives ep e1 (case a of None \<Rightarrow> State_Monad.return () | Some p \<Rightarrow> w32 b p 0) e2"
    using a Cons.prems
    by (auto simp: e2_def e1_def ep_w32_poke [OF assms(2)] drives_return intro!: drives_w32 [OF assms(1)])
  have "drives ep e2 (fill_l2 b (pwin P) a f is)
      (e2\<lparr>d_win := fold (\<lambda>i m. st32 m (pwin P + of_nat i) (f i)) is (d_win e2),
          d_fifo := d_fifo e2 + (if a = None then 0 else 4 * length is)\<rparr>)"
    by (rule Cons.IH) (use Cons.prems in \<open>simp_all add: e2_def e1_def\<close>)
  from drives_bind [OF w drives_bind [OF k this]] show ?case
    using a by (auto simp: e2_def e1_def algebra_simps)
qed (simp add: drives_return)

section \<open>What the window holds\<close>

lemma offsets4_small: "n \<le> 512 \<Longrightarrow> list_all (\<lambda>i. i < 512) (offsets4 n)"
  by (auto simp: offsets4_def list_all_iff)

lemma pwin_aligned: "pipe_known P \<Longrightarrow> 4 dvd unat (pwin P) \<and> unat (pwin P) + 512 < 2 ^ 32"
  by (auto simp: pipe_known_def pipe_defs usb_addr)

lemma window_word:
  assumes "4 dvd unat w" "unat w + 512 < 2 ^ 32" "k \<le> 128" "i < 4 * k"
  shows "fold (\<lambda>i m. st32 m (w + of_nat i) (f i)) (map (\<lambda>k. 4 * k) [0..<k]) m (w + of_nat i) =
    le32 (f (4 * (i div 4))) ! (i mod 4)"
  using assms(3,4)
proof (induction k)
  case (Suc k)
  have u: "unat (w + of_nat (4 * k)) = unat w + 4 * k"
    using assms(2) Suc.prems(1) by (simp add: unat_word_ariths unat_of_nat)
  then have al: "(w + of_nat (4 * k)) AND 3 = 0"
    using assms(1) by (simp only: aligned_iff) presburger
  have d: "unat ((w + of_nat i) - (w + of_nat (4 * k))) < 4 \<longleftrightarrow> i div 4 = k"
    "i div 4 = k \<Longrightarrow> unat ((w + of_nat i) - (w + of_nat (4 * k))) = i mod 4"
  proof -
    have e: "(w + of_nat i) - (w + of_nat (4 * k)) = of_nat i - of_nat (4 * k)" by simp
    have i: "unat (of_nat i :: u32) = i" using Suc.prems by (simp add: unat_of_nat)
    show "unat ((w + of_nat i) - (w + of_nat (4 * k))) < 4 \<longleftrightarrow> i div 4 = k"
      unfolding e using unat_diff_window [of "4 * k" 4 "of_nat i"] Suc.prems(1,2) i by auto
    show "unat ((w + of_nat i) - (w + of_nat (4 * k))) = i mod 4" if "i div 4 = k"
    proof -
      have ge: "4 * k \<le> i" "i - 4 * k = i mod 4" using that by presburger+
      have "(of_nat i :: u32) - of_nat (4 * k) = of_nat (i - 4 * k)" using ge(1) by (simp add: of_nat_diff)
      then show ?thesis unfolding e ge(2) by (simp add: unat_of_nat)
    qed
  qed
  show ?case
  proof (cases "i div 4 = k")
    case True
    with d show ?thesis by (simp add: st32_aligned [OF al [simplified]])
  next
    case False
    with d(1) Suc.prems Suc.IH show ?thesis by (auto simp: st32_aligned [OF al [simplified]])
  qed
qed simp

lemma window_bytes:
  assumes "pipe_known P" "n \<le> 512"
    and "\<And>j r. j + r < n \<Longrightarrow> r < 4 \<Longrightarrow> 4 dvd j \<Longrightarrow> le32 (f j) ! r = xs ! (j + r)"
    and "n \<le> length xs" "k = (l + 3) div 4" "n \<le> l" "l \<le> 512"
  shows "mem_range (fold (\<lambda>i m. st32 m (pwin P + of_nat i) (f i)) (offsets4 l) m) (pwin P) n = take n xs"
proof (rule nth_equalityI)
  fix i assume "i < length (mem_range (fold (\<lambda>i m. st32 m (pwin P + of_nat i) (f i)) (offsets4 l) m) (pwin P) n)"
  then have i: "i < n" by simp
  have "le32 (f (4 * (i div 4))) ! (i mod 4) = xs ! (4 * (i div 4) + i mod 4)"
    using i by (intro assms(3)) (simp_all add: algebra_simps)
  moreover have "4 * (i div 4) + i mod 4 = i" by simp
  ultimately have "le32 (f (4 * (i div 4))) ! (i mod 4) = xs ! i" by simp
  moreover have "fold (\<lambda>i m. st32 m (pwin P + of_nat i) (f i)) (offsets4 l) m (pwin P + of_nat i) =
      le32 (f (4 * (i div 4))) ! (i mod 4)"
    unfolding offsets4_def
    using i assms(6,7) pwin_aligned [OF assms(1)] by (intro window_word) auto
  ultimately show "mem_range (fold (\<lambda>i m. st32 m (pwin P + of_nat i) (f i)) (offsets4 l) m) (pwin P) n ! i =
      take n xs ! i"
    using i by simp
qed (use assms in simp)

lemma pack_le_bytes:
  "pack_le p avail = of_le32 (if 0 < avail then p ! 0 else 0) (if 1 < avail then p ! 1 else 0)
     (if 2 < avail then p ! 2 else 0) (if 3 < avail then p ! 3 else 0)"
proof -
  have "[0..<4] = [0, 1, 2, 3 :: nat]" by (simp add: upt_rec)
  then show ?thesis by (simp add: pack_le_def of_le32_def or.assoc)
qed

lemma load_le_byte: "r < 4 \<Longrightarrow> r < avail \<Longrightarrow> le32 (load_le a p avail) ! r = p ! r"
  by (cases "r = 0"; cases "r = 1"; cases "r = 2"; cases "r = 3")
    (auto simp: load_le_def pack_le_bytes le32_of_le32)

lemma ep0_word_byte: "r < 4 \<Longrightarrow> le32 (ep0_word buf j) ! r = buf ! (j + r)"
  by (cases "r = 0"; cases "r = 1"; cases "r = 2"; cases "r = 3") (auto simp: ep0_word_def le32_of_le32)

section \<open>One packet\<close>

lemma ep_w8_index [simp]: "ep_w8 P USB_INDEX v e = e\<lparr>d_index := v\<rparr>"
  by (simp add: ep_w8_def)

lemma ep_w8_csr: "pipe_known P \<Longrightarrow> d_index e = pindex P \<Longrightarrow> ep_w8 P USB_CSR0_TXCSR1 v e = ep_csr P v e"
  by (auto simp: ep_w8_def pipe_known_def pipe_defs usb_addr)

lemma ep_w32_forbid [simp]: "ep_w32 P USB_FORBID_WRITE v e = e\<lparr>d_forbid := bit v (pbit P)\<rparr>"
  by (simp add: ep_w32_def)

lemma ep_w32_count: "pipe_known P \<Longrightarrow> ep_w32 P (pcount P) v e = e\<lparr>d_count := v\<rparr>"
  by (auto simp: ep_w32_def pipe_known_def pipe_defs usb_addr)

lemma ep_w32_fetch:
  "pipe_known P \<Longrightarrow> ep_w32 P USB_START_PRE_READ v e = (if bit v (pbit P) then ep_fetch e else e)"
  by (auto simp: ep_w32_def pipe_known_def pipe_defs usb_addr)

lemma pipe_bits: "bit (v OR 2 :: u32) (pbit bulk_in_pipe)" "\<not> bit (v AND NOT 2 :: u32) (pbit bulk_in_pipe)"
  "bit (v OR 1 :: u32) (pbit ep0_pipe)" "\<not> bit (v AND NOT 1 :: u32) (pbit ep0_pipe)"
  by (simp_all add: pipe_defs bit_simps)

text \<open>The device after a packet of \<open>n\<close> bytes of the window \<open>w\<close>.\<close>

definition sent_packet :: "pipe \<Rightarrow> mem \<Rightarrow> nat \<Rightarrow> bool \<Rightarrow> ep_dev \<Rightarrow> ep_dev" where
  "sent_packet P w n fin e = e\<lparr>d_index := pindex P, d_win := w, d_fifo := 0, d_forbid := False, d_count := 0,
     d_fetched := False, d_wire := d_wire e @ [mem_range w (pwin P) n],
     d_ended := d_ended e + (if fin then 1 else 0), d_dead := False\<rparr>"

lemma sent_packet_fields [simp]:
  "ep_idle (sent_packet P w n fin e)" "d_ended (sent_packet P w n fin e) = d_ended e + (if fin then 1 else 0)"
  "d_wire (sent_packet P w n fin e) = d_wire e @ [mem_range w (pwin P) n]"
  by (simp_all add: sent_packet_def ep_idle_def)

lemma length_offsets4: "length (offsets4 n) = (n + 3) div 4"
  by (simp add: offsets4_def)

lemma drives_bulk_packet:
  assumes law: "ep_law bulk_in_pipe b ep" and idle: "ep_idle e" and n: "0 < n" "n \<le> 512" "n \<le> length data"
  obtains w where "drives ep e (bulk_send_packet b a data n) (sent_packet bulk_in_pipe w n False e)"
    and "mem_range w (pwin bulk_in_pipe) n = take n data"
proof -
  let ?P = bulk_in_pipe
  define f where "f i = load_le (a + of_nat i) (drop i data) (n - i)" for i
  define w where "w = fold (\<lambda>i m. st32 m (pwin ?P + of_nat i) (f i)) (offsets4 n) (d_win e)"
  have P: "pipe_known ?P" by (simp add: pipe_known_def)
  have names: "pfifo ?P = USB_FIFO_EP2" "pwin ?P = L2_EP2_TX" "pcount ?P = USB_EP2_TX_COUNT"
    "pindex ?P = EP_BULK_IN" "pready ?P = TXCSR1_TXPKTRDY" "pend ?P = 0"
    by (simp_all add: bulk_in_pipe_def)
  define e1 where "e1 = e\<lparr>d_index := EP_BULK_IN\<rparr>"
  define e2 where "e2 = e1\<lparr>d_forbid := True\<rparr>"
  define e3 where "e3 = e2\<lparr>d_win := w, d_fifo := n\<rparr>"
  define e4 where "e4 = e3\<lparr>d_count := of_nat n\<rparr>"
  note fill = drives_fill [OF law P, unfolded names]
  have d1: "drives ep e (w8 b USB_INDEX EP_BULK_IN) e1"
    by (rule drives_w8 [OF law]) (simp add: e1_def)
  have d2: "drives ep e1 (rmw32 b USB_FORBID_WRITE (\<lambda>v. v OR 2)) e2"
    by (rule drives_rmw32 [OF law]) (simp add: e2_def pipe_bits)
  have fe: "d_forbid e2" "d_fifo e2 = 0" "d_win e2 = d_win e"
    using idle by (simp_all add: e2_def e1_def ep_idle_def)
  have d3: "drives ep e2 (if n mod 4 \<noteq> 0
      then do { poke8 b USB_FIFO_EP2 n; fill_l2 b L2_EP2_TX None f (offsets4 n) }
      else fill_l2 b L2_EP2_TX (Some USB_FIFO_EP2) f (offsets4 n)) e3"
  proof (cases "n mod 4 = 0")
    case False
    have "drives ep e2 (poke8 b USB_FIFO_EP2 n) (e2\<lparr>d_fifo := n\<rparr>)"
      using drives_poke8 [OF law P fe(1), of n] fe(2) by (simp add: names)
    moreover have "drives ep (e2\<lparr>d_fifo := n\<rparr>) (fill_l2 b L2_EP2_TX None f (offsets4 n)) e3"
      using fill [of None "e2\<lparr>d_fifo := n\<rparr>" "offsets4 n" f] fe offsets4_small [OF n(2)]
      by (simp add: e3_def w_def names)
    ultimately show ?thesis using False by (simp add: drives_bind)
  next
    case True
    then have "4 * ((n + 3) div 4) = n" by presburger
    then show ?thesis
      using fill [of "Some USB_FIFO_EP2" e2 "offsets4 n" f] fe offsets4_small [OF n(2)] True
      by (simp add: e3_def w_def names length_offsets4)
  qed
  have d4: "drives ep e3 (w32 b USB_EP2_TX_COUNT (of_nat n)) e4"
    by (rule drives_w32 [OF law]) (use ep_w32_count [OF P] in \<open>simp add: e4_def names\<close>)
  have d5: "drives ep e4 (rmw32 b USB_START_PRE_READ (\<lambda>v. v OR 2)) (ep_fetch e4)"
    by (rule drives_rmw32 [OF law]) (simp add: ep_w32_fetch [OF P] pipe_bits)
  have d6: "drives ep (ep_fetch e4) (w8 b USB_CSR0_TXCSR1 TXCSR1_TXPKTRDY) (ep_ready ?P (ep_fetch e4))"
    by (rule drives_w8 [OF law], subst ep_w8_csr [OF P])
      (simp_all add: ep_fetch_def e4_def e3_def e2_def e1_def names ep_csr_def TXCSR1_TXPKTRDY_def Let_def)
  have d7: "drives ep (ep_ready ?P (ep_fetch e4)) (rmw32 b USB_FORBID_WRITE (\<lambda>v. v AND NOT 2))
      (sent_packet ?P w n False e)"
    by (rule drives_rmw32 [OF law])
      (use n idle in \<open>simp add: pipe_bits(2) [simplified] ep_ready_def ep_fetch_def e4_def e3_def e2_def e1_def sent_packet_def
         names unat_of_nat ep_idle_def\<close>)
  have "drives ep e (bulk_send_packet b a data n) (sent_packet ?P w n False e)"
    unfolding bulk_send_packet_def using d3 unfolding f_def
    by (intro drives_bind [OF d1] drives_bind [OF d2] drives_bind [OF _ drives_bind [OF d4]] drives_bind [OF d5]
        drives_bind [OF d6] d7)
  moreover have "mem_range w (pwin ?P) n = take n data"
    unfolding w_def
  proof (rule window_bytes [OF P n(2)])
    fix j r assume "j + r < n" "r < 4" "4 dvd j"
    then show "le32 (f j) ! r = data ! (j + r)"
      using n(3) by (simp add: f_def load_le_byte)
  qed (use n in simp_all)
  ultimately show ?thesis by (rule that)
qed

lemma drives_ep0_packet:
  assumes law: "ep_law ep0_pipe b ep" and idle: "ep_idle e" "d_index e = 0"
    and n: "0 < n" "unat n \<le> 64" "\<not> fin \<longrightarrow> n = 64" "unat off + 64 \<le> length buf"
  obtains w where "drives ep e (ep0_send_packet b buf off n fin) (sent_packet ep0_pipe w (unat n) fin e)"
    and "mem_range w (pwin ep0_pipe) (unat n) = take (unat n) (drop (unat off) buf)"
proof -
  let ?P = ep0_pipe
  define f where "f i = ep0_word buf (unat off + i)" for i
  define w where "w = fold (\<lambda>i m. st32 m (pwin ?P + of_nat i) (f i)) (offsets4 EP0_STAGE) (d_win e)"
  have P: "pipe_known ?P" by (simp add: pipe_known_def)
  have names: "pfifo ?P = USB_FIFO_EP0" "pwin ?P = L2_EP0" "pcount ?P = USB_EP0_TX_COUNT"
    "pindex ?P = 0" "pready ?P = CSR0_TXPKTRDY" "pend ?P = CSR0_DATAEND"
    by (simp_all add: ep0_pipe_def)
  define e2 where "e2 = e\<lparr>d_forbid := True\<rparr>"
  define e3 where "e3 = e2\<lparr>d_win := w, d_fifo := unat n\<rparr>"
  define e4 where "e4 = e3\<lparr>d_count := n\<rparr>"
  define e6 where "e6 = ep_ready ?P (ep_fetch e4)"
  define e7 where "e7 = e6\<lparr>d_ended := d_ended e6 + (if fin then 1 else 0)\<rparr>"
  note fill = drives_fill [OF law P, unfolded names]
  note eds = e6_def ep_ready_def ep_fetch_def e4_def e3_def e2_def
  have st: "list_all (\<lambda>i. i < 512) (offsets4 EP0_STAGE)" "length (offsets4 EP0_STAGE) = 16"
    by (simp_all add: offsets4_small EP0_STAGE_def length_offsets4)
  have d2: "drives ep e (rmw32 b USB_FORBID_WRITE (\<lambda>v. v OR 1)) e2"
    by (rule drives_rmw32 [OF law]) (simp add: e2_def pipe_bits)
  have fe: "d_forbid e2" "d_fifo e2 = 0" "d_win e2 = d_win e"
    using idle by (simp_all add: e2_def ep_idle_def)
  have d3: "drives ep e2 (if fin
      then do { poke8 b USB_FIFO_EP0 (unat n); fill_l2 b L2_EP0 None f (offsets4 EP0_STAGE) }
      else fill_l2 b L2_EP0 (Some USB_FIFO_EP0) f (offsets4 EP0_STAGE)) e3"
  proof (cases fin)
    case True
    have "drives ep e2 (poke8 b USB_FIFO_EP0 (unat n)) (e2\<lparr>d_fifo := unat n\<rparr>)"
      using drives_poke8 [OF law P fe(1), of "unat n"] fe(2) by (simp add: names)
    moreover have "drives ep (e2\<lparr>d_fifo := unat n\<rparr>) (fill_l2 b L2_EP0 None f (offsets4 EP0_STAGE)) e3"
      using fill [of None "e2\<lparr>d_fifo := unat n\<rparr>" "offsets4 EP0_STAGE" f] fe st
      by (simp add: e3_def w_def names)
    ultimately show ?thesis using True by (simp add: drives_bind)
  next
    case False
    then show ?thesis
      using fill [of "Some USB_FIFO_EP0" e2 "offsets4 EP0_STAGE" f] fe st n(3)
      by (simp add: e3_def w_def names)
  qed
  have d4: "drives ep e3 (w32 b USB_EP0_TX_COUNT n) e4"
    by (rule drives_w32 [OF law]) (use ep_w32_count [OF P] in \<open>simp add: e4_def names\<close>)
  have d5: "drives ep e4 (rmw32 b USB_START_PRE_READ (\<lambda>v. v OR 1)) (ep_fetch e4)"
    by (rule drives_rmw32 [OF law]) (simp add: ep_w32_fetch [OF P] pipe_bits)
  have d6: "drives ep (ep_fetch e4) (w8 b USB_CSR0_TXCSR1 CSR0_TXPKTRDY) e6"
    by (rule drives_w8 [OF law], subst ep_w8_csr [OF P])
      (use idle in \<open>simp_all add: eds names ep_csr_def CSR0_TXPKTRDY_def CSR0_DATAEND_def Let_def\<close>)
  have d7: "drives ep e6 (whenM fin (w8 b USB_CSR0_TXCSR1 CSR0_DATAEND)) e7"
  proof (cases fin)
    case True
    have "drives ep e6 (w8 b USB_CSR0_TXCSR1 CSR0_DATAEND) e7"
      by (rule drives_w8 [OF law], subst ep_w8_csr [OF P])
        (use idle True in \<open>simp_all add: e7_def eds names ep_csr_def CSR0_TXPKTRDY_def CSR0_DATAEND_def Let_def\<close>)
    with True show ?thesis by (simp add: whenM_def)
  qed (simp add: whenM_def drives_return e7_def)
  have d8: "drives ep e7 (rmw32 b USB_FORBID_WRITE (\<lambda>v. v AND NOT 1)) (sent_packet ?P w (unat n) fin e)"
    by (rule drives_rmw32 [OF law])
      (use n idle in \<open>simp add: pipe_bits(4) [simplified] e7_def eds sent_packet_def names ep_idle_def\<close>)
  have "drives ep e (ep0_send_packet b buf off n fin) (sent_packet ?P w (unat n) fin e)"
    unfolding ep0_send_packet_def using d3 unfolding f_def
    by (intro drives_bind [OF d2] drives_bind [OF _ drives_bind [OF d4]] drives_bind [OF d5]
        drives_bind [OF d6] drives_bind [OF d7] d8)
  moreover have "mem_range w (pwin ?P) (unat n) = take (unat n) (drop (unat off) buf)"
    unfolding w_def
  proof (rule window_bytes [OF P])
    fix j r assume "j + r < unat n" "r < 4" "4 dvd j"
    then show "le32 (f j) ! r = drop (unat off) buf ! (j + r)"
      using n by (simp add: f_def ep0_word_byte add.assoc)
  qed (use n in \<open>simp_all add: EP0_STAGE_def\<close>)
  ultimately show ?thesis by (rule that)
qed

section \<open>Control replies\<close>

lemma drives_trace: "drives ep e (tr f) e"
  by (simp add: drives_def run_simps)

lemma drives_modify: "(\<And>s. uhw (f s) = uhw s) \<Longrightarrow> drives ep e (modify f) e"
  by (simp add: drives_def run_simps)

lemma drives_gets: "drives ep e (gets f) e"
  by (simp add: drives_def run_simps)

lemma drives_when: "drives ep e m e \<Longrightarrow> drives ep e (whenM c m) e"
  by (simp add: whenM_def drives_return)

lemma drives_trace_chunk: "ep_law P b ep \<Longrightarrow> drives ep e (ep0_trace_chunk b n l) e"
  unfolding ep0_trace_chunk_def
  by (intro drives_bind [OF drives_modify] drives_bind [OF drives_trace] drives_bind [OF drives_r8]
      drives_bind [OF drives_r32] drives_trace) simp_all

lemma ep0_csr_quiet:
  "d_index e = 0 \<Longrightarrow> ep_w8 ep0_pipe USB_CSR0_TXCSR1 CSR0_SERVICED_RX e = e"
  "d_index e = 0 \<Longrightarrow> ep_w8 ep0_pipe USB_CSR0_TXCSR1 (CSR0_SERVICED_RX OR CSR0_DATAEND) e =
     e\<lparr>d_ended := d_ended e + 1\<rparr>"
  "d_index e = 0 \<Longrightarrow> ep_w8 ep0_pipe USB_CSR0_TXCSR1 (CSR0_SENDSTALL OR CSR0_SERVICED_RX) e = e"
  by (simp_all add: ep_w8_csr pipe_known_def ep0_pipe_def ep_csr_def CSR0_TXPKTRDY_def CSR0_DATAEND_def
      CSR0_SERVICED_RX_def CSR0_SENDSTALL_def)

lemma run_gets_bind: "run_state (State_Monad.bind (gets f) g) s = run_state (g (f s)) s"
  by (simp add: run_simps)

lemma send_chunk_wire:
  assumes law: "ep_law ep0_pipe b ep" and inv: "usb_inv r0 s" and idle: "ep_idle (ep (uhw s))"
    and run: "run_state (ep0_send_chunk b) s = (x, t)"
  shows "ep_idle (ep (uhw t)) \<and>
    d_wire (ep (uhw t)) = d_wire (ep (uhw s)) @ (if g_ep0_remaining s = 0 then []
      else [take (min (unat (g_ep0_remaining s)) 64) (drop (unat (g_ep0_offset s)) (g_ep0_buf s))]) \<and>
    d_ended (ep (uhw t)) = d_ended (ep (uhw s)) + (if g_ep0_remaining s \<le> EP0_MAXP then 1 else 0)"
proof -
  let ?e = "ep (uhw s)" and ?rem = "g_ep0_remaining s" and ?off = "g_ep0_offset s" and ?buf = "g_ep0_buf s"
  define n where "n = (if EP0_MAXP < ?rem then EP0_MAXP else ?rem)"
  define fin where "fin = (?rem \<le> EP0_MAXP)"
  define e1 where "e1 = ?e\<lparr>d_index := 0\<rparr>"
  define body where "body = do {
     w8 b USB_INDEX 0;
     (if ?rem = 0
      then do {
        modify (\<lambda>s. s\<lparr>g_ep0_offset := 0\<rparr>);
        w8 b USB_CSR0_TXCSR1 (CSR0_SERVICED_RX OR CSR0_DATAEND) }
      else do {
        ep0_send_packet b ?buf ?off n fin;
        chunks \<leftarrow> gets g_ep0_chunks;
        whenM (chunks < TRACE_CHUNK_LIMIT) (ep0_trace_chunk b n fin);
        modify (\<lambda>s. if fin then s\<lparr>g_ep0_remaining := 0, g_ep0_offset := 0\<rparr>
          else s\<lparr>g_ep0_remaining := ?rem - n, g_ep0_offset := ?off + n\<rparr>) }) }"
  have body: "run_state body s = (x, t)"
    using run unfolding ep0_send_chunk_def run_gets_bind Let_def body_def n_def fin_def .
  have i: "drives ep ?e (w8 b USB_INDEX 0) e1"
    by (rule drives_w8 [OF law]) (simp add: e1_def)
  have e1: "ep_idle e1" "d_index e1 = 0" "d_wire e1 = d_wire ?e" "d_ended e1 = d_ended ?e"
    using idle by (simp_all add: e1_def ep_idle_def)
  show ?thesis
  proof (cases "?rem = 0")
    case True
    have "drives ep ?e body (e1\<lparr>d_ended := d_ended e1 + 1\<rparr>)"
      unfolding body_def using True
      by (auto intro!: drives_bind [OF i] drives_bind [OF drives_modify] drives_w8 [OF law]
          simp: ep0_csr_quiet e1)
    from drivesD [OF this refl body] show ?thesis
      using True e1 by (simp add: ep_idle_def EP0_MAXP_def)
  next
    case False
    have pos: "0 < unat ?rem" using False by (simp add: unat_gt_0)
    have n: "0 < n" "unat n = min (unat ?rem) 64" "unat ?off + 64 \<le> length ?buf"
      using pos inv by (auto simp: n_def usb_inv_def EP0_MAXP_def EP0_BUF_SIZE_def word_less_nat_alt)
    have full: "\<not> fin \<longrightarrow> n = 64"
      by (simp add: n_def fin_def EP0_MAXP_def not_le)
    obtain w where p: "drives ep e1 (ep0_send_packet b ?buf ?off n fin) (sent_packet ep0_pipe w (unat n) fin e1)"
      and w: "mem_range w (pwin ep0_pipe) (unat n) = take (unat n) (drop (unat ?off) ?buf)"
      using drives_ep0_packet [OF law e1(1,2) n(1) _ full n(3)] n(2) by auto
    have "drives ep ?e body (sent_packet ep0_pipe w (unat n) fin e1)"
      unfolding body_def using False
      by (auto intro!: drives_bind [OF i] drives_bind [OF p] drives_bind [OF drives_gets]
          drives_bind [OF drives_when [OF drives_trace_chunk [OF law]]] drives_modify)
    from drivesD [OF this refl body] show ?thesis
      using False e1 n(2) w by (simp add: fin_def)
  qed
qed

text \<open>What is staged and not sent yet.\<close>

definition pending :: "'h musb_st \<Rightarrow> bytes" where
  "pending s = take (unat (g_ep0_remaining s)) (drop (unat (g_ep0_offset s)) (g_ep0_buf s))"

lemma length_pending: "usb_inv r0 s \<Longrightarrow> length (pending s) = unat (g_ep0_remaining s)"
  by (auto simp: pending_def usb_inv_def)

lemma pending_only_trace: "only_trace s t \<Longrightarrow> g_ep0_buf t = g_ep0_buf s \<and>
    g_ep0_remaining t = g_ep0_remaining s \<and> g_ep0_offset t = g_ep0_offset s"
proof -
  assume "only_trace s t"
  then have e: "t = s\<lparr>uhw := uhw t, rsp := rsp t, g_ep0_chunks := g_ep0_chunks t\<rparr>"
    unfolding only_trace_def by blast
  show ?thesis
    using arg_cong [OF e, of g_ep0_buf] arg_cong [OF e, of g_ep0_remaining] arg_cong [OF e, of g_ep0_offset]
    by simp
qed

lemma send_chunk_pending:
  assumes "usb_inv r0 s" and "run_state (ep0_send_chunk b) s = (x, t)"
  shows "pending t = drop 64 (pending s)" and "usb_inv r0 t"
proof -
  show "usb_inv r0 t" using preservesD [OF inv_send_chunk assms(1), of b] assms(2) by simp
  obtain u where o: "only_trace s u"
    and u: "snd (run_state (ep0_send_chunk b) s) = u\<lparr>g_ep0_remaining := chunk_left (g_ep0_remaining s),
       g_ep0_offset := if g_ep0_remaining s \<le> EP0_MAXP then 0 else g_ep0_offset s + EP0_MAXP\<rparr>"
    by (rule send_chunk_run)
  have t: "g_ep0_buf t = g_ep0_buf s" "g_ep0_remaining t = chunk_left (g_ep0_remaining s)"
    "g_ep0_offset t = (if g_ep0_remaining s \<le> EP0_MAXP then 0 else g_ep0_offset s + EP0_MAXP)"
    using u assms(2) pending_only_trace [OF o] by auto
  show "pending t = drop 64 (pending s)"
  proof (cases "g_ep0_remaining s \<le> 64")
    case True
    then have "length (pending s) \<le> 64" using length_pending [OF assms(1)] by (simp add: word_le_nat_alt)
    with True show ?thesis by (simp add: pending_def t chunk_left_def EP0_MAXP_def)
  next
    case False
    then have r: "64 < unat (g_ep0_remaining s)" by (simp add: word_le_nat_alt)
    then have "g_ep0_offset s = 0" using assms(1) by (auto simp: usb_inv_def EP0_BUF_SIZE_def)
    moreover have "unat (g_ep0_remaining s - 64) = unat (g_ep0_remaining s) - 64"
      using False by (simp add: unat_sub)
    ultimately show ?thesis using False
      by (simp add: pending_def t chunk_left_def EP0_MAXP_def drop_take)
  qed
qed

lemma send_chunk_step:
  assumes "ep_law ep0_pipe b ep" "usb_inv r0 s" "ep_idle (ep (uhw s))" "run_state (ep0_send_chunk b) s = (x, t)"
  shows "ep_idle (ep (uhw t))" "usb_inv r0 t" "pending t = drop 64 (pending s)"
    and "d_wire (ep (uhw t)) = d_wire (ep (uhw s)) @ (if pending s = [] then [] else [take 64 (pending s)])"
    and "d_ended (ep (uhw t)) = d_ended (ep (uhw s)) + (if length (pending s) \<le> 64 then 1 else 0)"
proof -
  have r: "pending s = [] \<longleftrightarrow> g_ep0_remaining s = 0" "length (pending s) \<le> 64 \<longleftrightarrow> g_ep0_remaining s \<le> EP0_MAXP"
    using length_pending [OF assms(2)] by (auto simp: unat_0_iff EP0_MAXP_def word_le_nat_alt simp flip: length_0_conv)
  have "take 64 (pending s) = take (min (unat (g_ep0_remaining s)) 64) (drop (unat (g_ep0_offset s)) (g_ep0_buf s))"
    by (simp add: pending_def min.commute)
  then show "ep_idle (ep (uhw t))"
    "d_wire (ep (uhw t)) = d_wire (ep (uhw s)) @ (if pending s = [] then [] else [take 64 (pending s)])"
    "d_ended (ep (uhw t)) = d_ended (ep (uhw s)) + (if length (pending s) \<le> 64 then 1 else 0)"
    using send_chunk_wire [OF assms] r by simp_all
qed (rule send_chunk_pending [OF assms(2,4)])+

text \<open>Later interrupts, with a status register that asks for nothing but data.\<close>

definition csr_quiet :: "'h usb_bus \<Rightarrow> bool" where
  "csr_quiet b \<longleftrightarrow> (\<forall>h. fst (rd8 b USB_CSR0_TXCSR1 h) AND 0x17 = 0)"

fun ep0_polls :: "'h usb_bus \<Rightarrow> nat \<Rightarrow> ('h, unit) usb" where
  "ep0_polls b 0 = State_Monad.return ()"
| "ep0_polls b (Suc n) = do { poll_ep0 b; ep0_polls b n }"

lemma poll_quiet:
  assumes law: "ep_law ep0_pipe b ep" and inv: "usb_inv r0 s" and idle: "ep_idle (ep (uhw s))"
    and quiet: "csr_quiet b"
  obtains s1 where "ep_idle (ep (uhw s1))" "usb_inv r0 s1" "pending s1 = pending s"
    "d_wire (ep (uhw s1)) = d_wire (ep (uhw s))" "d_ended (ep (uhw s1)) = d_ended (ep (uhw s))"
    "run_state (poll_ep0 b) s = (if pending s = [] then ((), s1) else run_state (ep0_send_chunk b) s1)"
proof -
  define h1 where "h1 = wr8 b USB_INDEX 0 (uhw s)"
  define csr where "csr = fst (rd8 b USB_CSR0_TXCSR1 h1)"
  define h2 where "h2 = snd (rd8 b USB_CSR0_TXCSR1 h1)"
  define s0 where "s0 = s\<lparr>g_events := g_events s + 1, uhw := h2\<rparr>"
  define s1 where "s1 = (if traceable s0 then s0\<lparr>rsp := trace_reg (cs ''ep0 evt csr'') (ucast csr) (rsp s)\<rparr> else s0)"
  have z: "csr AND 0x17 = 0" using quiet by (simp add: csr_def csr_quiet_def)
  have "csr AND 0x10 = (csr AND 0x17) AND 0x10" "csr AND 4 = (csr AND 0x17) AND 4"
    "csr AND 1 = (csr AND 0x17) AND 1" "csr AND 2 = (csr AND 0x17) AND 2"
    by (simp_all add: and.assoc)
  then have c: "csr AND 0x10 = 0" "csr AND 4 = 0" "csr AND 1 = 0" "csr AND 2 = 0" by (simp_all add: z)
  have eh: "ep h2 = (ep (uhw s))\<lparr>d_index := 0\<rparr>"
    using law by (simp add: ep_law_def h1_def h2_def)
  have u: "uhw s1 = h2" "g_ep0_remaining s1 = g_ep0_remaining s" "pending s1 = pending s"
    by (simp_all add: s1_def s0_def pending_def)
  have i: "usb_inv r0 s0" using inv by (simp add: s0_def)
  have i1: "usb_inv r0 s1" using i inv_trace [OF i] by (simp add: s1_def trace_as_puts) (simp add: s0_def)
  have p: "pending s = [] \<longleftrightarrow> g_ep0_remaining s = 0"
    using length_pending [OF inv] by (auto simp: unat_0_iff simp flip: length_0_conv)
  have "run_state (poll_ep0 b) s = (if pending s = [] then ((), s1) else run_state (ep0_send_chunk b) s1)"
    using c p
    by (simp add: poll_ep0_def count_event_def run_simps traceable_def CSR0_SETUPEND_def CSR0_SENTSTALL_def
        CSR0_RXPKTRDY_def CSR0_TXPKTRDY_def s1_def s0_def flip: h1_def csr_def h2_def)
  then show ?thesis
    using eh idle u i1 by (intro that [of s1]) (simp_all add: ep_idle_def)
qed

definition packets_of :: "nat \<Rightarrow> bytes \<Rightarrow> bytes list \<Rightarrow> bool" where
  "packets_of maxp d ps \<longleftrightarrow> concat ps = d \<and> (\<forall>p \<in> set ps. p \<noteq> [] \<and> length p \<le> maxp)"

lemma packets_of_Nil: "packets_of m [] []"
  by (simp add: packets_of_def)

lemma packets_of_Cons:
  "d \<noteq> [] \<Longrightarrow> 0 < k \<Longrightarrow> k \<le> m \<Longrightarrow> packets_of m (drop k d) ps \<Longrightarrow> packets_of m d (take k d # ps)"
  by (auto simp: packets_of_def)

lemma polls_deliver:
  assumes law: "ep_law ep0_pipe b ep" and quiet: "csr_quiet b"
  shows "usb_inv r0 s \<Longrightarrow> ep_idle (ep (uhw s)) \<Longrightarrow> length (pending s) \<le> 64 * n \<Longrightarrow>
    run_state (ep0_polls b n) s = (x, t) \<Longrightarrow>
    ep_idle (ep (uhw t)) \<and> pending t = [] \<and>
    (\<exists>ps. d_wire (ep (uhw t)) = d_wire (ep (uhw s)) @ ps \<and> packets_of 64 (pending s) ps) \<and>
    d_ended (ep (uhw t)) = d_ended (ep (uhw s)) + (if pending s = [] then 0 else 1)"
proof (induction n arbitrary: s)
  case 0
  then show ?case using packets_of_Nil by (auto simp: run_simps)
next
  case (Suc n)
  obtain s1 where s1: "ep_idle (ep (uhw s1))" "usb_inv r0 s1" "pending s1 = pending s"
    "d_wire (ep (uhw s1)) = d_wire (ep (uhw s))" "d_ended (ep (uhw s1)) = d_ended (ep (uhw s))"
    "run_state (poll_ep0 b) s = (if pending s = [] then ((), s1) else run_state (ep0_send_chunk b) s1)"
    by (rule poll_quiet [OF law Suc.prems(1,2) quiet])
  show ?case
  proof (cases "pending s = []")
    case True
    with s1(6) Suc.prems(4) have "run_state (ep0_polls b n) s1 = (x, t)" by (simp add: run_simps)
    from Suc.IH [OF s1(2,1) _ this] True s1 show ?thesis by simp
  next
    case False
    obtain y s2 where c: "run_state (ep0_send_chunk b) s1 = (y, s2)" by (metis prod.collapse)
    note st = send_chunk_step [OF law s1(2,1) c]
    have r: "run_state (ep0_polls b n) s2 = (x, t)"
      using False s1(6) Suc.prems(4) c by (simp add: run_simps)
    have "length (pending s2) \<le> 64 * n" using st(3) s1(3) Suc.prems(3) by simp
    from Suc.IH [OF st(2,1) this r] obtain ps where ps: "ep_idle (ep (uhw t))" "pending t = []"
      "d_wire (ep (uhw t)) = d_wire (ep (uhw s2)) @ ps" "packets_of 64 (drop 64 (pending s)) ps"
      "d_ended (ep (uhw t)) = d_ended (ep (uhw s2)) + (if pending s2 = [] then 0 else 1)"
      using st(3) s1(3) by auto
    have "packets_of 64 (pending s) (take 64 (pending s) # ps)"
      using False ps(4) by (intro packets_of_Cons) simp_all
    moreover have "d_wire (ep (uhw t)) = d_wire (ep (uhw s)) @ take 64 (pending s) # ps"
      using ps(3) st(4) s1 False by simp
    moreover have "d_ended (ep (uhw t)) = d_ended (ep (uhw s)) + 1"
      using ps(5) st(3,5) s1(3,5) by simp
    ultimately show ?thesis using ps False by auto
  qed
qed

lemma start_deliver:
  assumes law: "ep_law ep0_pipe b ep" and quiet: "csr_quiet b" and inv: "usb_inv r0 s"
    and idle: "ep_idle (ep (uhw s))" and "length (pending s) \<le> 64 * n + 64"
    and run: "run_state (do { ep0_start b; ep0_polls b n }) s = (x, t)"
  shows "ep_idle (ep (uhw t)) \<and> pending t = [] \<and>
    (\<exists>ps. d_wire (ep (uhw t)) = d_wire (ep (uhw s)) @ ps \<and> packets_of 64 (pending s) ps) \<and>
    d_ended (ep (uhw t)) = d_ended (ep (uhw s)) + 1"
proof -
  define s1 where "s1 = s\<lparr>uhw := wr8 b USB_CSR0_TXCSR1 CSR0_SERVICED_RX (wr8 b USB_INDEX 0 (uhw s))\<rparr>"
  have e1: "ep (uhw s1) = (ep (uhw s))\<lparr>d_index := 0\<rparr>"
    using law ep0_csr_quiet(1) [of "(ep (uhw s))\<lparr>d_index := 0\<rparr>"] by (simp add: s1_def ep_law_def)
  have s1: "usb_inv r0 s1" "ep_idle (ep (uhw s1))" "pending s1 = pending s"
    using inv idle e1 by (simp_all add: ep_idle_def) (simp_all add: s1_def pending_def)
  obtain y s2 where c: "run_state (ep0_send_chunk b) s1 = (y, s2)" by (metis prod.collapse)
  note st = send_chunk_step [OF law s1(1,2) c]
  have r: "run_state (ep0_polls b n) s2 = (x, t)"
    using run c by (simp add: ep0_start_def run_simps s1_def)
  have "length (pending s2) \<le> 64 * n" using st(3) s1(3) assms(5) by simp
  from polls_deliver [OF law quiet st(2,1) this r] obtain ps where ps: "ep_idle (ep (uhw t))" "pending t = []"
    "d_wire (ep (uhw t)) = d_wire (ep (uhw s2)) @ ps" "packets_of 64 (drop 64 (pending s)) ps"
    "d_ended (ep (uhw t)) = d_ended (ep (uhw s2)) + (if pending s2 = [] then 0 else 1)"
    using st(3) s1(3) by auto
  have "\<exists>ps. d_wire (ep (uhw t)) = d_wire (ep (uhw s)) @ ps \<and> packets_of 64 (pending s) ps"
  proof (cases "pending s = []")
    case True
    then show ?thesis using ps st(4) s1(3) e1 by (auto simp: packets_of_def)
  next
    case False
    with ps(4) have "packets_of 64 (pending s) (take 64 (pending s) # ps)"
      by (intro packets_of_Cons) simp_all
    then show ?thesis using False ps(3) st(4) s1(3) e1 by auto
  qed
  then show ?thesis using ps(1,2,5) st(3,5) s1(3) e1 by auto
qed

section \<open>Bulk data\<close>

lemma tx_wait_run:
  assumes law: "ep_law P b ep"
  shows "run_state (tx_wait_loop b n) s = (r, t) \<Longrightarrow>
    t = s\<lparr>uhw := uhw t, g_stat_txdrop := g_stat_txdrop s + (if r then 0 else 1)\<rparr> \<and> ep (uhw t) = ep (uhw s)"
proof (induction n arbitrary: s)
  case 0
  then show ?case by (auto simp: run_simps)
next
  case (Suc n)
  define s1 where "s1 = s\<lparr>uhw := snd (rd8 b USB_CSR0_TXCSR1 (uhw s))\<rparr>"
  have e: "ep (uhw s1) = ep (uhw s)" using law by (simp add: s1_def ep_law_def)
  show ?case
  proof (cases "fst (rd8 b USB_CSR0_TXCSR1 (uhw s)) AND TXCSR1_TXPKTRDY = 0")
    case True
    then show ?thesis using Suc.prems e by (auto simp: run_simps s1_def)
  next
    case False
    with Suc.prems have "run_state (tx_wait_loop b n) s1 = (r, t)" by (simp add: run_simps s1_def)
    from Suc.IH [OF this] e show ?thesis by (simp add: s1_def)
  qed
qed

lemma bulk_wait_run:
  assumes law: "ep_law P b ep" and run: "run_state (bulk_tx_wait b) s = (r, t)"
  shows "t = s\<lparr>uhw := uhw t, g_stat_txdrop := g_stat_txdrop s + (if r then 0 else 1)\<rparr>"
    and "ep (uhw t) = (ep (uhw s))\<lparr>d_index := EP_BULK_IN\<rparr>"
proof -
  define s1 where "s1 = s\<lparr>uhw := wr8 b USB_INDEX EP_BULK_IN (uhw s)\<rparr>"
  have "ep (uhw s1) = (ep (uhw s))\<lparr>d_index := EP_BULK_IN\<rparr>" using law by (simp add: s1_def ep_law_def)
  moreover have "run_state (tx_wait_loop b TX_WAIT_LIMIT) s1 = (r, t)"
    using run by (simp add: bulk_tx_wait_def run_simps s1_def)
  ultimately show "t = s\<lparr>uhw := uhw t, g_stat_txdrop := g_stat_txdrop s + (if r then 0 else 1)\<rparr>"
    and "ep (uhw t) = (ep (uhw s))\<lparr>d_index := EP_BULK_IN\<rparr>"
    using tx_wait_run [OF law] by (fastforce simp: s1_def)+
qed

text \<open>The packets of a transfer: whole, and the last one short.\<close>

definition bulk_packets :: "nat \<Rightarrow> bytes \<Rightarrow> bytes list \<Rightarrow> bool" where
  "bulk_packets maxp d ps \<longleftrightarrow> packets_of maxp d ps \<and> (ps \<noteq> [] \<longrightarrow> length (last ps) < maxp)"

lemma bulk_packets_Cons:
  assumes "d \<noteq> []" "0 < k" "k \<le> m" "k = length d \<longrightarrow> k < m" "bulk_packets m (drop k d) ps"
  shows "bulk_packets m d (take k d # ps)"
proof (cases ps)
  case Nil
  with assms(5) have "length d \<le> k" by (simp add: bulk_packets_def packets_of_def)
  with assms Nil packets_of_Cons [OF assms(1-3), of ps] show ?thesis
    by (auto simp: bulk_packets_def)
next
  case (Cons p qs)
  with assms packets_of_Cons [OF assms(1-3), of ps] show ?thesis by (simp add: bulk_packets_def)
qed

lemma bulk_packets_exist: "\<exists>ps. bulk_packets 64 d ps" "\<exists>ps. bulk_packets 512 d ps"
proof -
  have "m = 64 \<or> m = 512 \<Longrightarrow> \<exists>ps. bulk_packets m d ps" for m
  proof (induction d rule: length_induct)
    case (1 d)
    show ?case
    proof (cases "d = []")
      case True
      then have "bulk_packets m d []" by (simp add: bulk_packets_def packets_of_Nil)
      then show ?thesis by blast
    next
      case False
      define k where "k = bulk_count (of_nat m) (length d)"
      have k: "0 < k" "k \<le> length d" "k \<le> m" "k = length d \<longrightarrow> k < m"
        using bulk_count_bounds [of "of_nat m" "length d"] False "1.prems"
        by (auto simp: k_def)
      then have "length (drop k d) < length d" using False by simp
      with 1 obtain ps where "bulk_packets m (drop k d) ps" by blast
      from bulk_packets_Cons [OF False k(1,3,4) this] show ?thesis by blast
    qed
  qed
  then show "\<exists>ps. bulk_packets 64 d ps" "\<exists>ps. bulk_packets 512 d ps" by simp_all
qed

definition bulk_delivers :: "('h \<Rightarrow> ep_dev) \<Rightarrow> bytes \<Rightarrow> 'h musb_st \<Rightarrow> 'h musb_st \<Rightarrow> bool" where
  "bulk_delivers ep data s t \<longleftrightarrow> ep_idle (ep (uhw t)) \<and>
     (\<exists>ps k. bulk_packets (unat (g_bulk_maxp s)) data ps \<and> k \<le> length ps \<and>
        d_wire (ep (uhw t)) = d_wire (ep (uhw s)) @ take k ps \<and>
        g_stat_in t = g_stat_in s + of_nat k \<and>
        g_stat_txdrop t = g_stat_txdrop s + (if k < length ps then 1 else 0))"

lemma bulk_delivers_Nil: "ep_idle (ep (uhw s)) \<Longrightarrow> bulk_delivers ep [] s s"
  unfolding bulk_delivers_def
  by (intro conjI exI [of _ "[]"] exI [of _ "0 :: nat"]) (simp_all add: bulk_packets_def packets_of_Nil)

lemma bulk_loop_delivers:
  assumes law: "ep_law bulk_in_pipe b ep"
  shows "usb_inv r0 s \<Longrightarrow> ep_idle (ep (uhw s)) \<Longrightarrow> length data \<le> fuel \<Longrightarrow>
    run_state (bulk_send_loop fuel b a data) s = (x, t) \<Longrightarrow> bulk_delivers ep data s t"
proof (induction fuel arbitrary: a data s)
  case 0
  then have "data = []" "s = t" by (simp_all add: run_simps)
  then show ?case using bulk_delivers_Nil 0 by simp
next
  case (Suc fuel)
  show ?case
  proof (cases data)
    case Nil
    then have "s = t" using Suc.prems by (simp add: run_simps)
    then show ?thesis using bulk_delivers_Nil Suc.prems Nil by simp
  next
    case (Cons c d)
    let ?m = "unat (g_bulk_maxp s)"
    define n where "n = bulk_count (g_bulk_maxp s) (length data)"
    have m: "g_bulk_maxp s = 64 \<or> g_bulk_maxp s = 512" by (rule inv_maxp [OF Suc.prems(1)])
    have n: "0 < n" "n \<le> length data" "n \<le> ?m" "n = length data \<longrightarrow> n < ?m" "n \<le> 512"
      using bulk_count_bounds [OF m, of "length data"] m Cons by (auto simp: n_def)
    obtain ready s1 where w: "run_state (bulk_tx_wait b) s = (ready, s1)" by (metis prod.collapse)
    note s1 = bulk_wait_run [OF law w]
    have i1: "ep_idle (ep (uhw s1))" using s1(2) Suc.prems(2) by (simp add: ep_idle_def)
    have ps: "\<exists>ps. bulk_packets ?m data ps" using bulk_packets_exist m by auto
    show ?thesis
    proof (cases ready)
      case False
      have t: "t = s1" using Suc.prems(4) False w Cons by (simp add: run_simps Let_def)
      have f: "g_stat_in t = g_stat_in s" "g_stat_txdrop t = g_stat_txdrop s + 1"
        using arg_cong [OF s1(1), of g_stat_in] arg_cong [OF s1(1), of g_stat_txdrop] False t by simp_all
      obtain ps where p: "bulk_packets ?m data ps" using ps by blast
      then have "0 < length ps" using Cons by (auto simp: bulk_packets_def packets_of_def)
      moreover have "d_wire (ep (uhw t)) = d_wire (ep (uhw s))" "ep_idle (ep (uhw t))"
        using s1(2) i1 unfolding t by simp_all
      ultimately show ?thesis
        unfolding bulk_delivers_def using f p
        by (intro conjI exI [of _ ps] exI [of _ "0 :: nat"]) simp_all
    next
      case True
      obtain y s2 where p: "run_state (bulk_send_packet b a data n) s1 = (y, s2)" by (metis prod.collapse)
      have s2: "s2 = s1\<lparr>uhw := uhw s2\<rparr>"
        using only_hwD [OF only_hw_bulk_packet, of b a data n s1] p by simp
      obtain wn where wn: "drives ep (ep (uhw s1)) (bulk_send_packet b a data n)
          (sent_packet bulk_in_pipe wn n False (ep (uhw s1)))"
        "mem_range wn (pwin bulk_in_pipe) n = take n data"
        by (rule drives_bulk_packet [OF law i1 n(1) n(5) n(2)])
      have e2: "ep (uhw s2) = sent_packet bulk_in_pipe wn n False (ep (uhw s1))"
        by (rule drivesD [OF wn(1) refl p])
      define s3 where "s3 = s2\<lparr>g_stat_in := g_stat_in s2 + 1\<rparr>"
      have s3: "g_bulk_maxp s3 = g_bulk_maxp s" "g_stat_in s3 = g_stat_in s + 1"
        "g_stat_txdrop s3 = g_stat_txdrop s" "ep (uhw s3) = ep (uhw s2)"
        using arg_cong [OF s2, of g_bulk_maxp] arg_cong [OF s1(1), of g_bulk_maxp]
          arg_cong [OF s2, of g_stat_in] arg_cong [OF s1(1), of g_stat_in]
          arg_cong [OF s2, of g_stat_txdrop] arg_cong [OF s1(1), of g_stat_txdrop] True
        by (simp_all add: s3_def)
      have i3: "usb_inv r0 s3"
        using preservesD [OF inv_bulk_wait Suc.prems(1), of b] w
          preservesD [OF inv_only_hw [OF only_hw_bulk_packet], of r0 s1 b a data n] p by (simp add: s3_def)
      have "run_state (bulk_send_loop fuel b (a + of_nat n) (drop n data)) s3 = (x, t)"
        using Suc.prems(4) True w p unfolding Cons bulk_send_loop.simps run_gets_bind
        by (simp add: run_bind run_modify Let_def s3_def n_def Cons)
      moreover have "length (drop n data) \<le> fuel" using n Suc.prems(3) by simp
      ultimately have "bulk_delivers ep (drop n data) s3 t"
        using i3 e2 s3(4) by (intro Suc.IH) simp_all
      then obtain ps k where h: "ep_idle (ep (uhw t))" "bulk_packets ?m (drop n data) ps" "k \<le> length ps"
        "d_wire (ep (uhw t)) = d_wire (ep (uhw s3)) @ take k ps" "g_stat_in t = g_stat_in s3 + of_nat k"
        "g_stat_txdrop t = g_stat_txdrop s3 + (if k < length ps then 1 else 0)"
        unfolding bulk_delivers_def s3(1) by blast
      have "bulk_packets ?m data (take n data # ps)"
        using Cons n h(2) by (intro bulk_packets_Cons) simp_all
      moreover have "d_wire (ep (uhw t)) = d_wire (ep (uhw s)) @ take (Suc k) (take n data # ps)"
        using h(4) s3(4) e2 s1(2) wn(2) by simp
      ultimately show ?thesis
        unfolding bulk_delivers_def using h s3 by (intro conjI exI [of _ "take n data # ps"] exI [of _ "Suc k"]) simp_all
    qed
  qed
qed

section \<open>Descriptors and line coding\<close>

text \<open>What the host may ask for, at high speed or not.\<close>

definition descriptor_of :: "bool \<Rightarrow> u16 \<Rightarrow> bytes option" where
  "descriptor_of hs v =
     (let type = drop_bit 8 v; index = v AND 0xFF
      in if type = 1 then Some device_desc
         else if type = 2 then Some (patch_config 2 (if hs then 512 else 64) config_desc)
         else if type = 3
         then if index = 0 then Some string_langid else if index = 1 then Some string_product
              else if index = 2 then Some string_serial else None
         else if type = 6 then Some qualifier_desc
         else if type = 7 then Some (patch_config 7 (if hs then 64 else 512) config_desc)
         else None)"

lemma desc_lengths: "length device_desc = 18" "length qualifier_desc = 10" "length string_langid = 4"
  "length string_product = 26" "length string_serial = 10" "length config_desc = 67"
  by (simp_all add: device_desc_def qualifier_desc_def string_langid_def string_product_def
      string_serial_def config_desc_def le16_def)

definition delivered :: "('h \<Rightarrow> ep_dev) \<Rightarrow> bytes \<Rightarrow> 'h musb_st \<Rightarrow> 'h musb_st \<Rightarrow> bool" where
  "delivered ep d s t \<longleftrightarrow> ep_idle (ep (uhw t)) \<and> pending t = [] \<and>
     (\<exists>ps. d_wire (ep (uhw t)) = d_wire (ep (uhw s)) @ ps \<and> packets_of 64 d ps) \<and>
     d_ended (ep (uhw t)) = d_ended (ep (uhw s)) + 1"

lemma pending_fill:
  "pending (s\<lparr>g_ep0_buf := take (ep0_len d w) d @ z, g_ep0_remaining := of_nat (ep0_len d w), g_ep0_offset := 0\<rparr>) =
   take (ep0_len d w) d"
  using ep0_len_bound [of d w] by (simp add: pending_def EP0_BUF_SIZE_def unat_of_nat)

lemma take_ep0_len: "length d \<le> 128 \<Longrightarrow> take (ep0_len d w) d = take (unat w) d"
  by (auto simp: ep0_len_def EP0_BUF_SIZE_def min_def)

lemma patch_take: "n \<le> length d \<Longrightarrow> take n (patch_config t m (take n d @ z)) = take n (patch_config t m d)"
  by (simp add: patch_config_def take_update_swap)

lemma queue_delivered:
  assumes law: "ep_law ep0_pipe b ep" and quiet: "csr_quiet b" and inv: "usb_inv r0 s"
    and idle: "ep_idle (ep (uhw s))" and len: "length d \<le> 128" "length d \<le> 64 * n + 64"
    and run: "run_state (do { ep0_queue b d w; ep0_polls b n }) s = (x, t)"
  shows "delivered ep (take (unat w) d) s t"
proof -
  define s1 where "s1 = snd (run_state (ep0_fill d w) s)"
  have "pending s1 = take (ep0_len d w) d" "uhw s1 = uhw s"
    by (simp_all add: s1_def ep0_fill_def Let_def run_simps pending_fill)
  then have p: "pending s1 = take (unat w) d" "uhw s1 = uhw s"
    using take_ep0_len [OF len(1)] by simp_all
  have i: "usb_inv r0 s1" unfolding s1_def by (rule preservesD [OF inv_fill_buf inv])
  have "run_state (do { ep0_start b; ep0_polls b n }) s1 = (x, t)"
    using run by (simp add: ep0_queue_def run_bind s1_def ep0_fill_def Let_def run_modify)
  from start_deliver [OF law quiet i _ _ this] show ?thesis
    using idle len p by (simp add: delivered_def)
qed

lemma queue_config_delivered:
  assumes law: "ep_law ep0_pipe b ep" and quiet: "csr_quiet b" and inv: "usb_inv r0 s"
    and idle: "ep_idle (ep (uhw s))" and n: "1 \<le> n"
    and run: "run_state (do { ep0_queue_config b ty m w; ep0_polls b n }) s = (x, t)"
  shows "delivered ep (take (unat w) (patch_config ty m config_desc)) s t"
proof -
  define s0 where "s0 = snd (run_state (ep0_fill config_desc w) s)"
  define s1 where "s1 = s0\<lparr>g_ep0_buf := patch_config ty m (g_ep0_buf s0)\<rparr>"
  define k where "k = ep0_len config_desc w"
  have k: "unat (of_nat k :: u32) = k"
    using ep0_len_bound(1) [of config_desc w] by (simp add: k_def EP0_BUF_SIZE_def unat_of_nat)
  have "length (patch_config ty m config_desc) = 67" by (simp add: patch_config_def desc_lengths)
  then have tk: "take k (patch_config ty m config_desc) = take (unat w) (patch_config ty m config_desc)"
    by (auto simp: k_def ep0_len_def EP0_BUF_SIZE_def desc_lengths min_def)
  have s0: "s0 = s\<lparr>g_ep0_buf := take k config_desc @ replicate (EP0_BUF_SIZE - k) 0,
      g_ep0_remaining := of_nat k, g_ep0_offset := 0\<rparr>"
    by (simp add: s0_def ep0_fill_def Let_def run_simps k_def)
  have p: "pending s1 = take (unat w) (patch_config ty m config_desc)" "uhw s1 = uhw s"
    using ep0_len_bound(2) [of config_desc w] tk by (simp_all add: s1_def s0 pending_def k patch_take flip: k_def)
  have "usb_inv r0 s0" unfolding s0_def by (rule preservesD [OF inv_fill_buf inv])
  then have i: "usb_inv r0 s1" by (simp add: s1_def usb_inv_def patch_config_def)
  have "run_state (do { ep0_start b; ep0_polls b n }) s1 = (x, t)"
    using run by (simp add: ep0_queue_config_def run_bind s1_def s0 ep0_fill_def Let_def run_modify k_def)
  from start_deliver [OF law quiet i _ _ this] show ?thesis
    using idle n p by (simp add: delivered_def patch_config_def desc_lengths)
qed

lemma line_coding_run:
  assumes law: "ep_law P b ep" and rd: "\<And>i h. i < 7 \<Longrightarrow> fst (rd8 b (L2_EP0 + of_nat i) h) = c ! i"
    and c: "length c = 7"
  shows "n \<le> 7 \<Longrightarrow> g_ep0_out_offset s = of_nat (7 - n) \<Longrightarrow> length (g_line_coding s) = 7 \<Longrightarrow>
    run_state (line_coding_loop b (of_nat (7 - n)) n) s = (x, t) \<Longrightarrow>
    t = s\<lparr>uhw := uhw t, g_line_coding := take (7 - n) (g_line_coding s) @ drop (7 - n) c,
      g_ep0_out_offset := 7\<rparr> \<and> ep (uhw t) = ep (uhw s)"
proof (induction n arbitrary: s)
  case 0
  then show ?case using c by (auto simp: run_simps)
next
  case (Suc n)
  define k where "k = 7 - Suc n"
  have k: "k < 7" "7 - n = Suc k" using Suc.prems(1) by (simp_all add: k_def)
  have lt: "(of_nat k :: u32) < 7" using k(1) by (simp add: word_less_nat_alt unat_of_nat)
  have u: "unat (of_nat k :: u32) = k" using k(1) by (simp add: unat_of_nat)
  define s1 where "s1 = s\<lparr>uhw := snd (rd8 b (L2_EP0 + of_nat k) (uhw s)),
    g_line_coding := (g_line_coding s)[k := c ! k], g_ep0_out_offset := of_nat (Suc k)\<rparr>"
  have "run_state (line_coding_loop b (of_nat (7 - n)) n) s1 = (x, t)"
    using Suc.prems(2,4) lt u rd [OF k(1)] k unfolding k_def [symmetric]
    by (simp add: run_simps s1_def add.commute)
  with Suc.IH [of s1] Suc.prems k have h: "t = s1\<lparr>uhw := uhw t,
      g_line_coding := take (Suc k) (g_line_coding s1) @ drop (Suc k) c, g_ep0_out_offset := 7\<rparr>"
    "ep (uhw t) = ep (uhw s1)"
    by (simp_all add: s1_def)
  have "take (Suc k) ((g_line_coding s)[k := c ! k]) = take k (g_line_coding s) @ [c ! k]"
    using k(1) Suc.prems(3) by (simp add: take_Suc_conv_app_nth)
  moreover have "drop k c = c ! k # drop (Suc k) c" using k(1) c by (simp add: Cons_nth_drop_Suc)
  ultimately have "t = s\<lparr>uhw := uhw t, g_line_coding := take k (g_line_coding s) @ drop k c,
      g_ep0_out_offset := 7\<rparr>"
    using h(1) by (simp add: s1_def)
  moreover have "ep (uhw s1) = ep (uhw s)" using law by (simp add: s1_def ep_law_def)
  ultimately show ?case using h(2) unfolding k_def by simp
qed

lemma get_descriptor_delivered:
  assumes law: "ep_law ep0_pipe b ep" and quiet: "csr_quiet b" and inv: "usb_inv r0 s"
    and idle: "ep_idle (ep (uhw s))" and d: "descriptor_of (g_high_speed s) v = Some d" and n: "1 \<le> n"
    and run: "run_state (do { get_descriptor b v w; ep0_polls b n }) s = (x, t)"
  shows "delivered ep (take (unat w) d) s t"
proof -
  have q: "delivered ep (take (unat w) e) s t"
    if "run_state (do { ep0_queue b e w; ep0_polls b n }) s = (x, t)" "length e \<le> 128" for e
    using queue_delivered [OF law quiet inv idle that(2) _ that(1)] that(2) n by simp
  have c: "delivered ep (take (unat w) (patch_config ty m config_desc)) s t"
    if "run_state (do { ep0_queue_config b ty m w; ep0_polls b n }) s = (x, t)" for ty m
    by (rule queue_config_delivered [OF law quiet inv idle n that])
  have mp: "g_bulk_maxp s = (if g_high_speed s then 512 else 64)"
    using inv by (simp add: usb_inv_def BULK_MAXP_HS_def BULK_MAXP_FS_def)
  define ty where "ty = drop_bit 8 v"
  define ix where "ix = v AND 0xFF"
  note defs = descriptor_of_def get_descriptor_def Let_def
  consider "ty = 1" | "ty = 2" | "ty = 3" "ix = 0" | "ty = 3" "ix = 1" | "ty = 3" "ix = 2" | "ty = 6" | "ty = 7"
    using d unfolding defs ty_def [symmetric] ix_def [symmetric] by (auto split: if_splits)
  then show ?thesis
  proof cases
    case 2
    then show ?thesis
      using d run c [of 2 "g_bulk_maxp s"] unfolding defs ty_def [symmetric] ix_def [symmetric]
      by (simp add: run_bind run_gets mp)
  next
    case 7
    then show ?thesis
      using d run c [of 7 "if g_high_speed s then 64 else 512"]
      unfolding defs ty_def [symmetric] ix_def [symmetric]
      by (cases "g_high_speed s") (simp_all add: run_bind run_gets BULK_MAXP_HS_def BULK_MAXP_FS_def)
  qed (use d run q [of device_desc] q [of qualifier_desc] q [of string_langid] q [of string_product]
      q [of string_serial] in
      \<open>unfold defs ty_def [symmetric] ix_def [symmetric], auto simp: desc_lengths\<close>)
qed

lemma line_coding_stored:
  assumes law: "ep_law ep0_pipe b ep" and inv: "usb_inv r0 s" and idle: "ep_idle (ep (uhw s))"
    and c: "length c = 7" and rd: "\<And>i h. i < 7 \<Longrightarrow> fst (rd8 b (L2_EP0 + of_nat i) h) = c ! i"
    and cnt: "\<And>h. fst (urd32 b USB_COUNT0_RXCOUNT h) AND 0x7F = 7"
    and run: "run_state (do { handle_class_setup b CDC_SET_LINE_CODING v 7; handle_ep0_out b }) s = (x, t)"
  shows "g_line_coding t = c" "g_ep0_out_remaining t = 0" "usb_inv r0 t" "ep_idle (ep (uhw t))"
    "d_wire (ep (uhw t)) = d_wire (ep (uhw s))"
proof -
  define s1 where "s1 = snd (run_state (ep0_expect_out b 7) s)"
  have s1: "g_ep0_out_remaining s1 = 7" "g_ep0_out_offset s1 = 0" "length (g_line_coding s1) = 7"
    "ep (uhw s1) = (ep (uhw s))\<lparr>d_index := 0\<rparr>"
    using inv law ep0_csr_quiet(1) [of "(ep (uhw s))\<lparr>d_index := 0\<rparr>"]
    by (simp_all add: s1_def ep0_expect_out_def run_simps usb_inv_def ep_law_def)
  have r1: "run_state (handle_ep0_out b) s1 = (x, t)"
    using run by (simp add: handle_class_setup_def run_bind s1_def split: prod.splits)
  define s2 where "s2 = s1\<lparr>uhw := snd (urd32 b USB_COUNT0_RXCOUNT (wr8 b USB_INDEX 0 (uhw s1)))\<rparr>"
  have s2: "ep (uhw s2) = (ep (uhw s))\<lparr>d_index := 0\<rparr>" "g_ep0_out_offset s2 = 0" "length (g_line_coding s2) = 7"
    "g_ep0_out_remaining s2 = 7"
    using law s1 by (simp_all add: s2_def ep_law_def)
  obtain y s3 where l: "run_state (line_coding_loop b 0 7) s2 = (y, s3)" by (metis prod.collapse)
  have s3: "s3 = s2\<lparr>uhw := uhw s3, g_line_coding := c, g_ep0_out_offset := 7\<rparr>" "ep (uhw s3) = ep (uhw s2)"
    using line_coding_run [OF law rd c, of 7 s2 y s3] s2 l by simp_all
  define s4 where "s4 = s3\<lparr>g_ep0_out_remaining := 0\<rparr>"
  have left: "g_ep0_out_remaining s3 = 7" using arg_cong [OF s3(1), of g_ep0_out_remaining] s2 by simp
  have t: "t = s4\<lparr>uhw := wr8 b USB_CSR0_TXCSR1 (CSR0_SERVICED_RX OR CSR0_DATAEND) (uhw s3)\<rparr>"
    using r1 l left cnt by (simp add: handle_ep0_out_def run_bind run_w8 run_r32 run_gets run_modify Let_def
        s4_def flip: s2_def split: prod.splits)
  have e: "ep (uhw t) = (ep (uhw s3))\<lparr>d_ended := d_ended (ep (uhw s3)) + 1\<rparr>"
    using law ep0_csr_quiet(2) [of "ep (uhw s3)"] s3(2) s2(1) by (simp add: t ep_law_def)
  show "g_line_coding t = c" "g_ep0_out_remaining t = 0"
    using arg_cong [OF s3(1), of g_line_coding] by (simp_all add: t s4_def)
  show "ep_idle (ep (uhw t))" "d_wire (ep (uhw t)) = d_wire (ep (uhw s))"
    using e s3(2) s2(1) idle by (simp_all add: ep_idle_def)
  have "preserves (usb_inv r0) (do { handle_class_setup b CDC_SET_LINE_CODING v 7; handle_ep0_out b })"
    by (intro preserves_rules inv_class_setup inv_ep0_out)
  from preservesD [OF this inv] run show "usb_inv r0 t" by simp
qed

section \<open>Properties\<close>

text \<open>C5: Whatever the controller answers and the host sends, every round of the debugger's main loop
  ends, and its variables keep their invariant: the staged reply lies inside its buffer, the line
  coding has seven bytes, the packet size is that of the negotiated speed, the server is in a good
  state and has sent well-formed packets only, and at most \<open>REPORT_LIMIT\<close> reports are traced.\<close>

theorem stub_run_invariant:
  assumes "rsp_ok r" and "stub_run b adr (musb_st0 h r) entry l s"
  shows "usb_inv r s \<and> reports l \<le> REPORT_LIMIT \<and>
    (\<exists>l' s'. run_state (main_round b adr l) s = (Some l', s'))"
proof -
  from stub_run_ok [OF assms(2) inv_st0 [OF assms(1)]] have i: "usb_inv r s" "locals_ok l" by simp_all
  then obtain l' s' where "run_state (main_round b adr l) s = (Some l', s')" by (rule main_round_ok)
  with i show ?thesis by (simp add: locals_ok_def)
qed

theorem stub_run_invariant_witness:
  "let b = ep_bus bulk_in_pipe 0;
       (l, s) = run_state (main_start b 0xD3 0x301F0000 (0, 4, 8)) (musb_st0 ep_dev0 rsp_start)
   in usb_inv rsp_start s \<and> reports l \<le> REPORT_LIMIT \<and>
      (\<exists>l' s'. run_state (main_round b (\<lambda>_. 0) l) s = (Some l', s'))"
proof -
  define b where "b = ep_bus bulk_in_pipe 0"
  obtain l s where m: "run_state (main_start b 0xD3 0x301F0000 (0, 4, 8)) (musb_st0 ep_dev0 rsp_start) = (l, s)"
    by (metis prod.collapse)
  have "stub_run b (\<lambda>_. 0) (musb_st0 ep_dev0 rsp_start) (0xD3, 0x301F0000, 0, 4, 8) l s"
    by (rule stub_run.start [OF refl m])
  from stub_run_invariant [OF rsp_start_facts(1) this] m show ?thesis
    by (simp add: b_def)
qed



text \<open>C23: A request for a descriptor, followed by the interrupts of its data stage, puts the first
  \<open>wLength\<close> bytes of that descriptor on the wire in packets of at most 64 bytes and ends the transfer
  once. The configuration carries the bulk packet size of the present speed and, when it is asked for
  as the other speed's, that of the other one.\<close>

theorem descriptor_delivered:
  assumes "ep_law ep0_pipe b ep" and "csr_quiet b" and "usb_inv r0 s" and "ep_idle (ep (uhw s))"
    and "descriptor_of (g_high_speed s) v = Some d" and "1 \<le> n"
    and "run_state (do { get_descriptor b v w; ep0_polls b n }) s = (x, t)"
  shows "(\<exists>ps. d_wire (ep (uhw t)) = d_wire (ep (uhw s)) @ ps \<and> concat ps = take (unat w) d \<and>
      (\<forall>p \<in> set ps. p \<noteq> [] \<and> length p \<le> 64)) \<and>
    d_ended (ep (uhw t)) = d_ended (ep (uhw s)) + 1 \<and> ep_idle (ep (uhw t)) \<and> pending t = []"
  using get_descriptor_delivered [OF assms] by (simp add: delivered_def packets_of_def)

theorem descriptor_delivered_witness:
  "\<exists>ps t. run_state (do { get_descriptor (ep_bus ep0_pipe 0) 0x200 9; ep0_polls (ep_bus ep0_pipe 0) 1 })
      (musb_st0 ep_dev0 rsp_start) = ((), t) \<and>
    d_wire (uhw t) = ps \<and> concat ps = [9, 2, 67, 0, 2, 1, 0, 0xC0, 0x01] \<and> d_ended (uhw t) = 1"
proof -
  let ?s = "musb_st0 ep_dev0 rsp_start" and ?b = "ep_bus ep0_pipe 0"
  obtain x t where r: "run_state (do { get_descriptor ?b 0x200 9; ep0_polls ?b 1 }) ?s = (x, t)"
    by (metis prod.collapse)
  have q: "csr_quiet ?b" by (simp add: csr_quiet_def ep_bus_def)
  have s: "uhw ?s = ep_dev0" "d_wire ep_dev0 = []" "d_ended ep_dev0 = 0" "g_high_speed ?s = False"
    by (simp_all add: musb_st0_def ep_dev0_def)
  have "drop_bit 8 (0x200 :: u16) = 2"
    by (simp add: word_unat_eq_iff unat_drop_bit)
  then have d: "descriptor_of (g_high_speed ?s) 0x200 = Some (patch_config 2 64 config_desc)"
    unfolding s by (simp add: descriptor_of_def)
  have i: "ep_idle (uhw ?s)" by (simp add: s ep_idle_dev0)
  have t: "take (unat (9 :: u32)) (patch_config 2 64 config_desc) = [9, 2, 67, 0, 2, 1, 0, 0xC0, 0x01]"
    by (simp add: patch_config_def CFG_BULK_IN_MAXP_def CFG_BULK_OUT_MAXP_def config_desc_def)
  from descriptor_delivered [OF ep_law_bus q inv_st0 [OF rsp_start_facts(1)] i d _ r] r show ?thesis
    unfolding t s by auto
qed

text \<open>C37: The line coding that the host sets comes back when it asks for it.\<close>

theorem line_coding_round_trip:
  assumes "ep_law ep0_pipe b ep" and "csr_quiet b" and "usb_inv r0 s" and "ep_idle (ep (uhw s))"
    and "length c = 7" and "\<And>i h. i < 7 \<Longrightarrow> fst (rd8 b (L2_EP0 + of_nat i) h) = c ! i"
    and "\<And>h. fst (urd32 b USB_COUNT0_RXCOUNT h) AND 0x7F = 7"
    and "run_state (do { handle_class_setup b CDC_SET_LINE_CODING v 7; handle_ep0_out b;
      handle_class_setup b CDC_GET_LINE_CODING v 7 }) s = (x, t)"
  shows "\<exists>ps. d_wire (ep (uhw t)) = d_wire (ep (uhw s)) @ ps \<and> concat ps = c"
proof -
  obtain y s1 where r: "run_state (do { handle_class_setup b CDC_SET_LINE_CODING v 7; handle_ep0_out b }) s = (y, s1)"
    by (metis prod.collapse)
  note s1 = line_coding_stored [OF assms(1,3,4,5) assms(6,7) r]
  have g: "run_state (handle_class_setup b CDC_GET_LINE_CODING v 7) s1 = (x, t)"
    using assms(8) r by (simp add: run_bind split: prod.splits)
  then have q: "run_state (do { ep0_queue b c 7; ep0_polls b 0 }) s1 = (x, t)"
    using s1(1) by (simp add: handle_class_setup_def CDC_GET_LINE_CODING_def CDC_SET_LINE_CODING_def run_simps)
  have "delivered ep (take (unat (7 :: u32)) c) s1 t"
    by (rule queue_delivered [OF assms(1,2) s1(3,4) _ _ q]) (simp_all add: assms(5))
  then show ?thesis
    using s1(5) assms(5) by (auto simp: delivered_def packets_of_def)
qed

theorem line_coding_round_trip_witness:
  "let b = (ep_bus ep0_pipe 0)\<lparr>rd8 := (\<lambda>a e. (if a = USB_CSR0_TXCSR1 then 0 else ucast (a - L2_EP0), e)),
             urd32 := (\<lambda>a e. (7, e))\<rparr>
   in \<exists>ps. d_wire (uhw (snd (run_state (do { handle_class_setup b CDC_SET_LINE_CODING 0 7; handle_ep0_out b;
        handle_class_setup b CDC_GET_LINE_CODING 0 7 }) (musb_st0 ep_dev0 rsp_start)))) = ps \<and>
      concat ps = [0, 1, 2, 3, 4, 5, 6]"
proof -
  define b where "b = (ep_bus ep0_pipe 0)\<lparr>rd8 := (\<lambda>a e. (if a = USB_CSR0_TXCSR1 then 0 else ucast (a - L2_EP0), e)),
    urd32 := (\<lambda>a e. (7, e))\<rparr>"
  let ?s = "musb_st0 ep_dev0 rsp_start"
  obtain x t where r: "run_state (do { handle_class_setup b CDC_SET_LINE_CODING 0 7; handle_ep0_out b;
      handle_class_setup b CDC_GET_LINE_CODING 0 7 }) ?s = (x, t)"
    by (metis prod.collapse)
  have l: "ep_law ep0_pipe b (\<lambda>e. e)" by (simp add: ep_law_def b_def ep_bus_def)
  have q: "csr_quiet b" by (simp add: csr_quiet_def b_def)
  have s: "uhw ?s = ep_dev0" "d_wire ep_dev0 = []" by (simp_all add: musb_st0_def ep_dev0_def)
  have i: "ep_idle (uhw ?s)" by (simp add: s ep_idle_dev0)
  have n: "fst (rd8 b (L2_EP0 + of_nat k) h) = [0, 1, 2, 3, 4, 5, 6] ! k" if "k < 7" for k h
  proof -
    have "k = 0 \<or> k = 1 \<or> k = 2 \<or> k = 3 \<or> k = 4 \<or> k = 5 \<or> k = 6" using that by auto
    then show ?thesis by (auto simp: b_def usb_addr)
  qed
  have c: "fst (urd32 b USB_COUNT0_RXCOUNT h) AND 0x7F = 7" for h by (simp add: b_def)
  from line_coding_round_trip [OF l q inv_st0 [OF rsp_start_facts(1)] i _ n c r] r show ?thesis
    unfolding b_def [symmetric] Let_def by (simp add: s)
qed

end
