(* ===== verification/Ini.thy ===== *)
theory Ini
  imports Prelude
begin

text \<open>
  The INI parser of aipc-boot (ini.c). C strings are character lists without the terminator. The
  parser hands its callback a pointer to the name of the section; callers compare such pointers, so
  a section is a number that is different for every header (its line, 0 for the keys before the
  first header) together with its name.
\<close>

section \<open>Definitions\<close>

definition blank :: "char \<Rightarrow> bool" where
  "blank c \<longleftrightarrow> c = CHR '' '' \<or> c = CHR 0x09"

definition end_blank :: "char \<Rightarrow> bool" where
  "end_blank c \<longleftrightarrow> blank c \<or> c = CHR 0x0D"

definition trim :: "string \<Rightarrow> string" where
  "trim s = rev (dropWhile end_blank (rev (dropWhile blank s)))"

type_synonym ini_section = "nat \<times> string"
type_synonym 'c ini_handler = "'c \<Rightarrow> ini_section \<Rightarrow> string \<Rightarrow> string \<Rightarrow> int \<Rightarrow> int \<times> 'c"

datatype ini_line =
  Skip_line | Bad_line | Section_line string | Key_line string string

text \<open>The cases of one line, after the line itself has been trimmed.\<close>

definition ini_classify :: "string \<Rightarrow> ini_line" where
  "ini_classify raw =
     (let s = trim raw
      in case s of
           [] \<Rightarrow> Skip_line
         | c # rest \<Rightarrow>
             if c = CHR '';'' \<or> c = CHR ''#'' then Skip_line
             else if c = CHR ''['' then
               if CHR '']'' \<in> set s then Section_line (trim (takeWhile (\<lambda>d. d \<noteq> CHR '']'') rest)) else Bad_line
             else if CHR ''='' \<in> set s then
               Key_line (trim (takeWhile (\<lambda>d. d \<noteq> CHR ''='') s)) (trim (tl (dropWhile (\<lambda>d. d \<noteq> CHR ''='') s)))
             else Bad_line)"

function ini_loop :: "'c ini_handler \<Rightarrow> string \<Rightarrow> ini_section \<Rightarrow> nat \<Rightarrow> 'c \<Rightarrow> int \<times> 'c" where
  "ini_loop handler text sec line ctx =
     (if text = [] then (0, ctx)
      else
        let raw = takeWhile (\<lambda>c. c \<noteq> CHR 0x0A) text;
            next = drop 1 (dropWhile (\<lambda>c. c \<noteq> CHR 0x0A) text);
            line' = line + 1
        in case ini_classify raw of
             Skip_line \<Rightarrow> ini_loop handler next sec line' ctx
           | Bad_line \<Rightarrow> (int line', ctx)
           | Section_line name \<Rightarrow> ini_loop handler next (line', name) line' ctx
           | Key_line key val \<Rightarrow>
               let (rc, ctx') = handler ctx sec key val (int line')
               in if rc \<noteq> 0 then (rc, ctx') else ini_loop handler next sec line' ctx')"
  by pat_completeness auto
termination
proof (relation "measure (\<lambda>(h, text, sec, line, ctx). length text)", goal_cases)
  case (2 h t) then show ?case
    using length_dropWhile_le [of "\<lambda>c. c \<noteq> CHR 0x0A" t] by (cases t) auto
next
  case (3 h t) then show ?case
    using length_dropWhile_le [of "\<lambda>c. c \<noteq> CHR 0x0A" t] by (cases t) auto
next
  case (4 h t) then show ?case
    using length_dropWhile_le [of "\<lambda>c. c \<noteq> CHR 0x0A" t] by (cases t) auto
qed simp

declare ini_loop.simps [simp del]

definition ini_parse :: "'c ini_handler \<Rightarrow> string \<Rightarrow> 'c \<Rightarrow> int \<times> 'c" where
  "ini_parse handler text ctx = ini_loop handler text (0, []) 0 ctx"

text \<open>\<open>lv_strlcpy\<close> into a field of \<open>n\<close> bytes: at most \<open>n - 1\<close> characters arrive.\<close>

definition strlcpy :: "nat \<Rightarrow> string \<Rightarrow> string" where
  "strlcpy n s = take (n - 1) s"

section \<open>Lines that print what they parse to\<close>

definition clean :: "string \<Rightarrow> bool" where
  "clean s \<longleftrightarrow> trim s = s \<and> CHR 0x0A \<notin> set s"

lemma dropWhile_id: "(case s of [] \<Rightarrow> True | c # _ \<Rightarrow> \<not> P c) \<Longrightarrow> dropWhile P s = s"
  by (cases s) auto

lemma blank_end: "blank c \<Longrightarrow> end_blank c" by (simp add: end_blank_def)

lemma trim_id_iff:
  "trim s = s \<longleftrightarrow> s = [] \<or> (\<not> blank (hd s) \<and> \<not> end_blank (last s))"
proof (cases s)
  case (Cons c q)
  show ?thesis
  proof
    assume t: "trim s = s"
    have "length (trim s) \<le> length (dropWhile blank s)"
      unfolding trim_def using length_dropWhile_le [of end_blank "rev (dropWhile blank s)"] by simp
    with t have "length s \<le> length (dropWhile blank s)" by simp
    then have d: "\<not> blank c" using Cons length_dropWhile_le [of blank q] by (cases "blank c") auto
    then have "dropWhile end_blank (rev s) = rev s"
      using t Cons by (simp add: trim_def rev_swap)
    then have "\<not> end_blank (hd (rev s))" using Cons
      by (metis dropWhile_eq_self_iff rev_is_Nil_conv list.distinct(1))
    then have "\<not> end_blank (last s)" by (simp add: hd_rev)
    with d Cons show "s = [] \<or> (\<not> blank (hd s) \<and> \<not> end_blank (last s))" by simp
  next
    assume a: "s = [] \<or> (\<not> blank (hd s) \<and> \<not> end_blank (last s))"
    then have "dropWhile blank s = s" using Cons by simp
    moreover have "dropWhile end_blank (rev s) = rev s"
      using a hd_rev [of s] by (subst dropWhile_eq_self_iff) auto
    ultimately show "trim s = s" by (simp add: trim_def)
  qed
qed (simp add: trim_def)

lemma ini_loop_line:
  assumes "CHR 0x0A \<notin> set raw"
  shows "ini_loop handler (raw @ CHR 0x0A # rest) sec line ctx =
    (case ini_classify raw of
       Skip_line \<Rightarrow> ini_loop handler rest sec (line + 1) ctx
     | Bad_line \<Rightarrow> (int (line + 1), ctx)
     | Section_line name \<Rightarrow> ini_loop handler rest (line + 1, name) (line + 1) ctx
     | Key_line key val \<Rightarrow>
         let (rc, ctx') = handler ctx sec key val (int (line + 1))
         in if rc \<noteq> 0 then (rc, ctx') else ini_loop handler rest sec (line + 1) ctx')"
proof -
  have "takeWhile (\<lambda>c. c \<noteq> CHR 0x0A) (raw @ CHR 0x0A # rest) = raw"
    using assms by (subst takeWhile_append2) (auto)
  moreover have "dropWhile (\<lambda>c. c \<noteq> CHR 0x0A) (raw @ CHR 0x0A # rest) = CHR 0x0A # rest"
    using assms by (subst dropWhile_append2) (auto)
  ultimately show ?thesis
    by (subst ini_loop.simps) (simp add: Let_def split: ini_line.split prod.split)
qed

lemma classify_section:
  assumes "clean name" and "CHR '']'' \<notin> set name"
  shows "ini_classify (CHR ''['' # name @ '']'') = Section_line name"
proof -
  have "trim (CHR ''['' # name @ '']'') = CHR ''['' # name @ '']''"
    by (subst trim_id_iff) (simp add: blank_def end_blank_def)
  moreover have "takeWhile (\<lambda>d. d \<noteq> CHR '']'') (name @ '']'') = name"
    using assms(2) by (subst takeWhile_append2) auto
  ultimately show ?thesis
    using assms(1) by (simp add: ini_classify_def clean_def)
qed

lemma classify_key:
  assumes "clean name" and "clean val" and "CHR ''='' \<notin> set name"
    and "name = [] \<or> hd name \<notin> {CHR '';'', CHR ''#'', CHR ''[''}"
  shows "ini_classify (name @ CHR ''='' # val) = Key_line name val"
proof -
  have "trim (name @ CHR ''='' # val) = name @ CHR ''='' # val"
    using assms(1,2) unfolding clean_def
    by (subst trim_id_iff) (auto simp: trim_id_iff hd_append blank_def end_blank_def)
  moreover have "takeWhile (\<lambda>d. d \<noteq> CHR ''='') (name @ CHR ''='' # val) = name"
    and "dropWhile (\<lambda>d. d \<noteq> CHR ''='') (name @ CHR ''='' # val) = CHR ''='' # val"
    using assms(3) by (subst takeWhile_append2, auto, subst dropWhile_append2, auto)
  ultimately show ?thesis
    using assms by (cases name) (auto simp: ini_classify_def clean_def)
qed

lemma ini_loop_invariant:
  assumes "\<And>ctx sec key val line. I ctx \<Longrightarrow> I (snd (handler ctx sec key val line))" and "I ctx"
  shows "I (snd (ini_loop handler tx sec line ctx))"
  using assms
proof (induction handler tx sec line ctx rule: ini_loop.induct)
  case (1 h tx sec line ctx)
  define raw where "raw = takeWhile (\<lambda>c. c \<noteq> CHR 0x0A) tx"
  note ih = "1.IH" [OF _ raw_def refl refl]
  note unfold = ini_loop.simps [of h tx sec line ctx, folded raw_def]
  show ?case
  proof (cases "tx = []")
    case True
    with "1.prems" show ?thesis by (simp add: ini_loop.simps)
  next
    case False
    show ?thesis
    proof (cases "ini_classify raw")
      case (Key_line key val)
      have "I (snd (h ctx sec key val (int (line + 1))))" using "1.prems" by blast
      with False Key_line ih(3) [OF False Key_line] "1.prems"(1) show ?thesis
        by (auto simp: unfold Let_def split: prod.split)
    qed (use False "1.prems" ih(1,2) [OF False] in \<open>simp_all add: unfold Let_def\<close>)
  qed
qed

end
