(* ===== verification/Settings.thy ===== *)
theory Settings
  imports Ini Sink "HOL-Library.Multiset"
begin

text \<open>
  The settings of aipc-boot (settings.c): a list of at most 32 keys in the order in which they first
  appeared, read from and written to an INI file. The file itself is reached through \<open>storage_load\<close>
  and \<open>storage_save\<close>, which are parameters here: \<open>load path max d\<close> gives the return code and the
  text, \<open>save path txt d\<close> the return code and the new state of the card.
\<close>

section \<open>Definitions\<close>

definition TEXT_MAX :: nat where "TEXT_MAX = 4096"
definition KEYS_MAX :: nat where "KEYS_MAX = 32"
definition TIMEOUT_DEFAULT_S :: u32 where "TIMEOUT_DEFAULT_S = 15"
definition BACKLIGHT_MIN :: u32 where "BACKLIGHT_MIN = 10"
definition BACKLIGHT_DEFAULT :: u32 where "BACKLIGHT_DEFAULT = 100"
definition SETTINGS_PATH :: string where "SETTINGS_PATH = ''/aipc-boot/settings.ini''"

definition STORAGE_ENOTFOUND :: int where "STORAGE_ENOTFOUND = -30"
definition STORAGE_ESIZE :: int where "STORAGE_ESIZE = -31"
definition STORAGE_EIO :: int where "STORAGE_EIO = -32"

record skey =
  k_section :: string
  k_name :: string
  k_value :: string

text \<open>\<open>keys[0..key_count-1]\<close>\<close>

type_synonym skeys = "skey list"

definition key_is :: "string \<Rightarrow> string \<Rightarrow> skey \<Rightarrow> bool" where
  "key_is sec name k \<longleftrightarrow> k_section k = sec \<and> k_name k = name"

definition find_key :: "string \<Rightarrow> string \<Rightarrow> skeys \<Rightarrow> nat option" where
  "find_key sec name ks = find (\<lambda>i. key_is sec name (ks ! i)) [0..<length ks]"

definition get_key :: "string \<Rightarrow> string \<Rightarrow> skeys \<Rightarrow> string option" where
  "get_key sec name ks = map_option (\<lambda>i. k_value (ks ! i)) (find_key sec name ks)"

definition set_key :: "string \<Rightarrow> string \<Rightarrow> string option \<Rightarrow> skeys \<Rightarrow> skeys" where
  "set_key sec name val ks =
     (case val of
        None \<Rightarrow> (case find_key sec name ks of None \<Rightarrow> ks | Some i \<Rightarrow> take i ks @ drop (i + 1) ks)
      | Some v \<Rightarrow>
          (case find_key sec name ks of
             Some i \<Rightarrow> ks[i := (ks ! i)\<lparr>k_value := strlcpy 96 v\<rparr>]
           | None \<Rightarrow>
               if length ks = KEYS_MAX then ks
               else ks @ [\<lparr>k_section = strlcpy 24 sec, k_name = strlcpy 32 name, k_value = strlcpy 96 v\<rparr>]))"

text \<open>\<open>lv_snprintf(t, 12, "%u", v)\<close>\<close>

definition uint_text :: "u32 \<Rightarrow> string" where
  "uint_text v = strlcpy 12 (map (\<lambda>b. char_of (unat b)) (dec_string (unat v)))"

definition set_uint :: "string \<Rightarrow> string \<Rightarrow> u32 \<Rightarrow> skeys \<Rightarrow> skeys" where
  "set_uint sec name v ks = set_key sec name (Some (uint_text v)) ks"

fun uint_loop :: "string \<Rightarrow> u32 \<Rightarrow> u32 option" where
  "uint_loop [] n = Some n"
| "uint_loop (c # s) n =
     (if of_char c < (48 :: nat) \<or> 57 < (of_char c :: nat) \<or> 100000 < n then None
      else uint_loop s (n * 10 + of_nat (of_char c - 48)))"

definition get_uint :: "string \<Rightarrow> string \<Rightarrow> u32 \<Rightarrow> u32 \<Rightarrow> u32 \<Rightarrow> skeys \<Rightarrow> u32" where
  "get_uint sec name mn mx def ks =
     (case get_key sec name ks of
        None \<Rightarrow> def
      | Some s \<Rightarrow>
          if s = [] then def
          else (case uint_loop s 0 of None \<Rightarrow> def | Some n \<Rightarrow> if mn \<le> n \<and> n \<le> mx then n else def))"

definition settings_default :: "skeys \<Rightarrow> string" where
  "settings_default ks = (case get_key ''boot'' ''default'' ks of Some s \<Rightarrow> s | None \<Rightarrow> [])"

definition settings_set_default :: "string \<Rightarrow> skeys \<Rightarrow> skeys" where
  "settings_set_default title ks = set_key ''boot'' ''default'' (if title \<noteq> [] then Some title else None) ks"

definition settings_timeout :: "skeys \<Rightarrow> u32" where
  "settings_timeout ks = get_uint ''boot'' ''timeout'' 1 100000 TIMEOUT_DEFAULT_S ks"

definition settings_set_timeout :: "u32 \<Rightarrow> skeys \<Rightarrow> skeys" where
  "settings_set_timeout s ks =
     (if s \<noteq> 0 then set_uint ''boot'' ''timeout'' s ks else set_key ''boot'' ''timeout'' None ks)"

definition settings_backlight :: "skeys \<Rightarrow> u32" where
  "settings_backlight ks = get_uint ''display'' ''backlight'' BACKLIGHT_MIN 100 BACKLIGHT_DEFAULT ks"

definition settings_set_backlight :: "u32 \<Rightarrow> skeys \<Rightarrow> skeys" where
  "settings_set_backlight percent ks =
     (if BACKLIGHT_MIN \<le> percent \<and> percent \<le> 100 then set_uint ''display'' ''backlight'' percent ks
      else set_key ''display'' ''backlight'' None ks)"

definition settings_dark :: "skeys \<Rightarrow> bool" where
  "settings_dark ks \<longleftrightarrow> get_key ''display'' ''theme'' ks = Some ''dark''"

definition settings_set_dark :: "bool \<Rightarrow> skeys \<Rightarrow> skeys" where
  "settings_set_dark on ks = set_key ''display'' ''theme'' (Some (if on then ''dark'' else ''light'')) ks"

definition settings_cfw :: "string \<Rightarrow> skeys \<Rightarrow> int" where
  "settings_cfw cid ks =
     (let s = get_key ''cfw'' cid ks in if s = Some ''on'' then 1 else if s = Some ''off'' then 0 else - 1)"

definition settings_set_cfw :: "string \<Rightarrow> bool \<Rightarrow> skeys \<Rightarrow> skeys" where
  "settings_set_cfw cid on ks = set_key ''cfw'' cid (Some (if on then ''on'' else ''off'')) ks"

definition settings_reset :: "skeys \<Rightarrow> skeys" where
  "settings_reset ks = []"

definition on_key :: "skeys ini_handler" where
  "on_key ks sec name val line = (0, set_key (snd sec) name (Some val) ks)"

definition settings_load :: "(string \<Rightarrow> nat \<Rightarrow> 'd \<Rightarrow> int \<times> string) \<Rightarrow> 'd \<Rightarrow> skeys \<Rightarrow> skeys" where
  "settings_load load d ks0 =
     (let ks = settings_reset ks0; (rc, txt) = load SETTINGS_PATH (TEXT_MAX - 1) d
      in if rc \<noteq> 0 then ks else snd (ini_parse on_key (takeWhile (\<lambda>c. c \<noteq> CHR 0x00) txt) ks))"

text \<open>The text grows by what \<open>lv_snprintf\<close> reports, so it is the text that would be written were the
  buffer long enough; once it reaches \<open>TEXT_MAX\<close> the save fails.\<close>

fun save_lines :: "string \<Rightarrow> skeys \<Rightarrow> string \<Rightarrow> string" where
  "save_lines sec [] acc = acc"
| "save_lines sec (k # ks) acc =
     (if length acc < TEXT_MAX then
        save_lines sec ks
          (if k_section k = sec then acc @ k_name k @ ''='' @ k_value k @ [CHR 0x0A] else acc)
      else acc)"

fun save_loop :: "skeys \<Rightarrow> skeys \<Rightarrow> string \<Rightarrow> int + string" where
  "save_loop seen [] acc = Inr acc"
| "save_loop seen (k # ks) acc =
     (if k_section k \<in> k_section ` set seen then save_loop (seen @ [k]) ks acc
      else
        let acc1 = (if k_section k \<noteq> [] then acc @ ''['' @ k_section k @ '']'' @ [CHR 0x0A] else acc);
            acc2 = save_lines (k_section k) (k # ks) acc1
        in if TEXT_MAX \<le> length acc2 then Inl STORAGE_ESIZE else save_loop (seen @ [k]) ks acc2)"

definition settings_save :: "(string \<Rightarrow> string \<Rightarrow> 'd \<Rightarrow> int \<times> 'd) \<Rightarrow> skeys \<Rightarrow> 'd \<Rightarrow> int \<times> 'd" where
  "settings_save save ks d =
     (case save_loop [] ks [] of Inl e \<Rightarrow> (e, d) | Inr txt \<Rightarrow> save SETTINGS_PATH txt d)"

section \<open>The list as a key-value store\<close>

locale kv_store =
  fixes get :: "string \<Rightarrow> string \<Rightarrow> 's \<Rightarrow> string option"
    and put :: "string \<Rightarrow> string \<Rightarrow> string option \<Rightarrow> 's \<Rightarrow> 's"
    and inv :: "'s \<Rightarrow> bool"
    and fits :: "string \<Rightarrow> string \<Rightarrow> string option \<Rightarrow> 's \<Rightarrow> bool"
  assumes get_put: "inv s \<Longrightarrow> fits sec name val s \<Longrightarrow>
      get sec' name' (put sec name val s) = (if sec' = sec \<and> name' = name then val else get sec' name' s)"
    and inv_put: "inv s \<Longrightarrow> fits sec name val s \<Longrightarrow> inv (put sec name val s)"
begin

lemma get_put_same: "inv s \<Longrightarrow> fits sec name val s \<Longrightarrow> get sec name (put sec name val s) = val"
  by (simp add: get_put)

lemma get_put_put:
  assumes "inv s" and "fits sec name v1 s" and "fits sec name v2 (put sec name v1 s)" and "fits sec name v2 s"
  shows "get sec' name' (put sec name v2 (put sec name v1 s)) = get sec' name' (put sec name v2 s)"
  using assms by (simp add: get_put inv_put)

end

definition distinct_keys :: "skeys \<Rightarrow> bool" where
  "distinct_keys ks \<longleftrightarrow> distinct (map (\<lambda>k. (k_section k, k_name k)) ks) \<and> length ks \<le> KEYS_MAX"

definition key_fits :: "string \<Rightarrow> string \<Rightarrow> string option \<Rightarrow> skeys \<Rightarrow> bool" where
  "key_fits sec name val ks \<longleftrightarrow> length sec < 24 \<and> length name < 32 \<and>
     (case val of None \<Rightarrow> True
      | Some v \<Rightarrow> length v < 96 \<and> (length ks < KEYS_MAX \<or> find_key sec name ks \<noteq> None))"

lemma find_key_Some: "find_key sec name ks = Some i \<Longrightarrow> i < length ks \<and> key_is sec name (ks ! i)"
  by (auto simp: find_key_def find_Some_iff)

lemma find_key_None: "find_key sec name ks = None \<longleftrightarrow> (\<forall>k \<in> set ks. \<not> key_is sec name k)"
  by (fastforce simp: find_key_def find_None_iff in_set_conv_nth)

text \<open>Looking a key up is looking it up in the association list.\<close>

definition assoc :: "skeys \<Rightarrow> ((string \<times> string) \<times> string) list" where
  "assoc ks = map (\<lambda>k. ((k_section k, k_name k), k_value k)) ks"

lemma get_key_Cons:
  "get_key sec name (k # ks) = (if key_is sec name k then Some (k_value k) else get_key sec name ks)"
proof -
  have "[0..<length (k # ks)] = 0 # map Suc [0..<length ks]"
    by (simp add: map_Suc_upt upt_conv_Cons del: upt_Suc)
  moreover have "find (\<lambda>i. P ((k # ks) ! i)) (map Suc xs) = map_option Suc (find (\<lambda>i. P (ks ! i)) xs)" for P xs
    by (induction xs) auto
  ultimately show ?thesis
    by (simp add: get_key_def find_key_def option.map_comp comp_def del: upt_Suc)
qed

lemma get_key_assoc: "get_key sec name ks = map_of (assoc ks) (sec, name)"
proof (induction ks)
  case Nil
  then show ?case by (simp add: get_key_def find_key_def assoc_def)
next
  case (Cons k ks)
  then show ?case by (auto simp: get_key_Cons assoc_def key_is_def)
qed

lemma strlcpy_id: "length s < n \<Longrightarrow> strlcpy n s = s"
  by (simp add: strlcpy_def)

lemma fst_assoc: "map fst (assoc ks) = map (\<lambda>k. (k_section k, k_name k)) ks"
  by (simp add: assoc_def comp_def)

lemma map_of_remove_nth:
  assumes "distinct (map fst xs)" and "i < length xs"
  shows "map_of (take i xs @ drop (i + 1) xs) = (map_of xs)(fst (xs ! i) := None)"
proof -
  obtain a b where xs: "xs = take i xs @ (a, b) # drop (i + 1) xs" "xs ! i = (a, b)"
    using id_take_nth_drop [OF assms(2)] by (metis prod.exhaust Suc_eq_plus1)
  have "distinct (map fst (take i xs @ (a, b) # drop (i + 1) xs))"
    using assms(1) xs(1) by simp
  then have na: "a \<notin> fst ` set (take i xs)" "a \<notin> fst ` set (drop (i + 1) xs)" by auto
  have "map_of xs = (map_of (drop (i + 1) xs))(a \<mapsto> b) ++ map_of (take i xs)"
    by (subst xs(1)) (simp add: map_add_upd_left)
  moreover have "map_of (drop (i + 1) xs) a = None" "map_of (take i xs) a = None"
    using na by (simp_all add: map_of_eq_None_iff)
  ultimately show ?thesis
    by (auto simp: xs(2) map_add_def fun_eq_iff split: option.split)
qed

lemma assoc_set_some:
  assumes "key_fits sec name (Some v) ks"
  shows "map_of (assoc (set_key sec name (Some v) ks)) = (map_of (assoc ks))((sec, name) \<mapsto> v)"
proof (cases "find_key sec name ks")
  case None
  with assms have "set_key sec name (Some v) ks = ks @ [\<lparr>k_section = sec, k_name = name, k_value = v\<rparr>]"
    by (simp add: set_key_def key_fits_def strlcpy_id)
  moreover have "map_of (assoc ks) (sec, name) = None"
    using None by (simp add: get_key_def flip: get_key_assoc)
  ultimately show ?thesis
    by (auto simp: assoc_def map_add_def fun_eq_iff split: option.split)
next
  case (Some i)
  then have i: "i < length ks" "key_is sec name (ks ! i)" by (auto dest: find_key_Some)
  have first: "\<forall>j < i. \<not> key_is sec name (ks ! j)"
    using Some unfolding find_key_def find_Some_iff by auto
  have e: "set_key sec name (Some v) ks = ks[i := (ks ! i)\<lparr>k_value := v\<rparr>]"
    using Some assms by (simp add: set_key_def key_fits_def strlcpy_id)
  have ks: "ks = take i ks @ ks ! i # drop (Suc i) ks" using i(1) by (rule id_take_nth_drop)
  have "ks[i := (ks ! i)\<lparr>k_value := v\<rparr>] = take i ks @ (ks ! i)\<lparr>k_value := v\<rparr> # drop (Suc i) ks"
    using i(1) by (rule upd_conv_take_nth_drop)
  moreover have "map_of (assoc (take i ks)) (sec, name) = None"
    using first i(1) by (fastforce simp: map_of_eq_None_iff assoc_def in_set_conv_nth key_is_def)
  moreover have "map_of (assoc ks) = map_of (assoc (take i ks @ ks ! i # drop (Suc i) ks))"
    by (simp flip: ks)
  ultimately show ?thesis
    unfolding e using i(2) by (auto simp: assoc_def key_is_def map_add_def fun_eq_iff split: option.split)
qed

lemma keys_set_some:
  "key_fits sec name (Some v) ks \<Longrightarrow>
   map (\<lambda>k. (k_section k, k_name k)) (set_key sec name (Some v) ks) =
    map (\<lambda>k. (k_section k, k_name k)) ks @ (if find_key sec name ks = None then [(sec, name)] else [])"
  by (auto simp: set_key_def key_fits_def strlcpy_id map_update list_update_same_conv
      dest: find_key_Some split: option.split)

interpretation settings_kv: kv_store get_key set_key distinct_keys key_fits
proof
  fix sec name sec' name' and val :: "string option" and ks
  assume inv: "distinct_keys ks" and fits: "key_fits sec name val ks"
  show "get_key sec' name' (set_key sec name val ks) =
    (if sec' = sec \<and> name' = name then val else get_key sec' name' ks)"
  proof (cases val)
    case (Some v)
    with assoc_set_some [of sec name v ks] fits show ?thesis by (simp add: get_key_assoc)
  next
    case None
    show ?thesis
    proof (cases "find_key sec name ks")
      case None
      then show ?thesis using \<open>val = None\<close> by (simp add: set_key_def get_key_def)
    next
      case (Some i)
      then have i: "i < length ks" "key_is sec name (ks ! i)" by (auto dest: find_key_Some)
      have "map_of (assoc (take i ks @ drop (i + 1) ks)) = (map_of (assoc ks))((sec, name) := None)"
        using map_of_remove_nth [of "assoc ks" i] inv i
        by (simp add: fst_assoc distinct_keys_def) (simp add: assoc_def take_map drop_map key_is_def)
      then show ?thesis
        using Some \<open>val = None\<close> by (simp add: set_key_def get_key_assoc)
    qed
  qed
  show "distinct_keys (set_key sec name val ks)"
  proof (cases val)
    case (Some v)
    have "(sec, name) \<notin> set (map (\<lambda>k. (k_section k, k_name k)) ks)" if "find_key sec name ks = None"
      using that by (auto simp: find_key_None key_is_def)
    moreover have "length (set_key sec name val ks) \<le> KEYS_MAX"
      using Some fits inv by (auto simp: set_key_def key_fits_def distinct_keys_def split: option.split)
    ultimately show ?thesis
      using Some fits inv by (auto simp: distinct_keys_def keys_set_some)
  next
    case None
    have "distinct (map f (take i ks @ drop (i + 1) ks))" if "distinct (map f ks)"
      for i and f :: "skey \<Rightarrow> string \<times> string"
      using that set_take_disj_set_drop_if_distinct [of "map f ks" i "i + 1"]
      unfolding map_append take_map [symmetric] drop_map [symmetric] by simp
    with None show ?thesis
      using inv by (auto simp: distinct_keys_def set_key_def simp del: map_append distinct_append
          split: option.split)
  qed
qed

section \<open>Numbers\<close>

lemma uint_loop_append: "uint_loop (xs @ ys) n = Option.bind (uint_loop xs n) (uint_loop ys)"
  by (induction xs arbitrary: n) simp_all

definition digit_char :: "u8 \<Rightarrow> char" where
  "digit_char b = char_of (unat b)"

lemma digit_char_value: "d < 10 \<Longrightarrow> of_char (digit_char (48 + of_nat d)) = 48 + d"
proof -
  assume d: "d < 10"
  then have "unat (48 + of_nat d :: u8) = 48 + d"
    by (subst unat_word_ariths) (simp add: unat_of_nat)
  with d show ?thesis by (simp add: digit_char_def of_char_of)
qed

lemma uint_loop_digits:
  "v < 2 ^ 32 \<Longrightarrow> uint_loop (map digit_char (dec_string v)) 0 = (if v div 10 \<le> 100000 then Some (of_nat v) else None)"
proof (induction v rule: dec_string.induct)
  case (1 v)
  show ?case
  proof (cases "v < 10")
    case True
    then show ?thesis using digit_char_value [OF True] by (simp add: dec_string.simps [of v])
  next
    case False
    define q where "q = v div 10"
    have m: "v mod 10 < 10" by simp
    have q: "q < 2 ^ 32" "q div 10 \<le> q" using 1(2) by (simp_all add: q_def)
    have cmp: "100000 < (of_nat q :: u32) \<longleftrightarrow> 100000 < q"
      using q by (simp add: word_less_nat_alt unat_of_nat)
    have v: "of_nat q * 10 + of_nat (v mod 10) = (of_nat v :: u32)"
      unfolding q_def by (metis div_mult_mod_eq of_nat_add of_nat_mult of_nat_numeral)
    have ih: "uint_loop (map digit_char (dec_string q)) 0 = (if q div 10 \<le> 100000 then Some (of_nat q) else None)"
      unfolding q_def using 1(1) [OF False] 1(2) by simp
    have small: "\<not> 9 < v mod 10" "q \<le> 100000 \<Longrightarrow> q div 10 \<le> 100000" using m q(2) by linarith+
    show ?thesis
      using False cmp v digit_char_value [OF m] small
      by (auto simp: dec_string.simps [of v] uint_loop_append ih simp flip: q_def)
  qed
qed

lemma dec_string_length: "v < 10 ^ Suc k \<Longrightarrow> length (dec_string v) \<le> Suc k"
proof (induction k arbitrary: v)
  case 0
  then show ?case by (simp add: dec_string.simps)
next
  case (Suc k)
  then have "v div 10 < 10 ^ Suc k" by (simp add: div_less_iff_less_mult)
  from Suc.IH [OF this] show ?case by (simp add: dec_string.simps [of v])
qed

lemma uint_text_eq: "uint_text v = map digit_char (dec_string (unat v))"
proof -
  have "length (dec_string (unat v)) \<le> Suc 9"
    using unat_u32_bound [of v] by (intro dec_string_length) simp
  then show ?thesis by (simp add: uint_text_def strlcpy_id digit_char_def)
qed

lemma get_set_uint:
  assumes "distinct_keys ks" and "length ks < KEYS_MAX \<or> find_key sec name ks \<noteq> None"
    and "length sec < 24" and "length name < 32" and "mx \<le> 100000"
  shows "get_uint sec name mn mx def (set_uint sec name v ks) = (if mn \<le> v \<and> v \<le> mx then v else def)"
proof -
  have l: "length (dec_string (unat v)) \<le> Suc 9"
    using unat_u32_bound [of v] by (intro dec_string_length) simp
  then have "key_fits sec name (Some (uint_text v)) ks"
    using assms by (simp add: key_fits_def uint_text_eq)
  then have g: "get_key sec name (set_key sec name (Some (uint_text v)) ks) = Some (uint_text v)"
    using assms(1) by (rule settings_kv.get_put_same [rotated])
  have ne: "uint_text v \<noteq> []" by (simp add: uint_text_eq dec_string.simps)
  have mx: "unat mx \<le> 100000" using assms(5) by (simp add: word_le_nat_alt)
  show ?thesis
  proof (cases "unat v div 10 \<le> 100000")
    case True
    then have "uint_loop (uint_text v) 0 = Some v"
      using uint_loop_digits [of "unat v"] unat_u32_bound [of v] by (simp add: uint_text_eq)
    then show ?thesis by (simp add: get_uint_def set_uint_def g ne)
  next
    case False
    then have "uint_loop (uint_text v) 0 = None"
      using uint_loop_digits [of "unat v"] unat_u32_bound [of v] by (simp add: uint_text_eq)
    moreover have "\<not> v \<le> mx" using False mx by (simp add: word_le_nat_alt)
    ultimately show ?thesis by (simp add: get_uint_def set_uint_def g ne)
  qed
qed

section \<open>Saving and loading\<close>

definition key_line :: "skey \<Rightarrow> string" where
  "key_line k = k_name k @ ''='' @ k_value k @ [CHR 0x0A]"

definition section_line :: "string \<Rightarrow> string" where
  "section_line sec = (if sec \<noteq> [] then ''['' @ sec @ '']'' @ [CHR 0x0A] else [])"

text \<open>The order of the file: the keys of each section together, sections as they first appear.\<close>

fun group_loop :: "string set \<Rightarrow> skeys \<Rightarrow> (string \<times> skeys) list" where
  "group_loop seen [] = []"
| "group_loop seen (k # ks) =
     (if k_section k \<in> seen then group_loop seen ks
      else (k_section k, filter (\<lambda>j. k_section j = k_section k) (k # ks)) #
        group_loop (insert (k_section k) seen) ks)"

definition group_text :: "string \<times> skeys \<Rightarrow> string" where
  "group_text g = section_line (fst g) @ concat (map key_line (snd g))"

lemma group_text_pair: "group_text (sec, ks) = section_line sec @ concat (map key_line ks)"
  by (simp add: group_text_def)

definition grouped :: "skeys \<Rightarrow> skeys" where
  "grouped ks = concat (map snd (group_loop {} ks))"

lemma save_lines_length: "length acc \<le> length (save_lines sec ks acc)"
proof (induction sec ks acc rule: save_lines.induct)
  case (2 sec k ks acc)
  then show ?case by (auto intro: order_trans [rotated])
qed simp

lemma save_lines_text:
  "length (save_lines sec ks acc) < TEXT_MAX \<Longrightarrow>
   save_lines sec ks acc = acc @ concat (map key_line (filter (\<lambda>j. k_section j = sec) ks))"
proof (induction sec ks acc rule: save_lines.induct)
  case (2 sec k ks acc)
  then show ?case by (auto simp: key_line_def split: if_splits)
qed simp

lemma save_loop_text:
  "save_loop seen ks acc = Inr txt \<Longrightarrow>
   txt = acc @ concat (map group_text (group_loop (k_section ` set seen) ks))"
proof (induction seen ks acc rule: save_loop.induct)
  case (2 seen k ks acc)
  show ?case
  proof (cases "k_section k \<in> k_section ` set seen")
    case True
    then show ?thesis using 2 by (simp add: insert_absorb)
  next
    case False
    define acc1 where "acc1 = (if k_section k \<noteq> [] then acc @ ''['' @ k_section k @ '']'' @ [CHR 0x0A] else acc)"
    define acc2 where "acc2 = save_lines (k_section k) (k # ks) acc1"
    have small: "length acc2 < TEXT_MAX" and rest: "save_loop (seen @ [k]) ks acc2 = Inr txt"
      using "2.prems" False by (auto simp: acc1_def acc2_def Let_def not_le split: if_splits)
    have "txt = acc2 @ concat (map group_text (group_loop (k_section ` set (seen @ [k])) ks))"
      using "2.IH"(2) [OF False acc1_def acc2_def] small rest by simp
    moreover have "acc2 = acc1 @ concat (map key_line (filter (\<lambda>j. k_section j = k_section k) (k # ks)))"
      unfolding acc2_def by (rule save_lines_text) (use small in \<open>simp add: acc2_def\<close>)
    moreover have "acc1 = acc @ section_line (k_section k)" by (simp add: acc1_def section_line_def)
    ultimately show ?thesis using False by (simp add: group_text_pair)
  qed
qed simp

lemma save_loop_error: "save_loop seen ks acc = Inl e \<Longrightarrow> e = STORAGE_ESIZE"
  by (induction seen ks acc rule: save_loop.induct) (auto simp: Let_def split: if_splits)

lemma mset_group_loop:
  "mset (concat (map snd (group_loop seen ks))) = mset (filter (\<lambda>k. k_section k \<notin> seen) ks)"
proof (induction seen ks rule: group_loop.induct)
  case (2 seen k ks)
  show ?case
  proof (cases "k_section k \<in> seen")
    case False
    have "filter_mset (\<lambda>j. k_section j \<notin> seen) (mset ks) =
        filter_mset (\<lambda>j. k_section j = k_section k) (mset ks) +
        filter_mset (\<lambda>j. k_section j \<notin> insert (k_section k) seen) (mset ks)"
      using False by (intro multiset_eqI) auto
    with False 2 show ?thesis by simp
  qed (use 2 in simp)
qed simp

text \<open>Keys that a line of the file can carry.\<close>

definition key_ok :: "skey \<Rightarrow> bool" where
  "key_ok k \<longleftrightarrow> clean (k_section k) \<and> CHR '']'' \<notin> set (k_section k) \<and> length (k_section k) < 24 \<and>
     clean (k_name k) \<and> CHR ''='' \<notin> set (k_name k) \<and> length (k_name k) < 32 \<and>
     (k_name k = [] \<or> hd (k_name k) \<notin> {CHR '';'', CHR ''#'', CHR ''[''}) \<and>
     clean (k_value k) \<and> length (k_value k) < 96 \<and>
     CHR 0x00 \<notin> set (k_section k @ k_name k @ k_value k)"

definition keys_ok :: "skeys \<Rightarrow> bool" where
  "keys_ok ks \<longleftrightarrow> distinct_keys ks \<and> list_all key_ok ks \<and>
     (\<forall>k \<in> set ks. k_section k = [] \<longrightarrow> k_section (hd ks) = [])"

lemma set_key_new:
  assumes "key_ok k" and "(k_section k, k_name k) \<notin> set (map (\<lambda>k. (k_section k, k_name k)) ks)"
    and "length ks < KEYS_MAX"
  shows "set_key (k_section k) (k_name k) (Some (k_value k)) ks = ks @ [k]"
proof -
  have "find_key (k_section k) (k_name k) ks = None"
    using assms(2) by (auto simp: find_key_None key_is_def image_iff)
  with assms(1,3) show ?thesis by (simp add: set_key_def key_ok_def strlcpy_id)
qed

lemma parse_key_line:
  assumes "key_ok k" and "k_section k = snd sec"
    and "(k_section k, k_name k) \<notin> set (map (\<lambda>k. (k_section k, k_name k)) ks)" and "length ks < KEYS_MAX"
  shows "ini_loop on_key (key_line k @ rest) sec line ks = ini_loop on_key rest sec (line + 1) (ks @ [k])"
proof -
  have c: "ini_classify (k_name k @ CHR ''='' # k_value k) = Key_line (k_name k) (k_value k)"
    using assms(1) by (intro classify_key) (auto simp: key_ok_def)
  have "CHR 0x0A \<notin> set (k_name k @ CHR ''='' # k_value k)"
    using assms(1) by (auto simp: key_ok_def clean_def)
  from ini_loop_line [OF this, of on_key rest sec line ks] show ?thesis
    using set_key_new [OF assms(1,3,4)] assms(2) by (simp add: key_line_def c on_key_def)
qed

lemma parse_key_lines:
  assumes "list_all key_ok js" and "\<And>k. k \<in> set js \<Longrightarrow> k_section k = snd sec"
    and "distinct (map (\<lambda>k. (k_section k, k_name k)) (ks @ js))" and "length (ks @ js) \<le> KEYS_MAX"
  shows "ini_loop on_key (concat (map key_line js) @ rest) sec line ks =
    ini_loop on_key rest sec (line + length js) (ks @ js)"
  using assms
proof (induction js arbitrary: ks line)
  case (Cons k js)
  have "ini_loop on_key (key_line k @ concat (map key_line js) @ rest) sec line ks =
      ini_loop on_key (concat (map key_line js) @ rest) sec (line + 1) (ks @ [k])"
    using Cons.prems by (intro parse_key_line) auto
  with Cons.IH [of "ks @ [k]" "line + 1"] Cons.prems show ?case by simp
qed simp

lemma parse_section_line:
  assumes "clean sec" and "CHR '']'' \<notin> set sec" and "sec \<noteq> []"
  shows "ini_loop on_key (section_line sec @ rest) cur line ks = ini_loop on_key rest (line + 1, sec) (line + 1) ks"
proof -
  have "CHR 0x0A \<notin> set (CHR ''['' # sec @ '']'')" using assms(1) by (simp add: clean_def)
  from ini_loop_line [OF this, of on_key rest cur line ks] show ?thesis
    using assms by (simp add: section_line_def classify_section)
qed

text \<open>A group as \<open>group_loop\<close> makes them: keys of one section, which is the empty one only at the
  start of the file.\<close>

lemma parse_group:
  assumes "list_all key_ok js" and "js \<noteq> []" and "\<And>k. k \<in> set js \<Longrightarrow> k_section k = sec"
    and "sec = [] \<Longrightarrow> snd cur = []"
    and "distinct (map (\<lambda>k. (k_section k, k_name k)) (ks @ js))" and "length (ks @ js) \<le> KEYS_MAX"
  shows "\<exists>cur' line'. ini_loop on_key (group_text (sec, js) @ rest) cur line ks =
    ini_loop on_key rest cur' line' (ks @ js)"
proof (cases "sec = []")
  case True
  then have "ini_loop on_key (concat (map key_line js) @ rest) cur line ks =
      ini_loop on_key rest cur (line + length js) (ks @ js)"
    using assms by (intro parse_key_lines) auto
  moreover have "group_text (sec, js) = concat (map key_line js)"
    using True by (simp add: group_text_pair section_line_def)
  ultimately show ?thesis by metis
next
  case False
  have "clean sec" "CHR '']'' \<notin> set sec"
    using assms(1-3) by (cases js; auto simp: key_ok_def)+
  with False have "ini_loop on_key (group_text (sec, js) @ rest) cur line ks =
      ini_loop on_key (concat (map key_line js) @ rest) (line + 1, sec) (line + 1) ks"
    by (simp add: group_text_pair parse_section_line)
  also have "\<dots> = ini_loop on_key rest (line + 1, sec) (line + 1 + length js) (ks @ js)"
    using assms by (intro parse_key_lines) auto
  finally show ?thesis by blast
qed

lemma parse_groups:
  assumes "\<And>g. g \<in> set gs \<Longrightarrow> snd g \<noteq> [] \<and> list_all key_ok (snd g) \<and> (\<forall>k \<in> set (snd g). k_section k = fst g)"
    and "\<And>g. g \<in> set (tl gs) \<Longrightarrow> fst g \<noteq> []" and "gs \<noteq> [] \<Longrightarrow> fst (hd gs) = [] \<Longrightarrow> snd cur = []"
    and "distinct (map (\<lambda>k. (k_section k, k_name k)) (ks @ concat (map snd gs)))"
    and "length (ks @ concat (map snd gs)) \<le> KEYS_MAX"
  shows "ini_loop on_key (concat (map group_text gs)) cur line ks = (0, ks @ concat (map snd gs))"
  using assms
proof (induction gs arbitrary: cur line ks)
  case Nil
  then show ?case by (simp add: ini_loop.simps)
next
  case (Cons g gs)
  obtain sec js where g: "g = (sec, js)" by fastforce
  have js: "js \<noteq> []" "list_all key_ok js" "\<And>k. k \<in> set js \<Longrightarrow> k_section k = sec"
    using Cons.prems(1) [of g] by (simp_all add: g)
  have "\<exists>cur' line'. ini_loop on_key (group_text (sec, js) @ concat (map group_text gs)) cur line ks =
      ini_loop on_key (concat (map group_text gs)) cur' line' (ks @ js)"
    using Cons.prems(3-5) by (intro parse_group [OF js(2,1,3)]) (auto simp: g)
  then obtain cur' line' where e: "ini_loop on_key (group_text (sec, js) @ concat (map group_text gs)) cur line ks =
      ini_loop on_key (concat (map group_text gs)) cur' line' (ks @ js)" by blast
  have "ini_loop on_key (concat (map group_text gs)) cur' line' (ks @ js) = (0, (ks @ js) @ concat (map snd gs))"
  proof (rule Cons.IH)
    show "gs \<noteq> [] \<Longrightarrow> fst (hd gs) = [] \<Longrightarrow> snd cur' = []"
      using Cons.prems(2) [of "hd gs"] by auto
    show "\<And>h. h \<in> set (tl gs) \<Longrightarrow> fst h \<noteq> []"
      using Cons.prems(2) by (cases gs) auto
  qed (use Cons.prems in \<open>auto simp: g\<close>)
  with e show ?case by (simp add: g)
qed

lemma group_loop_facts:
  assumes "list_all key_ok ks" and "g \<in> set (group_loop seen ks)"
  shows "snd g \<noteq> [] \<and> list_all key_ok (snd g) \<and> (\<forall>k \<in> set (snd g). k_section k = fst g) \<and>
    fst g \<notin> seen \<and> fst g \<in> k_section ` set ks"
  using assms
proof (induction seen ks rule: group_loop.induct)
  case (2 seen k ks)
  show ?case
  proof (cases "k_section k \<in> seen")
    case True
    with 2 show ?thesis by auto
  next
    case False
    have "list_all key_ok ks" using "2.prems" by simp
    show ?thesis
    proof (cases "g \<in> set (group_loop (insert (k_section k) seen) ks)")
      case True
      with 2(2) [OF False \<open>list_all key_ok ks\<close> True] show ?thesis by auto
    next
      case new: False
      with False "2.prems"(2) have "g = (k_section k, filter (\<lambda>j. k_section j = k_section k) (k # ks))" by simp
      with False "2.prems"(1) show ?thesis by (auto simp: list_all_iff)
    qed
  qed
qed simp

lemma group_loop_head: "ks \<noteq> [] \<Longrightarrow> fst (hd (group_loop {} ks)) = k_section (hd ks)"
  by (cases ks) auto

lemma group_loop_tail:
  assumes "list_all key_ok ks" and "g \<in> set (tl (group_loop {} ks))"
  shows "fst g \<noteq> k_section (hd ks)"
proof (cases ks)
  case (Cons k js)
  then have "g \<in> set (group_loop {k_section k} js)" using assms(2) by simp
  from group_loop_facts [OF _ this] assms(1) Cons show ?thesis by simp
qed (use assms in simp)

lemma grouped_parse:
  assumes "keys_ok ks"
  shows "ini_parse on_key (concat (map group_text (group_loop {} ks))) [] = (0, grouped ks)"
proof -
  have m: "mset (grouped ks) = mset ks"
    using mset_group_loop [of "{}" ks] by (simp add: grouped_def)
  have ok: "list_all key_ok ks" and d: "distinct_keys ks" using assms by (simp_all add: keys_ok_def)
  have "mset (map (\<lambda>k. (k_section k, k_name k)) (grouped ks)) = mset (map (\<lambda>k. (k_section k, k_name k)) ks)"
    using m by simp
  then have dist: "distinct (map (\<lambda>k. (k_section k, k_name k)) (grouped ks))"
    using d mset_eq_imp_distinct_iff unfolding distinct_keys_def by blast
  have len: "length (grouped ks) \<le> KEYS_MAX"
    using d mset_eq_length [OF m] by (simp add: distinct_keys_def)
  have "ini_loop on_key (concat (map group_text (group_loop {} ks))) (0, []) 0 [] =
      (0, [] @ concat (map snd (group_loop {} ks)))"
  proof (rule parse_groups)
    fix g assume g: "g \<in> set (tl (group_loop {} ks))"
    then have "g \<in> set (group_loop {} ks)" by (metis list.set_sel(2) tl_Nil)
    then obtain k where "k \<in> set ks" "k_section k = fst g" using group_loop_facts [OF ok] by fastforce
    then show "fst g \<noteq> []"
      using group_loop_tail [OF ok g] assms by (auto simp: keys_ok_def)
  qed (use group_loop_facts [OF ok] dist len in \<open>auto simp: grouped_def\<close>)
  then show ?thesis by (simp add: ini_parse_def grouped_def)
qed

lemma get_grouped:
  assumes "distinct_keys ks"
  shows "get_key sec name (grouped ks) = get_key sec name ks"
proof -
  have m: "mset (grouped ks) = mset ks"
    using mset_group_loop [of "{}" ks] by (simp add: grouped_def)
  have "mset (map fst (assoc (grouped ks))) = mset (map fst (assoc ks))"
    using m by (simp add: fst_assoc)
  then have "distinct (map fst (assoc (grouped ks)))"
    using assms mset_eq_imp_distinct_iff unfolding distinct_keys_def fst_assoc by blast
  moreover have "set (assoc (grouped ks)) = set (assoc ks)"
    using mset_eq_setD [OF m] by (simp add: assoc_def)
  ultimately have "map_of (assoc (grouped ks)) = map_of (assoc ks)"
    using assms by (subst map_of_inject_set) (simp_all add: fst_assoc distinct_keys_def)
  then show ?thesis by (simp add: get_key_assoc)
qed

lemma group_text_no_nul:
  assumes "list_all key_ok ks"
  shows "CHR 0x00 \<notin> set (concat (map group_text (group_loop {} ks)))"
proof -
  have "CHR 0x00 \<notin> set (group_text g)" if "g \<in> set (group_loop {} ks)" for g
    using group_loop_facts [OF assms that]
    by (cases g) (fastforce simp: group_text_pair section_line_def key_line_def key_ok_def list_all_iff)
  then show ?thesis by simp
qed

section \<open>Properties\<close>


text \<open>A number that was set is read back when it is in range and the default otherwise; the
  timeout is never 0.\<close>

theorem settings_numbers:
  assumes "distinct_keys ks" and "length ks < KEYS_MAX"
  shows "settings_timeout (settings_set_timeout v ks) = (if 1 \<le> v \<and> v \<le> 100000 then v else 15) \<and>
    settings_backlight (settings_set_backlight v ks) = (if 10 \<le> v \<and> v \<le> 100 then v else 100) \<and>
    settings_timeout ks \<noteq> 0"
proof (intro conjI)
  have gone: "get_key sec name (set_key sec name None ks) = None" if "length sec < 24" "length name < 32" for sec name
    using that assms(1) by (intro settings_kv.get_put_same) (simp_all add: key_fits_def)
  show "settings_timeout (settings_set_timeout v ks) = (if 1 \<le> v \<and> v \<le> 100000 then v else 15)"
    using get_set_uint [OF assms(1), of "''boot''" "''timeout''" 100000 1 15 v] assms(2) gone [of "''boot''" "''timeout''"]
    by (simp add: settings_timeout_def settings_set_timeout_def TIMEOUT_DEFAULT_S_def)
      (auto simp: get_uint_def)
  show "settings_backlight (settings_set_backlight v ks) = (if 10 \<le> v \<and> v \<le> 100 then v else 100)"
    using get_set_uint [OF assms(1), of "''display''" "''backlight''" 100 10 100 v] assms(2)
      gone [of "''display''" "''backlight''"]
    by (auto simp: settings_backlight_def settings_set_backlight_def BACKLIGHT_MIN_def BACKLIGHT_DEFAULT_def get_uint_def)
  show "settings_timeout ks \<noteq> 0"
    by (auto simp: settings_timeout_def get_uint_def TIMEOUT_DEFAULT_S_def split: option.split)
qed

theorem settings_numbers_witness:
  "settings_timeout (settings_set_timeout 42 []) = 42 \<and> settings_backlight (settings_set_backlight 5 []) = 100"
  using settings_numbers [of "[]" 42] settings_numbers [of "[]" 5]
  by (simp add: distinct_keys_def KEYS_MAX_def)


end
