(* ===== verification/Entries.thy ===== *)
theory Entries
  imports Ini Settings
begin

text \<open>
  The boot menu of aipc-boot (entries.c): at most eight entries read from an INI file. The file is
  reached through \<open>storage_load\<close>, a parameter as in the settings.
\<close>

section \<open>Definitions\<close>

definition ENTRIES_MAX :: nat where "ENTRIES_MAX = 8"
definition ENTRIES_PATH :: string where "ENTRIES_PATH = ''/aipc-boot/entries.ini''"

record entry =
  title :: string
  kernel :: string
  cmdline :: string
  description :: string
  err :: string

definition no_entry :: entry where
  "no_entry = \<lparr>title = [], kernel = [], cmdline = [], description = [], err = []\<rparr>"

text \<open>\<open>entries[0..entry_count-1]\<close> and the \<open>struct parse\<close> of the callback. A section is known by its
  number; \<open>None\<close> is the null pointer.\<close>

record entries_st =
  entries :: "entry list"
  p_section :: "nat option"
  p_has_type :: bool

definition upd_last :: "('a \<Rightarrow> 'a) \<Rightarrow> 'a list \<Rightarrow> 'a list" where
  "upd_last f xs = (if xs = [] then [] else butlast xs @ [f (last xs)])"

definition finish_entry :: "bool \<Rightarrow> entry \<Rightarrow> entry" where
  "finish_entry has_type e =
     (if err e = [] \<and> \<not> has_type then e\<lparr>err := strlcpy 48 ''The entry has no type key.''\<rparr>
      else if err e = [] \<and> kernel e = [] then e\<lparr>err := strlcpy 48 ''The entry has no kernel key.''\<rparr>
      else e)"

definition finish :: "entries_st \<Rightarrow> entries_st" where
  "finish s =
     (if p_section s = None then s
      else s\<lparr>entries := upd_last (finish_entry (p_has_type s)) (entries s)\<rparr>)"

definition entry_key :: "string \<Rightarrow> string \<Rightarrow> entries_st \<Rightarrow> entries_st" where
  "entry_key key val s =
     (if key = ''type'' then
        s\<lparr>p_has_type := True,
          entries := (if val \<noteq> ''linux''
            then upd_last (\<lambda>e. e\<lparr>err := strlcpy 48 ''The type is not linux.''\<rparr>) (entries s) else entries s)\<rparr>
      else if key = ''kernel'' then
        s\<lparr>entries := upd_last (\<lambda>e. e\<lparr>kernel := strlcpy 96 val\<rparr>) (entries s)\<rparr>
      else if key = ''cmdline'' then
        s\<lparr>entries := upd_last (\<lambda>e. e\<lparr>cmdline := strlcpy 256 val\<rparr>) (entries s)\<rparr>
      else if key = ''description'' then
        s\<lparr>entries := upd_last (\<lambda>e. e\<lparr>description := strlcpy 96 val\<rparr>) (entries s)\<rparr>
      else s)"

definition entries_on_key :: "entries_st ini_handler" where
  "entries_on_key s sec key val line =
     (if Some (fst sec) \<noteq> p_section s then
        let s1 = finish s
        in if length (entries s1) = ENTRIES_MAX then (- 1, s1)
           else (0, entry_key key val
             (s1\<lparr>entries := entries s1 @ [no_entry\<lparr>title := strlcpy 48 (snd sec)\<rparr>],
                 p_section := Some (fst sec), p_has_type := False\<rparr>))
      else (0, entry_key key val s))"

definition line_message :: "int \<Rightarrow> string" where
  "line_message rc =
     ''Line '' @ map (\<lambda>b. char_of (unat b)) (dec_string (nat rc)) @ '' of entries.ini is not valid.''"

definition entries_load :: "(string \<Rightarrow> nat \<Rightarrow> 'd \<Rightarrow> int \<times> string) \<Rightarrow> 'd \<Rightarrow> string option \<times> entry list" where
  "entries_load load d =
     (let (rc0, tx) = load ENTRIES_PATH 4095 d
      in if rc0 = STORAGE_ENOTFOUND then (None, [])
         else if rc0 = STORAGE_ESIZE then (Some ''entries.ini is empty or larger than 4 KB.'', [])
         else if rc0 \<noteq> 0 then (Some ''The SD card could not read entries.ini.'', [])
         else
           let (rc, s) = ini_parse entries_on_key (takeWhile (\<lambda>c. c \<noteq> CHR 0x00) tx)
                 \<lparr>entries = [], p_section = None, p_has_type = False\<rparr>
           in if rc = - 1 then (Some ''entries.ini has more than 8 entries.'', entries (finish s))
              else if rc > 0 \<and> entries s \<noteq> [] then
                (None, upd_last (\<lambda>e. e\<lparr>err := strlcpy 48 (line_message rc)\<rparr>) (entries s))
              else if rc > 0 then (Some (strlcpy 64 (line_message rc)), entries (finish s))
              else (None, entries (finish s)))"

section \<open>Invariant of the parse\<close>

definition bootable :: "entry \<Rightarrow> bool" where
  "bootable e \<longleftrightarrow> err e = [] \<longrightarrow> kernel e \<noteq> []"

definition entry_fits :: "entry \<Rightarrow> bool" where
  "entry_fits e \<longleftrightarrow> length (title e) < 48 \<and> length (kernel e) < 96 \<and> length (cmdline e) < 256 \<and>
     length (description e) < 96 \<and> length (err e) < 48"

definition entries_inv :: "entries_st \<Rightarrow> bool" where
  "entries_inv s \<longleftrightarrow> length (entries s) \<le> ENTRIES_MAX \<and> list_all entry_fits (entries s) \<and>
     list_all bootable (butlast (entries s)) \<and> (p_section s = None \<longleftrightarrow> entries s = [])"

lemma strlcpy_length: "0 < n \<Longrightarrow> length (strlcpy n s) < n"
  by (simp add: strlcpy_def)

lemma upd_last_facts:
  "length (upd_last f xs) = length xs" "butlast (upd_last f xs) = butlast xs"
  "upd_last f xs = [] \<longleftrightarrow> xs = []"
  by (simp_all add: upd_last_def)

lemma list_all_upd_last:
  "list_all P xs \<Longrightarrow> (\<And>x. P x \<Longrightarrow> P (f x)) \<Longrightarrow> list_all P (upd_last f xs)"
  by (cases xs rule: rev_cases) (simp_all add: upd_last_def)

lemma finish_entry_facts:
  "entry_fits e \<Longrightarrow> entry_fits (finish_entry b e)" "bootable (finish_entry b e)"
  by (simp_all add: finish_entry_def entry_fits_def bootable_def strlcpy_def)

lemma finish_facts:
  assumes "entries_inv s"
  shows "entries_inv (finish s)" and "list_all bootable (entries (finish s))"
proof -
  show "entries_inv (finish s)"
    using assms by (auto simp: entries_inv_def finish_def upd_last_facts finish_entry_facts intro!: list_all_upd_last)
  show "list_all bootable (entries (finish s))"
    using assms by (cases "entries s" rule: rev_cases)
      (auto simp: entries_inv_def finish_def upd_last_def finish_entry_facts)
qed

lemma upd_last_inv:
  "entries_inv s \<Longrightarrow> (\<And>e. entry_fits e \<Longrightarrow> entry_fits (f e)) \<Longrightarrow>
   entries_inv (s\<lparr>entries := upd_last f (entries s)\<rparr>)"
  by (simp add: entries_inv_def upd_last_facts list_all_upd_last)

lemma entry_key_inv: "entries_inv s \<Longrightarrow> entries_inv (entry_key key val s)"
proof -
  assume inv: "entries_inv s"
  then have t: "entries_inv (s\<lparr>p_has_type := True\<rparr>)" by (simp add: entries_inv_def)
  from upd_last_inv [OF this, of "\<lambda>e. e\<lparr>err := strlcpy 48 ''The type is not linux.''\<rparr>"]
  have "entries_inv (s\<lparr>p_has_type := True,
      entries := upd_last (\<lambda>e. e\<lparr>err := strlcpy 48 ''The type is not linux.''\<rparr>) (entries s)\<rparr>)"
    by (simp add: entry_fits_def strlcpy_def)
  moreover have "s\<lparr>p_has_type := True, entries := entries s\<rparr> = s\<lparr>p_has_type := True\<rparr>" by simp
  ultimately show ?thesis
    using t inv unfolding entry_key_def by (auto intro!: upd_last_inv simp: entry_fits_def strlcpy_length)
qed

lemma on_key_inv: "entries_inv s \<Longrightarrow> entries_inv (snd (entries_on_key s sec key val line))"
proof -
  assume inv: "entries_inv s"
  have "entries_inv ((finish s)\<lparr>entries := entries (finish s) @ [no_entry\<lparr>title := strlcpy 48 (snd sec)\<rparr>],
      p_section := Some (fst sec), p_has_type := False\<rparr>)" if "length (entries (finish s)) \<noteq> ENTRIES_MAX"
    using that finish_facts [OF inv]
    by (auto simp: entries_inv_def entry_fits_def no_entry_def strlcpy_def)
  with inv show ?thesis
    by (auto simp: entries_on_key_def Let_def finish_facts entry_key_inv)
qed

section \<open>Properties\<close>

text \<open>C16: Whatever the file holds, there are at most eight entries, every text fits its field, and an
  entry without an error message names a kernel.\<close>

theorem entries_load_invariant:
  "length (snd (entries_load load d)) \<le> 8 \<and> list_all entry_fits (snd (entries_load load d)) \<and>
   (\<forall>e \<in> set (snd (entries_load load d)). err e = [] \<longrightarrow> kernel e \<noteq> [])"
proof -
  obtain rc0 tx where l: "load ENTRIES_PATH 4095 d = (rc0, tx)" by fastforce
  obtain rc s where p: "ini_parse entries_on_key (takeWhile (\<lambda>c. c \<noteq> CHR 0x00) tx)
      \<lparr>entries = [], p_section = None, p_has_type = False\<rparr> = (rc, s)" by fastforce
  have "entries_inv (snd (ini_parse entries_on_key (takeWhile (\<lambda>c. c \<noteq> CHR 0x00) tx)
      \<lparr>entries = [], p_section = None, p_has_type = False\<rparr>))"
    unfolding ini_parse_def by (rule ini_loop_invariant [where I = entries_inv, OF on_key_inv]) (simp_all add: entries_inv_def)
  then have inv: "entries_inv s" by (simp add: p)
  have msg: "line_message rc \<noteq> []" by (simp add: line_message_def)
  have blamed: "list_all bootable (upd_last (\<lambda>e. e\<lparr>err := strlcpy 48 (line_message rc)\<rparr>) (entries s))"
    "list_all entry_fits (upd_last (\<lambda>e. e\<lparr>err := strlcpy 48 (line_message rc)\<rparr>) (entries s))"
    using inv msg by (cases "entries s" rule: rev_cases;
        auto simp: entries_inv_def upd_last_def bootable_def entry_fits_def strlcpy_def)+
  show ?thesis
    using finish_facts [OF inv] blamed inv
    by (auto simp: entries_load_def l p Let_def entries_inv_def ENTRIES_MAX_def upd_last_facts
        list_all_iff bootable_def)
qed

theorem entries_load_invariant_witness:
  "\<exists>e. snd (entries_load (\<lambda>_ _ d. (0, d))
      (concat [''[a]'', [CHR 0x0A], ''type=linux'', [CHR 0x0A], ''kernel=k'', [CHR 0x0A]])) = [e] \<and>
    err e = [] \<and> kernel e \<noteq> []"
proof -
  let ?l = "snd (entries_load (\<lambda>_ _ d. (0, d))
      (concat [''[a]'', [CHR 0x0A], ''type=linux'', [CHR 0x0A], ''kernel=k'', [CHR 0x0A]]))"
  have "map err ?l = [[]]" by code_simp
  then obtain e where "?l = [e]" "err e = []" by (cases ?l) auto
  then show ?thesis
    using entries_load_invariant [of "\<lambda>_ _ d. (0, d)"
        "concat [''[a]'', [CHR 0x0A], ''type=linux'', [CHR 0x0A], ''kernel=k'', [CHR 0x0A]]"] by simp
qed

text \<open>A bad line after the header of an entry without keys is blamed on the entry before it: a
  valid entry becomes unbootable, although the code takes the bad line to belong to the last entry.\<close>

theorem entries_bad_line_blames_previous:
  "entries_load (\<lambda>_ _ d. (0, d))
     (concat [''[a]'', [CHR 0x0A], ''type=linux'', [CHR 0x0A], ''kernel=k'', [CHR 0x0A],
       ''[b]'', [CHR 0x0A], ''not valid'', [CHR 0x0A]]) =
   (None, [\<lparr>title = ''a'', kernel = ''k'', cmdline = [], description = [],
            err = ''Line 5 of entries.ini is not valid.''\<rparr>])"
  by code_simp

end
