(* ===== verification/Ch374.thy ===== *)
theory Ch374
  imports Timer
begin

text \<open>
  The keyboard driver of lib/ch374.c: a USB host bridge on SPI, its HID reports, and the event queue
  that the images read. The SPI controller and the bridge are the register bus. A wait for the
  millisecond timer may not return, so the functions that wait give an option; all others are
  state-monad programs.
\<close>

section \<open>Registers and state\<close>

definition SPI_BASE :: u32 where "SPI_BASE = 0x20024000"
definition SPI_CTRL :: u32 where "SPI_CTRL = SPI_BASE + 0x00"
definition SPI_STATUS :: u32 where "SPI_STATUS = SPI_BASE + 0x04"
definition SPI_COUNT :: u32 where "SPI_COUNT = SPI_BASE + 0x0C"
definition SPI_MODE_TX :: u32 where "SPI_MODE_TX = SPI_BASE + 0x10"
definition SPI_MODE_RX :: u32 where "SPI_MODE_RX = SPI_BASE + 0x14"
definition SPI_TXDATA :: u32 where "SPI_TXDATA = SPI_BASE + 0x18"
definition SPI_RXDATA :: u32 where "SPI_RXDATA = SPI_BASE + 0x1C"
definition SPI_CFG2 :: u32 where "SPI_CFG2 = SPI_BASE + 0x20"

definition SPI_CLK_GATE_MASK :: u32 where "SPI_CLK_GATE_MASK = 0x00000004"
definition SHAREPIN1_SPI_CLK :: u32 where "SHAREPIN1_SPI_CLK = 0x40000000"
definition SHAREPIN1_SPI_DATA :: u32 where "SHAREPIN1_SPI_DATA = 0x00000006"
definition SHAREPIN1_WLED_PWM :: u32 where "SHAREPIN1_WLED_PWM = 0x00000010"
definition CS_GPIO_BIT :: u32 where "CS_GPIO_BIT = 0x00100000"
definition CS_SHAREPIN_MASK :: u32 where "CS_SHAREPIN_MASK = 0x00000100"

definition CH374_OK :: nat where "CH374_OK = 20"
definition CH374_ERR_NAK :: nat where "CH374_ERR_NAK = 42"
definition CH374_ERR_TIMEOUT :: nat where "CH374_ERR_TIMEOUT = 250"
definition CH374_PID_IN :: u8 where "CH374_PID_IN = 9"
definition CH374_PID_SETUP :: u8 where "CH374_PID_SETUP = 13"
definition USB_ADDR :: u8 where "USB_ADDR = 2"
definition HID_IN_EP :: u8 where "HID_IN_EP = 1"
definition MAX_REPORTS_PER_POLL :: nat where "MAX_REPORTS_PER_POLL = 4"
definition QUEUE_SIZE :: nat where "QUEUE_SIZE = 32"
definition RETRY_DELAY_MS :: u32 where "RETRY_DELAY_MS = 1000"
definition CH374_USAGE_MODIFIER_BASE :: u8 where "CH374_USAGE_MODIFIER_BASE = 0xE0"

record 'h ch374_st = "'h timer_st" +
  s_queue :: "u16 list"
  s_read_idx :: nat
  s_write_idx :: nat
  s_prev_keys :: bytes
  s_prev_modifiers :: u8
  s_in_toggle :: u8
  s_next_enumerate_ms :: u32
  s_initialized :: bool
  s_ready :: bool

type_synonym ('h, 'z) kst = "('h, 'z) ch374_st_scheme"
type_synonym ('h, 'z, 'a) kprog = "(('h, 'z) ch374_st_scheme, 'a) state"

section \<open>The event queue\<close>

definition queue_push :: "bool \<Rightarrow> u8 \<Rightarrow> ('h, 'z) kst \<Rightarrow> ('h, 'z) kst" where
  "queue_push pressed usage s =
     (if usage = 0 then s
      else
        let s1 = s\<lparr>s_queue := (s_queue s)[s_write_idx s := push_bit 8 (if pressed then 1 else 0) OR ucast usage],
                   s_write_idx := (s_write_idx s + 1) mod QUEUE_SIZE\<rparr>
        in if s_write_idx s1 = s_read_idx s1 then s1\<lparr>s_read_idx := (s_read_idx s1 + 1) mod QUEUE_SIZE\<rparr> else s1)"

definition ch374_kbd_pop :: "('h, 'z) kst \<Rightarrow> (u8 \<times> bool) option \<times> ('h, 'z) kst" where
  "ch374_kbd_pop s =
     (if s_read_idx s = s_write_idx s then (None, s)
      else
        let packed = s_queue s ! s_read_idx s
        in (Some (ucast (packed AND 0xFF), drop_bit 8 packed AND 1 \<noteq> 0),
            s\<lparr>s_read_idx := (s_read_idx s + 1) mod QUEUE_SIZE\<rparr>))"

section \<open>Reports\<close>

definition report_contains :: "bytes \<Rightarrow> u8 \<Rightarrow> bool" where
  "report_contains keys usage \<longleftrightarrow> usage \<in> set keys"

definition modifier_step :: "u8 \<Rightarrow> nat \<Rightarrow> ('h, 'z) kst \<Rightarrow> ('h, 'z) kst" where
  "modifier_step modifiers k s =
     (let m = push_bit k 1; usage = CH374_USAGE_MODIFIER_BASE + of_nat k
      in if s_prev_modifiers s AND m = 0 \<and> modifiers AND m \<noteq> 0 then queue_push True usage s
         else if s_prev_modifiers s AND m \<noteq> 0 \<and> modifiers AND m = 0 then queue_push False usage s
         else s)"

definition release_step :: "bytes \<Rightarrow> u8 \<Rightarrow> ('h, 'z) kst \<Rightarrow> ('h, 'z) kst" where
  "release_step keys usage s =
     (if usage \<noteq> 0 \<and> \<not> report_contains keys usage then queue_push False usage s else s)"

definition press_step :: "u8 \<Rightarrow> ('h, 'z) kst \<Rightarrow> ('h, 'z) kst" where
  "press_step usage s =
     (if usage \<noteq> 0 \<and> \<not> report_contains (s_prev_keys s) usage then queue_push True usage s else s)"

definition process_report :: "bytes \<Rightarrow> ('h, 'z) kst \<Rightarrow> ('h, 'z) kst" where
  "process_report report s =
     (let modifiers = report ! 0; keys = take 6 (drop 2 report);
          s1 = fold (modifier_step modifiers) [0..<8] s;
          s2 = fold (release_step keys) (s_prev_keys s) s1;
          s3 = fold press_step keys s2
      in s3\<lparr>s_prev_keys := keys, s_prev_modifiers := modifiers\<rparr>)"

section \<open>SPI and bridge registers\<close>

text \<open>The poll loop: \<open>n\<close> reads at most.\<close>

fun wait_mask_loop :: "'h bus \<Rightarrow> nat \<Rightarrow> u32 \<Rightarrow> u32 \<Rightarrow> u32 \<Rightarrow> ('h, 'z, bool) dev" where
  "wait_mask_loop b 0 addr msk val = State_Monad.return False"
| "wait_mask_loop b (Suc n) addr msk val = do {
     v \<leftarrow> reg_rd b addr;
     if v AND msk = val then State_Monad.return True else wait_mask_loop b n addr msk val
   }"

definition wait_mask :: "'h bus \<Rightarrow> u32 \<Rightarrow> u32 \<Rightarrow> u32 \<Rightarrow> ('h, 'z, bool) dev" where
  "wait_mask b = wait_mask_loop b 1000000"

definition cs_set :: "'h bus \<Rightarrow> bool \<Rightarrow> ('h, 'z, unit) dev" where
  "cs_set b high = do {
     reg_rmw b (SYSCTRL 0x74) CS_SHAREPIN_MASK 0;
     reg_rmw b (SYSCTRL 0x8C) CS_GPIO_BIT 0;
     if high then reg_rmw b (SYSCTRL 0x90) 0 CS_GPIO_BIT else reg_rmw b (SYSCTRL 0x90) CS_GPIO_BIT 0
   }"

definition cs_assert :: "'h bus \<Rightarrow> ('h, 'z, unit) dev" where
  "cs_assert b = do { cs_set b False; reg_rmw b SPI_CTRL 0 0x20 }"

definition cs_deassert :: "'h bus \<Rightarrow> ('h, 'z, unit) dev" where
  "cs_deassert b = do { reg_rmw b SPI_CTRL 0x20 0; cs_set b True }"

definition spi_enable :: "'h bus \<Rightarrow> ('h, 'z, unit) dev" where
  "spi_enable b = do {
     share0 \<leftarrow> reg_rd b (SYSCTRL 0x78);
     cs_set b True;
     reg_rmw b (SYSCTRL 0x0C) SPI_CLK_GATE_MASK 0;
     let share1 = (share0 OR SHAREPIN1_SPI_CLK OR SHAREPIN1_WLED_PWM) AND NOT SHAREPIN1_SPI_DATA;
     reg_wr b (SYSCTRL 0x78) share1;
     reg_wr b SPI_CTRL (push_bit 8 0xFF OR 0x52);
     reg_wr b SPI_CFG2 0x00FFFFFF
   }"

definition spi_tx_words :: "'h bus \<Rightarrow> u32 \<Rightarrow> u32 \<Rightarrow> u32 \<Rightarrow> ('h, 'z, bool) dev" where
  "spi_tx_words b count w0 w1 = do {
     reg_rmw b SPI_CTRL 0x01 0;
     reg_rmw b SPI_CTRL 0 0x02;
     reg_wr b SPI_MODE_TX 0;
     reg_wr b SPI_COUNT count;
     ok \<leftarrow> wait_mask b SPI_STATUS 0x04 0x04;
     if \<not> ok then State_Monad.return False
     else do {
       reg_wr b SPI_TXDATA w0;
       ok2 \<leftarrow> (if 4 < count then do {
           ok1 \<leftarrow> wait_mask b SPI_STATUS 0x04 0x04;
           if ok1 then do { reg_wr b SPI_TXDATA w1; State_Monad.return True } else State_Monad.return False }
         else State_Monad.return True);
       if \<not> ok2 then State_Monad.return False
       else do {
         ok3 \<leftarrow> wait_mask b SPI_COUNT 0xFFFF 0;
         if \<not> ok3 then State_Monad.return False else wait_mask b SPI_STATUS 0x100 0x100
       }
     }
   }"

definition rx_bytes :: "u32 \<Rightarrow> nat \<Rightarrow> bytes" where
  "rx_bytes w n = map (\<lambda>i. ucast (drop_bit (i * 8) w)) [0..<n]"

definition store_rx_bytes :: "bytes \<Rightarrow> nat \<Rightarrow> u32 \<Rightarrow> nat \<Rightarrow> bytes" where
  "store_rx_bytes dst off w n = put_bytes dst off (rx_bytes w n)"

fun spi_rx_loop :: "'h bus \<Rightarrow> nat \<Rightarrow> nat \<Rightarrow> bytes \<Rightarrow> ('h, 'z, bool \<times> nat \<times> bytes) dev" where
  "spi_rx_loop b 0 off dst = State_Monad.return (True, off, dst)"
| "spi_rx_loop b (Suc n) off dst = do {
     ok \<leftarrow> wait_mask b SPI_STATUS 0x40 0x40;
     if \<not> ok then State_Monad.return (False, off, dst)
     else do { w \<leftarrow> reg_rd b SPI_RXDATA; spi_rx_loop b n (off + 4) (store_rx_bytes dst off w 4) }
   }"

text \<open>The success flag and the buffer.\<close>

definition spi_rx_bytes :: "'h bus \<Rightarrow> nat \<Rightarrow> bytes \<Rightarrow> ('h, 'z, bool \<times> bytes) dev" where
  "spi_rx_bytes b count dst = do {
     reg_rmw b SPI_CTRL 0 0x01;
     reg_rmw b SPI_CTRL 0x02 0;
     reg_wr b SPI_MODE_RX 0;
     reg_wr b SPI_COUNT (of_nat count);
     (ok, off, d1) \<leftarrow> spi_rx_loop b (count div 4) 0 dst;
     if \<not> ok then State_Monad.return (False, d1)
     else do {
       ok2 \<leftarrow> wait_mask b SPI_COUNT 0xFFFF 0;
       if \<not> ok2 then State_Monad.return (False, d1)
       else if count mod 4 \<noteq> 0 then do {
         w \<leftarrow> reg_rd b SPI_RXDATA;
         State_Monad.return (True, store_rx_bytes d1 off w (count mod 4))
       } else State_Monad.return (True, d1)
     }
   }"

definition ch374_reg_write :: "'h bus \<Rightarrow> u8 \<Rightarrow> u8 \<Rightarrow> ('h, 'z, unit) dev" where
  "ch374_reg_write b r v = do {
     cs_assert b;
     _ \<leftarrow> spi_tx_words b 3 (ucast r OR push_bit 8 0x80 OR push_bit 16 (ucast v)) 0;
     cs_deassert b
   }"

definition ch374_reg_read :: "'h bus \<Rightarrow> u8 \<Rightarrow> ('h, 'z, u8) dev" where
  "ch374_reg_read b r = do {
     cs_assert b;
     ok \<leftarrow> spi_tx_words b 2 (ucast r OR push_bit 8 0xC0) 0;
     v \<leftarrow> (if ok then do { (_, d) \<leftarrow> spi_rx_bytes b 1 [0]; State_Monad.return (d ! 0) }
          else State_Monad.return 0);
     cs_deassert b;
     State_Monad.return v
   }"

definition ch374_set_data8 :: "'h bus \<Rightarrow> u32 \<Rightarrow> u32 \<Rightarrow> ('h, 'z, unit) dev" where
  "ch374_set_data8 b w0 w1 = do {
     cs_assert b;
     _ \<leftarrow> spi_tx_words b 2 (64 OR push_bit 8 0x80) 0;
     _ \<leftarrow> spi_tx_words b 8 w0 w1;
     cs_deassert b
   }"

definition ch374_read_buffer :: "'h bus \<Rightarrow> u8 \<Rightarrow> bytes \<Rightarrow> ('h, 'z, bool \<times> bytes) dev" where
  "ch374_read_buffer b len buf = do {
     cs_assert b;
     ok \<leftarrow> spi_tx_words b 2 (0xC0 OR push_bit 8 0xC0) 0;
     r \<leftarrow> (if ok then spi_rx_bytes b (unat len) buf else State_Monad.return (False, buf));
     cs_deassert b;
     State_Monad.return r
   }"

fun wait_irq_loop :: "'h bus \<Rightarrow> nat \<Rightarrow> ('h, 'z, u8) dev" where
  "wait_irq_loop b 0 = State_Monad.return 0"
| "wait_irq_loop b (Suc n) = do {
     r9 \<leftarrow> ch374_reg_read b 9;
     if r9 AND 0x0F \<noteq> 0 then State_Monad.return r9 else wait_irq_loop b n
   }"

definition ch374_wait_irq :: "'h bus \<Rightarrow> ('h, 'z, u8) dev" where
  "ch374_wait_irq b = wait_irq_loop b 500"

definition token_code :: "u8 \<Rightarrow> u8 \<Rightarrow> nat" where
  "token_code pid r10 =
     (let code = r10 AND 0x0F
      in if pid = CH374_PID_SETUP then if code = 2 then CH374_OK else unat code
         else if r10 AND 7 = 3 \<and> r10 AND 0x10 \<noteq> 0 then CH374_OK
         else if code = 14 \<or> code = 10 \<or> r10 AND 3 \<noteq> 0 then unat (code OR 0x20)
         else CH374_ERR_NAK)"

definition ch374_issue_token :: "'h bus \<Rightarrow> u8 \<Rightarrow> u8 \<Rightarrow> bool \<Rightarrow> ('h, 'z, nat) dev" where
  "ch374_issue_token b endpoint pid toggle = do {
     ch374_reg_write b 13 ((endpoint AND 0x0F) OR push_bit 4 pid);
     ch374_reg_write b 14 (if toggle then 0xC8 else 0x08);
     r9 \<leftarrow> ch374_wait_irq b;
     if r9 = 0 then State_Monad.return CH374_ERR_TIMEOUT
     else if r9 AND 1 = 0 then do { ch374_reg_write b 9 31; State_Monad.return CH374_ERR_TIMEOUT }
     else do {
       ch374_reg_write b 9 17;
       r10 \<leftarrow> ch374_reg_read b 10;
       State_Monad.return (token_code pid r10)
     }
   }"

section \<open>Enumeration and polling\<close>

text \<open>From here on a step may wait for the timer: \<open>None\<close> is a wait that never ends.\<close>

fun token_retry_loop :: "'h bus \<Rightarrow> nat \<Rightarrow> u8 \<Rightarrow> u8 \<Rightarrow> bool \<Rightarrow> ('h, 'z) kst \<Rightarrow> (nat \<times> ('h, 'z) kst) option" where
  "token_retry_loop b 0 endpoint pid toggle s = Some (CH374_ERR_NAK, s)"
| "token_retry_loop b (Suc n) endpoint pid toggle s =
     (let (ret, s1) = run_state (ch374_issue_token b endpoint pid toggle) s
      in if ret \<noteq> CH374_ERR_NAK then Some (ret, s1)
         else do { s2 \<leftarrow> timer_delay_ms b 1 s1; token_retry_loop b n endpoint pid toggle s2 })"

definition ch374_issue_token_retry ::
  "'h bus \<Rightarrow> u8 \<Rightarrow> u8 \<Rightarrow> bool \<Rightarrow> nat \<Rightarrow> ('h, 'z) kst \<Rightarrow> (nat \<times> ('h, 'z) kst) option" where
  "ch374_issue_token_retry b endpoint pid toggle budget s = token_retry_loop b budget endpoint pid toggle s"

definition ch374_control_status_in :: "'h bus \<Rightarrow> u32 \<Rightarrow> u32 \<Rightarrow> ('h, 'z) kst \<Rightarrow> (nat \<times> ('h, 'z) kst) option" where
  "ch374_control_status_in b setup_w0 setup_w1 s =
     (let (ret, s1) = run_state (do {
            ch374_set_data8 b setup_w0 setup_w1;
            ch374_reg_write b 11 8;
            ch374_issue_token b 0 CH374_PID_SETUP False }) s
      in if ret \<noteq> CH374_OK then Some (ret, s1)
         else
           let (_, s2) = run_state (ch374_reg_write b 11 0) s1
           in ch374_issue_token_retry b 0 CH374_PID_IN True 20 s2)"

definition ch374_stage2 :: "'h bus \<Rightarrow> ('h, 'z, unit) dev" where
  "ch374_stage2 b = do {
     ch374_reg_write b 6 192;
     reg2 \<leftarrow> ch374_reg_read b 2;
     ch374_reg_write b 2 (reg2 AND 0x7F)
   }"

definition ch374_stage1 :: "'h bus \<Rightarrow> ('h, 'z, unit) dev" where
  "ch374_stage1 b = do {
     ch374_reg_write b 6 0;
     ch374_reg_write b 8 0;
     ch374_reg_write b 14 0;
     ch374_reg_write b 9 31;
     ch374_reg_write b 7 3;
     ch374_reg_write b 5 64;
     ch374_stage2 b
   }"

text \<open>\<open>ch374_reg_write(r, (ch374_reg_read(r) & msk) | bits)\<close>\<close>

definition reg_update :: "'h bus \<Rightarrow> u8 \<Rightarrow> u8 \<Rightarrow> u8 \<Rightarrow> ('h, 'z, unit) dev" where
  "reg_update b r msk bits = do { v \<leftarrow> ch374_reg_read b r; ch374_reg_write b r ((v AND msk) OR bits) }"

definition ch374_port0_reset_enable :: "'h bus \<Rightarrow> ('h, 'z) kst \<Rightarrow> ('h, 'z) kst option" where
  "ch374_port0_reset_enable b s = do {
     s2 \<leftarrow> timer_delay_ms b 20 (snd (run_state (do {
       ch374_reg_write b 14 0;
       ch374_reg_write b 8 0;
       reg_update b 2 0xF9 0x02 }) s));
     s3 \<leftarrow> timer_delay_ms b 1 (snd (run_state (reg_update b 2 0xFD 0) s2));
     timer_delay_ms b 20 (snd (run_state (do {
       ch374_reg_write b 9 22;
       reg_update b 2 0xFF 0x01;
       reg_update b 2 0xFF 0x04;
       reg_update b 6 0xFF 0x60 }) s3))
   }"

definition ch374_enumerate :: "'h bus \<Rightarrow> ('h, 'z) kst \<Rightarrow> (bool \<times> ('h, 'z) kst) option" where
  "ch374_enumerate b s0 =
     (let s = s0\<lparr>s_ready := False, s_in_toggle := 0, s_prev_keys := replicate 6 0\<rparr>;
          (_, s1) = run_state (do { ch374_stage1 b; ch374_stage2 b }) s
      in do {
        s2 \<leftarrow> ch374_port0_reset_enable b s1;
        let (reg2, s3) = run_state (ch374_reg_read b 2) s2;
        if reg2 AND 0x08 = 0 then
          Some (False, log_puts (cs ''ch374: no device on port0'' @ [10]) s3)
        else do {
          (ret, s4) \<leftarrow> ch374_control_status_in b 0x00020500 0 s3;
          if ret \<noteq> CH374_OK then
            Some (False, log_puts (cs ''ch374: SET_ADDRESS failed'' @ [10]) s4)
          else do {
            s5 \<leftarrow> timer_delay_ms b 2 s4;
            (ret2, s6) \<leftarrow> ch374_control_status_in b 0x00010900 0 (snd (run_state (ch374_reg_write b 8 USB_ADDR) s5));
            if ret2 \<noteq> CH374_OK then
              Some (False, log_puts (cs ''ch374: SET_CONFIGURATION failed'' @ [10]) s6)
            else Some (True, log_puts (cs ''ch374: ready'' @ [10]) (s6\<lparr>s_ready := True\<rparr>))
          }
        }
      })"

text \<open>The return code, the length and the report.\<close>

definition read_report :: "'h bus \<Rightarrow> ('h, 'z, nat \<times> u8 \<times> bytes) kprog" where
  "read_report b = do {
     tog \<leftarrow> gets s_in_toggle;
     ret \<leftarrow> ch374_issue_token b HID_IN_EP CH374_PID_IN (tog \<noteq> 0);
     if ret \<noteq> CH374_OK then State_Monad.return (ret, 0, replicate 8 0)
     else do {
       len0 \<leftarrow> ch374_reg_read b 11;
       let len = (if 8 < len0 then 8 else len0);
       (ok, report) \<leftarrow> ch374_read_buffer b len (replicate 8 0);
       if \<not> ok then State_Monad.return (CH374_ERR_TIMEOUT, len, report)
       else do {
         modify (\<lambda>s. s\<lparr>s_in_toggle := (if s_in_toggle s = 0 then 1 else 0)\<rparr>);
         State_Monad.return (CH374_OK, len, report)
       }
     }
   }"

definition schedule_retry :: "'h bus \<Rightarrow> ('h, 'z) kst \<Rightarrow> ('h, 'z) kst" where
  "schedule_retry b s = (let (now, s1) = run_state (timer_ms b) s in s1\<lparr>s_next_enumerate_ms := now + RETRY_DELAY_MS\<rparr>)"

definition enumerate_or_retry :: "'h bus \<Rightarrow> ('h, 'z) kst \<Rightarrow> ('h, 'z) kst option" where
  "enumerate_or_retry b s = do {
     (ok, s1) \<leftarrow> ch374_enumerate b s;
     Some (if ok then s1 else schedule_retry b s1)
   }"

definition ch374_kbd_init :: "'h bus \<Rightarrow> ('h, 'z) kst \<Rightarrow> ('h, 'z) kst option" where
  "ch374_kbd_init b s0 =
     (let s = s0\<lparr>s_queue := replicate QUEUE_SIZE 0, s_prev_keys := replicate 6 0, s_read_idx := 0,
                 s_write_idx := 0, s_prev_modifiers := 0, s_in_toggle := 0\<rparr>;
          (_, s1) = run_state (do { spi_enable b; cs_deassert b }) s
      in enumerate_or_retry b (s1\<lparr>s_initialized := True\<rparr>))"

definition ch374_kbd_ready :: "('h, 'z) kst \<Rightarrow> bool" where
  "ch374_kbd_ready s = s_ready s"

fun report_loop :: "'h bus \<Rightarrow> nat \<Rightarrow> ('h, 'z) kst \<Rightarrow> ('h, 'z) kst" where
  "report_loop b 0 s = s"
| "report_loop b (Suc n) s =
     (let ((ret, len, report), s1) = run_state (read_report b) s
      in if ret = CH374_OK \<and> 8 \<le> len then report_loop b n (process_report report s1)
         else if ret \<noteq> CH374_ERR_NAK then
           schedule_retry b ((log_puts (cs ''ch374: lost device'' @ [10]) s1)\<lparr>s_ready := False\<rparr>)
         else s1)"

definition ch374_kbd_poll :: "'h bus \<Rightarrow> ('h, 'z) kst \<Rightarrow> ('h, 'z) kst option" where
  "ch374_kbd_poll b s =
     (if \<not> s_initialized s then Some s
      else if \<not> s_ready s then
        let (now, s1) = run_state (timer_ms b) s
        in if s_next_enumerate_ms s1 \<le> now then enumerate_or_retry b s1 else Some s1
      else
        let (_, s1) = run_state (ch374_reg_write b 8 USB_ADDR) s
        in Some (report_loop b MAX_REPORTS_PER_POLL s1))"

end
