(* ===== verification/Kbd.thy ===== *)
theory Kbd
  imports Ch374
begin

text \<open>
  The event queue as an interface, the HID events as differences of key sets, and the key map of
  aipc-boot (kbd.c), which is a client of the queue.
\<close>

section \<open>A queue that drops its oldest element\<close>

locale drop_queue =
  fixes push :: "'e \<Rightarrow> 's \<Rightarrow> 's"
    and pop :: "'s \<Rightarrow> 'e option \<times> 's"
    and elems :: "'s \<Rightarrow> 'e list"
    and good :: "'s \<Rightarrow> bool"
    and ok :: "'e \<Rightarrow> bool"
    and cap :: nat
  assumes elems_push: "good s \<Longrightarrow> ok e \<Longrightarrow>
      elems (push e s) = (if length (elems s) = cap then tl (elems s) else elems s) @ [e]"
    and good_push: "good s \<Longrightarrow> ok e \<Longrightarrow> good (push e s)"
    and elems_cap: "good s \<Longrightarrow> length (elems s) \<le> cap"
    and cap_pos: "0 < cap"
    and pop_empty: "good s \<Longrightarrow> elems s = [] \<Longrightarrow> pop s = (None, s)"
    and pop_some: "good s \<Longrightarrow> elems s = e # es \<Longrightarrow> fst (pop s) = Some e \<and> elems (snd (pop s)) = es"
    and good_pop: "good s \<Longrightarrow> good (snd (pop s))"
begin

text \<open>After any number of pushes the queue holds the newest \<open>cap\<close> elements, in order.\<close>

lemma good_pushes: "good s \<Longrightarrow> list_all ok es \<Longrightarrow> good (fold push es s)"
  by (induction es arbitrary: s) (simp_all add: good_push)

lemma elems_pushes:
  assumes "good s" and "list_all ok es"
  shows "elems (fold push es s) = drop (length (elems s) + length es - cap) (elems s @ es)"
  using assms
proof (induction es arbitrary: s)
  case Nil
  then show ?case by (simp add: elems_cap)
next
  case (Cons e es)
  define xs where "xs = elems s"
  have len: "length xs \<le> cap" using elems_cap Cons.prems by (simp add: xs_def)
  have p: "elems (push e s) = (if length xs = cap then tl xs else xs) @ [e]"
    using elems_push [of s e] Cons.prems by (simp add: xs_def)
  have "elems (fold push es (push e s)) =
      drop (length (elems (push e s)) + length es - cap) (elems (push e s) @ es)"
    using Cons by (simp add: good_push)
  also have "\<dots> = drop (length xs + Suc (length es) - cap) (xs @ e # es)"
  proof (cases "length xs = cap")
    case True
    with cap_pos obtain x ys where "xs = x # ys" by (cases xs) auto
    with True p show ?thesis by auto
  next
    case False
    then show ?thesis using p by simp
  qed
  finally show ?case by (simp add: xs_def)
qed

end

section \<open>The ring buffer implements it\<close>

type_synonym key_event = "u8 \<times> bool"

definition push_event :: "key_event \<Rightarrow> ('h, 'z) kst \<Rightarrow> ('h, 'z) kst" where
  "push_event e s = queue_push (snd e) (fst e) s"

definition unpack :: "u16 \<Rightarrow> key_event" where
  "unpack packed = (ucast (packed AND 0xFF), drop_bit 8 packed AND 1 \<noteq> 0)"

definition queue_count :: "('h, 'z) kst \<Rightarrow> nat" where
  "queue_count s = (s_write_idx s + 32 - s_read_idx s) mod 32"

definition queue_elems :: "('h, 'z) kst \<Rightarrow> key_event list" where
  "queue_elems s = map (\<lambda>i. unpack (s_queue s ! ((s_read_idx s + i) mod 32))) [0..<queue_count s]"

definition queue_good :: "('h, 'z) kst \<Rightarrow> bool" where
  "queue_good s \<longleftrightarrow> length (s_queue s) = 32 \<and> s_read_idx s < 32 \<and> s_write_idx s < 32"

definition event_ok :: "key_event \<Rightarrow> bool" where
  "event_ok e \<longleftrightarrow> fst e \<noteq> 0"

lemma unpack_pack: "unpack (push_bit 8 (if p then 1 else 0) OR ucast u) = (u, p)"
proof -
  have m: "(0xFF :: u16) = mask 8" by (simp add: mask_eq_exp_minus_1)
  have "ucast ((push_bit 8 (if p then 1 else 0) OR ucast u) AND (0xFF :: u16)) = u"
    unfolding m by (rule bit_word_eqI) (auto simp: bit_simps)
  moreover have "drop_bit 8 (push_bit 8 (if p then 1 else 0) OR ucast u :: u16) AND 1 = (if p then 1 else 0)"
    by (rule bit_word_eqI) (auto simp: bit_simps bit_1_iff)
  ultimately show ?thesis by (simp add: unpack_def)
qed

lemma ring_mod: "(n :: nat) < 64 \<Longrightarrow> n mod 32 = (if n < 32 then n else n - 32)"
  by (auto simp: le_mod_geq)

lemma ring_index:
  assumes "(r :: nat) < 32" and "w < 32" and "n = (w + 32 - r) mod 32"
  shows "(r + n) mod 32 = w" and "i < n \<Longrightarrow> (r + i) mod 32 \<noteq> w" and "n < 32"
    and "n < 31 \<Longrightarrow> (w + 1) mod 32 \<noteq> r \<and> ((w + 1) mod 32 + 32 - r) mod 32 = n + 1"
    and "n = 31 \<Longrightarrow> (w + 1) mod 32 = r \<and> ((w + 1) mod 32 + 32 - (r + 1) mod 32) mod 32 = 31"
    and "0 < n \<Longrightarrow> r \<noteq> w \<and> (w + 32 - (r + 1) mod 32) mod 32 = n - 1" and "n = 0 \<Longrightarrow> r = w"
proof -
  have n: "r \<le> w \<and> w = r + n \<or> w < r \<and> w + 32 = r + n"
    using assms ring_mod [of "w + 32 - r"] by (auto split: if_splits)
  show n32: "n < 32" using assms by simp
  show "n = 0 \<Longrightarrow> r = w" using n assms(1,2) by auto
  show "(r + n) mod 32 = w" using n assms(1,2) n32 ring_mod [of "r + n"] by auto
  show "(r + i) mod 32 \<noteq> w" if "i < n"
    using n assms(1,2) n32 ring_mod [of "r + i"] that by auto
  show "(w + 1) mod 32 \<noteq> r \<and> ((w + 1) mod 32 + 32 - r) mod 32 = n + 1" if "n < 31"
    using n assms(1,2) that ring_mod [of "33 + n"] ring_mod [of "n + 1"] ring_mod [of "w + 1"]
    by (cases "w = 31") auto
  show "(w + 1) mod 32 = r \<and> ((w + 1) mod 32 + 32 - (r + 1) mod 32) mod 32 = 31" if "n = 31"
    using n assms(1,2) that by (cases "w = 31"; cases "r = 31") auto
  show "r \<noteq> w \<and> (w + 32 - (r + 1) mod 32) mod 32 = n - 1" if "0 < n"
    using n assms(1,2) that ring_mod [of "31 + n"] by (cases "r = 31") auto
qed


lemma queue_elems_length: "length (queue_elems s) = queue_count s"
  by (simp add: queue_elems_def)

lemma push_event_elems:
  assumes "queue_good s" and "event_ok e"
  shows "queue_elems (push_event e s) =
    (if length (queue_elems s) = 31 then tl (queue_elems s) else queue_elems s) @ [e]"
    and "queue_good (push_event e s)"
proof -
  define r w n q where "r = s_read_idx s" and "w = s_write_idx s" and "n = queue_count s" and "q = s_queue s"
  have g: "length q = 32" "r < 32" "w < 32" using assms(1) by (simp_all add: queue_good_def r_def w_def q_def)
  have n: "n = (w + 32 - r) mod 32" by (simp add: n_def queue_count_def r_def w_def)
  note ix = ring_index [OF g(2,3) n]
  have u: "fst e \<noteq> 0" using assms(2) by (simp add: event_ok_def)
  define q' where "q' = q[w := push_bit 8 (if snd e then 1 else 0) OR ucast (fst e)]"
  have qw: "unpack (q' ! w) = e" using g unpack_pack [of "snd e" "fst e"] by (simp add: q'_def)
  have qi: "unpack (q' ! ((r + i) mod 32)) = unpack (q ! ((r + i) mod 32))" if "i < n" for i
    using ix(2) [OF that] by (simp add: q'_def nth_list_update_neq)
  have old: "queue_elems s = map (\<lambda>i. unpack (q' ! ((r + i) mod 32))) [0..<n]"
    unfolding queue_elems_def n_def [symmetric] r_def [symmetric] q_def [symmetric] by (simp add: qi)
  show "queue_good (push_event e s)"
    using g by (auto simp: queue_good_def push_event_def queue_push_def Let_def QUEUE_SIZE_def r_def w_def q_def)
  show "queue_elems (push_event e s) =
    (if length (queue_elems s) = 31 then tl (queue_elems s) else queue_elems s) @ [e]"
  proof (cases "n = 31")
    case False
    then have lt: "n < 31" using ix(3) by simp
    have p: "push_event e s = s\<lparr>s_queue := q', s_write_idx := (w + 1) mod 32\<rparr>"
      using u ix(4) [OF lt] by (simp add: push_event_def queue_push_def Let_def QUEUE_SIZE_def r_def w_def q_def q'_def)
    have c: "queue_count (push_event e s) = n + 1"
      using ix(4) [OF lt] unfolding p by (simp add: queue_count_def r_def)
    show ?thesis
      unfolding queue_elems_length unfolding n_def [symmetric] old
      unfolding queue_elems_def c using False qw ix(1) by (simp add: p r_def [symmetric])
  next
    case True
    have p: "push_event e s = s\<lparr>s_queue := q', s_write_idx := (w + 1) mod 32, s_read_idx := (r + 1) mod 32\<rparr>"
      using u ix(5) [OF True] by (simp add: push_event_def queue_push_def Let_def QUEUE_SIZE_def r_def w_def q_def q'_def)
    have c: "queue_count (push_event e s) = 31"
      using ix(5) [OF True] unfolding p by (auto simp: queue_count_def)
    have sh: "((r + 1) mod 32 + i) mod 32 = (r + Suc i) mod 32" for i by (simp add: mod_simps)
    have "map (\<lambda>i. unpack (q' ! (((r + 1) mod 32 + i) mod 32))) [0..<31] =
        tl (map (\<lambda>i. unpack (q' ! ((r + i) mod 32))) [0..<31]) @ [e]"
      unfolding sh
    proof (rule nth_equalityI)
      fix i assume "i < length (map (\<lambda>i. unpack (q' ! ((r + Suc i) mod 32))) [0..<31])"
      then have "i < 30 \<or> i = 30" by auto
      then show "map (\<lambda>i. unpack (q' ! ((r + Suc i) mod 32))) [0..<31] ! i =
          (tl (map (\<lambda>i. unpack (q' ! ((r + i) mod 32))) [0..<31]) @ [e]) ! i"
        using qw ix(1) True by (auto simp: nth_append nth_tl add.commute)
    qed simp
    then show ?thesis
      unfolding queue_elems_length unfolding n_def [symmetric] old True
      unfolding queue_elems_def c unfolding p by simp
  qed
qed


lemma pop_elems:
  assumes "queue_good s"
  shows "queue_elems s = [] \<Longrightarrow> ch374_kbd_pop s = (None, s)"
    and "queue_elems s = e # es \<Longrightarrow>
      fst (ch374_kbd_pop s) = Some e \<and> queue_elems (snd (ch374_kbd_pop s)) = es"
    and "queue_good (snd (ch374_kbd_pop s))"
proof -
  define r w n where "r = s_read_idx s" and "w = s_write_idx s" and "n = queue_count s"
  have g: "r < 32" "w < 32" using assms(1) by (simp_all add: queue_good_def r_def w_def)
  have n: "n = (w + 32 - r) mod 32" by (simp add: n_def queue_count_def r_def w_def)
  note ix = ring_index [OF g n]
  show "ch374_kbd_pop s = (None, s)" if "queue_elems s = []"
    using that ix(7) queue_elems_length [of s] by (simp add: ch374_kbd_pop_def n_def r_def w_def)
  show "queue_good (snd (ch374_kbd_pop s))"
    using assms by (simp add: ch374_kbd_pop_def queue_good_def Let_def QUEUE_SIZE_def)
  assume es: "queue_elems s = e # es"
  then have pos: "0 < n" using queue_elems_length [of s] by (simp add: n_def)
  have p: "ch374_kbd_pop s = (Some (unpack (s_queue s ! r)), s\<lparr>s_read_idx := (r + 1) mod 32\<rparr>)"
    using ix(6) [OF pos] by (simp add: ch374_kbd_pop_def Let_def QUEUE_SIZE_def r_def w_def unpack_def)
  have c: "queue_count (snd (ch374_kbd_pop s)) = n - 1"
    using ix(6) [OF pos] unfolding p by (simp add: queue_count_def w_def)
  have sh: "((r + 1) mod 32 + i) mod 32 = (r + Suc i) mod 32" for i by (simp add: mod_simps)
  have "[0..<n] = 0 # map Suc [0..<n - 1]" using pos by (simp add: map_Suc_upt upt_conv_Cons)
  then have "e # es = unpack (s_queue s ! r) # map (\<lambda>i. unpack (s_queue s ! ((r + Suc i) mod 32))) [0..<n - 1]"
    using es g unfolding queue_elems_def n_def [symmetric] r_def [symmetric] by (simp add: comp_def)
  moreover have "queue_elems (snd (ch374_kbd_pop s)) =
      map (\<lambda>i. unpack (s_queue s ! ((r + Suc i) mod 32))) [0..<n - 1]"
    unfolding queue_elems_def c unfolding p by (rule map_cong) (simp_all add: mod_simps)
  ultimately show "fst (ch374_kbd_pop s) = Some e \<and> queue_elems (snd (ch374_kbd_pop s)) = es"
    by (simp add: p)
qed

interpretation ch374_queue: drop_queue push_event ch374_kbd_pop queue_elems queue_good event_ok 31
  by unfold_locales (simp_all add: push_event_elems pop_elems queue_elems_length queue_count_def
      mod_less_divisor less_Suc_eq_le [symmetric])

section \<open>Reports as differences of key sets\<close>

text \<open>The events of a report, newest last: the keys that changed between two reports.\<close>

definition modifier_events :: "u8 \<Rightarrow> u8 \<Rightarrow> key_event list" where
  "modifier_events old new = concat (map (\<lambda>k. if bit old k = bit new k then []
     else [(0xE0 + of_nat k, bit new k)]) [0..<8])"

definition release_events :: "bytes \<Rightarrow> bytes \<Rightarrow> key_event list" where
  "release_events old new = map (\<lambda>u. (u, False)) (filter (\<lambda>u. u \<noteq> 0 \<and> u \<notin> set new) old)"

definition press_events :: "bytes \<Rightarrow> bytes \<Rightarrow> key_event list" where
  "press_events old new = map (\<lambda>u. (u, True)) (filter (\<lambda>u. u \<noteq> 0 \<and> u \<notin> set old) new)"

lemma push_event_prev [simp]:
  "s_prev_keys (push_event e s) = s_prev_keys s" "s_prev_modifiers (push_event e s) = s_prev_modifiers s"
  by (simp_all add: push_event_def queue_push_def Let_def)

lemma fold_push_prev [simp]:
  "s_prev_keys (fold push_event es s) = s_prev_keys s"
  "s_prev_modifiers (fold push_event es s) = s_prev_modifiers s"
  by (induction es arbitrary: s) simp_all

lemma modifier_fold:
  "fold (modifier_step new) ks s =
   fold push_event (concat (map (\<lambda>k. if bit (s_prev_modifiers s) k = bit new k then []
     else [(0xE0 + of_nat k, bit new k)]) ks)) s"
proof (induction ks arbitrary: s)
  case (Cons k ks)
  have "modifier_step new k s = fold push_event (if bit (s_prev_modifiers s) k = bit new k then []
     else [(0xE0 + of_nat k, bit new k)]) s"
    by (auto simp: modifier_step_def Let_def and_exp_eq_0_iff_not_bit push_event_def CH374_USAGE_MODIFIER_BASE_def)
  then show ?case by (simp add: Cons.IH)
qed simp

lemma release_fold: "fold (release_step keys) us s = fold push_event (release_events us keys) s"
  by (induction us arbitrary: s)
    (auto simp: release_step_def release_events_def report_contains_def push_event_def)

lemma press_fold: "fold press_step us s = fold push_event (press_events (s_prev_keys s) us) s"
proof (induction us arbitrary: s)
  case (Cons u us)
  have "press_step u s = fold push_event (press_events (s_prev_keys s) [u]) s"
    by (simp add: press_step_def press_events_def report_contains_def push_event_def)
  then show ?case by (simp add: Cons.IH press_events_def)
qed (simp add: press_events_def)

definition report_events :: "u8 \<Rightarrow> bytes \<Rightarrow> u8 \<Rightarrow> bytes \<Rightarrow> key_event list" where
  "report_events m keys m' keys' = modifier_events m m' @ release_events keys keys' @ press_events keys keys'"

lemma process_report_pushes:
  "process_report report s =
   (fold push_event (report_events (s_prev_modifiers s) (s_prev_keys s) (report ! 0) (take 6 (drop 2 report))) s)
     \<lparr>s_prev_keys := take 6 (drop 2 report), s_prev_modifiers := report ! 0\<rparr>"
  unfolding process_report_def modifier_fold release_fold press_fold
  by (simp add: report_events_def modifier_events_def Let_def)


lemma modifier_usage_nonzero: "k < 8 \<Longrightarrow> (0xE0 :: u8) + of_nat k \<noteq> 0"
proof
  assume k: "k < 8" and z: "(0xE0 :: u8) + of_nat k = 0"
  have "unat ((0xE0 :: u8) + of_nat k) = 224 + k" using k by (simp add: unat_word_ariths unat_of_nat)
  with z show False by simp
qed

lemma report_events_ok: "list_all event_ok (report_events m keys m' keys')"
  by (auto simp: report_events_def modifier_events_def release_events_def press_events_def list_all_iff
      event_ok_def modifier_usage_nonzero split: if_splits)

text \<open>The keys that are down, and a reader that follows the events.\<close>

definition modifier_usage :: "nat \<Rightarrow> u8" where
  "modifier_usage k = 0xE0 + of_nat k"

definition pressed_set :: "u8 \<Rightarrow> bytes \<Rightarrow> u8 set" where
  "pressed_set m keys = (set keys - {0}) \<union> modifier_usage ` {k. k < 8 \<and> bit m k}"

definition follow :: "key_event list \<Rightarrow> u8 set \<Rightarrow> u8 set" where
  "follow es K = fold (\<lambda>(u, p) K. if p then insert u K else K - {u}) es K"

lemma follow_append: "follow (es @ fs) K = follow fs (follow es K)"
  by (simp add: follow_def)

lemma follow_release: "follow (map (\<lambda>u. (u, False)) us) K = K - set us"
  by (induction us arbitrary: K) (auto simp: follow_def)

lemma follow_press: "follow (map (\<lambda>u. (u, True)) us) K = K \<union> set us"
  by (induction us arbitrary: K) (auto simp: follow_def)

lemma modifier_usage_inj: "inj_on modifier_usage {..<8}"
  by (rule inj_onI) (auto simp: modifier_usage_def word_of_nat_eq_iff take_bit_nat_eq_self)

lemma modifier_usage_high: "k < 8 \<Longrightarrow> u < 0xE0 \<Longrightarrow> u \<noteq> modifier_usage k"
  by (auto simp: modifier_usage_def word_less_nat_alt unat_word_ariths unat_of_nat)

lemma follow_modifiers:
  assumes "\<forall>u \<in> A. u < 0xE0" and "n \<le> 8"
  shows "follow (concat (map (\<lambda>k. if bit m k = bit m' k then [] else [(0xE0 + of_nat k, bit m' k)]) [0..<n]))
      (A \<union> modifier_usage ` {k. k < 8 \<and> bit m k}) =
    A \<union> modifier_usage ` {k. k < 8 \<and> bit (if k < n then m' else m) k}"
  using assms(2)
proof (induction n)
  case (Suc n)
  define X where "X i = {k. k < 8 \<and> bit (if k < i then m' else m) k}" for i
  have n: "n < 8" using Suc by simp
  have ev: "0xE0 + of_nat n = modifier_usage n" by (simp add: modifier_usage_def)
  have "follow (if bit m n = bit m' n then [] else [(modifier_usage n, bit m' n)]) (A \<union> modifier_usage ` X n) =
      A \<union> modifier_usage ` X (Suc n)"
  proof (cases "bit m' n")
    case True
    then have "X (Suc n) = insert n (X n)" using n by (auto simp: X_def less_Suc_eq)
    moreover have "n \<in> X n" if "bit m n" using that n by (simp add: X_def)
    ultimately show ?thesis using True by (auto simp: follow_def insert_absorb)
  next
    case False
    then have x: "X (Suc n) = X n - {n}" using n by (auto simp: X_def less_Suc_eq)
    have "modifier_usage ` (X n - {n}) = modifier_usage ` X n - {modifier_usage n}"
      using inj_on_image_set_diff [OF modifier_usage_inj, of "X n" "{n}"] n
      by (simp add: X_def subset_eq)
    moreover have "modifier_usage n \<notin> A" using assms(1) modifier_usage_high [OF n] by blast
    moreover have "n \<notin> X n" if "\<not> bit m n" using that n by (simp add: X_def)
    ultimately show ?thesis using False unfolding x by (auto simp: follow_def)
  qed
  then show ?case
    using Suc.IH [OF less_imp_le [OF n]] n unfolding X_def [symmetric]
    by (simp add: follow_append ev split: if_splits)
qed (simp add: follow_def)

lemma follow_report:
  assumes "\<forall>u \<in> set keys \<union> set keys'. u < 0xE0"
  shows "follow (report_events m keys m' keys') (pressed_set m keys) = pressed_set m' keys'"
proof -
  define M where "M = modifier_usage ` {k. k < 8 \<and> bit m' k}"
  have "{k. k < 8 \<and> bit (if k < 8 then m' else m) k} = {k. k < 8 \<and> bit m' k}" by auto
  with assms have "follow (modifier_events m m') (pressed_set m keys) = (set keys - {0}) \<union> M"
    using follow_modifiers [of "set keys - {0}" 8 m m'] by (simp add: modifier_events_def pressed_set_def M_def)
  moreover have "u \<notin> M" if "u \<in> set keys" for u
    using assms modifier_usage_high that by (auto simp: M_def)
  ultimately show ?thesis
    unfolding report_events_def release_events_def press_events_def follow_append follow_release follow_press
    by (auto simp: pressed_set_def M_def)
qed


section \<open>What the driver keeps\<close>

text \<open>What the driver itself keeps: the queue, the last report and the flags.\<close>

definition kbd_part where
  "kbd_part s = (s_queue s, s_read_idx s, s_write_idx s, s_prev_keys s, s_prev_modifiers s, s_in_toggle s,
     s_next_enumerate_ms s, s_initialized s, s_ready s)"

lemma keeps_reg [keeps_rules]: "keeps kbd_part (reg_rd b a)" "keeps kbd_part (reg_wr b a v)"
  by (simp_all add: keeps_def kbd_part_def run_reg_rd run_reg_wr)

lemma keeps_rmw [keeps_rules]: "keeps kbd_part (reg_rmw b a c v)"
  unfolding reg_rmw_def by (intro keeps_rules)

lemma keeps_wait_mask [keeps_rules]: "keeps kbd_part (wait_mask b a m v)"
proof -
  have "keeps kbd_part (wait_mask_loop b n a m v)" for n
    by (induction n) (simp_all, (intro keeps_rules | assumption)+)
  then show ?thesis by (simp add: wait_mask_def)
qed

lemma keeps_cs [keeps_rules]: "keeps kbd_part (cs_assert b)" "keeps kbd_part (cs_deassert b)" "keeps kbd_part (spi_enable b)"
  unfolding cs_assert_def cs_deassert_def cs_set_def spi_enable_def by (intro keeps_rules)+

lemma keeps_tx [keeps_rules]: "keeps kbd_part (spi_tx_words b n w0 w1)"
  unfolding spi_tx_words_def by (intro keeps_rules)

lemma keeps_rx [keeps_rules]: "keeps kbd_part (spi_rx_bytes b n dst)"
proof -
  have "keeps kbd_part (spi_rx_loop b n off dst)" for n off dst
    by (induction n arbitrary: off dst) (simp_all, (intro keeps_rules | simp)+)
  then show ?thesis unfolding spi_rx_bytes_def by (intro keeps_rules)
qed

lemma keeps_ch374 [keeps_rules]: "keeps kbd_part (ch374_reg_write b r v)" "keeps kbd_part (ch374_reg_read b r)"
  "keeps kbd_part (ch374_set_data8 b w0 w1)" "keeps kbd_part (ch374_read_buffer b len buf)"
  unfolding ch374_reg_write_def ch374_reg_read_def ch374_set_data8_def ch374_read_buffer_def
  by (intro keeps_rules)+

lemma keeps_token [keeps_rules]: "keeps kbd_part (ch374_issue_token b ep pid tog)"
proof -
  have "keeps kbd_part (wait_irq_loop b n)" for n
    by (induction n) (simp_all, (intro keeps_rules | assumption)+)
  then show ?thesis unfolding ch374_issue_token_def ch374_wait_irq_def by (intro keeps_rules)
qed

lemma keeps_stages [keeps_rules]: "keeps kbd_part (ch374_stage1 b)" "keeps kbd_part (ch374_stage2 b)"
  "keeps kbd_part (reg_update b r m v)"
  unfolding ch374_stage1_def ch374_stage2_def reg_update_def by (intro keeps_rules)+

lemma keeps_timer_ms [keeps_rules]: "keeps kbd_part (timer_ms b)"
proof -
  have "keeps kbd_part (modify (\<lambda>s. s\<lparr>s_total_ticks := g s, s_last_raw := r\<rparr>))" for g r
    by (simp add: keeps_def kbd_part_def run_modify)
  moreover have "keeps kbd_part (gets g)" for g by (simp add: keeps_def run_gets)
  ultimately show ?thesis unfolding timer_ms_def read_live_def by (intro keeps_rules)
qed


lemma kbd_part_log [simp]: "kbd_part (log_puts t s) = kbd_part s"
proof -
  have "kbd_part (log_putc c s) = kbd_part s" for c s by (simp add: kbd_part_def log_putc_def)
  note [simp] = this
  show ?thesis by (induction t arbitrary: s) (simp_all add: log_puts_def)
qed

lemma kbd_part_wait:
  assumes "timer_wait b start ms s = Some s'"
  shows "kbd_part s' = kbd_part s"
proof (rule timer_wait.raw_induct [OF _ assms])
  fix tw b start ms s s'
  assume IH: "\<And>b start ms s s'. tw b start ms s = Some s' \<Longrightarrow> kbd_part s' = kbd_part s"
    and r: "(let (now, s1) = run_state (timer_ms b) s in if now - start < ms then tw b start ms s1 else Some s1) = Some s'"
  obtain now s1 where s1: "run_state (timer_ms b) s = (now, s1)" by fastforce
  then have "kbd_part s1 = kbd_part s" using keepsD [OF keeps_timer_ms, of b s] by simp
  with r s1 IH [of b start ms s1 s'] show "kbd_part s' = kbd_part s" by (auto split: if_splits)
qed

lemma kbd_part_delay: "timer_delay_ms b ms s = Some s' \<Longrightarrow> kbd_part s' = kbd_part s"
  using keepsD [OF keeps_timer_ms, of b s] kbd_part_wait
  by (fastforce simp: timer_delay_ms_def split: prod.splits)

lemma kbd_part_token_retry:
  "token_retry_loop b n ep pid tog s = Some (ret, s') \<Longrightarrow> kbd_part s' = kbd_part s"
proof (induction n arbitrary: s)
  case (Suc n)
  obtain r s1 where r: "run_state (ch374_issue_token b ep pid tog) s = (r, s1)" by fastforce
  then have "kbd_part s1 = kbd_part s" using keepsD [OF keeps_token, of b ep pid tog s] by simp
  with Suc r show ?case
    by (auto simp: bind_eq_Some_conv dest: kbd_part_delay split: if_splits)
qed simp

lemma kbd_part_control:
  fixes s :: "('h, 'z) kst"
  assumes "ch374_control_status_in b w0 w1 s = Some (ret, s')"
  shows "kbd_part s' = kbd_part s"
proof -
  define m :: "('h, 'z, nat) kprog" where "m = do { ch374_set_data8 b w0 w1; ch374_reg_write b 11 8; ch374_issue_token b 0 CH374_PID_SETUP False }"
  have k: "keeps kbd_part m" unfolding m_def by (intro keeps_rules)
  obtain r s1 where r: "run_state m s = (r, s1)" by fastforce
  obtain s2 where u: "run_state (ch374_reg_write b 11 0) s1 = ((), s2)"
    by (cases "run_state (ch374_reg_write b 11 0) s1") simp
  have "kbd_part s1 = kbd_part s" "kbd_part s2 = kbd_part s1"
    using keepsD [OF k, of s] keepsD [OF keeps_ch374(1), of b 11 0 s1] r u by simp_all
  with assms show ?thesis
    unfolding ch374_control_status_in_def m_def [symmetric] r u
    by (auto simp: u ch374_issue_token_retry_def dest: kbd_part_token_retry split: if_splits)
qed

lemma kbd_part_reset:
  fixes s :: "('h, 'z) kst"
  assumes "ch374_port0_reset_enable b s = Some s'"
  shows "kbd_part s' = kbd_part s"
proof -
  define m1 :: "('h, 'z, unit) kprog" where
    "m1 = do { ch374_reg_write b 14 0; ch374_reg_write b 8 0; reg_update b 2 0xF9 0x02 }"
  define m2 :: "('h, 'z, unit) kprog" where "m2 = reg_update b 2 0xFD 0"
  define m3 :: "('h, 'z, unit) kprog" where
    "m3 = do { ch374_reg_write b 9 22; reg_update b 2 0xFF 0x01; reg_update b 2 0xFF 0x04; reg_update b 6 0xFF 0x60 }"
  have k: "keeps kbd_part m1" "keeps kbd_part m2" "keeps kbd_part m3"
    unfolding m1_def m2_def m3_def by (intro keeps_rules)+
  obtain s2 s3 where "timer_delay_ms b 20 (snd (run_state m1 s)) = Some s2"
    "timer_delay_ms b 1 (snd (run_state m2 s2)) = Some s3"
    "timer_delay_ms b 20 (snd (run_state m3 s3)) = Some s'"
    using assms unfolding ch374_port0_reset_enable_def m1_def m2_def m3_def
    by (auto simp only: bind_eq_Some_conv)
  from this [THEN kbd_part_delay] show ?thesis
    by (simp add: keepsD [OF k(1)] keepsD [OF k(2)] keepsD [OF k(3)])
qed

lemma kbd_part_fields:
  assumes "kbd_part s' = kbd_part s"
  shows "s_queue s' = s_queue s" "s_read_idx s' = s_read_idx s" "s_write_idx s' = s_write_idx s"
    "s_prev_keys s' = s_prev_keys s" "s_prev_modifiers s' = s_prev_modifiers s" "s_in_toggle s' = s_in_toggle s"
    "s_initialized s' = s_initialized s" "s_ready s' = s_ready s"
  using assms by (simp_all add: kbd_part_def)

lemma kbd_part_ready: "kbd_part s' = kbd_part s \<Longrightarrow> kbd_part (s'\<lparr>s_ready := r\<rparr>) = kbd_part (s\<lparr>s_ready := r\<rparr>)"
  by (simp add: kbd_part_def)

lemma kbd_part_enumerate:
  fixes s :: "('h, 'z) kst"
  assumes "ch374_enumerate b s = Some (ok, s')"
  shows "kbd_part s' = kbd_part (s\<lparr>s_ready := ok, s_in_toggle := 0, s_prev_keys := replicate 6 0\<rparr>)"
proof -
  define s0 where "s0 = s\<lparr>s_ready := False, s_in_toggle := 0, s_prev_keys := replicate 6 0\<rparr>"
  define m :: "('h, 'z, unit) kprog" where "m = do { ch374_stage1 b; ch374_stage2 b }"
  have k: "keeps kbd_part m" unfolding m_def by (intro keeps_rules)
  obtain s1 where s1: "run_state m s0 = ((), s1)" by (cases "run_state m s0") simp
  obtain s2 where s2: "ch374_port0_reset_enable b s1 = Some s2"
    and rest: "(let (reg2, s3) = run_state (ch374_reg_read b 2) s2 in
        if reg2 AND 0x08 = 0 then Some (False, log_puts (cs ''ch374: no device on port0'' @ [10]) s3)
        else do {
          (ret, s4) \<leftarrow> ch374_control_status_in b 0x00020500 0 s3;
          if ret \<noteq> CH374_OK then Some (False, log_puts (cs ''ch374: SET_ADDRESS failed'' @ [10]) s4)
          else do {
            s5 \<leftarrow> timer_delay_ms b 2 s4;
            (ret2, s6) \<leftarrow> ch374_control_status_in b 0x00010900 0 (snd (run_state (ch374_reg_write b 8 USB_ADDR) s5));
            if ret2 \<noteq> CH374_OK then Some (False, log_puts (cs ''ch374: SET_CONFIGURATION failed'' @ [10]) s6)
            else Some (True, log_puts (cs ''ch374: ready'' @ [10]) (s6\<lparr>s_ready := True\<rparr>)) } }) = Some (ok, s')"
    using assms unfolding ch374_enumerate_def Let_def s0_def [symmetric] m_def [symmetric] s1
    by (auto simp only: bind_eq_Some_conv prod.case)
  obtain reg2 s3 where s3: "run_state (ch374_reg_read b 2) s2 = (reg2, s3)" by fastforce
  have p3: "kbd_part s3 = kbd_part s0"
    using keepsD [OF k, of s0] s1 kbd_part_reset [OF s2] keepsD [OF keeps_ch374(2), of b 2 s2] s3 by simp
  have "\<not> s_ready s3" using kbd_part_fields(8) [OF p3] by (simp add: s0_def)
  then have f: "kbd_part (s3\<lparr>s_ready := False\<rparr>) = kbd_part s3" by (simp add: kbd_part_def)
  have "kbd_part s' = kbd_part (s3\<lparr>s_ready := ok\<rparr>)"
    using rest unfolding s3 Let_def prod.case
    by (auto simp: bind_eq_Some_conv keepsD [OF keeps_ch374(1)] f intro!: kbd_part_ready
        dest!: kbd_part_control kbd_part_delay split: if_splits)
  also have "\<dots> = kbd_part (s0\<lparr>s_ready := ok\<rparr>)" by (rule kbd_part_ready [OF p3])
  finally show ?thesis by (simp add: s0_def kbd_part_def)
qed

section \<open>The invariant of the driver\<close>

definition kbd_inv :: "('h, 'z) kst \<Rightarrow> bool" where
  "kbd_inv s \<longleftrightarrow> queue_good s \<and> length (s_prev_keys s) = 6 \<and> s_in_toggle s \<le> 1 \<and> (s_ready s \<longrightarrow> s_initialized s)"

lemma kbd_inv_part: "kbd_part s' = kbd_part s \<Longrightarrow> kbd_inv s' = kbd_inv s"
  by (simp add: kbd_part_def kbd_inv_def queue_good_def)

lemma kbd_inv_good: "kbd_inv s \<Longrightarrow> queue_good s"
  by (simp add: kbd_inv_def)

lemma kbd_inv_schedule: "kbd_inv (schedule_retry b s) = kbd_inv s"
  using keepsD [OF keeps_timer_ms, of b s]
  by (auto simp: schedule_retry_def kbd_inv_def kbd_part_def queue_good_def split: prod.splits)

lemma kbd_inv_enumerate_or_retry:
  assumes "enumerate_or_retry b s = Some s'" and "queue_good s" and "s_initialized s"
  shows "kbd_inv s'"
proof -
  obtain ok s1 where e: "ch374_enumerate b s = Some (ok, s1)" and s': "s' = (if ok then s1 else schedule_retry b s1)"
    using assms(1) by (auto simp: enumerate_or_retry_def bind_eq_Some_conv)
  have "kbd_inv s1"
    using assms(2,3) kbd_inv_part [OF kbd_part_enumerate [OF e]] by (simp add: kbd_inv_def queue_good_def)
  then show ?thesis by (simp add: s' kbd_inv_schedule)
qed

lemma kbd_inv_init:
  assumes "ch374_kbd_init b s = Some s'"
  shows "kbd_inv s'"
proof -
  define s0 where "s0 = s\<lparr>s_queue := replicate QUEUE_SIZE 0, s_prev_keys := replicate 6 0, s_read_idx := 0,
                 s_write_idx := 0, s_prev_modifiers := 0, s_in_toggle := 0\<rparr>"
  define s1 where "s1 = snd (run_state (do { spi_enable b; cs_deassert b }) s0)"
  have "kbd_part s1 = kbd_part s0"
    unfolding s1_def by (intro keepsD keeps_rules)
  then have "queue_good (s1\<lparr>s_initialized := True\<rparr>)"
    by (simp add: kbd_part_def queue_good_def s0_def QUEUE_SIZE_def)
  moreover have "enumerate_or_retry b (s1\<lparr>s_initialized := True\<rparr>) = Some s'"
    using assms unfolding ch374_kbd_init_def Let_def s0_def [symmetric] s1_def by (simp split: prod.splits)
  ultimately show ?thesis by (auto intro: kbd_inv_enumerate_or_retry)
qed

lemma push_event_flags [simp]:
  "s_in_toggle (fold push_event es s) = s_in_toggle s" "s_ready (fold push_event es s) = s_ready s"
  "s_initialized (fold push_event es s) = s_initialized s"
  by (induction es arbitrary: s) (simp_all add: push_event_def queue_push_def Let_def)

lemma queue_good_fields: "queue_good (s\<lparr>s_prev_keys := ks, s_prev_modifiers := m\<rparr>) = queue_good s"
  by (simp add: queue_good_def)

lemma kbd_inv_report:
  assumes "kbd_inv s" and "length report = 8"
  shows "kbd_inv (process_report report s)"
  using assms ch374_queue.good_pushes [OF _ report_events_ok, of s]
  unfolding process_report_pushes by (simp add: kbd_inv_def queue_good_fields)

lemma rx_loop_length:
  "off + 4 * n \<le> length dst \<Longrightarrow>
   yields (\<lambda>(ok, off', dst'). length dst' = length dst \<and> off' \<le> off + 4 * n) (spi_rx_loop b n off dst)"
proof (induction n arbitrary: off dst)
  case (Suc n)
  have "length (store_rx_bytes dst off w 4) = length dst" for w
    using Suc.prems by (simp add: store_rx_bytes_def rx_bytes_def)
  then show ?case
    unfolding spi_rx_loop.simps using Suc.prems
    by (intro yields_then yields_if yields_return) (auto intro!: yields_mono [OF Suc.IH])
qed (simp add: yields_return)

lemma spi_rx_bytes_length:
  assumes "n \<le> length dst"
  shows "yields (\<lambda>(ok, d). length d = length dst) (spi_rx_bytes b n dst)"
proof -
  have le: "4 * (n div 4) + n mod 4 = n" by simp
  then have l: "0 + 4 * (n div 4) \<le> length dst" using assms by linarith
  have st: "length (store_rx_bytes d off w (n mod 4)) = length dst"
    if "length d = length dst" "off \<le> 0 + 4 * (n div 4)" for d off w
  proof -
    have "off + n mod 4 \<le> length d" using that le assms by linarith
    then show ?thesis using that(1) by (simp add: store_rx_bytes_def rx_bytes_def)
  qed
  show ?thesis
    unfolding spi_rx_bytes_def
    by (rule yields_then, rule yields_then, rule yields_then, rule yields_then,
        rule yields_bind [OF rx_loop_length [OF l]])
      (auto simp: st intro!: yields_then yields_if yields_return)
qed

lemma read_buffer_length:
  assumes "unat len \<le> length buf"
  shows "yields (\<lambda>(ok, d). length d = length buf) (ch374_read_buffer b len buf)"
  unfolding ch374_read_buffer_def
  by (rule yields_then, rule yields_then, rule yields_bind [of "\<lambda>(ok, d). length d = length buf"])
    (use spi_rx_bytes_length [OF assms] in \<open>auto intro!: yields_then yields_return yields_if\<close>)

lemma read_report_length: "yields (\<lambda>(ret, len, report). length report = 8) (read_report b)"
proof -
  have "unat (if 8 < len0 then 8 else len0) \<le> length (replicate 8 (0 :: u8))" for len0 :: u8
    by (simp add: word_less_nat_alt)
  note l = read_buffer_length [OF this]
  show ?thesis
    unfolding read_report_def Let_def
    by (rule yields_then, rule yields_then, rule yields_if, (intro yields_return, simp), rule yields_then,
        rule yields_bind [OF l])
      (auto intro!: yields_if yields_then yields_return)
qed

lemma kbd_inv_keeps: "keeps kbd_part m \<Longrightarrow> preserves kbd_inv m"
  by (rule preserves_keeps [OF _ kbd_inv_part])

lemma read_report_preserves: "preserves kbd_inv (read_report b)"
  unfolding read_report_def
  by (intro preserves_rules kbd_inv_keeps keeps_token keeps_ch374)
    (simp add: kbd_inv_def queue_good_def)

lemma report_loop_preserves: "kbd_inv s \<Longrightarrow> kbd_inv (report_loop b n s)"
proof (induction n arbitrary: s)
  case (Suc n)
  obtain ret len report s1 where r: "run_state (read_report b) s = ((ret, len, report), s1)"
    by (metis prod_cases3 surj_pair)
  have s1: "kbd_inv s1" using preservesD [OF read_report_preserves Suc.prems, of b] r by simp
  have l: "length report = 8" using yieldsD [OF read_report_length, of b s] r by simp
  have lost: "kbd_inv ((log_puts t s1)\<lparr>s_ready := False\<rparr>)" for t
    using s1 kbd_inv_part [OF kbd_part_log, of t s1] by (simp add: kbd_inv_def queue_good_def)
  show ?case using s1 Suc.IH [OF kbd_inv_report [OF s1 l]] lost by (simp add: r kbd_inv_schedule)
qed simp

lemma kbd_inv_poll:
  assumes "ch374_kbd_poll b s = Some s'" and "kbd_inv s"
  shows "kbd_inv s'"
proof -
  have t: "kbd_inv (snd (run_state (timer_ms b) s))" "s_initialized (snd (run_state (timer_ms b) s)) = s_initialized s"
    using preservesD [OF kbd_inv_keeps [OF keeps_timer_ms] assms(2), of b]
      kbd_part_fields(7) [OF keepsD [OF keeps_timer_ms], of b s] by simp_all
  have w: "kbd_inv (snd (run_state (ch374_reg_write b 8 USB_ADDR) s))"
    by (rule preservesD [OF kbd_inv_keeps [OF keeps_ch374(1)] assms(2)])
  show ?thesis
    using assms t w unfolding ch374_kbd_poll_def
    by (auto intro: report_loop_preserves kbd_inv_enumerate_or_retry kbd_inv_good split: if_splits prod.splits)
qed


section \<open>The menu's keys\<close>

definition KBD_UP :: u8 where "KBD_UP = 1"
definition KBD_DOWN :: u8 where "KBD_DOWN = 2"
definition KBD_LEFT :: u8 where "KBD_LEFT = 3"
definition KBD_RIGHT :: u8 where "KBD_RIGHT = 4"
definition KBD_ENTER :: u8 where "KBD_ENTER = 5"
definition KBD_ESC :: u8 where "KBD_ESC = 6"
definition KBD_HOME :: u8 where "KBD_HOME = 7"
definition KBD_END :: u8 where "KBD_END = 8"

definition usage_to_key :: "u8 \<Rightarrow> u8" where
  "usage_to_key usage =
     (if usage = 0x28 then KBD_ENTER
      else if usage = 0x58 then KBD_ENTER
      else if usage = 0x2C then KBD_ENTER
      else if usage = 0x29 then KBD_ESC
      else if usage = 0x4A then KBD_HOME
      else if usage = 0x4D then KBD_END
      else if usage = 0x4F then KBD_RIGHT
      else if usage = 0x50 then KBD_LEFT
      else if usage = 0x51 then KBD_DOWN
      else if usage = 0x52 then KBD_UP
      else 0)"

definition kbd_init :: "'h bus \<Rightarrow> ('h, 'z) kst \<Rightarrow> ('h, 'z) kst option" where
  "kbd_init b s = ch374_kbd_init b s"

definition kbd_poll :: "'h bus \<Rightarrow> ('h, 'z) kst \<Rightarrow> ('h, 'z) kst option" where
  "kbd_poll b s = ch374_kbd_poll b s"

definition kbd_ready :: "('h, 'z) kst \<Rightarrow> bool" where
  "kbd_ready s = ch374_kbd_ready s"

text \<open>The loop ends because every round takes an event out; that is a theorem, so the definition
  leaves it open.\<close>

partial_function (option) kbd_pop :: "('h, 'z) kst \<Rightarrow> ((u8 \<times> bool) option \<times> ('h, 'z) kst) option" where
  "kbd_pop s =
     (case ch374_kbd_pop s of
        (None, s1) \<Rightarrow> Some (None, s1)
      | (Some (usage, pressed), s1) \<Rightarrow>
          let mapped = usage_to_key usage
          in if mapped \<noteq> 0 then Some (Some (mapped, pressed), s1) else kbd_pop s1)"

lemma kbd_pop_queue:
  "queue_good s \<Longrightarrow> \<exists>s'. kbd_pop s = Some (
     case dropWhile (\<lambda>e. usage_to_key (fst e) = 0) (queue_elems s) of
       [] \<Rightarrow> None | e # es \<Rightarrow> Some (usage_to_key (fst e), snd e), s') \<and>
     queue_elems s' = tl (dropWhile (\<lambda>e. usage_to_key (fst e) = 0) (queue_elems s)) \<and> queue_good s'"
proof (induction "queue_elems s" arbitrary: s)
  case Nil
  then have "ch374_kbd_pop s = (None, s)" using ch374_queue.pop_empty by metis
  then show ?case using Nil by (subst kbd_pop.simps) simp
next
  case (Cons e es)
  obtain u p where e: "e = (u, p)" by fastforce
  obtain s1 where p: "ch374_kbd_pop s = (Some (u, p), s1)" "queue_elems s1 = es"
    using ch374_queue.pop_some [OF Cons.prems Cons.hyps(2) [symmetric]] e
    by (cases "ch374_kbd_pop s") simp
  have g: "queue_good s1" using ch374_queue.good_pop [OF Cons.prems] p by simp
  show ?case
    using Cons.hyps(1) [OF p(2) [symmetric] g] p g Cons.hyps(2) [symmetric]
    by (subst kbd_pop.simps) (simp add: e)
qed


section \<open>Properties\<close>

lemma process_report_prev:
  "s_prev_keys (process_report report s) = take 6 (drop 2 report)"
  "s_prev_modifiers (process_report report s) = report ! 0"
  unfolding process_report_pushes by simp_all

lemma queue_elems_fields: "queue_elems (s\<lparr>s_prev_keys := ks, s_prev_modifiers := m\<rparr>) = queue_elems s"
  by (simp add: queue_elems_def queue_count_def)


definition demo_kbd :: "nat ch374_st" where
  "demo_kbd = \<lparr>ddr = \<lambda>_. 0, log_ptr = 0, log_end = 0, uart = [], hwst = 0, s_last_raw = 0, s_total_ticks = 0,
     s_queue = replicate 32 0, s_read_idx = 30, s_write_idx = 30, s_prev_keys = [4, 5, 0, 0, 0, 0],
     s_prev_modifiers = 2, s_in_toggle = 1, s_next_enumerate_ms = 7, s_initialized = True, s_ready = True\<rparr>"

text \<open>A bridge that answers every SPI transfer at once and reports no device.\<close>

definition idle_bridge :: "nat bus" where
  "idle_bridge = \<lparr>rd32 = \<lambda>a h. (if a = SYSCTRL TIMER2_LIVE then (- of_nat h, h + 600000)
     else if a = SPI_STATUS then (0x144, h) else (0, h)), wr32 = \<lambda>a v h. h\<rparr>"


text \<open>C13: The driver's invariant: ring indices below the queue size, six remembered keys, a toggle bit, and
  no ready keyboard before initialization. \<open>ch374_kbd_init\<close> establishes it for every behaviour of the
  hardware, \<open>ch374_kbd_poll\<close> and \<open>ch374_kbd_pop\<close> keep it.\<close>

theorem ch374_kbd_invariant:
  "(ch374_kbd_init b s = Some s1 \<longrightarrow> kbd_inv s1) \<and>
   (kbd_inv s \<longrightarrow> ch374_kbd_poll b s = Some s2 \<longrightarrow> kbd_inv s2) \<and>
   (kbd_inv s \<longrightarrow> kbd_inv (snd (ch374_kbd_pop s)))"
proof -
  have "kbd_inv (snd (ch374_kbd_pop s))" if "kbd_inv s"
    using that ch374_queue.good_pop [of s] by (auto simp: kbd_inv_def ch374_kbd_pop_def Let_def)
  then show ?thesis using kbd_inv_init kbd_inv_poll by blast
qed

theorem ch374_kbd_invariant_witness:
  "\<exists>s2. ch374_kbd_poll idle_bridge demo_kbd = Some s2 \<and> kbd_inv s2 \<and> kbd_inv (snd (ch374_kbd_pop demo_kbd))"
proof -
  have "kbd_inv demo_kbd" by (simp add: kbd_inv_def queue_good_def demo_kbd_def)
  moreover obtain s2 where "ch374_kbd_poll idle_bridge demo_kbd = Some s2"
    by (cases "run_state (ch374_reg_write idle_bridge 8 USB_ADDR) demo_kbd")
      (simp add: ch374_kbd_poll_def, simp add: demo_kbd_def)
  ultimately show ?thesis using ch374_kbd_invariant [of idle_bridge demo_kbd _ s2] by blast
qed

text \<open>When the bridge enumerates the keyboard again, the keys of the last report are forgotten and no
  event is queued for them: whatever was held when the device was lost is never released, while the
  modifiers of the last report are kept.\<close>

theorem enumerate_forgets_held_keys:
  assumes "ch374_enumerate b s = Some (ok, s')"
  shows "queue_elems s' = queue_elems s \<and> s_prev_keys s' = replicate 6 0 \<and>
    s_prev_modifiers s' = s_prev_modifiers s \<and> s_in_toggle s' = 0 \<and> s_ready s' = ok"
  using kbd_part_fields [OF kbd_part_enumerate [OF assms]]
  by (simp add: queue_elems_def queue_count_def)

lemma idle_bridge_wait:
  assumes "s_last_raw s = (- of_nat t) AND TIMER_COUNT_MASK" and "hwst s = t + 600000"
    and "start = ucast (s_total_ticks s div TICKS_PER_MS)" and "ms \<le> 20"
  shows "timer_wait idle_bridge start ms s \<noteq> None"
proof -
  define T where "T = unat (s_total_ticks s)"
  have T: "T < 2 ^ 64" using unat_bound [of "s_total_ticks s"] by (simp add: T_def)
  obtain now s1 where r: "run_state (timer_ms idle_bridge) s = (now, s1)" by fastforce
  have "now = ucast ((s_total_ticks s + 600000) div TICKS_PER_MS)"
    using r assms(1,2) raw_difference [of t "t + 600000"]
    by (simp add: timer_ms_def read_live_def idle_bridge_def run_simps)
  moreover have "s_total_ticks s = of_nat T" "s_total_ticks s + 600000 = of_nat ((T + 600000) mod 2 ^ 64)"
    by (simp_all add: T_def word_unat_eq_iff unat_of_nat unat_word_ariths)
  ultimately have d: "now - start = of_nat ((T + 600000) mod 2 ^ 64 div 12000) - of_nat (T div 12000)"
    using T by (simp add: assms(3) TICKS_PER_MS_def ms_value)
  have "20 \<le> now - start"
  proof (cases "T + 600000 < 2 ^ 64")
    case True
    then have "(T + 600000) mod 2 ^ 64 div 12000 = T div 12000 + 50" by simp
    then show ?thesis unfolding d by simp
  next
    case False
    define k where "k = 2 ^ 64 div 12000 - T div 12000"
    define j where "j = (T + 600000) mod 2 ^ 64 div 12000"
    have "(T + 600000) mod 2 ^ 64 = T + 600000 - 2 ^ 64" using False T by (simp add: le_mod_geq)
    then have b: "j \<le> 50" "k \<le> 51" "T div 12000 = 2 ^ 64 div 12000 - k" "k \<le> 2 ^ 64 div 12000"
      using False T unfolding j_def k_def by simp_all
    have "now - start = of_nat (j + k) - of_nat (2 ^ 64 div 12000)"
      unfolding d j_def [symmetric] b(3) using b(4) by (simp add: of_nat_diff)
    also have "\<dots> = of_nat (j + k + 251971415)" by simp
    finally have e: "now - start = of_nat (j + k + 251971415)" .
    have "unat (of_nat (j + k + 251971415) :: u32) = j + k + 251971415"
      using b unfolding unat_of_nat by (intro mod_less) simp
    then show ?thesis unfolding e word_le_nat_alt by simp
  qed
  then show ?thesis using assms(4) by (subst timer_wait.simps) (auto simp: r)
qed

lemma idle_bridge_delay: "ms \<le> 20 \<Longrightarrow> \<exists>s'. timer_delay_ms idle_bridge ms s = Some s'"
proof -
  assume ms: "ms \<le> 20"
  obtain now s1 where r: "run_state (timer_ms idle_bridge) s = (now, s1)" by fastforce
  then have "s_last_raw s1 = (- of_nat (hwst s)) AND TIMER_COUNT_MASK" "hwst s1 = hwst s + 600000"
    "now = ucast (s_total_ticks s1 div TICKS_PER_MS)"
    by (auto simp: timer_ms_def read_live_def idle_bridge_def run_simps)
  from idle_bridge_wait [OF this ms] r show ?thesis by (auto simp: timer_delay_ms_def)
qed

text \<open>Every wait of the driver other than the timer's is bounded.\<close>

lemma token_retry_returns:
  assumes "\<And>s :: ('h, 'z) kst. timer_delay_ms b 1 s \<noteq> None"
  shows "token_retry_loop b n ep pid tog (s :: ('h, 'z) kst) \<noteq> None"
proof (induction n arbitrary: s)
  case (Suc n)
  obtain ret s1 where r: "run_state (ch374_issue_token b ep pid tog) s = (ret, s1)" by fastforce
  obtain s2 where "timer_delay_ms b 1 s1 = Some s2" using assms by blast
  then show ?case using Suc [of s2] by (simp add: r)
qed simp

lemma control_returns:
  assumes "\<And>s :: ('h, 'z) kst. timer_delay_ms b 1 s \<noteq> None"
  shows "\<exists>r s'. ch374_control_status_in b w0 w1 (s :: ('h, 'z) kst) = Some (r, s')"
proof -
  have "\<exists>r s'. token_retry_loop b n ep pid tog s = Some (r, s')" for n ep pid tog and s :: "('h, 'z) kst"
    using token_retry_returns [OF assms, of n ep pid tog s] by fastforce
  then show ?thesis
    by (auto simp: ch374_control_status_in_def ch374_issue_token_retry_def Let_def split: prod.splits)
qed

lemma enumerate_returns:
  assumes d: "\<And>ms (s :: ('h, 'z) kst). ms \<le> 20 \<Longrightarrow> \<exists>s'. timer_delay_ms b ms s = Some s'"
  shows "\<exists>ok s'. ch374_enumerate b (s :: ('h, 'z) kst) = Some (ok, s')"
proof -
  have c: "\<exists>r s'. ch374_control_status_in b w0 w1 s = Some (r, s')" for w0 w1 and s :: "('h, 'z) kst"
    by (rule control_returns) (use d [of 1] in simp)
  define s0 where "s0 = s\<lparr>s_ready := False, s_in_toggle := 0, s_prev_keys := replicate 6 0\<rparr>"
  obtain s1 where s1: "run_state (do { ch374_stage1 b; ch374_stage2 b }) s0 = ((), s1)"
    by (cases "run_state (do { ch374_stage1 b; ch374_stage2 b }) s0") simp
  obtain s2 where s2: "ch374_port0_reset_enable b s1 = Some s2"
  proof -
    obtain s2 where s2: "timer_delay_ms b 20 (snd (run_state (do {
       ch374_reg_write b 14 0; ch374_reg_write b 8 0; reg_update b 2 0xF9 0x02 }) s1)) = Some s2"
      using d [OF order_refl] by blast
    obtain s3 where s3: "timer_delay_ms b 1 (snd (run_state (reg_update b 2 0xFD 0) s2)) = Some s3"
      using d [of 1] by fastforce
    show ?thesis
      using that d [OF order_refl] unfolding ch374_port0_reset_enable_def s2 bind.bind_lunit s3 by blast
  qed
  obtain reg2 s3 where s3: "run_state (ch374_reg_read b 2) s2 = (reg2, s3)" by fastforce
  obtain r1 s4 where s4: "ch374_control_status_in b 0x00020500 0 s3 = Some (r1, s4)" using c by blast
  obtain s5 where s5: "timer_delay_ms b 2 s4 = Some s5" using d [of 2] by auto
  obtain r2 s6 where s6: "ch374_control_status_in b 0x00010900 0 (snd (run_state (ch374_reg_write b 8 USB_ADDR) s5)) = Some (r2, s6)"
    using c by blast
  show ?thesis
    unfolding ch374_enumerate_def Let_def s0_def [symmetric] s1 prod.case s2 bind.bind_lunit s3 s4 s5 s6 by auto
qed

theorem enumerate_forgets_held_keys_witness:
  "\<exists>ok s'. ch374_enumerate idle_bridge demo_kbd = Some (ok, s') \<and>
     s_prev_keys demo_kbd = [4, 5, 0, 0, 0, 0] \<and> queue_elems s' = queue_elems demo_kbd \<and> s_prev_keys s' = replicate 6 0"
proof -
  obtain ok s' where "ch374_enumerate idle_bridge demo_kbd = Some (ok, s')"
    using enumerate_returns [OF idle_bridge_delay] by blast
  from this enumerate_forgets_held_keys [OF this] show ?thesis
    by (auto simp: demo_kbd_def)
qed

text \<open>\<open>kbd_pop\<close> returns: it gives the oldest queued event of a key that the menu uses, as the menu's key,
  drops the events of other keys before it, and keeps every later event; without such an event it empties
  the queue and reports none.\<close>

theorem kbd_pop_first_menu_key:
  assumes "queue_good s"
  shows "\<exists>r s'. kbd_pop s = Some (r, s') \<and>
    (case dropWhile (\<lambda>e. usage_to_key (fst e) = 0) (queue_elems s) of
       [] \<Rightarrow> r = None \<and> queue_elems s' = []
     | e # es \<Rightarrow> r = Some (usage_to_key (fst e), snd e) \<and> queue_elems s' = es)"
  using kbd_pop_queue [OF assms]
  by (cases "dropWhile (\<lambda>e. usage_to_key (fst e) = 0) (queue_elems s)") (auto simp del: dropWhile_eq_Nil_conv)

theorem kbd_pop_first_menu_key_witness:
  "\<exists>s'. kbd_pop (push_event (0x51, True) (push_event (4, True) demo_kbd)) = Some (Some (KBD_DOWN, True), s') \<and>
     queue_elems s' = []"
proof -
  let ?s = "push_event (0x51, True) (push_event (4, True) demo_kbd)"
  have "queue_good ?s" by code_simp
  moreover have "dropWhile (\<lambda>e. usage_to_key (fst e) = 0) (queue_elems ?s) = [(0x51, True)]" by code_simp
  moreover have "usage_to_key 0x51 = KBD_DOWN" by code_simp
  ultimately show ?thesis using kbd_pop_first_menu_key [of ?s] by auto
qed

end
