(* ===== verification/Nand.thy ===== *)
theory Nand
  imports Hw Ecc
begin

text \<open>
  The NAND reader of lib/nand.c over the register bus, with the ECC decoder of \<open>Ecc\<close>. A read returns its code and the
  bytes that it stored from its destination on. The loop over the blocks of an image has fuel;
  \<open>nand_load_image_correct\<close> shows that it never runs out (\<open>None\<close>).
\<close>

section \<open>Registers and state\<close>

definition NF_FIFO_HEAD :: u32 where "NF_FIFO_HEAD = 0x2002A100"
definition NF_FIFO_NEXT :: u32 where "NF_FIFO_NEXT = 0x2002A104"
definition NF_CTRL_STA :: u32 where "NF_CTRL_STA = 0x2002A158"
definition NF_TIMING_A :: u32 where "NF_TIMING_A = 0x2002A15C"
definition NF_TIMING_B :: u32 where "NF_TIMING_B = 0x2002A160"
definition NF_SEQ_LAUNCH :: u32 where "NF_SEQ_LAUNCH = 0x40008400"
definition ECC_CTRL :: u32 where "ECC_CTRL = 0x2002B000"
definition ECC_ERRPOS :: "u32 \<Rightarrow> u32" where "ECC_ERRPOS i = 0x2002B004 + 4 * i"
definition ECC_ERRPOS_COUNT :: u32 where "ECC_ERRPOS_COUNT = 4"
definition L2CTR_DMA_PATH_CFG :: u32 where "L2CTR_DMA_PATH_CFG = 0x2002C084"
definition L2CTR_BUF0_7_CFG :: u32 where "L2CTR_BUF0_7_CFG = 0x2002C088"
definition L2CTR_ASSIGN_REG1 :: u32 where "L2CTR_ASSIGN_REG1 = 0x2002C090"
definition L2CTR_STAT_REG1 :: u32 where "L2CTR_STAT_REG1 = 0x2002C0A0"
definition L2_NF_BUFFER :: u32 where "L2_NF_BUFFER = 0x48000A00"
definition ECC_DMA_DECODE :: u32 where "ECC_DMA_DECODE = 0x0C11049A"
definition NF_XFER_528 :: u32 where "NF_XFER_528 = 0x00107919"
definition ECC_STATUS_NO_ERR :: u32 where "ECC_STATUS_NO_ERR = 0x04000000"
definition ECC_STATUS_NO_OK :: u32 where "ECC_STATUS_NO_OK = 0x08000000"
definition ECC_STATUS_END :: u32 where "ECC_STATUS_END = 0x00000040"
definition ECC_STATUS_DEC_RDY :: u32 where "ECC_STATUS_DEC_RDY = 0x01000000"
definition NF_WAIT_LIMIT :: nat where "NF_WAIT_LIMIT = 20000000"
definition PAGE_READ_TRIES :: nat where "PAGE_READ_TRIES = 4"
definition MAX_BAD_SKIP :: nat where "MAX_BAD_SKIP = 16"
definition PAGE_SIZE :: u32 where "PAGE_SIZE = 2048"
definition CHUNKS :: nat where "CHUNKS = 4"
definition ROW_CYCLES :: nat where "ROW_CYCLES = 3"
definition COL_CYCLES :: nat where "COL_CYCLES = 2"
definition IPL_START_BLOCK :: u32 where "IPL_START_BLOCK = 2"

definition NAND_ESEQ_CMD :: int where "NAND_ESEQ_CMD = -1"
definition NAND_ESEQ_DATA :: int where "NAND_ESEQ_DATA = -2"
definition NAND_EL2_FILL :: int where "NAND_EL2_FILL = -3"
definition NAND_EDMA_DONE :: int where "NAND_EDMA_DONE = -4"
definition NAND_EUNCORRECTABLE :: int where "NAND_EUNCORRECTABLE = -5"
definition NAND_EBADPOS :: int where "NAND_EBADPOS = -6"
definition NAND_ENOGEOM :: int where "NAND_ENOGEOM = -7"
definition NAND_EPROBE :: int where "NAND_EPROBE = -8"
definition NAND_ELEN :: int where "NAND_ELEN = -9"
definition NAND_EBADRUN :: int where "NAND_EBADRUN = -10"

definition ipl_magic :: bytes where
  "ipl_magic = cs ''IMG'' @ [0] @ cs ''IPL'' @ [0]"

record 'h nand_st = "'h dev_st" +
  pages_per_block :: u32
  corrections :: u32
  retries :: u32

type_synonym ('h, 'z, 'a) nand = "(('h, 'z) nand_st_scheme, 'a) state"

definition nand_init :: "'h bus \<Rightarrow> ('h, 'z, unit) nand" where
  "nand_init b = do {
     reg_wr b NF_TIMING_A 0x000F5AD1;
     reg_wr b NF_TIMING_B 0x000F5C5C;
     reg_wr b ECC_CTRL 0x00010000;
     modify (\<lambda>s. s\<lparr>pages_per_block := 0\<rparr>)
   }"

section \<open>The sequencer\<close>

definition nf_seq_start :: "'h bus \<Rightarrow> ('h, 'z, unit) dev" where
  "nf_seq_start b = do { v \<leftarrow> reg_rd b NF_CTRL_STA; reg_wr b NF_CTRL_STA ((v AND 0x7FFFF3FF) OR NF_SEQ_LAUNCH) }"

fun seq_wait_loop :: "'h bus \<Rightarrow> nat \<Rightarrow> ('h, 'z, int) dev" where
  "seq_wait_loop b 0 = State_Monad.return (- 1)"
| "seq_wait_loop b (Suc n) = do { v \<leftarrow> reg_rd b NF_CTRL_STA; if sint v < 0 then State_Monad.return 0 else seq_wait_loop b n }"

definition nf_seq_wait :: "'h bus \<Rightarrow> ('h, 'z, int) dev" where
  "nf_seq_wait b = seq_wait_loop b NF_WAIT_LIMIT"

text \<open>\<open>n\<close> address cycles from cycle \<open>i\<close> on; the result is the next entry of the sequence.\<close>

fun emit_cycles :: "'h bus \<Rightarrow> u32 \<Rightarrow> u32 \<Rightarrow> nat \<Rightarrow> nat \<Rightarrow> ('h, 'z, u32) dev" where
  "emit_cycles b fifo x i 0 = State_Monad.return fifo"
| "emit_cycles b fifo x i (Suc n) = do {
     reg_wr b fifo (push_bit 11 (drop_bit (8 * i) x AND 0xFF) OR 0x62);
     emit_cycles b (fifo + 4) x (i + 1) n
   }"

definition nf_emit_addr :: "'h bus \<Rightarrow> u32 \<Rightarrow> u32 \<Rightarrow> u32 \<Rightarrow> ('h, 'z, u32) dev" where
  "nf_emit_addr b fifo row col = do {
     fifo1 \<leftarrow> emit_cycles b fifo col 0 COL_CYCLES;
     emit_cycles b fifo1 row 0 ROW_CYCLES
   }"

definition l2_bind_nf_dma :: "'h bus \<Rightarrow> ('h, 'z, unit) dev" where
  "l2_bind_nf_dma b = do {
     reg_rmw b L2CTR_DMA_PATH_CFG 0 0x30000000;
     reg_rmw b L2CTR_BUF0_7_CFG 0 0x00200000;
     a \<leftarrow> reg_rd b L2CTR_ASSIGN_REG1;
     reg_wr b L2CTR_ASSIGN_REG1 ((a AND 0xFFFFF1FF) OR 0xA00);
     reg_rmw b L2CTR_BUF0_7_CFG 0 0x20000000
   }"

text \<open>\<open>k\<close> more looks are allowed after this one.\<close>

fun drain_wait :: "'h bus \<Rightarrow> nat \<Rightarrow> u32 \<Rightarrow> ('h, 'z, bool) dev" where
  "drain_wait b k n = do {
     st \<leftarrow> reg_rd b L2CTR_STAT_REG1;
     if drop_bit 20 st AND 0xF < drop_bit 6 n
     then (case k of 0 \<Rightarrow> State_Monad.return False | Suc k1 \<Rightarrow> drain_wait b k1 n)
     else State_Monad.return True
   }"

definition l2_drain :: "'h bus \<Rightarrow> u32 \<Rightarrow> ('h, 'z, int \<times> u32 list) dev" where
  "l2_drain b n = do {
     ok \<leftarrow> drain_wait b NF_WAIT_LIMIT n;
     if \<not> ok then State_Monad.return (NAND_EL2_FILL, [])
     else do { ws \<leftarrow> read_words b L2_NF_BUFFER (unat (n div 4)); State_Monad.return (0, ws) }
   }"

fun raw_end_loop :: "'h bus \<Rightarrow> nat \<Rightarrow> ('h, 'z, int) dev" where
  "raw_end_loop b 0 = State_Monad.return NAND_EDMA_DONE"
| "raw_end_loop b (Suc n) = do {
     v \<leftarrow> reg_rd b ECC_CTRL;
     if v AND ECC_STATUS_END \<noteq> 0 then do { reg_rmw b ECC_CTRL 0 ECC_STATUS_END; State_Monad.return 0 }
     else raw_end_loop b n
   }"

definition nand_read_raw :: "'h bus \<Rightarrow> u32 \<Rightarrow> u32 \<Rightarrow> u32 \<Rightarrow> ('h, 'z, int \<times> u32 list) dev" where
  "nand_read_raw b page col len = do {
     reg_wr b NF_CTRL_STA 0;
     reg_wr b NF_FIFO_HEAD 0x64;
     fifo \<leftarrow> nf_emit_addr b NF_FIFO_NEXT page col;
     reg_wr b fifo 0x18464;
     reg_wr b (fifo + 4) 0x201;
     nf_seq_start b;
     l2_bind_nf_dma b;
     w1 \<leftarrow> nf_seq_wait b;
     if w1 \<noteq> 0 then State_Monad.return (NAND_ESEQ_CMD, [])
     else do {
       reg_wr b ECC_CTRL (push_bit 7 len OR 0x100018);
       reg_wr b NF_CTRL_STA 0;
       reg_wr b NF_FIFO_HEAD (push_bit 11 (len - 1) OR 0x119);
       nf_seq_start b;
       w2 \<leftarrow> nf_seq_wait b;
       if w2 \<noteq> 0 then State_Monad.return (NAND_ESEQ_DATA, [])
       else do {
         (rc, ws) \<leftarrow> l2_drain b len;
         if rc \<noteq> 0 then State_Monad.return (rc, ws)
         else do { rc1 \<leftarrow> raw_end_loop b NF_WAIT_LIMIT; State_Monad.return (rc1, ws) }
       }
     }
   }"

section \<open>Pages with ECC\<close>

datatype ecc_class = ECC_CLEAN | ECC_CORRECTABLE | ECC_UNCORRECTABLE

definition ecc_classify :: "'h bus \<Rightarrow> u32 \<Rightarrow> ('h, 'z, ecc_class) dev" where
  "ecc_classify b status =
     (if status AND ECC_STATUS_NO_ERR \<noteq> 0 then do {
        reg_wr b ECC_CTRL (status OR ECC_STATUS_NO_ERR);
        State_Monad.return ECC_CLEAN
      }
      else if status AND ECC_STATUS_NO_OK \<noteq> 0 then do {
        reg_wr b ECC_CTRL (status OR 3);
        State_Monad.return ECC_UNCORRECTABLE
      }
      else State_Monad.return ECC_CORRECTABLE)"

definition chunk_is_blank :: "bytes \<Rightarrow> bool" where
  "chunk_is_blank data \<longleftrightarrow> list_all (\<lambda>i. of_le32 (data ! (4 * i)) (data ! (4 * i + 1)) (data ! (4 * i + 2)) (data ! (4 * i + 3))
     = 0xFFFFFFFF) [0..<128]"

text \<open>The last status, if the engine was done in time.\<close>

fun ecc_done_loop :: "'h bus \<Rightarrow> nat \<Rightarrow> ('h, 'z, u32 option) dev" where
  "ecc_done_loop b 0 = State_Monad.return None"
| "ecc_done_loop b (Suc n) = do {
     status \<leftarrow> reg_rd b ECC_CTRL;
     if status AND (ECC_STATUS_END OR ECC_STATUS_DEC_RDY) = (ECC_STATUS_END OR ECC_STATUS_DEC_RDY)
     then State_Monad.return (Some status) else ecc_done_loop b n
   }"

text \<open>What follows the transfer of a chunk; \<open>chunk\<close> is what the engine delivered.\<close>

definition finish_chunk :: "'h bus \<Rightarrow> bytes \<Rightarrow> u32 \<Rightarrow> ('h, 'z, int \<times> bytes) nand" where
  "finish_chunk b chunk status = do {
     regs \<leftarrow> read_words b (ECC_ERRPOS 0) (unat ECC_ERRPOS_COUNT);
     reg_rmw b ECC_CTRL 0 ECC_STATUS_END;
     c \<leftarrow> ecc_classify b status;
     case c of
       ECC_CORRECTABLE \<Rightarrow>
         (case ecc_apply regs ECC_ERRPOS_COUNT chunk [0, 0, 0, 0] 4 of (rc, data, _) \<Rightarrow>
            if rc \<noteq> 0 then State_Monad.return (NAND_EBADPOS, data)
            else do {
              modify (\<lambda>s. s\<lparr>corrections := corrections s + of_nat (length (filter (\<lambda>r. r \<noteq> 0) regs))\<rparr>);
              State_Monad.return (0, data)
            })
     | ECC_UNCORRECTABLE \<Rightarrow> State_Monad.return (if \<not> chunk_is_blank chunk then NAND_EUNCORRECTABLE else 0, chunk)
     | ECC_CLEAN \<Rightarrow> State_Monad.return (0, chunk)
   }"

definition read_chunk :: "'h bus \<Rightarrow> ('h, 'z, int \<times> bytes) nand" where
  "read_chunk b = do {
     l2_bind_nf_dma b;
     reg_wr b ECC_CTRL ECC_DMA_DECODE;
     reg_wr b NF_CTRL_STA 0;
     reg_wr b NF_FIFO_HEAD NF_XFER_528;
     nf_seq_start b;
     (rc, ws) \<leftarrow> l2_drain b 0x200;
     let chunk = concat (map le32 ws);
     if rc \<noteq> 0 then State_Monad.return (rc, chunk)
     else do {
       w \<leftarrow> nf_seq_wait b;
       if w \<noteq> 0 then State_Monad.return (NAND_ESEQ_DATA, chunk)
       else do {
         st \<leftarrow> ecc_done_loop b NF_WAIT_LIMIT;
         case st of
           None \<Rightarrow> State_Monad.return (NAND_EDMA_DONE, chunk)
         | Some status \<Rightarrow> finish_chunk b chunk status
       }
     }
   }"

fun read_chunks :: "'h bus \<Rightarrow> nat \<Rightarrow> bytes \<Rightarrow> ('h, 'z, int \<times> bytes) nand" where
  "read_chunks b 0 dst = State_Monad.return (0, dst)"
| "read_chunks b (Suc n) dst = do {
     (rc, chunk) \<leftarrow> read_chunk b;
     if rc \<noteq> 0 then State_Monad.return (rc, dst @ chunk) else read_chunks b n (dst @ chunk)
   }"

definition read_page_once :: "'h bus \<Rightarrow> u32 \<Rightarrow> ('h, 'z, int \<times> bytes) nand" where
  "read_page_once b page = do {
     reg_wr b NF_CTRL_STA 0;
     reg_wr b NF_FIFO_HEAD 0x64;
     fifo \<leftarrow> nf_emit_addr b NF_FIFO_NEXT page 0;
     reg_wr b fifo 0x18064;
     reg_wr b (fifo + 4) 0x201;
     nf_seq_start b;
     w \<leftarrow> nf_seq_wait b;
     if w \<noteq> 0 then State_Monad.return (NAND_ESEQ_CMD, []) else read_chunks b CHUNKS []
   }"

text \<open>\<open>n\<close> tries are left; \<open>old\<close> is what earlier tries stored.\<close>

fun page_tries :: "'h bus \<Rightarrow> u32 \<Rightarrow> bool \<Rightarrow> nat \<Rightarrow> int \<Rightarrow> bytes \<Rightarrow> ('h, 'z, int \<times> bytes) nand" where
  "page_tries b page again 0 rc old = State_Monad.return (rc, old)"
| "page_tries b page again (Suc n) rc old = do {
     (rc1, bs) \<leftarrow> read_page_once b page;
     if rc1 = 0 then do {
       whenM again (modify (\<lambda>s. s\<lparr>retries := retries s + 1\<rparr>));
       State_Monad.return (0, over bs old)
     }
     else page_tries b page True n rc1 (over bs old)
   }"

definition nand_read_page :: "'h bus \<Rightarrow> u32 \<Rightarrow> ('h, 'z, int \<times> bytes) nand" where
  "nand_read_page b page = page_tries b page False PAGE_READ_TRIES 0 []"

section \<open>Blocks and images\<close>

definition block_is_bad :: "'h bus \<Rightarrow> u32 \<Rightarrow> ('h, 'z, bool) nand" where
  "block_is_bad b block = do {
     ppb \<leftarrow> gets pages_per_block;
     (rc, ws) \<leftarrow> nand_read_raw b (block * ppb) 0x410 4;
     State_Monad.return (if rc \<noteq> 0 then True else drop_bit 8 (ws ! 0) AND 0xFF \<noteq> 0xFF)
   }"

text \<open>The first block that is not bad among \<open>n\<close> blocks, or the block after them.\<close>

fun first_good :: "'h bus \<Rightarrow> nat \<Rightarrow> u32 \<Rightarrow> ('h, 'z, u32) nand" where
  "first_good b 0 block = State_Monad.return block"
| "first_good b (Suc n) block = do {
     bad \<leftarrow> block_is_bad b block;
     if bad then first_good b n (block + 1) else State_Monad.return block
   }"

definition has_magic :: "bytes \<Rightarrow> bool" where
  "has_magic page \<longleftrightarrow> list_all (\<lambda>k. page ! k = ipl_magic ! k) [0..<8]"

definition log_found :: "u32 \<Rightarrow> u32 \<Rightarrow> 'a log_st_scheme \<Rightarrow> 'a log_st_scheme" where
  "log_found ppb block s =
     log_putc 10 (log_dec block (log_puts (cs '', IPL at block '') (log_dec ppb (log_puts (cs ''nand: pages_per_block '') s))))"

fun probe_loop :: "'h bus \<Rightarrow> u32 list \<Rightarrow> ('h, 'z, int) nand" where
  "probe_loop b [] = do { modify (\<lambda>s. s\<lparr>pages_per_block := 0\<rparr>); State_Monad.return NAND_EPROBE }"
| "probe_loop b (c # cands) = do {
     modify (\<lambda>s. s\<lparr>pages_per_block := c\<rparr>);
     block \<leftarrow> first_good b 16 IPL_START_BLOCK;
     if block = IPL_START_BLOCK + 16 then probe_loop b cands
     else do {
       (rc, page) \<leftarrow> nand_read_page b (block * c);
       if rc \<noteq> 0 then probe_loop b cands
       else if has_magic page then do { modify (log_found c block); State_Monad.return 0 }
       else probe_loop b cands
     }
   }"

definition candidates :: "u32 list" where
  "candidates = [64, 128, 32, 256]"

definition nand_probe_geometry :: "'h bus \<Rightarrow> ('h, 'z, int) nand" where
  "nand_probe_geometry b = probe_loop b candidates"

text \<open>\<open>k\<close> pages of the block are left.\<close>

fun load_pages :: "'h bus \<Rightarrow> u32 \<Rightarrow> nat \<Rightarrow> u32 \<Rightarrow> bytes \<Rightarrow> ('h, 'z, int \<times> u32 \<times> bytes) nand" where
  "load_pages b page 0 remaining out = State_Monad.return (0, remaining, out)"
| "load_pages b page (Suc k) remaining out =
     (if remaining = 0 then State_Monad.return (0, remaining, out)
      else do {
        (rc, bs) \<leftarrow> nand_read_page b page;
        if rc \<noteq> 0 then do {
          modify (\<lambda>s. log_rc rc (log_dec page (log_puts (cs ''nand: read failed at page '') s)));
          State_Monad.return (rc, remaining, out @ bs)
        }
        else load_pages b (page + 1) k (remaining - PAGE_SIZE) (out @ bs)
      })"

fun load_blocks :: "'h bus \<Rightarrow> nat \<Rightarrow> u32 \<Rightarrow> u32 \<Rightarrow> nat \<Rightarrow> bytes \<Rightarrow> ('h, 'z, (int \<times> bytes) option) nand" where
  "load_blocks b 0 block remaining skipped out = State_Monad.return None"
| "load_blocks b (Suc fuel) block remaining skipped out =
     (if remaining = 0 then State_Monad.return (Some (0, out))
      else do {
        bad \<leftarrow> block_is_bad b block;
        if bad then
          if MAX_BAD_SKIP < skipped + 1 then State_Monad.return (Some (NAND_EBADRUN, out))
          else do {
            modify (\<lambda>s. log_putc 10 (log_dec block (log_puts (cs ''nand: skipping bad block '') s)));
            load_blocks b fuel (block + 1) remaining (skipped + 1) out
          }
        else do {
          ppb \<leftarrow> gets pages_per_block;
          (rc, remaining1, out1) \<leftarrow> load_pages b (block * ppb) (unat ppb) remaining out;
          if rc \<noteq> 0 then State_Monad.return (Some (rc, out1)) else load_blocks b fuel (block + 1) remaining1 skipped out1
        }
      })"

text \<open>The return code and the bytes stored at \<open>dst\<close>.\<close>

definition nand_load_image :: "'h bus \<Rightarrow> u32 \<Rightarrow> u32 \<Rightarrow> ('h, 'z, (int \<times> bytes) option) nand" where
  "nand_load_image b start_block n = do {
     ppb \<leftarrow> gets pages_per_block;
     if ppb = 0 then State_Monad.return (Some (NAND_ENOGEOM, []))
     else if n = 0 \<or> n AND (PAGE_SIZE - 1) \<noteq> 0 then State_Monad.return (Some (NAND_ELEN, []))
     else load_blocks b (unat n + MAX_BAD_SKIP + 1) start_block n 0 []
   }"


section \<open>Every hardware\<close>

text \<open>Whatever the hardware answers, a page read that succeeds stores a whole page, one that fails at most a page.\<close>

lemma yields_case_option:
  "yields P m \<Longrightarrow> (\<And>x. yields P (f x)) \<Longrightarrow> yields P (case x of None \<Rightarrow> m | Some y \<Rightarrow> f y)"
  by (cases x) simp_all

lemma yields_case_prod: "(\<And>a c. p = (a, c) \<Longrightarrow> yields P (f a c)) \<Longrightarrow> yields P (case p of (a, c) \<Rightarrow> f a c)"
  by (cases p) simp

lemma read_words_length: "yields (\<lambda>ws. length ws = n) (read_words b a n)"
proof (induction n arbitrary: a)
  case (Suc n)
  show ?case unfolding read_words.simps by (rule yields_then, rule yields_bind [OF Suc]) (auto intro: yields_return)
qed (simp add: yields_return)

lemma l2_drain_yields: "yields (\<lambda>(rc, ws). rc = 0 \<and> length ws = unat (n div 4) \<or> rc \<noteq> 0 \<and> ws = []) (l2_drain b n)"
  unfolding l2_drain_def
  by (rule yields_then, rule yields_if)
    (auto intro!: yields_return yields_bind [OF read_words_length] simp: NAND_EL2_FILL_def)

lemma ecc_apply_loop_length: "length (fst (snd (ecc_apply_loop regs data tag n k))) = length data"
  by (induction regs data tag n k rule: ecc_apply_loop.induct) (auto split: option.splits)

lemma concat_le32_length: "length (concat (map le32 ws)) = 4 * length ws"
  by (induction ws) simp_all

lemma finish_chunk_yields: "yields (\<lambda>(rc, bs). length bs = length chunk) (finish_chunk b chunk status)"
  unfolding finish_chunk_def
proof (intro yields_then)
  fix regs u c
  show "yields (\<lambda>(rc, bs). length bs = length chunk)
      (case c of
         ECC_CORRECTABLE \<Rightarrow>
           (case ecc_apply regs ECC_ERRPOS_COUNT chunk [0, 0, 0, 0] 4 of (rc, data, _) \<Rightarrow>
              if rc \<noteq> 0 then State_Monad.return (NAND_EBADPOS, data)
              else do {
                modify (\<lambda>s. s\<lparr>corrections := corrections s + of_nat (length (filter (\<lambda>r. r \<noteq> 0) regs))\<rparr>);
                State_Monad.return (0, data)
              })
       | ECC_UNCORRECTABLE \<Rightarrow> State_Monad.return (if \<not> chunk_is_blank chunk then NAND_EUNCORRECTABLE else 0, chunk)
       | ECC_CLEAN \<Rightarrow> State_Monad.return (0, chunk))"
    using ecc_apply_loop_length [of "take (unat ECC_ERRPOS_COUNT) regs" chunk "[0, 0, 0, 0]" 4 0]
    by (cases c) (auto simp: ecc_apply_def split: prod.splits intro!: yields_return yields_then)
qed

text \<open>\<open>n\<close> bytes on success, at most \<open>n\<close> otherwise.\<close>

definition whole :: "nat \<Rightarrow> int \<times> bytes \<Rightarrow> bool" where
  "whole n r \<longleftrightarrow> length (snd r) = n \<or> fst r \<noteq> 0 \<and> length (snd r) \<le> n"

lemma whole_pair: "whole n (rc, bs) \<longleftrightarrow> length bs = n \<or> rc \<noteq> 0 \<and> length bs \<le> n"
  by (simp add: whole_def)

lemma read_chunk_yields: "yields (whole 512) (read_chunk b)"
proof -
  have fin: "yields (whole 512) (finish_chunk b chunk status)" if "length chunk = 512" for chunk status
    by (rule yields_mono [OF finish_chunk_yields]) (auto simp: whole_def that)
  show ?thesis
    unfolding read_chunk_def Let_def
    by (rule yields_then, rule yields_then, rule yields_then, rule yields_then, rule yields_then,
        rule yields_bind [OF l2_drain_yields], rule yields_case_prod, intro yields_if yields_then yields_case_option)
      (auto intro!: yields_return fin simp: whole_pair concat_le32_length)
qed

lemma read_chunks_yields:
  fixes b :: "'h bus"
  shows "yields (whole (length dst + 512 * n)) (read_chunks b n dst :: ('h, 'z, int \<times> bytes) nand)"
proof (induction n arbitrary: dst)
  case (Suc n)
  have "yields (whole (length dst + 512 * Suc n)) (read_chunks b n (dst @ chunk) :: ('h, 'z, int \<times> bytes) nand)" if "length chunk = 512" for chunk
    using Suc [of "dst @ chunk"] that by (simp add: add.assoc)
  then show ?case
    unfolding read_chunks.simps
    by (intro yields_bind [OF read_chunk_yields] yields_case_prod yields_if)
      (auto intro!: yields_return simp: whole_pair)
qed (auto intro: yields_return simp: whole_pair)

lemma read_page_once_yields: "yields (whole 2048) (read_page_once b page)"
proof -
  have "yields (whole 2048) (read_chunks b CHUNKS [])" using read_chunks_yields [of "[]" CHUNKS b] by (simp add: CHUNKS_def)
  then show ?thesis
    unfolding read_page_once_def
    by (intro yields_then yields_if) (auto intro!: yields_return simp: whole_pair NAND_ESEQ_CMD_def)
qed

lemma page_tries_yields:
  fixes b :: "'h bus"
  shows "length old \<le> 2048 \<Longrightarrow> rc \<noteq> 0 \<or> n \<noteq> 0 \<Longrightarrow>
    yields (whole 2048) (page_tries b page again n rc old :: ('h, 'z, int \<times> bytes) nand)"
proof (induction n arbitrary: again rc old)
  case (Suc n)
  have "yields (whole 2048) (page_tries b page True n rc1 (over bs old) :: ('h, 'z, int \<times> bytes) nand)" if "length bs \<le> 2048" "rc1 \<noteq> 0" for bs rc1
    by (rule Suc.IH) (use Suc.prems(1) that in \<open>auto simp: over_def\<close>)
  then show ?case
    unfolding page_tries.simps using Suc.prems(1)
    by (intro yields_bind [OF read_page_once_yields] yields_case_prod yields_if yields_then)
      (auto intro!: yields_return simp: whole_pair, auto simp: over_def)
qed (auto intro: yields_return simp: whole_pair)

lemma nand_read_page_yields: "yields (whole 2048) (nand_read_page b page)"
  unfolding nand_read_page_def by (rule page_tries_yields) (simp_all add: PAGE_READ_TRIES_def)

text \<open>Reads do not change the geometry.\<close>

lemma keeps_geometry_regs:
  fixes b :: "'h bus"
  shows "keeps pages_per_block (reg_rd b a :: ('h, 'z, u32) nand)" and "keeps pages_per_block (reg_wr b a v :: ('h, 'z, unit) nand)"
    and "keeps pages_per_block (reg_rmw b a c v :: ('h, 'z, unit) nand)"
  by (auto simp: keeps_def run_reg_rd run_reg_wr reg_rmw_def run_bind)

lemma keeps_gets: "keeps f (gets g)"
  by (simp add: keeps_def run_gets)

lemma keeps_modify: "(\<And>s. f (g s) = f s) \<Longrightarrow> keeps f (modify g)"
  by (simp add: keeps_def run_modify)

lemma keeps_when: "keeps f m \<Longrightarrow> keeps f (whenM c m)"
  by (simp add: keeps_def run_when)

lemma keeps_case_option: "keeps f m \<Longrightarrow> (\<And>x. keeps f (g x)) \<Longrightarrow> keeps f (case x of None \<Rightarrow> m | Some y \<Rightarrow> g y)"
  by (cases x) simp_all

lemmas geometry_rules = keeps_rules keeps_geometry_regs keeps_gets keeps_modify keeps_when keeps_case_option

lemma keeps_geometry_loops:
  fixes b :: "'h bus"
  shows "keeps pages_per_block (seq_wait_loop b n :: ('h, 'z, int) nand)"
    and "keeps pages_per_block (emit_cycles b a x i n :: ('h, 'z, u32) nand)"
    and "keeps pages_per_block (read_words b a n :: ('h, 'z, u32 list) nand)"
    and "keeps pages_per_block (raw_end_loop b n :: ('h, 'z, int) nand)"
    and "keeps pages_per_block (ecc_done_loop b n :: ('h, 'z, u32 option) nand)"
proof -
  show "keeps pages_per_block (seq_wait_loop b n :: ('h, 'z, int) nand)"
    by (induction n) (simp_all, (intro geometry_rules | assumption)+)
  show "keeps pages_per_block (emit_cycles b a x i n :: ('h, 'z, u32) nand)"
    by (induction n arbitrary: a i) (simp_all, (intro geometry_rules | simp)+)
  show "keeps pages_per_block (read_words b a n :: ('h, 'z, u32 list) nand)"
    by (induction n arbitrary: a) (simp_all, (intro geometry_rules | simp)+)
  show "keeps pages_per_block (raw_end_loop b n :: ('h, 'z, int) nand)"
    by (induction n) (simp_all, (intro geometry_rules | assumption)+)
  show "keeps pages_per_block (ecc_done_loop b n :: ('h, 'z, u32 option) nand)"
    by (induction n) (simp_all, (intro geometry_rules | assumption)+)
qed

lemma keeps_geometry_drain_wait: "keeps pages_per_block (drain_wait b k n :: ('h, 'z, bool) nand)"
proof (induction k)
  case (Suc k)
  show ?case unfolding drain_wait.simps [of b "Suc k"] nat.case by (intro geometry_rules Suc)
next
  case 0
  show ?case unfolding drain_wait.simps [of b 0] nat.case by (intro geometry_rules)
qed

lemma keeps_geometry_parts:
  fixes b :: "'h bus"
  shows "keeps pages_per_block (nf_seq_start b :: ('h, 'z, unit) nand)"
    and "keeps pages_per_block (nf_seq_wait b :: ('h, 'z, int) nand)"
    and "keeps pages_per_block (nf_emit_addr b a r c :: ('h, 'z, u32) nand)"
    and "keeps pages_per_block (l2_bind_nf_dma b :: ('h, 'z, unit) nand)"
    and "keeps pages_per_block (l2_drain b n :: ('h, 'z, int \<times> u32 list) nand)"
    and "keeps pages_per_block (ecc_classify b st :: ('h, 'z, ecc_class) nand)"
  unfolding nf_seq_start_def nf_seq_wait_def nf_emit_addr_def l2_bind_nf_dma_def l2_drain_def ecc_classify_def
  by (intro geometry_rules keeps_geometry_loops keeps_geometry_drain_wait)+

lemmas geometry_parts = geometry_rules keeps_geometry_loops keeps_geometry_parts

lemma keeps_geometry_bad: "keeps pages_per_block (block_is_bad b block)"
  unfolding block_is_bad_def nand_read_raw_def by (intro geometry_parts)

lemma keeps_case_ecc:
  "keeps f m \<Longrightarrow> keeps f n \<Longrightarrow> keeps f k \<Longrightarrow>
   keeps f (case c of ECC_CORRECTABLE \<Rightarrow> m | ECC_UNCORRECTABLE \<Rightarrow> n | ECC_CLEAN \<Rightarrow> k)"
  by (cases c) simp_all

lemma keeps_geometry_finish: "keeps pages_per_block (finish_chunk b chunk st)"
  unfolding finish_chunk_def by (intro geometry_parts keeps_case_ecc) simp_all

lemma keeps_geometry_page: "keeps pages_per_block (nand_read_page b page)"
proof -
  have chunk: "keeps pages_per_block (read_chunk b)"
    unfolding read_chunk_def by (intro geometry_parts keeps_geometry_finish)
  have "keeps pages_per_block (read_chunks b n dst)" for n dst
    by (induction n arbitrary: dst) (simp_all, (intro geometry_rules chunk | simp)+)
  then have once: "keeps pages_per_block (read_page_once b page)"
    unfolding read_page_once_def by (intro geometry_parts)
  have "keeps pages_per_block (page_tries b page again n rc old)" for again n rc old
    by (induction n arbitrary: again rc old) (simp_all, (intro geometry_rules once | simp)+)
  then show ?thesis by (simp add: nand_read_page_def)
qed


section \<open>The image on the flash\<close>

text \<open>What the loader relies on, while \<open>I\<close> holds of the hardware and the geometry: a block is seen as bad exactly
  when it is, and a page read that succeeds gives the data of the page. Page reads may fail, but
  not when the flash is \<open>rel\<close>iable.\<close>

definition flash_law ::
  "'h bus \<Rightarrow> (('h, 'z) nand_st_scheme \<Rightarrow> bool) \<Rightarrow> (u32 \<Rightarrow> bool) \<Rightarrow> (u32 \<Rightarrow> bytes) \<Rightarrow> bool \<Rightarrow> bool" where
  "flash_law b I bad flash rel \<longleftrightarrow> (\<forall>p. length (flash p) = 2048) \<and>
     (\<forall>s s'. I s \<and> hwst s' = hwst s \<and> pages_per_block s' = pages_per_block s \<longrightarrow> I s') \<and>
     (\<forall>s block. I s \<longrightarrow> fst (run_state (block_is_bad b block) s) = bad block \<and> I (snd (run_state (block_is_bad b block) s))) \<and>
     (\<forall>s page. I s \<longrightarrow> (fst (fst (run_state (nand_read_page b page) s)) = 0 \<longrightarrow>
        snd (fst (run_state (nand_read_page b page) s)) = flash page) \<and> (rel \<longrightarrow> fst (fst (run_state (nand_read_page b page) s)) = 0) \<and>
        I (snd (run_state (nand_read_page b page) s)))"

definition nand_inv :: "(('h, 'z) nand_st_scheme \<Rightarrow> bool) \<Rightarrow> u32 \<Rightarrow> ('h, 'z) nand_st_scheme \<Rightarrow> bool" where
  "nand_inv I ppb s \<longleftrightarrow> I s \<and> pages_per_block s = ppb"

text \<open>The pages of the good blocks among \<open>n\<close> blocks, and how many of these are bad.\<close>

definition block_pages :: "u32 \<Rightarrow> nat \<Rightarrow> u32 list" where
  "block_pages page k = map (\<lambda>i. page + of_nat i) [0..<k]"

fun image_pages :: "(u32 \<Rightarrow> bool) \<Rightarrow> u32 \<Rightarrow> nat \<Rightarrow> u32 \<Rightarrow> u32 list" where
  "image_pages bad ppb 0 block = []"
| "image_pages bad ppb (Suc n) block =
     (if bad block then [] else block_pages (block * ppb) (unat ppb)) @ image_pages bad ppb n (block + 1)"

fun bad_count :: "(u32 \<Rightarrow> bool) \<Rightarrow> nat \<Rightarrow> u32 \<Rightarrow> nat" where
  "bad_count bad 0 block = 0"
| "bad_count bad (Suc n) block = (if bad block then 1 else 0) + bad_count bad n (block + 1)"

lemma block_pages_Suc [simp]: "block_pages page 0 = []" "block_pages page (Suc k) = page # block_pages (page + 1) k"
proof -
  have "map f [0..<Suc k] = f 0 # map (f \<circ> Suc) [0..<k]" for f :: "nat \<Rightarrow> u32"
    by (simp add: upt_conv_Cons map_Suc_upt [symmetric] del: upt_Suc)
  then show "block_pages page (Suc k) = page # block_pages (page + 1) k"
    by (simp add: block_pages_def comp_def ac_simps del: upt_Suc)
qed (simp add: block_pages_def)

lemma block_is_bad_spec:
  assumes "flash_law b I bad flash rel"
  shows "triple (nand_inv I ppb) (block_is_bad b block) (\<lambda>x s. nand_inv I ppb s \<and> x = bad block)"
proof (rule tripleI)
  fix s x s' assume i: "nand_inv I ppb s" and run: "run_state (block_is_bad b block) s = (x, s')"
  have "I s" using i by (simp add: nand_inv_def)
  then have "fst (run_state (block_is_bad b block) s) = bad block \<and> I (snd (run_state (block_is_bad b block) s))"
    using assms unfolding flash_law_def by blast
  then show "nand_inv I ppb s' \<and> x = bad block"
    using i run keepsD [OF keeps_geometry_bad, of b block s] by (simp add: nand_inv_def)
qed

lemma nand_read_page_spec:
  assumes "flash_law b I bad flash rel"
  shows "triple (nand_inv I ppb) (nand_read_page b page)
    (\<lambda>r s. nand_inv I ppb s \<and> (fst r = 0 \<and> snd r = flash page \<or> \<not> rel \<and> fst r \<noteq> 0 \<and> length (snd r) \<le> 2048))"
proof (rule tripleI)
  fix s r s' assume i: "nand_inv I ppb s" and run: "run_state (nand_read_page b page) s = (r, s')"
  have "I s" using i by (simp add: nand_inv_def)
  then have "(fst (fst (run_state (nand_read_page b page) s)) = 0 \<longrightarrow> snd (fst (run_state (nand_read_page b page) s)) = flash page)
      \<and> (rel \<longrightarrow> fst (fst (run_state (nand_read_page b page) s)) = 0) \<and> I (snd (run_state (nand_read_page b page) s))"
    using assms unfolding flash_law_def by blast
  moreover have "whole 2048 r" using yieldsD [OF nand_read_page_yields, of b page s] run by simp
  ultimately show "nand_inv I ppb s' \<and> (fst r = 0 \<and> snd r = flash page \<or> \<not> rel \<and> fst r \<noteq> 0 \<and> length (snd r) \<le> 2048)"
    using i run keepsD [OF keeps_geometry_page, of b page s] by (auto simp: nand_inv_def whole_def)
qed

text \<open>Logging changes nothing but the log.\<close>

lemma log_putc_more [simp]: "log_st.more (log_putc c s) = log_st.more s"
  by (simp add: log_putc_def Let_def)

lemma log_puts_more [simp]: "log_st.more (log_puts str s) = log_st.more s"
  unfolding log_puts_def by (induction str arbitrary: s) simp_all

lemma log_dec_more [simp]: "log_st.more (log_dec x s) = log_st.more s"
proof -
  have "log_st.more (log_dec_loop ps x st s) = log_st.more s" for ps st
    by (induction ps arbitrary: x st s) (simp_all split: prod.splits)
  then show ?thesis by (simp add: log_dec_def)
qed

lemma log_rc_more [simp]: "log_st.more (log_rc rc s) = log_st.more s"
  by (simp add: log_rc_def)

lemma log_hex32_more [simp]: "log_st.more (log_hex32 x s) = log_st.more s"
  by (simp add: log_hex32_def)

lemma log_more_nand:
  assumes "log_st.more s' = log_st.more s"
  shows "hwst s' = hwst s" and "pages_per_block s' = pages_per_block s"
  using assms by (cases s; cases s'; simp)+

lemma nand_inv_log:
  assumes "flash_law b I bad flash rel" and "nand_inv I ppb s" and "log_st.more s' = log_st.more s"
  shows "nand_inv I ppb s'"
proof -
  have "I s'" using assms(1,2) log_more_nand [OF assms(3)] unfolding flash_law_def nand_inv_def by blast
  then show ?thesis using assms(2) log_more_nand(2) [OF assms(3)] by (simp add: nand_inv_def)
qed

lemma load_pages_spec:
  assumes law: "flash_law b I bad flash rel"
  shows "2048 dvd unat remaining \<Longrightarrow> triple (nand_inv I ppb) (load_pages b page k remaining out)
    (\<lambda>(rc, remaining', out') s. nand_inv I ppb s \<and> length out' \<le> length out + unat remaining \<and> (rel \<longrightarrow> rc = 0) \<and>
       (rc = 0 \<longrightarrow> 2048 dvd unat remaining' \<and> unat remaining' = unat remaining - 2048 * k \<and>
          out' = out @ take (unat remaining) (concat (map flash (block_pages page k)))))"
proof (induction k arbitrary: page remaining out)
  case 0
  then show ?case by (auto intro: triple_return)
next
  case (Suc k)
  have len: "length (flash p) = 2048" for p using law by (simp add: flash_law_def)
  show ?case
  proof (rule tripleI)
    fix s r s' assume i: "nand_inv I ppb s" and run: "run_state (load_pages b page (Suc k) remaining out) s = (r, s')"
    have "\<exists>rc remaining' out'. r = (rc, remaining', out') \<and> nand_inv I ppb s' \<and> length out' \<le> length out + unat remaining \<and> (rel \<longrightarrow> rc = 0) \<and>
       (rc = 0 \<longrightarrow> 2048 dvd unat remaining' \<and> unat remaining' = unat remaining - 2048 * Suc k \<and>
          out' = out @ take (unat remaining) (concat (map flash (block_pages page (Suc k)))))"
    proof (cases "remaining = 0")
      case True
      then have "r = (0, remaining, out)" "s' = s" using run by (simp_all add: run_simps)
      then show ?thesis using i True by simp
    next
      case False
      then have "0 < unat remaining" by (simp add: unat_gt_0)
      then have ge: "2048 \<le> unat remaining" using Suc.prems by (simp add: dvd_imp_le)
      obtain rc bs s1 where p: "run_state (nand_read_page b page) s = ((rc, bs), s1)" by (metis prod.collapse)
      have rp: "nand_inv I ppb s1" "rc = 0 \<and> bs = flash page \<or> \<not> rel \<and> rc \<noteq> 0 \<and> length bs \<le> 2048"
        using tripleD [OF nand_read_page_spec [OF law] i p] by simp_all
      show ?thesis
      proof (cases "rc = 0")
        case ok: True
        have u: "unat (remaining - PAGE_SIZE) = unat remaining - 2048"
          using ge by (simp add: PAGE_SIZE_def unat_sub word_le_nat_alt)
        have d: "2048 dvd unat (remaining - PAGE_SIZE)" using Suc.prems ge by (simp add: u)
        have "run_state (load_pages b (page + 1) k (remaining - PAGE_SIZE) (out @ flash page)) s1 = (r, s')"
          using run False ok rp(2) by (simp add: run_simps p)
        from tripleD [OF Suc.IH [OF d] rp(1) this] show ?thesis
          using ge by (cases r) (auto simp: u len)
      next
        case bad: False
        then have "r = (rc, remaining, out @ bs)"
            "s' = log_rc rc (log_dec page (log_puts (cs ''nand: read failed at page '') s1))"
          using run False by (simp_all add: run_simps p)
        then show ?thesis using rp bad ge by (auto intro: nand_inv_log [OF law rp(1)])
      qed
    qed
    then show "(case r of (rc, remaining', out') \<Rightarrow> \<lambda>s. nand_inv I ppb s \<and> length out' \<le> length out + unat remaining \<and> (rel \<longrightarrow> rc = 0) \<and>
       (rc = 0 \<longrightarrow> 2048 dvd unat remaining' \<and> unat remaining' = unat remaining - 2048 * Suc k \<and>
          out' = out @ take (unat remaining) (concat (map flash (block_pages page (Suc k)))))) s'"
      by auto
  qed
qed


lemma length_concat_flash: "\<forall>p. length (flash p) = 2048 \<Longrightarrow> length (concat (map flash ps)) = 2048 * length ps"
  by (induction ps) simp_all

lemma load_blocks_spec:
  assumes law: "flash_law b I bad flash rel" and ppb: "ppb \<noteq> 0"
  shows "2048 dvd unat remaining \<Longrightarrow> skipped \<le> MAX_BAD_SKIP \<Longrightarrow> unat remaining + MAX_BAD_SKIP < fuel + skipped \<Longrightarrow>
    triple (nand_inv I ppb) (load_blocks b fuel block remaining skipped out)
    (\<lambda>r s. \<exists>rc out'. r = Some (rc, out') \<and> length out' \<le> length out + unat remaining \<and>
       (rel \<longrightarrow> rc = 0 \<or> (\<exists>k. MAX_BAD_SKIP < skipped + bad_count bad k block)) \<and>
       (rc = 0 \<longrightarrow> (\<exists>n. out' = out @ take (unat remaining) (concat (map flash (image_pages bad ppb n block))) \<and>
          length out' = length out + unat remaining \<and> skipped + bad_count bad n block \<le> MAX_BAD_SKIP)))"
proof (induction fuel arbitrary: block remaining skipped out)
  case 0
  then show ?case by simp
next
  case (Suc fuel)
  have len: "\<forall>p. length (flash p) = 2048" using law by (simp add: flash_law_def)
  show ?case
  proof (rule tripleI)
    fix s r s' assume i: "nand_inv I ppb s" and run: "run_state (load_blocks b (Suc fuel) block remaining skipped out) s = (r, s')"
    let ?Q = "\<exists>rc out'. r = Some (rc, out') \<and> length out' \<le> length out + unat remaining \<and>
       (rel \<longrightarrow> rc = 0 \<or> (\<exists>k. MAX_BAD_SKIP < skipped + bad_count bad k block)) \<and>
       (rc = 0 \<longrightarrow> (\<exists>n. out' = out @ take (unat remaining) (concat (map flash (image_pages bad ppb n block))) \<and>
          length out' = length out + unat remaining \<and> skipped + bad_count bad n block \<le> MAX_BAD_SKIP))"
    show ?Q
    proof (cases "remaining = 0")
      case True
      then have r: "r = Some (0, out)" using run by (simp add: run_simps)
      show ?Q using True Suc.prems(2) unfolding r by (auto intro!: exI [of _ 0])
    next
      case False
      obtain x s1 where bb: "run_state (block_is_bad b block) s = (x, s1)" by (metis prod.collapse)
      have b1: "nand_inv I ppb s1" "x = bad block" using tripleD [OF block_is_bad_spec [OF law] i bb] by simp_all
      show ?Q
      proof (cases "bad block")
        case isbad: True
        show ?Q
        proof (cases "MAX_BAD_SKIP < skipped + 1")
          case True
          then have "r = Some (NAND_EBADRUN, out)" using run False isbad by (simp add: run_simps bb b1)
          moreover have "MAX_BAD_SKIP < skipped + bad_count bad (Suc 0) block" using True isbad by simp
          ultimately show ?Q by (auto simp: NAND_EBADRUN_def simp del: bad_count.simps)
        next
          case few: False
          define s2 where "s2 = log_putc 10 (log_dec block (log_puts (cs ''nand: skipping bad block '') s1))"
          have i2: "nand_inv I ppb s2" by (rule nand_inv_log [OF law b1(1)]) (simp add: s2_def)
          have r2: "run_state (load_blocks b fuel (block + 1) remaining (skipped + 1) out) s2 = (r, s')"
            using run False isbad few by (simp add: run_simps bb b1 s2_def)
          have "skipped + 1 \<le> MAX_BAD_SKIP" "unat remaining + MAX_BAD_SKIP < fuel + (skipped + 1)" using few Suc.prems by simp_all
          from tripleD [OF Suc.IH [OF Suc.prems(1) this] i2 r2] obtain rc out' where
            o: "r = Some (rc, out')" "length out' \<le> length out + unat remaining" "rc = 0 \<longrightarrow> (\<exists>n. out' = out @ take (unat remaining)
              (concat (map flash (image_pages bad ppb n (block + 1)))) \<and> length out' = length out + unat remaining \<and>
              skipped + 1 + bad_count bad n (block + 1) \<le> MAX_BAD_SKIP)"
            and live: "rel \<longrightarrow> rc = 0 \<or> (\<exists>k. MAX_BAD_SKIP < skipped + 1 + bad_count bad k (block + 1))" by blast
          have more_bad: "MAX_BAD_SKIP < skipped + bad_count bad (Suc k) block"
            if "MAX_BAD_SKIP < skipped + 1 + bad_count bad k (block + 1)" for k using that isbad by simp
          have "\<exists>n. out' = out @ take (unat remaining) (concat (map flash (image_pages bad ppb n block))) \<and>
              length out' = length out + unat remaining \<and> skipped + bad_count bad n block \<le> MAX_BAD_SKIP" if rc0: "rc = 0"
          proof -
            from o(3) rc0 obtain n where "out' = out @ take (unat remaining) (concat (map flash (image_pages bad ppb n (block + 1))))"
              "length out' = length out + unat remaining" "skipped + 1 + bad_count bad n (block + 1) \<le> MAX_BAD_SKIP" by blast
            then show ?thesis using isbad by (intro exI [of _ "Suc n"]) simp
          qed
          then show ?Q using o(1,2) live more_bad by blast
        qed
      next
        case good: False
        have ppb1: "pages_per_block s1 = ppb" using b1(1) by (simp add: nand_inv_def)
        obtain rc1 remaining1 out1 s2 where lp: "run_state (load_pages b (block * ppb) (unat ppb) remaining out) s1
            = ((rc1, remaining1, out1), s2)" by (metis prod.collapse)
        let ?pg = "block_pages (block * ppb) (unat ppb)"
        have l: "nand_inv I ppb s2" "length out1 \<le> length out + unat remaining" "rc1 = 0 \<longrightarrow> 2048 dvd unat remaining1 \<and>
            unat remaining1 = unat remaining - 2048 * unat ppb \<and> out1 = out @ take (unat remaining) (concat (map flash ?pg))"
            "rel \<longrightarrow> rc1 = 0"
          using tripleD [OF load_pages_spec [OF law Suc.prems(1)] b1(1) lp] by auto
        show ?Q
        proof (cases "rc1 = 0")
          case bad1: False
          then have "r = Some (rc1, out1)" "\<not> rel" using run False good l(4) by (simp_all add: run_simps bb b1 ppb1 lp)
          then show ?Q using l(2) bad1 by simp
        next
          case ok: True
          have r2: "run_state (load_blocks b fuel (block + 1) remaining1 skipped out1) s2 = (r, s')"
            using run False good ok by (simp add: run_simps bb b1 ppb1 lp)
          have l1: "2048 dvd unat remaining1" "unat remaining1 = unat remaining - 2048 * unat ppb"
              "out1 = out @ take (unat remaining) (concat (map flash ?pg))" using l(3) ok by blast+
          have pos: "0 < unat ppb" "0 < unat remaining" using ppb False by (simp_all add: unat_gt_0)
          then have "unat remaining1 < unat remaining" using l1(2) by simp
          then have "unat remaining1 + MAX_BAD_SKIP < fuel + skipped" using Suc.prems(3) by simp
          from tripleD [OF Suc.IH [OF l1(1) Suc.prems(2) this] l(1) r2] obtain rc out' where
            o: "r = Some (rc, out')" "length out' \<le> length out1 + unat remaining1" "rc = 0 \<longrightarrow> (\<exists>n. out' = out1 @ take (unat remaining1)
              (concat (map flash (image_pages bad ppb n (block + 1)))) \<and> length out' = length out1 + unat remaining1 \<and>
              skipped + bad_count bad n (block + 1) \<le> MAX_BAD_SKIP)"
            and live: "rel \<longrightarrow> rc = 0 \<or> (\<exists>k. MAX_BAD_SKIP < skipped + bad_count bad k (block + 1))" by blast
          have more_bad: "MAX_BAD_SKIP < skipped + bad_count bad (Suc k) block"
            if "MAX_BAD_SKIP < skipped + bad_count bad k (block + 1)" for k using that good by simp
          have plen: "length (concat (map flash ?pg)) = 2048 * unat ppb"
            using length_concat_flash [OF len, of ?pg] by (simp add: block_pages_def)
          have out1: "length out1 + unat remaining1 = length out + unat remaining"
            using l1(2) by (simp add: l1(3) plen)
          have "\<exists>n. out' = out @ take (unat remaining) (concat (map flash (image_pages bad ppb n block))) \<and>
              length out' = length out + unat remaining \<and> skipped + bad_count bad n block \<le> MAX_BAD_SKIP" if rc0: "rc = 0"
          proof -
            from o(3) rc0 obtain n where "out' = out1 @ take (unat remaining1) (concat (map flash (image_pages bad ppb n (block + 1))))"
              "length out' = length out1 + unat remaining1" "skipped + bad_count bad n (block + 1) \<le> MAX_BAD_SKIP" by blast
            then show ?thesis using good plen out1 by (intro exI [of _ "Suc n"]) (simp add: l1)
          qed
          moreover have "length out' \<le> length out + unat remaining" using o(2) out1 by simp
          ultimately show ?Q using o(1) live more_bad by blast
        qed
      qed
    qed
  qed
qed

lemma mask_11: "(mask 11 :: u32) = 2047"
  by (simp add: mask_eq_exp_minus_1)

lemma whole_pages: "n AND (PAGE_SIZE - 1) = 0 \<longleftrightarrow> 2048 dvd unat n"
proof -
  have "n AND (PAGE_SIZE - 1) = take_bit 11 n" by (simp add: PAGE_SIZE_def take_bit_eq_mask mask_11)
  then show ?thesis by (simp add: take_bit_eq_mod word_unat_eq_iff unat_mod mod_eq_0_iff_dvd)
qed

section \<open>The loop ends on every hardware\<close>

lemma load_pages_left:
  fixes b :: "'h bus"
  shows "2048 dvd unat remaining \<Longrightarrow> yields (\<lambda>(rc, left, _). rc = 0 \<longrightarrow> 2048 dvd unat left \<and> unat left = unat remaining - 2048 * k)
    (load_pages b page k remaining out :: ('h, 'z, int \<times> u32 \<times> bytes) nand)"
proof (induction k arbitrary: page remaining out)
  case (Suc k)
  have "yields (\<lambda>(rc, left, _). rc = 0 \<longrightarrow> 2048 dvd unat left \<and> unat left = unat remaining - 2048 * Suc k)
      (load_pages b (page + 1) k (remaining - PAGE_SIZE) (out @ bs) :: ('h, 'z, int \<times> u32 \<times> bytes) nand)"
    if "remaining \<noteq> 0" for bs
  proof -
    have "0 < unat remaining" using that by (simp add: unat_gt_0)
    then have "2048 \<le> unat remaining" using Suc.prems by (simp add: dvd_imp_le)
    then have "unat (remaining - PAGE_SIZE) = unat remaining - 2048" "2048 dvd unat remaining - 2048"
      using Suc.prems by (simp_all add: PAGE_SIZE_def unat_sub word_le_nat_alt)
    then show ?thesis using Suc.IH [of "remaining - PAGE_SIZE"] by simp
  qed
  then show ?case
    unfolding load_pages.simps by (intro yields_if yields_then yields_case_prod) (auto intro!: yields_return)
qed (auto intro: yields_return)

lemma keeps_geometry_log:
  "keeps pages_per_block (modify (\<lambda>s. log_rc rc (log_dec x (log_puts str s))))"
  "keeps pages_per_block (modify (\<lambda>s. log_putc c (log_dec x (log_puts str s))))"
  by (intro keeps_modify log_more_nand; simp)+

lemma keeps_geometry_pages: "keeps pages_per_block (load_pages b page k remaining out)"
  by (induction k arbitrary: page remaining out)
    (simp_all, (intro geometry_rules keeps_geometry_page keeps_geometry_log impI conjI | simp)+)

lemma load_blocks_total:
  "2048 dvd unat remaining \<Longrightarrow> skipped \<le> MAX_BAD_SKIP \<Longrightarrow> unat remaining + MAX_BAD_SKIP < fuel + skipped \<Longrightarrow>
   pages_per_block s \<noteq> 0 \<Longrightarrow> fst (run_state (load_blocks b fuel block remaining skipped out) s) \<noteq> None"
proof (induction fuel arbitrary: block remaining skipped out s)
  case (Suc fuel)
  obtain x s1 where bb: "run_state (block_is_bad b block) s = (x, s1)" by (metis prod.collapse)
  have p1: "pages_per_block s1 = pages_per_block s" using keepsD [OF keeps_geometry_bad, of b block s] by (simp add: bb)
  let ?ppb = "pages_per_block s"
  define s2 where "s2 = log_putc 10 (log_dec block (log_puts (cs ''nand: skipping bad block '') s1))"
  have p2: "pages_per_block s2 = ?ppb" unfolding p1 [symmetric] by (rule log_more_nand) (simp add: s2_def)
  obtain rc left out1 s3 where lp: "run_state (load_pages b (block * ?ppb) (unat ?ppb) remaining out) s1 = ((rc, left, out1), s3)"
    by (metis prod.collapse)
  have p3: "pages_per_block s3 = ?ppb"
    using keepsD [OF keeps_geometry_pages, of b "block * ?ppb" "unat ?ppb" remaining out s1] by (simp add: lp p1)
  have l: "rc = 0 \<longrightarrow> 2048 dvd unat left \<and> unat left = unat remaining - 2048 * unat ?ppb"
    using yieldsD [OF load_pages_left [OF Suc.prems(1), where b = b and page = "block * ?ppb" and k = "unat ?ppb" and out = out], of s1]
    unfolding lp fst_conv prod.case .
  have ih1: "fst (run_state (load_blocks b fuel (block + 1) remaining (skipped + 1) out) s2) \<noteq> None" if "\<not> MAX_BAD_SKIP < skipped + 1"
    by (rule Suc.IH) (use Suc.prems that p2 in simp_all)
  have ih2: "fst (run_state (load_blocks b fuel (block + 1) left skipped out1) s3) \<noteq> None" if "rc = 0" "remaining \<noteq> 0"
  proof -
    have "0 < unat ?ppb" "0 < unat remaining" using Suc.prems(4) that(2) by (simp_all add: unat_gt_0)
    then have "unat left < unat remaining" using l that(1) by simp
    then show ?thesis using l that(1) Suc.prems p3 by (intro Suc.IH) auto
  qed
  show ?case
    using ih1 [unfolded s2_def] ih2 by (simp add: run_bind run_return run_gets run_modify bb p1 lp)
qed simp

lemma nand_load_image_total: "fst (run_state (nand_load_image b start_block n) s) \<noteq> None"
proof (cases "pages_per_block s = 0 \<or> n = 0 \<or> n AND (PAGE_SIZE - 1) \<noteq> 0")
  case True
  then show ?thesis by (auto simp: nand_load_image_def run_bind run_gets run_return)
next
  case False
  then have "2048 dvd unat n" using whole_pages by blast
  from load_blocks_total [OF this, of 0 "unat n + MAX_BAD_SKIP + 1" s b start_block "[]"] show ?thesis
    using False by (simp add: nand_load_image_def run_bind run_gets del: load_blocks.simps)
qed

text \<open>The geometry after a probe is 0 or one of the candidates.\<close>

lemma first_good_keeps: "keeps pages_per_block (first_good b n block)"
  by (induction n arbitrary: block) (simp_all, (intro geometry_rules keeps_geometry_bad | simp)+)

lemma probe_loop_geometry:
  "run_state (probe_loop b cands) s = (rc, s') \<Longrightarrow>
   rc = 0 \<and> pages_per_block s' \<in> set cands \<or> rc = NAND_EPROBE \<and> pages_per_block s' = 0"
proof (induction cands arbitrary: s)
  case Nil
  then show ?case by (auto simp: run_bind run_modify run_return)
next
  case (Cons c cands)
  define s0 where "s0 = s\<lparr>pages_per_block := c\<rparr>"
  obtain block s1 where fg: "run_state (first_good b 16 IPL_START_BLOCK) s0 = (block, s1)" by (metis prod.collapse)
  have p1: "pages_per_block s1 = c" using keepsD [OF first_good_keeps, of b 16 IPL_START_BLOCK s0, unfolded fg] by (simp add: s0_def)
  obtain r page s2 where rp: "run_state (nand_read_page b (block * c)) s1 = ((r, page), s2)" by (metis prod.collapse)
  have "pages_per_block s2 = c" using keepsD [OF keeps_geometry_page, of b "block * c" s1] by (simp add: rp p1)
  moreover have "pages_per_block (log_found c block s2) = pages_per_block s2" by (rule log_more_nand) (simp add: log_found_def)
  ultimately show ?case
    using Cons.prems Cons.IH by (auto simp: run_bind run_modify run_return fg rp s0_def [symmetric] split: if_splits)
qed

lemma probe_geometry:
  "run_state (nand_probe_geometry b) s = (rc, s') \<Longrightarrow>
   rc = 0 \<and> pages_per_block s' \<in> {64, 128, 32, 256} \<or> rc = NAND_EPROBE \<and> pages_per_block s' = 0"
  using probe_loop_geometry [of b candidates s rc s'] by (auto simp: nand_probe_geometry_def candidates_def)

section \<open>Properties\<close>

text \<open>C10: \<open>nand_load_image\<close> returns, and stores at most the requested bytes. When it returns 0 it stored exactly
  that many: the data of the good blocks from the start block on, in order, with at most 16 bad blocks skipped whole.
  On a flash whose page reads succeed, a load of whole pages fails only when more than 16 bad blocks follow.
  Without a geometry, or with a length that is not a whole number of pages, it stores nothing and fails.\<close>

theorem nand_load_image_correct:
  assumes "flash_law b I bad flash rel" and "I s"
  defines "ppb \<equiv> pages_per_block s"
  shows "\<exists>rc out. fst (run_state (nand_load_image b start_block n) s) = Some (rc, out) \<and> length out \<le> unat n \<and>
    (ppb = 0 \<longrightarrow> rc = NAND_ENOGEOM \<and> out = []) \<and>
    (rel \<and> ppb \<noteq> 0 \<and> n \<noteq> 0 \<and> 2048 dvd unat n \<longrightarrow> rc = 0 \<or> (\<exists>k. 16 < bad_count bad k start_block)) \<and>
    (rc = 0 \<longrightarrow> n \<noteq> 0 \<and> length out = unat n \<and> 2048 dvd unat n \<and>
       (\<exists>k. out = take (unat n) (concat (map flash (image_pages bad ppb k start_block))) \<and> bad_count bad k start_block \<le> 16))"
proof (cases "ppb = 0 \<or> n = 0 \<or> n AND (PAGE_SIZE - 1) \<noteq> 0")
  case True
  have "n AND (PAGE_SIZE - 1) = 0" if "2048 dvd unat n" using that by (simp add: whole_pages)
  with True show ?thesis
    by (auto simp: nand_load_image_def run_simps ppb_def NAND_ENOGEOM_def NAND_ELEN_def)
next
  case False
  have d: "2048 dvd unat n" using False whole_pages by blast
  obtain r s' where r: "run_state (load_blocks b (unat n + MAX_BAD_SKIP + 1) start_block n 0 []) s = (r, s')" by (metis prod.collapse)
  have i: "nand_inv I ppb s" using assms(2) by (simp add: nand_inv_def ppb_def)
  have "fst (run_state (nand_load_image b start_block n) s) = r"
    using False r by (simp add: nand_load_image_def run_simps ppb_def del: load_blocks.simps)
  moreover have "\<exists>rc out'. r = Some (rc, out') \<and> length out' \<le> unat n \<and> (rel \<longrightarrow> rc = 0 \<or> (\<exists>k. MAX_BAD_SKIP < bad_count bad k start_block)) \<and>
       (rc = 0 \<longrightarrow> (\<exists>k. out' = take (unat n) (concat (map flash (image_pages bad ppb k start_block))) \<and>
          length out' = unat n \<and> bad_count bad k start_block \<le> MAX_BAD_SKIP))"
    using tripleD [OF load_blocks_spec [OF assms(1) _ d] i r] False by simp
  ultimately show ?thesis using False d by (auto simp: MAX_BAD_SKIP_def)
qed


text \<open>An erased flash: every register reads as all ones.\<close>

definition erased_bus :: "unit bus" where
  "erased_bus = \<lparr>rd32 = \<lambda>a h. (0xFFFFFFFF, h), wr32 = \<lambda>a v h. h\<rparr>"

definition erased_st :: "unit nand_st" where
  "erased_st = \<lparr>ddr = \<lambda>_. 0, log_ptr = 0, log_end = 0, uart = [], hwst = (), pages_per_block = 64, corrections = 0, retries = 0\<rparr>"


lemma erased_regs:
  fixes s :: "unit nand_st"
  shows "run_state (reg_rd erased_bus a) s = (0xFFFFFFFF, s)" "run_state (reg_wr erased_bus a v) s = ((), s)"
    "run_state (reg_rmw erased_bus a c v) s = ((), s)"
  by (cases s; simp add: erased_bus_def run_reg_rd run_reg_wr reg_rmw_def run_bind)+

lemma erased_words: "run_state (read_words erased_bus a n) s = (replicate n 0xFFFFFFFF, s :: unit nand_st)"
  by (induction n arbitrary: a) (simp_all add: run_bind run_return erased_regs)

lemma erased_emit: "\<exists>y. run_state (emit_cycles erased_bus a x i n) s = (y, s :: unit nand_st)"
  by (induction n arbitrary: a i) (simp_all add: run_bind run_return erased_regs)

lemma erased_addr: obtains y where "run_state (nf_emit_addr erased_bus a r c) s = (y, s :: unit nand_st)"
proof -
  obtain y where "run_state (emit_cycles erased_bus a c 0 COL_CYCLES) s = (y, s)" using erased_emit by blast
  moreover obtain z where "run_state (emit_cycles erased_bus y r 0 ROW_CYCLES) s = (z, s)" using erased_emit by blast
  ultimately show ?thesis using that by (simp add: nf_emit_addr_def run_bind)
qed

lemma nf_wait_limit: obtains n where "NF_WAIT_LIMIT = Suc n"
  using not0_implies_Suc [of NF_WAIT_LIMIT] by (auto simp: NF_WAIT_LIMIT_def)

lemma erased_parts:
  fixes s :: "unit nand_st"
  shows "run_state (nf_seq_wait erased_bus) s = (0, s)" "run_state (nf_seq_start erased_bus) s = ((), s)"
    "run_state (l2_bind_nf_dma erased_bus) s = ((), s)"
    "run_state (ecc_done_loop erased_bus NF_WAIT_LIMIT) s = (Some 0xFFFFFFFF, s)"
    "run_state (raw_end_loop erased_bus NF_WAIT_LIMIT) s = (0, s)"
    "n \<le> 0x200 \<Longrightarrow> run_state (l2_drain erased_bus n) s = ((0, replicate (unat (n div 4)) 0xFFFFFFFF), s)"
proof -
  obtain n0 where n0: "NF_WAIT_LIMIT = Suc n0" by (rule nf_wait_limit)
  show "run_state (nf_seq_wait erased_bus) s = (0, s)" unfolding nf_seq_wait_def n0 by (simp add: run_bind run_return erased_regs)
  show "run_state (nf_seq_start erased_bus) s = ((), s)" "run_state (l2_bind_nf_dma erased_bus) s = ((), s)"
    by (simp_all add: nf_seq_start_def l2_bind_nf_dma_def run_bind run_return erased_regs)
  show "run_state (ecc_done_loop erased_bus NF_WAIT_LIMIT) s = (Some 0xFFFFFFFF, s)" "run_state (raw_end_loop erased_bus NF_WAIT_LIMIT) s = (0, s)"
    unfolding n0 by (simp_all add: run_bind run_return erased_regs ECC_STATUS_END_def ECC_STATUS_DEC_RDY_def)
  assume "n \<le> 0x200"
  then have "\<not> 15 < drop_bit 6 n" by (simp add: word_le_nat_alt word_less_nat_alt drop_bit_eq_div unat_div)
  then show "run_state (l2_drain erased_bus n) s = ((0, replicate (unat (n div 4)) 0xFFFFFFFF), s)"
    by (subst l2_drain_def) (subst drain_wait.simps, auto simp: run_bind run_return erased_regs erased_words)
qed

lemma erased_page: "run_state (nand_read_page erased_bus page) s = ((0, replicate 2048 0xFF), s :: unit nand_st)"
proof -
  have four: "replicate (4 + n) x = [x, x, x, x] @ replicate n x" for n and x :: u8
    by (simp add: numeral_eq_Suc)
  have blank: "concat (map le32 (replicate k 0xFFFFFFFF)) = replicate (4 * k) 0xFF" for k
    by (induction k) (simp_all add: le32_def four)
  have "run_state (finish_chunk erased_bus chunk 0xFFFFFFFF) s = ((0, chunk), s)" for chunk
    by (simp add: finish_chunk_def ecc_classify_def run_bind run_return erased_regs erased_words ECC_STATUS_NO_ERR_def)
  then have chunk: "run_state (read_chunk erased_bus) s = ((0, replicate 512 0xFF), s)"
    using blank [of 128] by (simp add: read_chunk_def run_bind run_return erased_regs erased_parts Let_def)
  have "run_state (read_chunks erased_bus n dst) s = ((0, dst @ replicate (512 * n) 0xFF), s)" for n dst
    by (induction n arbitrary: dst) (simp_all add: run_bind run_return chunk replicate_add)
  from this [of 4 "[]"] have chunks: "run_state (read_chunks erased_bus CHUNKS []) s = ((0, replicate 2048 0xFF), s)"
    by (simp add: CHUNKS_def)
  obtain y where "run_state (nf_emit_addr erased_bus NF_FIFO_NEXT page 0) s = (y, s)" by (rule erased_addr)
  with chunks have "run_state (read_page_once erased_bus page) s = ((0, replicate 2048 0xFF), s)"
    by (simp add: read_page_once_def run_bind run_return erased_regs erased_parts)
  moreover have tries: "PAGE_READ_TRIES = Suc 3" by (simp add: PAGE_READ_TRIES_def)
  ultimately show ?thesis
    unfolding nand_read_page_def tries page_tries.simps by (simp add: run_bind run_return run_when over_def)
qed

lemma erased_bad: "run_state (block_is_bad erased_bus block) s = (False, s :: unit nand_st)"
proof -
  obtain y where "run_state (nf_emit_addr erased_bus NF_FIFO_NEXT (block * pages_per_block s) 0x410) s = (y, s)"
    by (rule erased_addr)
  then show ?thesis by (simp add: block_is_bad_def nand_read_raw_def run_bind run_return run_gets erased_regs erased_parts)
qed

lemma erased_law: "flash_law erased_bus (\<lambda>s :: unit nand_st. True) (\<lambda>_. False) (\<lambda>_. replicate 2048 0xFF) True"
  by (simp add: flash_law_def erased_bad erased_page)

theorem nand_load_image_correct_witness:
  "\<exists>out. fst (run_state (nand_load_image erased_bus 2 4096) erased_st) = Some (0, out) \<and> length out = 4096"
proof -
  have "bad_count (\<lambda>_. False) k block = 0" for k block by (induction k arbitrary: block) simp_all
  with nand_load_image_correct [OF erased_law TrueI, of 2 4096 erased_st] show ?thesis
    by (auto simp: erased_st_def)
qed

end
