(* ===== verification/Sd.thy ===== *)
theory Sd
  imports Timer Nand
begin

text \<open>
  The SD card driver of lib/sd.c, as state-monad programs over the register bus. The L2 buffer is a window
  of the bus. A multiple-block read moves its data by DMA, so its data is part of the hardware state and its
  result is the return code. The short busy loops have no effect on the state.
\<close>

section \<open>Registers and state\<close>

definition MCI :: "u32 \<Rightarrow> u32" where "MCI off = 0x20020000 + off"
definition MCI_CLOCK :: u32 where "MCI_CLOCK = MCI 0x04"
definition MCI_ARG :: u32 where "MCI_ARG = MCI 0x08"
definition MCI_CMD :: u32 where "MCI_CMD = MCI 0x0C"
definition MCI_RESP0 :: u32 where "MCI_RESP0 = MCI 0x14"
definition MCI_DATATIMER :: u32 where "MCI_DATATIMER = MCI 0x24"
definition MCI_DATALEN :: u32 where "MCI_DATALEN = MCI 0x28"
definition MCI_DATACNT :: u32 where "MCI_DATACNT = MCI 0x30"
definition MCI_DATACTRL :: u32 where "MCI_DATACTRL = MCI 0x2C"
definition MCI_STA :: u32 where "MCI_STA = MCI 0x34"
definition MCI_MASK :: u32 where "MCI_MASK = MCI 0x38"
definition MCI_DMACTRL :: u32 where "MCI_DMACTRL = MCI 0x3C"
definition MCI_FIFO :: u32 where "MCI_FIFO = MCI 0x40"

definition MCI_ENABLE :: u32 where "MCI_ENABLE = 0x00100000"
definition MCI_FAIL :: u32 where "MCI_FAIL = 0x00080000"
definition MCI_CLK_EN :: u32 where "MCI_CLK_EN = 0x00010000"
definition MCI_PWRSAVE :: u32 where "MCI_PWRSAVE = 0x00020000"
definition CPSM_ENABLE :: u32 where "CPSM_ENABLE = 0x001"
definition CPSM_RESPONSE :: u32 where "CPSM_RESPONSE = 0x080"
definition CPSM_LONGRSP :: u32 where "CPSM_LONGRSP = 0x100"
definition CPSM_RSPCRC_NOCHK :: u32 where "CPSM_RSPCRC_NOCHK = 0x400"
definition CPSM_WITHDATA :: u32 where "CPSM_WITHDATA = 0x800"
definition DPSM_ENABLE :: u32 where "DPSM_ENABLE = 0x1"
definition DPSM_DIR_READ :: u32 where "DPSM_DIR_READ = 0x2"
definition DPSM_BUS_4BIT :: u32 where "DPSM_BUS_4BIT = 0x8"
definition DPSM_BLKSZ_512 :: u32 where "DPSM_BLKSZ_512 = push_bit 16 512"
definition STA_RESPCRCFAIL :: u32 where "STA_RESPCRCFAIL = 0x001"
definition STA_DATACRCFAIL :: u32 where "STA_DATACRCFAIL = 0x002"
definition STA_RESPTIMEO :: u32 where "STA_RESPTIMEO = 0x004"
definition STA_DATATIMEO :: u32 where "STA_DATATIMEO = 0x008"
definition STA_RESPEND :: u32 where "STA_RESPEND = 0x010"
definition STA_CMDSENT :: u32 where "STA_CMDSENT = 0x020"
definition STA_DATAEND :: u32 where "STA_DATAEND = 0x040"
definition STA_DATABLOCKEND :: u32 where "STA_DATABLOCKEND = 0x080"
definition STA_STARTBITERR :: u32 where "STA_STARTBITERR = 0x100"
definition STA_RXACTIVE :: u32 where "STA_RXACTIVE = 0x800"
definition STA_FIFOFULL :: u32 where "STA_FIFOFULL = 0x1000"
definition STA_DATA_ERROR :: u32 where "STA_DATA_ERROR = STA_DATACRCFAIL OR STA_DATATIMEO OR STA_STARTBITERR"
definition RESP_MASK :: u32 where "RESP_MASK = STA_RESPEND OR STA_RESPTIMEO OR STA_RESPCRCFAIL"
definition R1_ERRORS :: u32 where "R1_ERRORS = 0xFDF90008"
definition R1_READY_FOR_DATA :: u32 where "R1_READY_FOR_DATA = 0x100"
definition R1_STATE :: "u32 \<Rightarrow> u32" where "R1_STATE r = drop_bit 9 r AND 0xF"
definition R1_STATE_TRAN :: u32 where "R1_STATE_TRAN = 4"
definition L2_CONBUF0_7 :: u32 where "L2_CONBUF0_7 = 0x2002C088"
definition L2_BUFASSIGN1 :: u32 where "L2_BUFASSIGN1 = 0x2002C090"
definition L2_BUFSTAT1 :: u32 where "L2_BUFSTAT1 = 0x2002C0A0"
definition L2_DMAREQ :: u32 where "L2_DMAREQ = 0x2002C080"
definition L2_DMA_ENABLE :: u32 where "L2_DMA_ENABLE = 0x1"
definition L2_FRACTION :: u32 where "L2_FRACTION = 0x200"
definition L2_REQ_MASK :: u32 where "L2_REQ_MASK = 0xFFFF0000"
definition SD_L2_BUF_ID :: nat where "SD_L2_BUF_ID = 4"
definition SD_L2_BUF_ADDR :: u32 where "SD_L2_BUF_ADDR = 0x48000000 + of_nat SD_L2_BUF_ID * 512"
definition SD_L2_DIR_WRITE :: u32 where "SD_L2_DIR_WRITE = push_bit (SD_L2_BUF_ID + 8) 1"
definition MCI_DMACTRL_L2 :: u32 where "MCI_DMACTRL_L2 = 0x01000001"
definition L2_DMA_ADDR :: u32 where "L2_DMA_ADDR = 0x2002C000 + of_nat SD_L2_BUF_ID * 4"
definition L2_DMA_COUNT :: u32 where "L2_DMA_COUNT = 0x2002C040 + of_nat SD_L2_BUF_ID * 4"
definition L2_DMA_REQ :: u32 where "L2_DMA_REQ = push_bit (24 + SD_L2_BUF_ID) 1"
definition L2_DMA_CHUNK :: u32 where "L2_DMA_CHUNK = 8192"
definition MCI_DATA_TIMEOUT :: u32 where "MCI_DATA_TIMEOUT = 0x00200000"
definition WAIT_LIMIT :: nat where "WAIT_LIMIT = 500000"
definition SD_READ_TRIES :: nat where "SD_READ_TRIES = 5"
definition SD_WRITE_TRIES :: nat where "SD_WRITE_TRIES = 3"
definition SD_SWITCH_TRIES :: nat where "SD_SWITCH_TRIES = 3"
definition DMA_WAIT_LIMIT :: nat where "DMA_WAIT_LIMIT = 20000000"
definition GPIO1_DIR :: u32 where "GPIO1_DIR = SYSCTRL 0x7C"
definition GPIO1_IN :: u32 where "GPIO1_IN = SYSCTRL 0xBC"
definition SD_CD_BIT :: u32 where "SD_CD_BIT = 0x2000"
definition SD_BLOCKS_MAX :: u32 where "SD_BLOCKS_MAX = 1024"
definition SD_ENOCMD23 :: int where "SD_ENOCMD23 = -23"

record pin_save =
  sc_0c :: u32
  sc_74 :: u32
  sc_78 :: u32
  sc_a0 :: u32
  valid :: bool

text \<open>The images that use the card also use the NAND, so one record holds the static variables of both drivers.\<close>

record 'h sd_st = "'h nand_st" +
  g_sdhc :: bool
  g_bus_4bit :: bool
  g_rca_arg :: u32
  g_pin_save :: pin_save

type_synonym ('h, 'z, 'a) sd = "(('h, 'z) sd_st_scheme, 'a) state"

section \<open>Commands\<close>

fun wait_sta_loop :: "'h bus \<Rightarrow> nat \<Rightarrow> u32 \<Rightarrow> ('h, 'z, u32) dev" where
  "wait_sta_loop b 0 m = State_Monad.return 0"
| "wait_sta_loop b (Suc n) m = do {
     sta \<leftarrow> reg_rd b MCI_STA;
     if sta AND m \<noteq> 0 then State_Monad.return sta else wait_sta_loop b n m
   }"

definition wait_sta :: "'h bus \<Rightarrow> u32 \<Rightarrow> ('h, 'z, u32) dev" where
  "wait_sta b m = wait_sta_loop b WAIT_LIMIT m"

definition sd_stop_transfer :: "'h bus \<Rightarrow> ('h, 'z, unit) dev" where
  "sd_stop_transfer b = do {
     reg_wr b MCI_CMD 0;
     reg_wr b MCI_DATACTRL 0;
     reg_wr b MCI_DATALEN 0;
     reg_wr b MCI_DMACTRL 0;
     reg_wr b MCI_MASK 0;
     reg_rmw b L2_CONBUF0_7 0 (push_bit (SD_L2_BUF_ID + 24) 1)
   }"

definition sd_quiesce :: "'h bus \<Rightarrow> ('h, 'z, unit) dev" where
  "sd_quiesce b = do { sd_stop_transfer b; reg_rmw b L2_BUFASSIGN1 (push_bit 12 7) 0 }"

text \<open>The return code and, where the caller wants it, \<open>RESP0\<close>.\<close>

definition send_resp :: "'h bus \<Rightarrow> u32 \<Rightarrow> u32 \<Rightarrow> u32 \<Rightarrow> bool \<Rightarrow> ('h, 'z, int \<times> u32) dev" where
  "send_resp b cmd_idx arg flags want = do {
     c \<leftarrow> reg_rd b MCI_CMD;
     whenM (c AND CPSM_ENABLE \<noteq> 0) (reg_wr b MCI_CMD 0);
     reg_wr b MCI_ARG arg;
     reg_wr b MCI_MASK 0x1FF;
     reg_wr b MCI_CMD (CPSM_ENABLE OR flags OR push_bit 1 cmd_idx);
     sta \<leftarrow> wait_sta b RESP_MASK;
     if sta AND (STA_RESPEND OR STA_RESPCRCFAIL) = 0 then State_Monad.return (- 1, 0)
     else if want then do { r \<leftarrow> reg_rd b MCI_RESP0; State_Monad.return (0, r) }
     else State_Monad.return (0, 0)
   }"

definition sd_set_clock_divider :: "'h bus \<Rightarrow> u32 \<Rightarrow> ('h, 'z, unit) dev" where
  "sd_set_clock_divider b divider = do {
     cur \<leftarrow> reg_rd b MCI_CLOCK;
     let low = divider - drop_bit 1 divider;
     let high = drop_bit 1 divider;
     reg_wr b MCI_CLOCK ((cur AND 0xFFFF0000 AND NOT MCI_PWRSAVE) OR push_bit 8 high OR low);
     whenM (cur AND MCI_CLK_EN \<noteq> 0) (reg_rmw b MCI_CLOCK 0 MCI_CLK_EN)
   }"

definition sd_bind_l2 :: "'h bus \<Rightarrow> ('h, 'z, unit) dev" where
  "sd_bind_l2 b = do {
     reg_rmw b L2_CONBUF0_7 0 (push_bit SD_L2_BUF_ID 1 OR push_bit (SD_L2_BUF_ID + 16) 1);
     reg_rmw b L2_BUFASSIGN1 (push_bit 12 7) (push_bit 12 (of_nat SD_L2_BUF_ID));
     reg_rmw b L2_CONBUF0_7 0 (push_bit (SD_L2_BUF_ID + 24) 1)
   }"

section \<open>Initialization\<close>

definition save_pins :: "'h bus \<Rightarrow> ('h, 'z, unit) sd" where
  "save_pins b = do {
     p \<leftarrow> gets g_pin_save;
     whenM (\<not> valid p) (do {
       r0c \<leftarrow> reg_rd b (SYSCTRL 0x0C);
       r74 \<leftarrow> reg_rd b (SYSCTRL 0x74);
       r78 \<leftarrow> reg_rd b (SYSCTRL 0x78);
       ra0 \<leftarrow> reg_rd b (SYSCTRL 0xA0);
       modify (\<lambda>s. s\<lparr>g_pin_save := \<lparr>sc_0c = r0c, sc_74 = r74, sc_78 = r78, sc_a0 = ra0, valid = True\<rparr>\<rparr>) })
   }"

definition sd_pads :: "'h bus \<Rightarrow> ('h, 'z, unit) dev" where
  "sd_pads b = do {
     reg_rmw b (SYSCTRL 0x0C) 0 0x4;
     reg_rmw b (SYSCTRL 0x0C) 0x4 0;
     reg_rmw b (SYSCTRL 0x78) 0 0x20000000;
     reg_rmw b (SYSCTRL 0x78) (push_bit 16 7) (push_bit 16 7);
     reg_rmw b (SYSCTRL 0x74) (push_bit 3 3) (push_bit 3 2);
     reg_rmw b (SYSCTRL 0xA0) 0 0x180;
     reg_wr b MCI_CLOCK (MCI_ENABLE OR MCI_FAIL);
     reg_wr b MCI_CLOCK (MCI_ENABLE OR MCI_FAIL OR MCI_CLK_EN OR MCI_PWRSAVE OR 0xF0);
     reg_wr b MCI_CMD 0;
     reg_wr b MCI_DATACTRL 0;
     reg_wr b MCI_DMACTRL 0;
     reg_wr b MCI_DATATIMER MCI_DATA_TIMEOUT;
     reg_wr b MCI_MASK 0;
     reg_wr b MCI_ARG 0;
     reg_wr b MCI_CMD CPSM_ENABLE;
     _ \<leftarrow> wait_sta b (STA_CMDSENT OR STA_RESPTIMEO);
     State_Monad.return ()
   }"

fun cmd8_loop :: "'h bus \<Rightarrow> nat \<Rightarrow> ('h, 'z, bool) dev" where
  "cmd8_loop b 0 = State_Monad.return False"
| "cmd8_loop b (Suc n) = do {
     (rc, r) \<leftarrow> send_resp b 8 0x1AA CPSM_RESPONSE True;
     if rc = 0 \<and> r = 0x1AA then State_Monad.return True else cmd8_loop b n
   }"

text \<open>The OCR once the card is ready. \<open>k\<close> rounds are left; \<open>first\<close> marks the first one.\<close>

fun acmd41_loop :: "'h bus \<Rightarrow> nat \<Rightarrow> bool \<Rightarrow> u32 \<Rightarrow> ('h, 'z, u32 option) dev" where
  "acmd41_loop b 0 first ocr_arg = State_Monad.return None"
| "acmd41_loop b (Suc k) first ocr_arg = do {
     (rc, _) \<leftarrow> send_resp b 55 0 CPSM_RESPONSE True;
     if rc < 0 then State_Monad.return None
     else do {
       (rc2, ocr) \<leftarrow> send_resp b 41 ocr_arg (CPSM_RESPONSE OR CPSM_RSPCRC_NOCHK) True;
       if rc2 < 0 then State_Monad.return None
       else if ocr AND 0x80000000 \<noteq> 0 then State_Monad.return (Some ocr)
       else acmd41_loop b k False
         (if first \<and> ocr AND 0x00FFFFFF \<noteq> 0 then (ocr AND 0x40FF8000) OR 0x40FF8000 else ocr_arg)
     }
   }"

text \<open>\<open>sd_init\<close> after it has saved the pads\<close>

definition sd_start :: "'h bus \<Rightarrow> ('h, 'z, int) sd" where
  "sd_start b = do {
     sd_pads b;
     ok8 \<leftarrow> cmd8_loop b 10;
     if \<not> ok8 then State_Monad.return (- 8)
     else do {
       ready \<leftarrow> acmd41_loop b 100 True 0x40FF8000;
       case ready of
         None \<Rightarrow> State_Monad.return (- 41)
       | Some ocr \<Rightarrow> do {
           modify (\<lambda>s. s\<lparr>g_sdhc := ocr AND 0x40000000 \<noteq> 0\<rparr>);
           reg_wr b MCI_ARG 0;
           reg_wr b MCI_MASK 0x1FF;
           reg_wr b MCI_CMD (CPSM_ENABLE OR CPSM_RESPONSE OR CPSM_LONGRSP OR push_bit 1 2);
           sta \<leftarrow> wait_sta b RESP_MASK;
           if sta AND STA_RESPEND = 0 then State_Monad.return (- 2)
           else do {
             (rc3, r6) \<leftarrow> send_resp b 3 0 CPSM_RESPONSE True;
             if rc3 < 0 then State_Monad.return (- 3)
             else do {
               modify (\<lambda>s. s\<lparr>g_rca_arg := r6 AND 0xFFFF0000\<rparr>);
               (rc7, _) \<leftarrow> send_resp b 7 (r6 AND 0xFFFF0000) CPSM_RESPONSE False;
               if rc7 < 0 then State_Monad.return (- 7)
               else do {
                 (rc55, _) \<leftarrow> send_resp b 55 (r6 AND 0xFFFF0000) CPSM_RESPONSE True;
                 whenM (0 \<le> rc55) (do {
                   (rc6, _) \<leftarrow> send_resp b 6 2 CPSM_RESPONSE True;
                   whenM (0 \<le> rc6) (modify (\<lambda>s. s\<lparr>g_bus_4bit := True\<rparr>)) });
                 sd_set_clock_divider b 4;
                 sd_bind_l2 b;
                 State_Monad.return 0
               }
             }
           }
         }
     }
   }"

definition sd_init :: "'h bus \<Rightarrow> ('h, 'z, int) sd" where
  "sd_init b = do {
     modify (\<lambda>s. s\<lparr>g_sdhc := False, g_bus_4bit := False, g_rca_arg := 0\<rparr>);
     save_pins b;
     sd_start b
   }"

definition sd_release_pins :: "'h bus \<Rightarrow> ('h, 'z, unit) sd" where
  "sd_release_pins b = do {
     sd_quiesce b;
     p \<leftarrow> gets g_pin_save;
     whenM (valid p) (do {
       reg_wr b (SYSCTRL 0x0C) (sc_0c p);
       reg_wr b (SYSCTRL 0x74) (sc_74 p);
       reg_wr b (SYSCTRL 0x78) (sc_78 p);
       reg_wr b (SYSCTRL 0xA0) (sc_a0 p);
       modify (\<lambda>s. s\<lparr>g_pin_save := (g_pin_save s)\<lparr>valid := False\<rparr>\<rparr>) })
   }"


section \<open>Single blocks\<close>

definition bus_width :: "bool \<Rightarrow> u32" where
  "bus_width four = (if four then DPSM_BUS_4BIT else 0)"

definition block_arg :: "bool \<Rightarrow> u32 \<Rightarrow> u32" where
  "block_arg sdhc lba = (if sdhc then lba else push_bit 9 lba)"

text \<open>\<open>while (fill < 8) if (++spins >= WAIT_LIMIT) fail\<close>: the loop looks at most \<open>WAIT_LIMIT\<close> times.\<close>

fun l2_fill_loop :: "'h bus \<Rightarrow> nat \<Rightarrow> ('h, 'z, bool) dev" where
  "l2_fill_loop b 0 = State_Monad.return False"
| "l2_fill_loop b (Suc n) = do {
     st \<leftarrow> reg_rd b L2_BUFSTAT1;
     if drop_bit (SD_L2_BUF_ID * 4) st AND 0xF < 8 then l2_fill_loop b n else State_Monad.return True
   }"

fun write_words :: "'h bus \<Rightarrow> u32 \<Rightarrow> u32 list \<Rightarrow> ('h, 'z, unit) dev" where
  "write_words b a [] = State_Monad.return ()"
| "write_words b a (w # ws) = do { reg_wr b a w; write_words b (a + 4) ws }"

text \<open>The return code and the words stored at \<open>dst\<close>.\<close>

definition sd_read_block_once :: "'h bus \<Rightarrow> u32 \<Rightarrow> ('h, 'z, int \<times> u32 list) sd" where
  "sd_read_block_once b lba = do {
     sdhc \<leftarrow> gets g_sdhc;
     four \<leftarrow> gets g_bus_4bit;
     reg_wr b MCI_CMD 0;
     reg_wr b MCI_DATACTRL 0;
     reg_wr b MCI_DMACTRL 0;
     reg_rmw b L2_CONBUF0_7 0 (push_bit (SD_L2_BUF_ID + 24) 1);
     reg_wr b MCI_DMACTRL MCI_DMACTRL_L2;
     reg_wr b MCI_DATATIMER MCI_DATA_TIMEOUT;
     reg_wr b MCI_DATALEN 512;
     reg_wr b MCI_DATACTRL (DPSM_ENABLE OR DPSM_DIR_READ OR DPSM_BLKSZ_512 OR bus_width four);
     reg_wr b MCI_ARG (block_arg sdhc lba);
     reg_wr b MCI_MASK 0x1FF;
     reg_wr b MCI_CMD (CPSM_ENABLE OR CPSM_RESPONSE OR push_bit 1 17);
     sta \<leftarrow> wait_sta b RESP_MASK;
     if sta AND STA_RESPEND = 0 then do { sd_stop_transfer b; State_Monad.return (- 1, []) }
     else do {
       _ \<leftarrow> reg_rd b MCI_RESP0;
       full \<leftarrow> l2_fill_loop b WAIT_LIMIT;
       if \<not> full then do { sd_stop_transfer b; State_Monad.return (- 2, []) }
       else do {
         ws \<leftarrow> read_words b SD_L2_BUF_ADDR 128;
         sd_stop_transfer b;
         State_Monad.return (0, ws)
       }
     }
   }"

fun sd_read_tries :: "'h bus \<Rightarrow> nat \<Rightarrow> u32 \<Rightarrow> int \<Rightarrow> ('h, 'z, int \<times> u32 list) sd" where
  "sd_read_tries b 0 lba rc = State_Monad.return (rc, [])"
| "sd_read_tries b (Suc n) lba rc = do {
     (rc1, ws) \<leftarrow> sd_read_block_once b lba;
     if rc1 = 0 then State_Monad.return (0, ws) else sd_read_tries b n lba rc1
   }"

definition sd_read_block :: "'h bus \<Rightarrow> u32 \<Rightarrow> ('h, 'z, int \<times> u32 list) sd" where
  "sd_read_block b lba = sd_read_tries b SD_READ_TRIES lba (- 1)"

fun wait_ready_loop :: "'h bus \<Rightarrow> nat \<Rightarrow> ('h, 'z, int) sd" where
  "wait_ready_loop b 0 = State_Monad.return (- 13)"
| "wait_ready_loop b (Suc n) = do {
     rca \<leftarrow> gets g_rca_arg;
     (rc, r1) \<leftarrow> send_resp b 13 rca CPSM_RESPONSE True;
     if rc = 0 \<and> r1 AND R1_READY_FOR_DATA \<noteq> 0 \<and> R1_STATE r1 = R1_STATE_TRAN then State_Monad.return 0
     else wait_ready_loop b n
   }"

definition sd_wait_ready :: "'h bus \<Rightarrow> ('h, 'z, int) sd" where
  "sd_wait_ready b = wait_ready_loop b 40000"

text \<open>The data phase; \<open>k\<close> looks are left after this one.\<close>

fun write_wait :: "'h bus \<Rightarrow> nat \<Rightarrow> u32 \<Rightarrow> ('h, 'z, int) dev" where
  "write_wait b k seen = do {
     sta \<leftarrow> reg_rd b MCI_STA;
     let seen1 = seen OR sta;
     if sta AND STA_DATA_ERROR \<noteq> 0 then State_Monad.return (- 2)
     else if seen1 AND (STA_DATAEND OR STA_DATABLOCKEND) = (STA_DATAEND OR STA_DATABLOCKEND) then State_Monad.return 0
     else (case k of 0 \<Rightarrow> State_Monad.return (- 3) | Suc k1 \<Rightarrow> write_wait b k1 seen1)
   }"

definition sd_write_block_once :: "'h bus \<Rightarrow> u32 \<Rightarrow> u32 list \<Rightarrow> ('h, 'z, int) sd" where
  "sd_write_block_once b lba src = do {
     sdhc \<leftarrow> gets g_sdhc;
     four \<leftarrow> gets g_bus_4bit;
     reg_wr b MCI_CMD 0;
     reg_wr b MCI_DATACTRL 0;
     reg_wr b MCI_DMACTRL 0;
     (rc24, r1) \<leftarrow> send_resp b 24 (block_arg sdhc lba) (CPSM_RESPONSE OR CPSM_WITHDATA) True;
     if rc24 < 0 \<or> r1 AND R1_ERRORS \<noteq> 0 then do { sd_stop_transfer b; State_Monad.return (- 24) }
     else do {
       reg_rmw b L2_CONBUF0_7 0 (push_bit (SD_L2_BUF_ID + 24) 1);
       reg_rmw b L2_CONBUF0_7 0 SD_L2_DIR_WRITE;
       write_words b SD_L2_BUF_ADDR (take 128 src);
       reg_wr b MCI_DMACTRL MCI_DMACTRL_L2;
       reg_wr b MCI_DATATIMER MCI_DATA_TIMEOUT;
       reg_wr b MCI_DATALEN 512;
       reg_wr b MCI_DATACTRL (DPSM_ENABLE OR DPSM_BLKSZ_512 OR bus_width four);
       rc \<leftarrow> write_wait b WAIT_LIMIT 0;
       sd_stop_transfer b;
       reg_rmw b L2_CONBUF0_7 SD_L2_DIR_WRITE 0;
       whenM (rc \<noteq> 0) (do { _ \<leftarrow> send_resp b 12 0 CPSM_RESPONSE False; State_Monad.return () });
       busy \<leftarrow> sd_wait_ready b;
       State_Monad.return (if busy \<noteq> 0 then if rc \<noteq> 0 then rc else - 4 else rc)
     }
   }"

fun sd_write_tries :: "'h bus \<Rightarrow> nat \<Rightarrow> u32 \<Rightarrow> u32 list \<Rightarrow> int \<Rightarrow> ('h, 'z, int) sd" where
  "sd_write_tries b 0 lba src rc = State_Monad.return rc"
| "sd_write_tries b (Suc n) lba src rc = do {
     rc1 \<leftarrow> sd_write_block_once b lba src;
     if rc1 = 0 then State_Monad.return 0 else sd_write_tries b n lba src rc1
   }"

definition sd_write_block :: "'h bus \<Rightarrow> u32 \<Rightarrow> u32 list \<Rightarrow> ('h, 'z, int) sd" where
  "sd_write_block b lba src = sd_write_tries b SD_WRITE_TRIES lba src (- 1)"

section \<open>Multiple blocks\<close>

definition l2_dma_chunk :: "'h bus \<Rightarrow> u32 \<Rightarrow> u32 \<Rightarrow> ('h, 'z, unit) dev" where
  "l2_dma_chunk b addr n = do {
     reg_wr b L2_DMA_ADDR addr;
     reg_wr b L2_DMA_COUNT (n div 64);
     reg_rmw b L2_DMAREQ (L2_FRACTION OR L2_REQ_MASK) (L2_DMA_ENABLE OR L2_DMA_REQ)
   }"

definition chunk_len :: "u32 \<Rightarrow> u32" where
  "chunk_len left = (if left < L2_DMA_CHUNK then left else L2_DMA_CHUNK)"

text \<open>The wait for a transfer: every finished chunk starts the next one and the count again, which
  \<open>continue\<close> then takes to 1.\<close>

function dma_wait :: "'h bus \<Rightarrow> u32 \<Rightarrow> u32 \<Rightarrow> u32 \<Rightarrow> u32 \<Rightarrow> nat \<Rightarrow> ('h, 'z, int) dev" where
  "dma_wait b addr tot sent seen i = do {
     sta \<leftarrow> reg_rd b MCI_STA;
     let seen1 = seen OR sta;
     if sta AND STA_DATA_ERROR \<noteq> 0 then State_Monad.return (- 20)
     else do {
       req \<leftarrow> reg_rd b L2_DMAREQ;
       if req AND L2_DMA_REQ = 0 \<and> sent < tot then do {
         l2_dma_chunk b (addr + sent) (chunk_len (tot - sent));
         dma_wait b addr tot (sent + chunk_len (tot - sent)) seen1 1
       }
       else if req AND L2_DMA_REQ = 0 \<and> seen1 AND STA_DATAEND \<noteq> 0 then do {
         cnt \<leftarrow> reg_rd b MCI_DATACNT;
         State_Monad.return (if cnt \<noteq> 0 then - 21 else 0)
       }
       else if DMA_WAIT_LIMIT \<le> i then State_Monad.return (- 22)
       else dma_wait b addr tot sent seen1 (i + 1)
     }
   }"
  by pat_completeness auto

lemma chunk_len_advances:
  assumes "sent < tot"
  shows "unat tot - unat (sent + chunk_len (tot - sent)) < unat tot - unat sent"
proof -
  have l: "chunk_len (tot - sent) \<le> tot - sent" "chunk_len (tot - sent) \<noteq> 0"
    using assms by (auto simp: chunk_len_def L2_DMA_CHUNK_def)
  have "unat (tot - sent) = unat tot - unat sent" using assms by (simp add: unat_sub word_less_nat_alt word_le_nat_alt)
  then have "unat sent + unat (chunk_len (tot - sent)) \<le> unat tot"
    using l(1) assms by (simp add: word_le_nat_alt word_less_nat_alt)
  moreover from this have "unat (sent + chunk_len (tot - sent)) = unat sent + unat (chunk_len (tot - sent))"
    using unat_u32_bound [of tot] by (simp add: unat_word_ariths)
  moreover have "0 < unat (chunk_len (tot - sent))" using l(2) by (simp add: unat_gt_0)
  ultimately show ?thesis using assms by (simp add: word_less_nat_alt)
qed

termination dma_wait
  by (relation "measures [\<lambda>(b, addr, tot, sent, seen, i). unat tot - unat sent,
      \<lambda>(b, addr, tot, sent, seen, i). DMA_WAIT_LIMIT - i]")
    (auto simp: chunk_len_advances)

declare dma_wait.simps [simp del]

definition sd_read_blocks :: "'h bus \<Rightarrow> u32 \<Rightarrow> u32 \<Rightarrow> u32 \<Rightarrow> ('h, 'z, int) sd" where
  "sd_read_blocks b lba n dst = do {
     req0 \<leftarrow> reg_rd b L2_DMAREQ;
     let enable = req0 AND L2_DMA_ENABLE;
     let tot = n * 512;
     if n = 0 \<or> SD_BLOCKS_MAX < n \<or> dst AND 63 \<noteq> 0 then State_Monad.return (- 1)
     else do {
       (rc23, r1) \<leftarrow> send_resp b 23 n CPSM_RESPONSE True;
       if rc23 < 0 \<or> r1 AND R1_ERRORS \<noteq> 0 then State_Monad.return SD_ENOCMD23
       else do {
         sdhc \<leftarrow> gets g_sdhc;
         four \<leftarrow> gets g_bus_4bit;
         reg_wr b MCI_CMD 0;
         reg_wr b MCI_DATACTRL 0;
         reg_wr b MCI_DMACTRL 0;
         reg_rmw b L2_CONBUF0_7 0 (push_bit (SD_L2_BUF_ID + 24) 1);
         let sent = chunk_len tot;
         l2_dma_chunk b dst sent;
         reg_wr b MCI_DMACTRL MCI_DMACTRL_L2;
         reg_wr b MCI_DATATIMER MCI_DATA_TIMEOUT;
         reg_wr b MCI_DATALEN tot;
         reg_wr b MCI_DATACTRL (DPSM_ENABLE OR DPSM_DIR_READ OR DPSM_BLKSZ_512 OR bus_width four);
         reg_wr b MCI_ARG (block_arg sdhc lba);
         reg_wr b MCI_MASK 0x1FF;
         reg_wr b MCI_CMD (CPSM_ENABLE OR CPSM_RESPONSE OR CPSM_WITHDATA OR push_bit 1 18);
         sta \<leftarrow> wait_sta b RESP_MASK;
         rc \<leftarrow> (if sta AND STA_RESPEND = 0 then State_Monad.return (- 18)
               else do {
                 r0 \<leftarrow> reg_rd b MCI_RESP0;
                 if r0 AND R1_ERRORS \<noteq> 0 then State_Monad.return (- 18) else dma_wait b dst tot sent 0 0
               });
         sd_stop_transfer b;
         req \<leftarrow> reg_rd b L2_DMAREQ;
         whenM (req AND L2_DMA_REQ \<noteq> 0) (reg_wr b L2_DMA_COUNT 0);
         reg_rmw b L2_DMAREQ (L2_FRACTION OR L2_REQ_MASK OR L2_DMA_ENABLE) enable;
         whenM (rc \<noteq> 0) (do { _ \<leftarrow> send_resp b 12 0 CPSM_RESPONSE False; State_Monad.return () });
         State_Monad.return rc
       }
     }
   }"

section \<open>High speed and card detect\<close>

text \<open>One word of the switch status; \<open>k\<close> looks are left. \<open>None\<close> is the failure.\<close>

fun switch_word :: "'h bus \<Rightarrow> nat \<Rightarrow> u32 \<Rightarrow> ('h, 'z, (u32 \<times> u32) option) dev" where
  "switch_word b 0 seen = State_Monad.return None"
| "switch_word b (Suc k) seen = do {
     sta \<leftarrow> reg_rd b MCI_STA;
     let seen1 = seen OR sta;
     if sta AND STA_DATA_ERROR \<noteq> 0 \<or> k = 0 then State_Monad.return None
     else if sta AND (STA_FIFOFULL OR STA_RXACTIVE) = (STA_FIFOFULL OR STA_RXACTIVE) then do {
       w \<leftarrow> reg_rd b MCI_FIFO;
       State_Monad.return (Some (w, seen1))
     }
     else switch_word b k seen1
   }"

fun switch_words :: "'h bus \<Rightarrow> nat \<Rightarrow> u32 \<Rightarrow> u32 list \<Rightarrow> ('h, 'z, (u32 list \<times> u32) option) dev" where
  "switch_words b 0 seen acc = State_Monad.return (Some (acc, seen))"
| "switch_words b (Suc n) seen acc = do {
     r \<leftarrow> switch_word b WAIT_LIMIT seen;
     case r of None \<Rightarrow> State_Monad.return None | Some (w, seen1) \<Rightarrow> switch_words b n seen1 (acc @ [w])
   }"

fun drain_end :: "'h bus \<Rightarrow> nat \<Rightarrow> u32 \<Rightarrow> ('h, 'z, unit) dev" where
  "drain_end b 0 seen = State_Monad.return ()"
| "drain_end b (Suc n) seen =
     (if seen AND STA_DATAEND \<noteq> 0 then State_Monad.return ()
      else do { sta \<leftarrow> reg_rd b MCI_STA; drain_end b n (seen OR sta) })"

definition switch_high_speed :: "'h bus \<Rightarrow> ('h, 'z, int) sd" where
  "switch_high_speed b = do {
     four \<leftarrow> gets g_bus_4bit;
     sd_stop_transfer b;
     reg_wr b MCI_DATATIMER MCI_DATA_TIMEOUT;
     reg_wr b MCI_DATALEN 64;
     reg_wr b MCI_DATACTRL (DPSM_ENABLE OR DPSM_DIR_READ OR push_bit 16 64 OR bus_width four);
     (rc, r1) \<leftarrow> send_resp b 6 0x80FFFFF1 (CPSM_RESPONSE OR CPSM_WITHDATA) True;
     if rc < 0 \<or> r1 AND R1_ERRORS \<noteq> 0 then do { sd_stop_transfer b; State_Monad.return (- 6) }
     else do {
       r \<leftarrow> switch_words b 16 0 [];
       case r of
         None \<Rightarrow> do { sd_stop_transfer b; State_Monad.return (- 62) }
       | Some (status, seen) \<Rightarrow> do {
           drain_end b WAIT_LIMIT seen;
           sd_stop_transfer b;
           State_Monad.return (if status ! 4 AND 0xF = 1 then 0 else - 64)
         }
     }
   }"

fun switch_tries :: "'h bus \<Rightarrow> nat \<Rightarrow> int \<Rightarrow> ('h, 'z, int) sd" where
  "switch_tries b 0 rc = State_Monad.return rc"
| "switch_tries b (Suc n) rc =
     (if rc = 0 then State_Monad.return rc else do { rc1 \<leftarrow> switch_high_speed b; switch_tries b n rc1 })"

definition sd_high_speed :: "'h bus \<Rightarrow> ('h, 'z, int) sd" where
  "sd_high_speed b = do {
     rc \<leftarrow> switch_tries b SD_SWITCH_TRIES (- 1);
     if rc \<noteq> 0 then State_Monad.return rc
     else do { sd_set_clock_divider b 2; sd_wait_ready b }
   }"

definition sd_card_present :: "'h bus \<Rightarrow> ('h, 'z, bool) dev" where
  "sd_card_present b = do {
     reg_rmw b GPIO1_DIR 0 SD_CD_BIT;
     v \<leftarrow> reg_rd b GPIO1_IN;
     State_Monad.return (v AND SD_CD_BIT = 0)
   }"


section \<open>The shared pads\<close>

text \<open>NAND and SD share pads, so the NAND path needs the pad registers as they were before the first
  \<open>sd_init\<close>. What the driver relies on: the four registers keep what is written, and no other register
  changes them. \<open>pv h\<close> gives their values.\<close>

definition pads :: "u32 set" where
  "pads = {SYSCTRL 0x0C, SYSCTRL 0x74, SYSCTRL 0x78, SYSCTRL 0xA0}"

definition pad_law :: "'h bus \<Rightarrow> ('h \<Rightarrow> u32 \<Rightarrow> u32) \<Rightarrow> bool" where
  "pad_law b pv \<longleftrightarrow>
     (\<forall>a h. pv (snd (rd32 b a h)) = pv h \<and> (a \<in> pads \<longrightarrow> fst (rd32 b a h) = pv h a)) \<and>
     (\<forall>a v h. pv (wr32 b a v h) = (if a \<in> pads then (pv h)(a := v) else pv h))"

text \<open>The calls of the driver, in any order.\<close>

inductive sd_step :: "'h bus \<Rightarrow> ('h, 'z) sd_st_scheme \<Rightarrow> ('h, 'z) sd_st_scheme \<Rightarrow> bool" for b where
  step_init: "sd_step b s (snd (run_state (sd_init b) s))"
| step_high_speed: "sd_step b s (snd (run_state (sd_high_speed b) s))"
| step_read: "sd_step b s (snd (run_state (sd_read_block b lba) s))"
| step_write: "sd_step b s (snd (run_state (sd_write_block b lba ws) s))"
| step_read_blocks: "sd_step b s (snd (run_state (sd_read_blocks b lba n dst) s))"
| step_present: "sd_step b s (snd (run_state (sd_card_present b) s))"

inductive_cases sd_step_cases: "sd_step b s s'"

definition saved_pads :: "(u32 \<Rightarrow> u32) \<Rightarrow> ('h, 'z) sd_st_scheme \<Rightarrow> bool" where
  "saved_pads orig s \<longleftrightarrow> g_pin_save s = \<lparr>sc_0c = orig (SYSCTRL 0x0C), sc_74 = orig (SYSCTRL 0x74),
     sc_78 = orig (SYSCTRL 0x78), sc_a0 = orig (SYSCTRL 0xA0), valid = True\<rparr>"

definition pads_inv :: "('h \<Rightarrow> u32 \<Rightarrow> u32) \<Rightarrow> (u32 \<Rightarrow> u32) \<Rightarrow> ('h, 'z) sd_st_scheme \<Rightarrow> bool" where
  "pads_inv pv orig s \<longleftrightarrow> saved_pads orig s \<or> \<not> valid (g_pin_save s) \<and> (\<forall>a \<in> pads. pv (hwst s) a = orig a)"

lemmas mci_addrs = MCI_def MCI_CLOCK_def MCI_ARG_def MCI_CMD_def MCI_RESP0_def MCI_DATATIMER_def MCI_DATALEN_def
  MCI_DATACNT_def MCI_DATACTRL_def MCI_STA_def MCI_MASK_def MCI_DMACTRL_def MCI_FIFO_def L2_CONBUF0_7_def
  L2_BUFASSIGN1_def L2_BUFSTAT1_def L2_DMAREQ_def L2_DMA_ADDR_def L2_DMA_COUNT_def SD_L2_BUF_ID_def GPIO1_DIR_def GPIO1_IN_def

lemma not_pads:
  "MCI_CLOCK \<notin> pads" "MCI_ARG \<notin> pads" "MCI_CMD \<notin> pads" "MCI_DATATIMER \<notin> pads" "MCI_DATALEN \<notin> pads" "MCI_DATACTRL \<notin> pads"
  "MCI_MASK \<notin> pads" "MCI_DMACTRL \<notin> pads" "L2_CONBUF0_7 \<notin> pads" "L2_BUFASSIGN1 \<notin> pads" "L2_DMAREQ \<notin> pads"
  "L2_DMA_ADDR \<notin> pads" "L2_DMA_COUNT \<notin> pads" "GPIO1_DIR \<notin> pads"
  by (simp_all add: pads_def mci_addrs SYSCTRL_def)

text \<open>What holds for the two invariants that the proof needs.\<close>

lemma preserves_if_cases:
  "(c \<Longrightarrow> preserves I m) \<Longrightarrow> (\<not> c \<Longrightarrow> preserves I n) \<Longrightarrow> preserves I (if c then m else n)"
  by simp

definition pad_user :: "'h bus \<Rightarrow> (('h, 'z) sd_st_scheme \<Rightarrow> bool) \<Rightarrow> bool" where
  "pad_user b I \<longleftrightarrow> (\<forall>a. preserves I (reg_rd b a)) \<and> (\<forall>a v. a \<notin> pads \<longrightarrow> preserves I (reg_wr b a v)) \<and>
     (\<forall>s x. I s \<longrightarrow> I (s\<lparr>g_sdhc := x\<rparr>)) \<and> (\<forall>s x. I s \<longrightarrow> I (s\<lparr>g_bus_4bit := x\<rparr>)) \<and>
     (\<forall>s x. I s \<longrightarrow> I (s\<lparr>g_rca_arg := x\<rparr>))"

lemma pad_userD:
  assumes "pad_user b I"
  shows "preserves I (reg_rd b a)" and "a \<notin> pads \<Longrightarrow> preserves I (reg_wr b a v)"
    and "I s \<Longrightarrow> I (s\<lparr>g_sdhc := x\<rparr>)" and "I s \<Longrightarrow> I (s\<lparr>g_bus_4bit := x\<rparr>)" and "I s \<Longrightarrow> I (s\<lparr>g_rca_arg := r\<rparr>)"
  using assms by (auto simp: pad_user_def)

lemma preserves_rmw:
  assumes "pad_user b I" and "a \<notin> pads"
  shows "preserves I (reg_rmw b a c v)"
  unfolding reg_rmw_def by (intro preserves_rules pad_userD(1,2) [OF assms(1)] assms(2))

lemmas call_rules = preserves_rules pad_userD(1,2) preserves_rmw not_pads

lemma preserves_wait_sta: "pad_user b I \<Longrightarrow> preserves I (wait_sta b m)"
proof -
  assume u: "pad_user b I"
  have "preserves I (wait_sta_loop b n m)" for n
    by (induction n) (simp_all, (intro call_rules u | assumption)+)
  then show ?thesis by (simp add: wait_sta_def)
qed

lemma preserves_stop: "pad_user b I \<Longrightarrow> preserves I (sd_stop_transfer b)"
  unfolding sd_stop_transfer_def by (intro call_rules)

lemma preserves_quiesce: "pad_user b I \<Longrightarrow> preserves I (sd_quiesce b)"
  unfolding sd_quiesce_def by (intro call_rules preserves_stop)

lemma preserves_send: "pad_user b I \<Longrightarrow> preserves I (send_resp b c a f w)"
  unfolding send_resp_def by (intro call_rules preserves_wait_sta)

lemma preserves_clock: "pad_user b I \<Longrightarrow> preserves I (sd_set_clock_divider b d)"
  unfolding sd_set_clock_divider_def by (intro call_rules)

lemma preserves_wait_ready: "pad_user b I \<Longrightarrow> preserves I (sd_wait_ready b)"
proof -
  assume u: "pad_user b I"
  have "preserves I (wait_ready_loop b n)" for n
    by (induction n) (simp_all, (intro preserves_rules preserves_send u | assumption)+)
  then show ?thesis by (simp add: sd_wait_ready_def)
qed

lemma preserves_read_block: "pad_user b I \<Longrightarrow> preserves I (sd_read_block b lba)"
proof -
  assume u: "pad_user b I"
  have fill: "preserves I (l2_fill_loop b n)" for n
    by (induction n) (simp_all, (intro call_rules u | assumption)+)
  have words: "preserves I (read_words b a n)" for a n
    by (induction n arbitrary: a) (simp_all, (intro call_rules u | simp)+)
  have once: "preserves I (sd_read_block_once b lba)"
    unfolding sd_read_block_once_def by (intro call_rules preserves_wait_sta preserves_stop fill words u)
  have "preserves I (sd_read_tries b n lba rc)" for n rc
    by (induction n arbitrary: rc) (simp_all, (intro preserves_rules once | simp)+)
  then show ?thesis by (simp add: sd_read_block_def)
qed

lemma pads_low: "0x40000000 \<le> unat a \<Longrightarrow> a \<notin> pads"
  by (auto simp: pads_def SYSCTRL_def)

lemma preserves_write_words:
  assumes u: "pad_user b I"
  shows "0x40000000 \<le> unat a \<Longrightarrow> unat a + 4 * length ws < 2 ^ 32 \<Longrightarrow> preserves I (write_words b a ws)"
proof (induction ws arbitrary: a)
  case (Cons w ws)
  then have "unat (a + 4) = unat a + 4" by (simp add: unat_word_ariths)
  then have "preserves I (write_words b (a + 4) ws)" using Cons by simp
  then show ?case using Cons.prems(1) by (simp, intro call_rules u pads_low) simp_all
qed (simp add: preserves_return)

lemma preserves_write_wait:
  assumes u: "pad_user b I"
  shows "preserves I (write_wait b k seen)"
proof (induction k arbitrary: seen)
  case (Suc k)
  show ?case
    unfolding write_wait.simps [of b "Suc k"] nat.case by (intro call_rules u Suc)
next
  case 0
  show ?case
    unfolding write_wait.simps [of b 0] nat.case by (intro call_rules u)
qed

lemma preserves_write_block: "pad_user b I \<Longrightarrow> preserves I (sd_write_block b lba src)"
proof -
  assume u: "pad_user b I"
  have "preserves I (write_words b SD_L2_BUF_ADDR (take 128 src))"
    by (rule preserves_write_words [OF u]) (auto simp: SD_L2_BUF_ADDR_def SD_L2_BUF_ID_def)
  then have once: "preserves I (sd_write_block_once b lba src)"
    unfolding sd_write_block_once_def
    by (intro call_rules preserves_send preserves_stop preserves_write_wait preserves_wait_ready u)
  have "preserves I (sd_write_tries b n lba src rc)" for n rc
    by (induction n arbitrary: rc) (simp_all, (intro preserves_rules once | simp)+)
  then show ?thesis by (simp add: sd_write_block_def)
qed

lemma preserves_chunk: "pad_user b I \<Longrightarrow> preserves I (l2_dma_chunk b addr n)"
  unfolding l2_dma_chunk_def by (intro call_rules)

lemma preserves_dma_wait:
  assumes u: "pad_user b I"
  shows "preserves I (dma_wait b addr tot sent seen i)"
  using u
proof (induction b addr tot sent seen i rule: dma_wait.induct)
  case (1 b addr tot sent seen i)
  show ?case
    unfolding dma_wait.simps [of b addr tot sent seen i]
    by (intro preserves_bind preserves_Let preserves_if_cases preserves_return pad_userD(1) preserves_chunk 1(3);
        (rule 1(1) | rule 1(2)); (assumption | rule refl 1(3) | simp))
qed

lemma preserves_read_blocks: "pad_user b I \<Longrightarrow> preserves I (sd_read_blocks b lba n dst)"
  unfolding sd_read_blocks_def
  by (intro call_rules preserves_send preserves_chunk preserves_wait_sta preserves_dma_wait preserves_stop)

lemma preserves_high_speed: "pad_user b I \<Longrightarrow> preserves I (sd_high_speed b)"
proof -
  assume u: "pad_user b I"
  have w: "preserves I (switch_word b n seen)" for n seen
    by (induction n arbitrary: seen) (simp_all, (intro call_rules u | simp)+)
  have ws: "preserves I (switch_words b n seen acc)" for n seen acc
    by (induction n arbitrary: seen acc) (simp_all, (intro call_rules u w | simp)+)
  have d: "preserves I (drain_end b n seen)" for n seen
    by (induction n arbitrary: seen) (simp_all, (intro call_rules u impI conjI | simp)+)
  have sw: "preserves I (switch_high_speed b)"
    unfolding switch_high_speed_def by (intro call_rules preserves_stop preserves_send ws d u)
  have "preserves I (switch_tries b n rc)" for n rc
    by (induction n arbitrary: rc) (simp_all, (intro preserves_rules sw impI conjI | simp)+)
  then show ?thesis
    unfolding sd_high_speed_def by (intro preserves_rules preserves_clock preserves_wait_ready u)
qed

lemma preserves_present: "pad_user b I \<Longrightarrow> preserves I (sd_card_present b)"
  unfolding sd_card_present_def by (intro call_rules)


lemma preserves_pads: "(\<And>a v. preserves I (reg_wr b a v)) \<Longrightarrow> pad_user b I \<Longrightarrow> preserves I (sd_pads b)"
  unfolding sd_pads_def reg_rmw_def by (intro preserves_rules preserves_wait_sta pad_userD(1))

lemma saved_pads_user: "pad_user b (saved_pads orig)" "preserves (saved_pads orig) (reg_wr b a v)"
  by (auto simp: pad_user_def preserves_def saved_pads_def run_reg_rd run_reg_wr)

lemma pads_inv_user: "pad_law b pv \<Longrightarrow> pad_user b (pads_inv pv orig)"
  by (auto simp: pad_user_def preserves_def pads_inv_def saved_pads_def run_reg_rd run_reg_wr pad_law_def)

text \<open>After the pads are saved, the rest of \<open>sd_init\<close> may change them.\<close>

lemma save_pins_saves:
  assumes "pad_law b pv" and "pads_inv pv orig s"
  shows "saved_pads orig (snd (run_state (save_pins b) s))"
  using assms unfolding pads_inv_def saved_pads_def save_pins_def pad_law_def
  by (auto simp: run_simps pads_def split: prod.splits)

lemma preserves_start: "preserves (saved_pads orig) (sd_start b)"
proof -
  note u = saved_pads_user(1) [of b orig]
  have c8: "preserves (saved_pads orig) (cmd8_loop b n)" for n
    by (induction n) (simp_all, (intro preserves_rules preserves_send u | assumption)+)
  have a41: "preserves (saved_pads orig) (acmd41_loop b n f r)" for n f r
    by (induction n arbitrary: f r) (simp_all, (intro preserves_rules preserves_send u | simp)+)
  have l2: "preserves (saved_pads orig) (sd_bind_l2 b)"
    unfolding sd_bind_l2_def by (intro call_rules u)
  show ?thesis
    unfolding sd_start_def
    by (intro preserves_rules preserves_pads preserves_send preserves_clock preserves_wait_sta saved_pads_user c8 a41 l2)
      (simp_all add: saved_pads_def)
qed

lemma sd_init_saves:
  assumes law: "pad_law b pv" and inv: "pads_inv pv orig s"
  shows "saved_pads orig (snd (run_state (sd_init b) s))"
proof -
  define s1 where "s1 = s\<lparr>g_sdhc := False, g_bus_4bit := False, g_rca_arg := 0\<rparr>"
  have "pads_inv pv orig s1" using inv by (simp add: pads_inv_def saved_pads_def s1_def)
  from save_pins_saves [OF law this] obtain s2 where s2: "run_state (save_pins b) s1 = ((), s2)" "saved_pads orig s2"
    by (cases "run_state (save_pins b) s1") simp
  have "run_state (sd_init b) s = run_state (sd_start b) s2"
    using s2(1) unfolding s1_def by (simp add: sd_init_def run_bind run_modify)
  then show ?thesis using preservesD [OF preserves_start s2(2), of b] by simp
qed

lemma sd_step_inv:
  assumes law: "pad_law b pv" and "sd_step b s s'" and inv: "pads_inv pv orig s"
  shows "pads_inv pv orig s'"
proof -
  note u = pads_inv_user [OF law, of orig]
  from assms(2) show ?thesis
  proof cases
    case step_init
    then show ?thesis using sd_init_saves [OF law inv] by (simp add: pads_inv_def)
  qed (use preservesD [OF preserves_high_speed [OF u] inv] preservesD [OF preserves_read_block [OF u] inv]
      preservesD [OF preserves_write_block [OF u] inv] preservesD [OF preserves_read_blocks [OF u] inv]
      preservesD [OF preserves_present [OF u] inv] in auto)
qed

lemma release_writes_back:
  assumes law: "pad_law b pv" and inv: "pads_inv pv orig s"
  shows "\<forall>a \<in> pads. pv (hwst (snd (run_state (sd_release_pins b) s))) a = orig a"
    and "\<not> valid (g_pin_save (snd (run_state (sd_release_pins b) s)))"
proof -
  define s1 where "s1 = snd (run_state (sd_quiesce b) s)"
  have inv1: "pads_inv pv orig s1"
    unfolding s1_def by (rule preservesD [OF preserves_quiesce [OF pads_inv_user [OF law]] inv])
  have ne: "SYSCTRL 0x0C \<noteq> SYSCTRL 0x74" "SYSCTRL 0x0C \<noteq> SYSCTRL 0x78" "SYSCTRL 0x0C \<noteq> SYSCTRL 0xA0"
    "SYSCTRL 0x74 \<noteq> SYSCTRL 0x78" "SYSCTRL 0x74 \<noteq> SYSCTRL 0xA0" "SYSCTRL 0x78 \<noteq> SYSCTRL 0xA0"
    by (simp_all add: SYSCTRL_def)
  have w: "pv (wr32 b a v h) = (pv h)(a := v)" if "a \<in> pads" for a v h using law that by (simp add: pad_law_def)
  have p: "SYSCTRL 0x0C \<in> pads" "SYSCTRL 0x74 \<in> pads" "SYSCTRL 0x78 \<in> pads" "SYSCTRL 0xA0 \<in> pads"
    by (simp_all add: pads_def)
  have run: "snd (run_state (sd_release_pins b) s) =
      (if valid (g_pin_save s1) then s1\<lparr>hwst := wr32 b (SYSCTRL 0xA0) (sc_a0 (g_pin_save s1))
          (wr32 b (SYSCTRL 0x78) (sc_78 (g_pin_save s1)) (wr32 b (SYSCTRL 0x74) (sc_74 (g_pin_save s1))
            (wr32 b (SYSCTRL 0x0C) (sc_0c (g_pin_save s1)) (hwst s1)))),
          g_pin_save := (g_pin_save s1)\<lparr>valid := False\<rparr>\<rparr> else s1)"
    by (simp add: sd_release_pins_def run_simps s1_def split: prod.splits)
  show "\<not> valid (g_pin_save (snd (run_state (sd_release_pins b) s)))" unfolding run by simp
  show "\<forall>a \<in> pads. pv (hwst (snd (run_state (sd_release_pins b) s))) a = orig a"
  proof (cases "valid (g_pin_save s1)")
    case True
    then have sv: "saved_pads orig s1" using inv1 by (simp add: pads_inv_def)
    have "pv (hwst (snd (run_state (sd_release_pins b) s))) = (pv (hwst s1))(SYSCTRL 0x0C := sc_0c (g_pin_save s1),
        SYSCTRL 0x74 := sc_74 (g_pin_save s1), SYSCTRL 0x78 := sc_78 (g_pin_save s1), SYSCTRL 0xA0 := sc_a0 (g_pin_save s1))"
      unfolding run using True by (simp add: w p)
    moreover have "\<forall>a \<in> pads. a = SYSCTRL 0x0C \<or> a = SYSCTRL 0x74 \<or> a = SYSCTRL 0x78 \<or> a = SYSCTRL 0xA0"
      by (simp add: pads_def)
    ultimately show ?thesis using sv ne by (auto simp: saved_pads_def)
  next
    case False
    then show ?thesis unfolding run using inv1 by (auto simp: pads_inv_def saved_pads_def)
  qed
qed

section \<open>Properties\<close>

text \<open>C12: Whatever calls of the driver happen in between, with whatever results, \<open>sd_release_pins\<close> puts back the
  values that the shared pad registers had before the first \<open>sd_init\<close>, and is ready for the next round.\<close>

theorem sd_release_restores_pads:
  assumes "pad_law b pv" and "\<not> valid (g_pin_save s0)" and "(sd_step b)\<^sup>*\<^sup>* s0 s"
  defines "s' \<equiv> snd (run_state (sd_release_pins b) s)"
  shows "(\<forall>a \<in> pads. pv (hwst s') a = pv (hwst s0) a) \<and> \<not> valid (g_pin_save s')"
proof -
  from assms(3) have "pads_inv pv (pv (hwst s0)) s"
  proof (induction rule: rtranclp_induct)
    case base
    then show ?case using assms(2) by (simp add: pads_inv_def)
  next
    case (step y z)
    then show ?case using sd_step_inv [OF assms(1)] by blast
  qed
  from release_writes_back [OF assms(1) this] show ?thesis unfolding s'_def by blast
qed

definition ram_bus :: "(u32 \<Rightarrow> u32) bus" where
  "ram_bus = \<lparr>rd32 = \<lambda>a h. (h a, h), wr32 = \<lambda>a v h. h(a := v)\<rparr>"

definition ram_card :: "(u32 \<Rightarrow> u32) sd_st" where
  "ram_card = \<lparr>ddr = \<lambda>_. 0, log_ptr = 0, log_end = 0, uart = [], hwst = (\<lambda>a. a), pages_per_block = 0, corrections = 0, retries = 0, g_sdhc = False, g_bus_4bit = False,
     g_rca_arg = 0, g_pin_save = \<lparr>sc_0c = 0, sc_74 = 0, sc_78 = 0, sc_a0 = 0, valid = False\<rparr>\<rparr>"

theorem sd_release_restores_pads_witness:
  "let s = snd (run_state (sd_init ram_bus) (snd (run_state (sd_init ram_bus) ram_card)));
       s' = snd (run_state (sd_release_pins ram_bus) s)
   in hwst s' (SYSCTRL 0x74) = SYSCTRL 0x74 \<and> \<not> valid (g_pin_save s')"
proof -
  define pv where "pv h a = (if a \<in> pads then h a else (0 :: u32))" for h a
  have "pad_law ram_bus pv" by (auto simp: pad_law_def ram_bus_def pv_def)
  moreover have "\<not> valid (g_pin_save ram_card)" by (simp add: ram_card_def)
  moreover have "(sd_step ram_bus)\<^sup>*\<^sup>* ram_card (snd (run_state (sd_init ram_bus) (snd (run_state (sd_init ram_bus) ram_card))))"
    by (meson step_init rtranclp.rtrancl_into_rtrancl rtranclp.rtrancl_refl)
  ultimately have "(\<forall>a \<in> pads. pv (hwst (snd (run_state (sd_release_pins ram_bus)
      (snd (run_state (sd_init ram_bus) (snd (run_state (sd_init ram_bus) ram_card))))))) a = pv (hwst ram_card) a) \<and>
      \<not> valid (g_pin_save (snd (run_state (sd_release_pins ram_bus)
      (snd (run_state (sd_init ram_bus) (snd (run_state (sd_init ram_bus) ram_card)))))))"
    by (rule sd_release_restores_pads)
  then show ?thesis by (auto simp: pads_def pv_def ram_card_def)
qed

end
