(* ===== verification/Storage.thy ===== *)
theory Storage
  imports Settings Sd
begin

text \<open>
  The file layer of aipc-boot (storage.c) over FatFs. FatFs is third-party code: its calls are the
  fields of a record \<open>fatfs\<close> and work on the whole state, because FatFs calls back into
  \<open>disk_read\<close>, \<open>disk_write\<close> and \<open>disk_initialize\<close>. The card driver is reached through a second
  record. A read gives the bytes that it stores from its destination on.
\<close>

section \<open>State and parameters\<close>

record 'o fil =
  fobj :: 'o
  fptr :: u32
  objsize :: u32
  cltbl :: bool

text \<open>\<open>vol\<close> is what FatFs and the card keep. \<open>csize\<close>, \<open>database\<close>, \<open>n_fatent\<close> and \<open>fs_type\<close> are the
  fields of \<open>fs\<close> that storage.c reads.\<close>

record 'v storage_st = log_st +
  vol :: 'v
  card_ready :: bool
  single_blocks :: bool
  bounce :: bytes
  clmt :: "u32 list"
  csize :: u32
  database :: u32
  n_fatent :: u32
  fs_type :: nat

record ('v, 'o) fatfs =
  ff_mount :: "'v storage_st \<Rightarrow> nat \<times> 'v storage_st"
  ff_getfree :: "'v storage_st \<Rightarrow> nat \<times> u32 \<times> 'v storage_st"
  ff_open :: "string \<Rightarrow> bool \<Rightarrow> 'v storage_st \<Rightarrow> nat \<times> 'o fil \<times> 'v storage_st"
  ff_read :: "'o fil \<Rightarrow> nat \<Rightarrow> 'v storage_st \<Rightarrow> nat \<times> bytes \<times> 'o fil \<times> 'v storage_st"
  ff_write :: "'o fil \<Rightarrow> bytes \<Rightarrow> 'v storage_st \<Rightarrow> nat \<times> nat \<times> 'o fil \<times> 'v storage_st"
  ff_lseek :: "'o fil \<Rightarrow> u32 \<Rightarrow> 'v storage_st \<Rightarrow> nat \<times> 'o fil \<times> 'v storage_st"
  ff_linkmap :: "'o fil \<Rightarrow> 'v storage_st \<Rightarrow> nat \<times> 'o fil \<times> 'v storage_st"
  ff_close :: "'o fil \<Rightarrow> 'v storage_st \<Rightarrow> nat \<times> 'v storage_st"
  ff_unlink :: "string \<Rightarrow> 'v storage_st \<Rightarrow> nat \<times> 'v storage_st"
  ff_rename :: "string \<Rightarrow> string \<Rightarrow> 'v storage_st \<Rightarrow> nat \<times> 'v storage_st"

record 'v sd_ops =
  op_sd_init :: "'v storage_st \<Rightarrow> int \<times> 'v storage_st"
  op_sd_high_speed :: "'v storage_st \<Rightarrow> int \<times> 'v storage_st"
  op_sd_read_block :: "u32 \<Rightarrow> 'v storage_st \<Rightarrow> int \<times> bytes \<times> 'v storage_st"
  op_sd_write_block :: "u32 \<Rightarrow> bytes \<Rightarrow> 'v storage_st \<Rightarrow> int \<times> 'v storage_st"
  op_sd_read_blocks :: "u32 \<Rightarrow> u32 \<Rightarrow> 'v storage_st \<Rightarrow> int \<times> bytes \<times> 'v storage_st"

text \<open>Return codes of FatFs and of its disk layer.\<close>

definition FR_OK :: nat where [simp]: "FR_OK = 0"
definition FR_NOT_READY :: nat where "FR_NOT_READY = 3"
definition FR_NO_FILE :: nat where "FR_NO_FILE = 4"
definition FR_NO_PATH :: nat where "FR_NO_PATH = 5"
datatype dstatus = STA_OK | STA_NOINIT
datatype dresult = RES_OK | RES_ERROR | RES_NOTRDY | RES_PARERR
definition CTRL_SYNC :: nat where "CTRL_SYNC = 0"
definition FF_MAX_LFN :: nat where "FF_MAX_LFN = 255"

section \<open>The disk below FatFs\<close>

definition card_start :: "'v sd_ops \<Rightarrow> 'v storage_st \<Rightarrow> int \<times> 'v storage_st" where
  "card_start sd s =
     (let (rc, s1) = op_sd_init sd s
      in if rc \<noteq> 0 then (rc, s1)
         else
           let (rc2, s2) = op_sd_high_speed sd s1
           in (0, if rc2 \<noteq> 0 then log_rc rc2 (log_puts (cs ''storage: high speed'') s2) else s2))"

definition disk_initialize :: "'v sd_ops \<Rightarrow> nat \<Rightarrow> 'v storage_st \<Rightarrow> dstatus \<times> 'v storage_st" where
  "disk_initialize sd pdrv s =
     (if pdrv \<noteq> 0 then (STA_NOINIT, s)
      else
        let s1 = (if card_ready s then s
                  else let (rc, s0) = card_start sd s in s0\<lparr>card_ready := rc = 0\<rparr>)
        in (if card_ready s1 then STA_OK else STA_NOINIT, s1))"

definition disk_status :: "nat \<Rightarrow> 'v storage_st \<Rightarrow> dstatus" where
  "disk_status pdrv s = (if pdrv \<noteq> 0 \<or> \<not> card_ready s then STA_NOINIT else STA_OK)"

text \<open>\<open>buff\<close> is the address of the buffer; the result is what it receives.\<close>

fun disk_read_loop ::
  "'v sd_ops \<Rightarrow> u32 \<Rightarrow> u32 \<Rightarrow> nat \<Rightarrow> bytes \<Rightarrow> 'v storage_st \<Rightarrow> dresult \<times> bytes \<times> 'v storage_st" where
  "disk_read_loop sd buff sector 0 acc s = (RES_OK, acc, s)"
| "disk_read_loop sd buff sector (Suc n) acc s =
     (let aligned = buff AND 3 = 0;
          (rc, bs, s1) = op_sd_read_block sd sector s;
          s2 = (if aligned then s1 else s1\<lparr>bounce := put_bytes (bounce s1) 0 bs\<rparr>)
      in if rc \<noteq> 0 then (RES_ERROR, if aligned then acc @ bs else acc, s2)
         else disk_read_loop sd (buff + 512) (sector + 1) n (acc @ (if aligned then bs else bounce s2)) s2)"

definition disk_read :: "'v sd_ops \<Rightarrow> nat \<Rightarrow> u32 \<Rightarrow> u32 \<Rightarrow> nat \<Rightarrow> 'v storage_st \<Rightarrow> dresult \<times> bytes \<times> 'v storage_st" where
  "disk_read sd pdrv buff sector cnt s =
     (if pdrv \<noteq> 0 \<or> \<not> card_ready s then (RES_NOTRDY, [], s)
      else disk_read_loop sd buff sector cnt [] s)"

fun disk_write_loop :: "'v sd_ops \<Rightarrow> u32 \<Rightarrow> bytes \<Rightarrow> u32 \<Rightarrow> nat \<Rightarrow> 'v storage_st \<Rightarrow> dresult \<times> 'v storage_st" where
  "disk_write_loop sd buff data sector 0 s = (RES_OK, s)"
| "disk_write_loop sd buff data sector (Suc n) s =
     (let s1 = (if buff AND 3 \<noteq> 0 then s\<lparr>bounce := take 512 data\<rparr> else s);
          src = (if buff AND 3 \<noteq> 0 then bounce s1 else take 512 data);
          (rc, s2) = op_sd_write_block sd sector src s1
      in if rc \<noteq> 0 then (RES_ERROR, s2) else disk_write_loop sd (buff + 512) (drop 512 data) (sector + 1) n s2)"

definition disk_write :: "'v sd_ops \<Rightarrow> nat \<Rightarrow> u32 \<Rightarrow> bytes \<Rightarrow> u32 \<Rightarrow> nat \<Rightarrow> 'v storage_st \<Rightarrow> dresult \<times> 'v storage_st" where
  "disk_write sd pdrv buff data sector cnt s =
     (if pdrv \<noteq> 0 \<or> \<not> card_ready s then (RES_NOTRDY, s)
      else disk_write_loop sd buff data sector cnt s)"

definition disk_ioctl :: "nat \<Rightarrow> nat \<Rightarrow> 'v storage_st \<Rightarrow> dresult" where
  "disk_ioctl pdrv cmd s =
     (if pdrv \<noteq> 0 \<or> \<not> card_ready s then RES_NOTRDY else if cmd = CTRL_SYNC then RES_OK else RES_PARERR)"

section \<open>Volumes\<close>

definition storage_mount :: "('v, 'o) fatfs \<Rightarrow> 'v storage_st \<Rightarrow> int \<times> 'v storage_st" where
  "storage_mount ff s =
     (let (fr, s1) = ff_mount ff (s\<lparr>card_ready := False, single_blocks := False\<rparr>)
      in if fr \<noteq> FR_OK then
           (if fr = FR_NOT_READY then STORAGE_EIO else - int fr, log_puts (cs ''storage: mount failed'' @ [10]) s1)
         else (0, s1))"

definition fs_types :: "string list" where
  "fs_types = [''FAT12'', ''FAT16'', ''FAT32'', ''exFAT'']"

text \<open>Free and total megabytes and the type, or the error.\<close>

definition storage_space :: "('v, 'o) fatfs \<Rightarrow> 'v storage_st \<Rightarrow> (int + u32 \<times> u32 \<times> string) \<times> 'v storage_st" where
  "storage_space ff s =
     (let (fr, clusters, s1) = ff_getfree ff s
      in if fr \<noteq> FR_OK then (Inl STORAGE_EIO, s1)
         else
           (Inr (ucast (drop_bit 11 ((ucast clusters :: u64) * ucast (csize s1))),
                 ucast (drop_bit 11 ((ucast (n_fatent s1 - 2) :: u64) * ucast (csize s1))),
                 if 1 \<le> fs_type s1 \<and> fs_type s1 \<le> 4 then fs_types ! (fs_type s1 - 1) else ''FAT''), s1))"

section \<open>Reading\<close>

definition new_name :: "string \<Rightarrow> nat \<Rightarrow> string option" where
  "new_name path cap = (if cap < length path + 5 then None else Some (path @ ''.new''))"

definition read_slow ::
  "('v, 'o) fatfs \<Rightarrow> 'o fil \<Rightarrow> nat \<Rightarrow> 'v storage_st \<Rightarrow> int \<times> bytes \<times> 'o fil \<times> 'v storage_st" where
  "read_slow ff f len s =
     (let (fr, bs, f1, s1) = ff_read ff f len s
      in (if fr \<noteq> FR_OK \<or> length bs \<noteq> len then STORAGE_EIO else 0, bs, f1, s1))"

fun run_scan :: "u32 \<Rightarrow> u32 \<Rightarrow> u32 \<Rightarrow> u32 \<Rightarrow> u32 list \<Rightarrow> u32 \<times> u32" where
  "run_scan cz db inn cl (n # c # t) =
     (if n = 0 then (0, 0)
      else if cl < n then (db + (c + cl - 2) * cz + inn, (n - cl) * cz - inn)
      else run_scan cz db inn (cl - n) t)"
| "run_scan cz db inn cl t = (0, 0)"

text \<open>The sector and the number of sectors to the end of its run.\<close>

definition run_at :: "u32 \<Rightarrow> 'v storage_st \<Rightarrow> u32 \<times> u32" where
  "run_at pos s =
     run_scan (csize s) (database s) (pos div 512 mod csize s) (pos div 512 div csize s) (tl (clmt s))"

definition read_rest ::
  "('v, 'o) fatfs \<Rightarrow> 'o fil \<Rightarrow> bytes \<Rightarrow> bytes \<Rightarrow> u32 \<Rightarrow> 'v storage_st \<Rightarrow> int \<times> bytes \<times> 'o fil \<times> 'v storage_st" where
  "read_rest ff f acc partial len s =
     (let (rc, bs, f1, s1) = read_slow ff f (unat len) s in (rc, acc @ over bs partial, f1, s1))"

definition blocks_now :: "u32 \<Rightarrow> u32 \<Rightarrow> u32" where
  "blocks_now n len = (let n1 = (if len div 512 < n then len div 512 else n) in if SD_BLOCKS_MAX < n1 then SD_BLOCKS_MAX else n1)"

lemma blocks_now_le: "unat (blocks_now n len) * 512 \<le> unat len"
proof -
  have "unat (blocks_now n len) \<le> unat len div 512"
    by (auto simp: blocks_now_def Let_def SD_BLOCKS_MAX_def word_less_nat_alt unat_div)
  then show ?thesis by linarith
qed

lemma blocks_now_bytes: "unat (blocks_now n len * 512) = unat (blocks_now n len) * 512"
  using blocks_now_le [of n len] unat_u32_bound [of len] by (simp add: unat_word_ariths)

function read_fast ::
  "('v, 'o) fatfs \<Rightarrow> 'v sd_ops \<Rightarrow> 'o fil \<Rightarrow> bytes \<Rightarrow> u32 \<Rightarrow> 'v storage_st \<Rightarrow> int \<times> bytes \<times> 'o fil \<times> 'v storage_st" where
  "read_fast ff sd f acc len s =
     (if len < 512 then read_rest ff f acc [] len s
      else
        let (lba, n0) = run_at (fptr f) s; n = blocks_now n0 len
        in if n = 0 then (STORAGE_EIO, acc, f, s)
           else
             let (rc, bs, s1) = op_sd_read_blocks sd lba n s
             in if rc = SD_ENOCMD23 then
                  read_rest ff f acc bs len
                    ((log_puts (cs ''storage: no CMD23, single blocks only'' @ [10]) s1)\<lparr>single_blocks := True\<rparr>)
                else if rc \<noteq> 0 then
                  let (rc2, s2) = card_start sd (log_puts (cs ''storage: multiple block read failed'' @ [10]) s1)
                  in if rc2 \<noteq> 0 then (STORAGE_EIO, acc @ bs, f, s2) else read_rest ff f acc bs len s2
                else
                  let (fr, f1, s2) = ff_lseek ff f (fptr f + n * 512) s1
                  in if fr \<noteq> FR_OK then (STORAGE_EIO, acc @ bs, f1, s2)
                     else read_fast ff sd f1 (acc @ bs) (len - n * 512) s2)"
  by pat_completeness auto
termination
proof (relation "measure (\<lambda>(ff, sd, f, acc, len, s). unat len)", simp)
  fix ff :: "('v, 'o) fatfs" and sd :: "'v sd_ops" and f :: "'o fil" and acc :: bytes
    and len :: u32 and s :: "'v storage_st" and lba n0 n
  fix x xa y z w za
  assume "n = blocks_now n0 len" and "n \<noteq> 0"
  then have "0 < unat (n * 512)" "unat (n * 512) \<le> unat len"
    using blocks_now_le [of n0 len] blocks_now_bytes [of n0 len] by (simp_all add: unat_gt_0)
  then have "unat (len - n * 512) < unat len" by (simp add: unat_sub word_le_nat_alt)
  then show "((ff, sd, w, za, len - n * 512, z), ff, sd, f, acc, len, s) \<in> measure (\<lambda>(ff, sd, f, acc, len, s). unat len)"
    by simp
qed

declare read_fast.simps [simp del]

definition storage_read ::
  "('v, 'o) fatfs \<Rightarrow> 'v sd_ops \<Rightarrow> 'o fil \<Rightarrow> u32 \<Rightarrow> u32 \<Rightarrow> 'v storage_st \<Rightarrow> int \<times> bytes \<times> 'o fil \<times> 'v storage_st" where
  "storage_read ff sd f dst len s =
     (let (f1, s1) =
            (if cltbl f then (f, s)
             else
               let (fr, f0, s0) = ff_linkmap ff (f\<lparr>cltbl := True\<rparr>) (s\<lparr>clmt := (clmt s)[0 := 512]\<rparr>)
               in (if fr \<noteq> FR_OK then f0\<lparr>cltbl := False\<rparr> else f0, s0));
          head0 = (512 - fptr f1 mod 512) mod 512;
          head = (if len < head0 \<or> \<not> cltbl f1 \<or> single_blocks s1 \<or> (dst + head0) AND 63 \<noteq> 0 then len else head0);
          (rc, bs, f2, s2) = read_slow ff f1 (unat head) s1
      in if rc \<noteq> 0 then (STORAGE_EIO, bs, f2, s2) else read_fast ff sd f2 bs (len - head) s2)"

text \<open>The return code, the bytes and the size.\<close>

definition load_one ::
  "('v, 'o) fatfs \<Rightarrow> 'v sd_ops \<Rightarrow> string \<Rightarrow> u32 \<Rightarrow> u32 \<Rightarrow> 'v storage_st \<Rightarrow> int \<times> bytes \<times> 'v storage_st" where
  "load_one ff sd path dst limit s =
     (let (fr, f, s1) = ff_open ff path False s
      in if fr = FR_NO_FILE \<or> fr = FR_NO_PATH then (STORAGE_ENOTFOUND, [], s1)
         else if fr \<noteq> FR_OK then (STORAGE_EIO, [], s1)
         else
           let want = objsize f
           in if want = 0 \<or> limit < want then (STORAGE_ESIZE, [], snd (ff_close ff f s1))
              else
                let (rc, bs, f2, s2) = storage_read ff sd f dst want s1
                in (rc, bs, snd (ff_close ff f2 s2)))"

definition storage_load ::
  "('v, 'o) fatfs \<Rightarrow> 'v sd_ops \<Rightarrow> string \<Rightarrow> u32 \<Rightarrow> u32 \<Rightarrow> 'v storage_st \<Rightarrow> int \<times> bytes \<times> 'v storage_st" where
  "storage_load ff sd path dst limit s =
     (let (rc, bs, s1) = load_one ff sd path dst limit s
      in if rc \<noteq> STORAGE_ENOTFOUND then (rc, bs, s1)
         else case new_name path (FF_MAX_LFN + 1) of
             None \<Rightarrow> (rc, bs, s1)
           | Some tmp \<Rightarrow> load_one ff sd tmp dst limit s1)"

section \<open>Writing\<close>

definition storage_save :: "('v, 'o) fatfs \<Rightarrow> string \<Rightarrow> bytes \<Rightarrow> 'v storage_st \<Rightarrow> int \<times> 'v storage_st" where
  "storage_save ff path src s =
     (case new_name path (FF_MAX_LFN + 1) of
        None \<Rightarrow> (STORAGE_EIO, s)
      | Some tmp \<Rightarrow>
          let (fr, f, s1) = ff_open ff tmp True s
          in if fr \<noteq> FR_OK then (STORAGE_EIO, s1)
             else
               let (fr2, put, f2, s2) = ff_write ff f src s1; (frc, s3) = ff_close ff f2 s2
               in if frc \<noteq> FR_OK \<or> fr2 \<noteq> FR_OK \<or> put \<noteq> length src then (STORAGE_EIO, snd (ff_unlink ff tmp s3))
                  else
                    let (fr3, s4) = ff_unlink ff path s3
                    in if fr3 \<noteq> FR_OK \<and> fr3 \<noteq> FR_NO_FILE then (STORAGE_EIO, s4)
                       else
                         let (fr4, s5) = ff_rename ff tmp path s4
                         in (if fr4 = FR_OK then 0 else STORAGE_EIO, s5))"


section \<open>The cluster link map\<close>

text \<open>The clusters of the file, in order, and the disk sector of its \<open>k\<close>-th sector.\<close>

fun chain :: "u32 list \<Rightarrow> u32 list" where
  "chain (n # c # t) = (if n = 0 then [] else map (\<lambda>i. c + of_nat i) [0..<unat n] @ chain t)"
| "chain t = []"

definition sector_of :: "u32 list \<Rightarrow> u32 \<Rightarrow> u32 \<Rightarrow> nat \<Rightarrow> u32" where
  "sector_of t cz db k = db + (chain t ! (k div unat cz) - 2) * cz + of_nat (k mod unat cz)"

lemma run_scan_hit:
  fixes cz inn cl n db c :: u32
  assumes "0 < cz" and "inn < cz" and "cl < n" and "unat n * unat cz < 2 ^ 32" and "i < unat ((n - cl) * cz - inn)"
  defines "k \<equiv> unat cl * unat cz + unat inn + i"
  shows "k div unat cz < unat n"
    and "db + (c + cl - 2) * cz + inn + of_nat i = db + (c + of_nat (k div unat cz) - 2) * cz + of_nat (k mod unat cz)"
proof -
  define CZ IN N CL where "CZ = unat cz" and "IN = unat inn" and "N = unat n" and "CL = unat cl"
  have b: "0 < CZ" "IN < CZ" "CL < N" "N * CZ < 2 ^ 32"
    using assms(1-4) by (simp_all add: CZ_def IN_def N_def CL_def word_less_nat_alt unat_gt_0)
  have le: "(N - CL) * CZ \<le> N * CZ" by simp
  have u1: "unat (n - cl) = N - CL" using assms(3) by (simp add: unat_sub N_def CL_def word_less_nat_alt word_le_nat_alt)
  have u2: "unat ((n - cl) * cz) = (N - CL) * CZ"
    using le_less_trans [OF le b(4)] u1 by (simp add: unat_word_ariths CZ_def)
  have "CZ * 1 \<le> CZ * (N - CL)" by (rule mult_le_mono2) (use b(3) in simp)
  then have "IN \<le> (N - CL) * CZ" using b(2) unfolding mult.commute [of CZ] by linarith
  then have "unat ((n - cl) * cz - inn) = (N - CL) * CZ - IN" using u2 by (simp add: unat_sub IN_def word_le_nat_alt)
  then have i: "IN + i < (N - CL) * CZ" using assms(5) by linarith
  have "k = (IN + i) + CL * CZ" by (simp add: k_def CZ_def IN_def CL_def)
  then have kd: "k div CZ = (IN + i) div CZ + CL" using b(1) by simp
  moreover have "(IN + i) div CZ < N - CL" using i by (rule less_mult_imp_div_less)
  ultimately show "k div unat cz < unat n" using b(3) by (simp add: CZ_def N_def)
  have "of_nat k = (of_nat (k div CZ) * of_nat CZ + of_nat (k mod CZ) :: u32)"
    unfolding of_nat_mult [symmetric] of_nat_add [symmetric] by simp
  moreover have "of_nat k = (cl * cz + inn + of_nat i :: u32)" by (simp add: k_def)
  ultimately have "of_nat (k div CZ) * cz + of_nat (k mod CZ) = cl * cz + inn + of_nat i" by (simp add: CZ_def)
  then show "db + (c + cl - 2) * cz + inn + of_nat i = db + (c + of_nat (k div unat cz) - 2) * cz + of_nat (k mod unat cz)"
    unfolding CZ_def [symmetric] by (simp add: algebra_simps)
qed

lemma run_scan_correct:
  assumes "0 < cz" and "inn < cz" and "length (chain t) * unat cz < 2 ^ 32"
    and "unat cl < length (chain t)" and "run_scan cz db inn cl t = (lba, m)"
  shows "0 < m \<and> (\<forall>i < unat m. (unat cl * unat cz + unat inn + i) div unat cz < length (chain t) \<and>
    lba + of_nat i = sector_of t cz db (unat cl * unat cz + unat inn + i))"
  using assms
proof (induction cz db inn cl t rule: run_scan.induct)
  case (1 cz db inn cl n c t)
  then have n0: "n \<noteq> 0" by (auto simp: chain.simps)
  have len: "length (chain (n # c # t)) = unat n + length (chain t)" using n0 by simp
  show ?case
  proof (cases "cl < n")
    case True
    then have r: "lba = db + (c + cl - 2) * cz + inn" "m = (n - cl) * cz - inn" using 1(6) n0 by simp_all
    have bound: "unat n * unat cz < 2 ^ 32"
      using 1(4) unfolding len by (simp add: add_mult_distrib)
    have ge: "unat inn < unat ((n - cl) * cz)"
    proof -
      have "unat (n - cl) \<le> unat n" using True by (simp add: unat_sub word_le_nat_alt word_less_nat_alt)
      then have "unat (n - cl) * unat cz < 2 ^ 32" using bound mult_le_mono1 le_less_trans by blast
      then have e: "unat ((n - cl) * cz) = unat (n - cl) * unat cz" by (simp add: unat_word_ariths)
      have "0 < unat (n - cl)" using True by (simp add: unat_gt_0)
      then have "1 * unat cz \<le> unat (n - cl) * unat cz" by (intro mult_le_mono1) simp
      then show ?thesis using 1(3) unfolding e word_less_nat_alt by linarith
    qed
    then have "inn < (n - cl) * cz" by (simp add: word_less_nat_alt)
    then have "0 < m" unfolding r(2) by (metis cancel_comm_monoid_add_class.diff_cancel diff_add_cancel add_0 less_irrefl word_gt_0)
    moreover have "(unat cl * unat cz + unat inn + i) div unat cz < length (chain (n # c # t)) \<and>
        lba + of_nat i = sector_of (n # c # t) cz db (unat cl * unat cz + unat inn + i)" if "i < unat m" for i
    proof -
      note h = run_scan_hit [OF 1(2,3) True bound that [unfolded r(2)]]
      from h(1) have "chain (n # c # t) ! ((unat cl * unat cz + unat inn + i) div unat cz) =
          c + of_nat ((unat cl * unat cz + unat inn + i) div unat cz)"
        using n0 by (simp add: nth_append)
      with h len show ?thesis unfolding sector_of_def r(1) by simp
    qed
    ultimately show ?thesis by blast
  next
    case False
    then have u: "unat (cl - n) = unat cl - unat n" "unat n \<le> unat cl"
      by (simp_all add: unat_sub word_le_nat_alt word_less_nat_alt)
    have scan: "run_scan cz db inn (cl - n) t = (lba, m)" using 1(6) n0 False by simp
    have "length (chain t) * unat cz < 2 ^ 32" using 1(4) unfolding len by (simp add: add_mult_distrib)
    moreover have "unat (cl - n) < length (chain t)" using 1(5) u unfolding len by simp
    ultimately have IH: "0 < m \<and> (\<forall>i < unat m. (unat (cl - n) * unat cz + unat inn + i) div unat cz < length (chain t) \<and>
        lba + of_nat i = sector_of t cz db (unat (cl - n) * unat cz + unat inn + i))"
      using 1(1) [OF n0 False 1(2,3) _ _ scan] by blast
    have k: "unat cl * unat cz + unat inn + i = (unat (cl - n) * unat cz + unat inn + i) + unat n * unat cz" for i
    proof -
      have "unat cl = unat (cl - n) + unat n" using u by simp
      then show ?thesis by (simp add: add_mult_distrib)
    qed
    have cz: "unat cz \<noteq> 0" using 1(2) by (simp add: unat_eq_zero)
    show ?thesis
      unfolding k sector_of_def using IH cz n0 by (simp add: sector_of_def nth_append)
  qed
qed simp_all

lemma run_at_correct:
  assumes "0 < csize s" and "length (chain (tl (clmt s))) * unat (csize s) < 2 ^ 32"
    and "unat pos div 512 div unat (csize s) < length (chain (tl (clmt s)))" and "run_at pos s = (lba, m)"
  shows "0 < m \<and> (\<forall>i < unat m. (unat pos div 512 + i) div unat (csize s) < length (chain (tl (clmt s))) \<and>
    lba + of_nat i = sector_of (tl (clmt s)) (csize s) (database s) (unat pos div 512 + i))"
proof -
  have e: "unat (pos div 512 div csize s) = unat pos div 512 div unat (csize s)"
    "unat (pos div 512 mod csize s) = unat pos div 512 mod unat (csize s)" by (simp_all add: unat_div unat_mod)
  have lt: "pos div 512 mod csize s < csize s"
    using assms(1) by (simp add: word_less_nat_alt unat_mod unat_gt_0)
  have "unat (pos div 512 div csize s) < length (chain (tl (clmt s)))" using assms(3) e by simp
  from run_scan_correct [OF assms(1) lt assms(2) this assms(4) [unfolded run_at_def]]
  show ?thesis unfolding e by simp
qed


section \<open>Reading a file\<close>

text \<open>What the code relies on. \<open>op f v\<close> says that \<open>f\<close> is open on a file with the content \<open>c\<close>; \<open>disk\<close>
  gives the card's sectors. A link map covers the file with its clusters.\<close>

definition link_map :: "'v storage_st \<Rightarrow> u32 list \<times> u32 \<times> u32" where
  "link_map s = (tl (clmt s), csize s, database s)"

definition link_map_ok :: "bytes \<Rightarrow> (u32 \<Rightarrow> bytes) \<Rightarrow> u32 list \<times> u32 \<times> u32 \<Rightarrow> bool" where
  "link_map_ok c disk = (\<lambda>(t, cz, db). 0 < cz \<and> length (chain t) * unat cz < 2 ^ 32 \<and>
     length c \<le> 512 * (length (chain t) * unat cz) \<and>
     (\<forall>k. 512 * (k + 1) \<le> length c \<longrightarrow> disk (sector_of t cz db k) = take 512 (drop (512 * k) c)))"

definition read_law :: "('v, 'o) fatfs \<Rightarrow> ('o fil \<Rightarrow> 'v \<Rightarrow> bool) \<Rightarrow> bytes \<Rightarrow> bool" where
  "read_law ff op c \<longleftrightarrow> (\<forall>f s k fr bs f' s'. op f (vol s) \<longrightarrow> ff_read ff f k s = (fr, bs, f', s') \<longrightarrow>
     op f' (vol s') \<and> link_map s' = link_map s \<and> length bs \<le> k \<and>
     (fr = FR_OK \<longrightarrow> bs = take k (drop (unat (fptr f)) c) \<and> fptr f' = fptr f + of_nat (length bs)))"

definition seek_law :: "('v, 'o) fatfs \<Rightarrow> ('o fil \<Rightarrow> 'v \<Rightarrow> bool) \<Rightarrow> bytes \<Rightarrow> bool" where
  "seek_law ff op c \<longleftrightarrow> (\<forall>f s k fr f' s'. op f (vol s) \<longrightarrow> ff_lseek ff f k s = (fr, f', s') \<longrightarrow>
     op f' (vol s') \<and> link_map s' = link_map s \<and> (fr = FR_OK \<longrightarrow> unat k \<le> length c \<longrightarrow> fptr f' = k))"

definition link_map_law :: "('v, 'o) fatfs \<Rightarrow> ('o fil \<Rightarrow> 'v \<Rightarrow> bool) \<Rightarrow> bytes \<Rightarrow> (u32 \<Rightarrow> bytes) \<Rightarrow> bool" where
  "link_map_law ff op c disk \<longleftrightarrow> (\<forall>f s fr f' s'. op f (vol s) \<longrightarrow>
     ff_linkmap ff (f\<lparr>cltbl := True\<rparr>) (s\<lparr>clmt := (clmt s)[0 := 512]\<rparr>) = (fr, f', s') \<longrightarrow>
     op f' (vol s') \<and> op (f'\<lparr>cltbl := False\<rparr>) (vol s') \<and> fptr f' = fptr f \<and>
     (fr = FR_OK \<longrightarrow> link_map_ok c disk (link_map s')))"

definition card_law :: "'v sd_ops \<Rightarrow> ('o fil \<Rightarrow> 'v \<Rightarrow> bool) \<Rightarrow> (u32 \<Rightarrow> bytes) \<Rightarrow> bool" where
  "card_law sd op disk \<longleftrightarrow>
     (\<forall>f s rc s'. op f (vol s) \<longrightarrow> op_sd_init sd s = (rc, s') \<or> op_sd_high_speed sd s = (rc, s') \<longrightarrow>
        op f (vol s') \<and> link_map s' = link_map s) \<and>
     (\<forall>f s lba n rc bs s'. op f (vol s) \<longrightarrow> op_sd_read_blocks sd lba n s = (rc, bs, s') \<longrightarrow>
        op f (vol s') \<and> link_map s' = link_map s \<and> length bs \<le> 512 * unat n \<and>
        (rc = 0 \<longrightarrow> bs = concat (map (\<lambda>i. disk (lba + of_nat i)) [0..<unat n])))"

lemma concat_sectors:
  "concat (map (\<lambda>i. take 512 (drop (512 * (k + i)) c)) [0..<n]) = take (512 * n) (drop (512 * k) c)"
proof (induction n)
  case (Suc n)
  have "take (512 * Suc n) (drop (512 * k) c) =
      take (512 * n) (drop (512 * k) c) @ take 512 (drop (512 * n) (drop (512 * k) c))"
    unfolding mult_Suc_right by (simp only: take_add add.commute [of 512])
  then show ?case using Suc by (simp add: distrib_left add.commute)
qed simp

lemma log_storage [simp]:
  "vol (log_puts t s) = vol s" "link_map (log_puts t s) = link_map s"
  "vol (log_rc rc s) = vol s" "link_map (log_rc rc s) = link_map s"
proof -
  show "vol (log_puts t s) = vol s" "link_map (log_puts t s) = link_map s" for t and s :: "'a storage_st"
    by (rule log_puts_frame, simp add: log_putc_def link_map_def Let_def)+
  then show "vol (log_rc rc s) = vol s" "link_map (log_rc rc s) = link_map s"
    unfolding log_rc_puts by simp_all
qed

lemma link_map_single [simp]: "link_map (s\<lparr>single_blocks := b\<rparr>) = link_map s"
  by (simp add: link_map_def)

lemma card_start_law:
  assumes "card_law sd op disk" and "op f (vol s)" and "card_start sd s = (rc, s')"
  shows "op f (vol s')" and "link_map s' = link_map s"
proof -
  obtain rc1 s1 where 1: "op_sd_init sd s = (rc1, s1)" by fastforce
  obtain rc2 s2 where 2: "op_sd_high_speed sd s1 = (rc2, s2)" by fastforce
  have a: "op f (vol s1) \<and> link_map s1 = link_map s" using assms(1,2) 1 unfolding card_law_def by blast
  then have b: "op f (vol s2) \<and> link_map s2 = link_map s1" using assms(1) 2 unfolding card_law_def by blast
  show "op f (vol s')" "link_map s' = link_map s"
    using assms(3) 1 2 a b by (auto simp: card_start_def split: if_splits)
qed

lemma read_slow_law:
  assumes "read_law ff op c" and "op f (vol s)" and "read_slow ff f k s = (rc, bs, f', s')"
  shows "op f' (vol s')" "link_map s' = link_map s" "length bs \<le> k"
    "rc = 0 \<Longrightarrow> length bs = k \<and> bs = take k (drop (unat (fptr f)) c) \<and> fptr f' = fptr f + of_nat k"
    "rc \<noteq> 0 \<Longrightarrow> rc = STORAGE_EIO"
proof -
  obtain fr where r: "ff_read ff f k s = (fr, bs, f', s')" and
    rc: "rc = (if fr \<noteq> FR_OK \<or> length bs \<noteq> k then STORAGE_EIO else 0)"
    using assms(3) by (auto simp: read_slow_def split: prod.splits)
  have "op f' (vol s') \<and> link_map s' = link_map s \<and> length bs \<le> k \<and>
     (fr = FR_OK \<longrightarrow> bs = take k (drop (unat (fptr f)) c) \<and> fptr f' = fptr f + of_nat (length bs))"
    using assms(1,2) r unfolding read_law_def by blast
  then show "op f' (vol s')" "link_map s' = link_map s" "length bs \<le> k"
    "rc = 0 \<Longrightarrow> length bs = k \<and> bs = take k (drop (unat (fptr f)) c) \<and> fptr f' = fptr f + of_nat k"
    "rc \<noteq> 0 \<Longrightarrow> rc = STORAGE_EIO"
    by (auto simp: rc STORAGE_EIO_def split: if_splits)
qed

lemma read_rest_law:
  assumes "read_law ff op c" and "op f (vol s)" and "read_rest ff f acc partial len s = (rc, bs, f', s')"
    and "length partial \<le> unat len"
  shows "length bs \<le> length acc + unat len"
    and "rc = 0 \<Longrightarrow> bs = acc @ take (unat len) (drop (unat (fptr f)) c)"
proof -
  obtain bs1 where r: "read_slow ff f (unat len) s = (rc, bs1, f', s')" and b: "bs = acc @ over bs1 partial"
    using assms(3) by (auto simp: read_rest_def split: prod.splits)
  note l = read_slow_law [OF assms(1,2) r]
  show "length bs \<le> length acc + unat len" using l(3) assms(4) by (simp add: b over_def)
  show "bs = acc @ take (unat len) (drop (unat (fptr f)) c)" if "rc = 0"
  proof -
    have "length bs1 = unat len" using l(4) [OF that] by blast
    then have "over bs1 partial = bs1" using assms(4) by (simp add: over_def)
    then show ?thesis using l(4) [OF that] by (simp add: b)
  qed
qed

lemma fast_step:
  assumes "card_law sd op disk" and "op f (vol s)" and "link_map_ok c disk (link_map s)"
    and "512 dvd unat (fptr f)" and "unat (fptr f) + unat len \<le> length c" and "length c < 2 ^ 32"
    and "run_at (fptr f) s = (lba, n0)" and "op_sd_read_blocks sd lba (blocks_now n0 len) s = (0, bs, s1)"
  shows "bs = take (unat (blocks_now n0 len) * 512) (drop (unat (fptr f)) c)"
proof -
  define k where "k = unat (fptr f) div 512"
  have k: "unat (fptr f) = 512 * k" using assms(4) by (simp add: k_def)
  define n where "n = unat (blocks_now n0 len)"
  have n0: "n \<le> unat n0"
    by (auto simp: n_def blocks_now_def Let_def SD_BLOCKS_MAX_def word_less_nat_alt)
  have len: "512 * (k + n) \<le> length c"
    using blocks_now_le [of n0 len] assms(5) unfolding n_def k by (simp add: algebra_simps)
  have bs: "bs = concat (map (\<lambda>i. disk (lba + of_nat i)) [0..<n])"
    using assms(1,2,8) unfolding card_law_def n_def by blast
  have sect: "disk (lba + of_nat i) = take 512 (drop (512 * (k + i)) c)" if "i < n" for i
  proof -
    have m: "0 < csize s" "length (chain (tl (clmt s))) * unat (csize s) < 2 ^ 32"
      "length c \<le> 512 * (length (chain (tl (clmt s))) * unat (csize s))"
      and d: "\<And>k. 512 * (k + 1) \<le> length c \<Longrightarrow> disk (sector_of (tl (clmt s)) (csize s) (database s) k) = take 512 (drop (512 * k) c)"
      using assms(3) by (auto simp: link_map_ok_def link_map_def)
    define L where "L = length (chain (tl (clmt s))) * unat (csize s)"
    have "512 * (k + n) \<le> 512 * L" using len m(3) unfolding L_def [symmetric] by (rule order_trans)
    then have "k < L" using that by simp
    then have "k < length (chain (tl (clmt s))) * unat (csize s)" by (simp add: L_def)
    then have "unat (fptr f) div 512 div unat (csize s) < length (chain (tl (clmt s)))"
      unfolding k_def [symmetric] by (rule less_mult_imp_div_less)
    from run_at_correct [OF m(1,2) this assms(7)] that n0
    have "lba + of_nat i = sector_of (tl (clmt s)) (csize s) (database s) (k + i)" by (simp add: k_def)
    then show ?thesis using d [of "k + i"] len that by simp
  qed
  have "concat (map (\<lambda>i. disk (lba + of_nat i)) [0..<n]) = concat (map (\<lambda>i. take 512 (drop (512 * (k + i)) c)) [0..<n])"
    by (rule arg_cong [of _ _ concat], rule map_cong) (simp_all add: sect)
  then show ?thesis unfolding bs concat_sectors k n_def [symmetric] by (simp only: mult.commute)
qed

lemma read_fast_law:
  assumes laws: "read_law ff op c" "seek_law ff op c" "card_law sd op disk" and c: "length c < 2 ^ 32"
  shows "op f (vol s) \<Longrightarrow> unat (fptr f) + unat len \<le> length c \<Longrightarrow>
    (512 \<le> len \<Longrightarrow> 512 dvd unat (fptr f) \<and> link_map_ok c disk (link_map s)) \<Longrightarrow>
    read_fast ff sd f acc len s = (rc, bs, f', s') \<Longrightarrow>
    length bs \<le> length acc + unat len \<and> (rc = 0 \<longrightarrow> bs = acc @ take (unat len) (drop (unat (fptr f)) c))"
proof (induction "unat len" arbitrary: f acc len s rule: less_induct)
  case less
  show ?case
  proof (cases "len < 512")
    case True
    then have "read_rest ff f acc [] len s = (rc, bs, f', s')" using less.prems(4) by (simp add: read_fast.simps)
    from read_rest_law [OF laws(1) less.prems(1) this] show ?thesis by simp
  next
    case False
    obtain lba n0 where run: "run_at (fptr f) s = (lba, n0)" by fastforce
    define n where "n = blocks_now n0 len"
    obtain rc1 bs1 s1 where rd: "op_sd_read_blocks sd lba n s = (rc1, bs1, s1)" by (metis prod_cases3)
    have l1: "op f (vol s1)" "link_map s1 = link_map s" "length bs1 \<le> 512 * unat n"
      using laws(3) less.prems(1) rd unfolding card_law_def by blast+
    have bl: "length bs1 \<le> unat len" using l1(3) blocks_now_le [of n0 len] by (simp add: n_def)
    have m: "512 dvd unat (fptr f)" "link_map_ok c disk (link_map s)" using less.prems(3) False by auto
    note eq = less.prems(4) [unfolded read_fast.simps [of ff sd f acc len s] run Let_def prod.case n_def [symmetric] rd]
    consider "n = 0" | "n \<noteq> 0" "rc1 = SD_ENOCMD23" | "n \<noteq> 0" "rc1 \<noteq> SD_ENOCMD23" "rc1 \<noteq> 0" | "n \<noteq> 0" "rc1 = 0"
      by blast
    then show ?thesis
    proof cases
      case 1
      then show ?thesis using eq False by (auto simp: STORAGE_EIO_def)
    next
      case 2
      define s2 where "s2 = (log_puts (cs ''storage: no CMD23, single blocks only'' @ [10]) s1)\<lparr>single_blocks := True\<rparr>"
      have "op f (vol s2)" using l1(1) by (simp add: s2_def)
      moreover have "read_rest ff f acc bs1 len s2 = (rc, bs, f', s')"
        using eq False 2 unfolding s2_def by (simp only: if_False if_True simp_thms)
      ultimately show ?thesis using read_rest_law [OF laws(1) _ _ bl] by blast
    next
      case 3
      obtain rc2 s2 where cst: "card_start sd (log_puts (cs ''storage: multiple block read failed'' @ [10]) s1) = (rc2, s2)"
        by fastforce
      have "op f (vol s2)" using card_start_law(1) [OF laws(3) _ cst, of f] l1 by simp
      then show ?thesis
        using eq False 3 cst read_rest_law [OF laws(1) _ _ bl, of f s2] bl
        by (auto simp: STORAGE_EIO_def split: if_splits)
    next
      case 4
      define d where "d = unat n * 512"
      have d: "unat (n * 512) = d" "d \<le> unat len" "0 < d"
        using blocks_now_bytes [of n0 len] blocks_now_le [of n0 len] 4(1) by (simp_all add: n_def d_def unat_gt_0)
      have b1: "bs1 = take d (drop (unat (fptr f)) c)"
        using fast_step [OF laws(3) less.prems(1) m(2,1) less.prems(2) c run] rd 4(2) by (simp add: n_def d_def)
      have lb1: "length bs1 = d" using b1 d(2) less.prems(2) by simp
      obtain fr f1 s2 where sk: "ff_lseek ff f (fptr f + n * 512) s1 = (fr, f1, s2)" by (metis prod_cases3)
      show ?thesis
      proof (cases "fr = FR_OK")
        case False
        then have "rc = STORAGE_EIO" "bs = acc @ bs1" using eq sk 4 \<open>\<not> len < 512\<close> by (simp_all add: SD_ENOCMD23_def)
        then show ?thesis using bl by (simp add: STORAGE_EIO_def)
      next
        case True
        have rec: "read_fast ff sd f1 (acc @ bs1) (len - n * 512) s2 = (rc, bs, f', s')"
          using eq sk 4 True False by (simp add: SD_ENOCMD23_def)
        have p: "unat (fptr f + n * 512) = unat (fptr f) + d"
          using d less.prems(2) c by (simp add: unat_word_ariths)
        have "op f1 (vol s2) \<and> link_map s2 = link_map s1 \<and>
            (fr = FR_OK \<longrightarrow> unat (fptr f + n * 512) \<le> length c \<longrightarrow> fptr f1 = fptr f + n * 512)"
          using laws(2) l1(1) sk unfolding seek_law_def by blast
        then have f1: "op f1 (vol s2)" "link_map s2 = link_map s" "fptr f1 = fptr f + n * 512"
          using True p d(2) less.prems(2) l1(2) by simp_all
        have len: "unat (len - n * 512) = unat len - d" using d by (simp add: unat_sub word_le_nat_alt)
        have "512 dvd unat (fptr f1)" unfolding f1(3) p d_def using m(1) by simp
        then have "length bs \<le> length (acc @ bs1) + unat (len - n * 512) \<and>
            (rc = 0 \<longrightarrow> bs = (acc @ bs1) @ take (unat (len - n * 512)) (drop (unat (fptr f1)) c))"
          using less.hyps [OF _ f1(1) _ _ rec] len d f1(2,3) p m(2) less.prems(2) by simp
        moreover have "take (unat len) (drop (unat (fptr f)) c) = bs1 @ take (unat len - d) (drop (unat (fptr f) + d) c)"
          using take_add [of d "unat len - d" "drop (unat (fptr f)) c"] d(2) b1 by (simp add: add.commute)
        ultimately show ?thesis unfolding f1(3) p len using lb1 d(2) by simp
      qed
    qed
  qed
qed


lemma head_aligned:
  assumes "unat pos + unat ((512 - pos mod 512) mod 512 :: u32) < 2 ^ 32"
  shows "512 dvd unat (pos + (512 - pos mod 512) mod 512)"
proof -
  have m: "unat (pos mod 512) < 512" by (simp add: unat_mod)
  then have "unat (512 - pos mod 512) = 512 - unat (pos mod 512)"
    by (simp add: unat_sub word_le_nat_alt)
  then have u: "unat ((512 - pos mod 512) mod 512 :: u32) = (512 - unat pos mod 512) mod 512"
    by (simp add: unat_mod)
  have "unat (pos + (512 - pos mod 512) mod 512) = unat pos + (512 - unat pos mod 512) mod 512"
    using assms unfolding unat_word_ariths(1) [of pos] u by simp
  also have "\<dots> = 512 * (if unat pos mod 512 = 0 then unat pos div 512 else unat pos div 512 + 1)"
  proof -
    define q r where "q = unat pos div 512" and "r = unat pos mod 512"
    have "r < 512" by (simp add: r_def)
    then have "512 * q + r + (512 - r) mod 512 = 512 * (if r = 0 then q else q + 1)" by (cases "r = 0") simp_all
    moreover have "unat pos = 512 * q + r" by (simp add: q_def r_def)
    ultimately show ?thesis unfolding q_def [symmetric] r_def [symmetric] by simp
  qed
  finally show ?thesis by simp
qed

lemma storage_read_law:
  assumes laws: "read_law ff op c" "seek_law ff op c" "card_law sd op disk" "link_map_law ff op c disk"
    and c: "length c < 2 ^ 32" and op: "op f (vol s)" and map: "cltbl f \<Longrightarrow> link_map_ok c disk (link_map s)"
    and fit: "unat (fptr f) + unat len \<le> length c"
    and r: "storage_read ff sd f dst len s = (rc, bs, f', s')"
  shows "length bs \<le> unat len \<and> (rc = 0 \<longrightarrow> bs = take (unat len) (drop (unat (fptr f)) c))"
proof -
  obtain fr f0 s0 where lm: "ff_linkmap ff (f\<lparr>cltbl := True\<rparr>) (s\<lparr>clmt := (clmt s)[0 := 512]\<rparr>) = (fr, f0, s0)"
    by (metis prod_cases3)
  define f1 where "f1 = (if cltbl f then f else if fr \<noteq> FR_OK then f0\<lparr>cltbl := False\<rparr> else f0)"
  define s1 where "s1 = (if cltbl f then s else s0)"
  have "op f0 (vol s0) \<and> op (f0\<lparr>cltbl := False\<rparr>) (vol s0) \<and> fptr f0 = fptr f \<and>
     (fr = FR_OK \<longrightarrow> link_map_ok c disk (link_map s0))"
    using laws(4) op lm unfolding link_map_law_def by blast
  then have f1: "op f1 (vol s1)" "fptr f1 = fptr f" "cltbl f1 \<Longrightarrow> link_map_ok c disk (link_map s1)"
    using op map by (auto simp: f1_def s1_def)
  define head0 where "head0 = (512 - fptr f mod 512) mod 512"
  define head where "head = (if len < head0 \<or> \<not> cltbl f1 \<or> single_blocks s1 \<or> (dst + head0) AND 63 \<noteq> 0 then len else head0)"
  have hl: "head \<le> len" by (auto simp: head_def)
  obtain rc1 bs1 f2 s2 where sl: "read_slow ff f1 (unat head) s1 = (rc1, bs1, f2, s2)" by (metis prod_cases4)
  note l = read_slow_law [OF laws(1) f1(1) sl]
  have eq: "(if rc1 \<noteq> 0 then (STORAGE_EIO, bs1, f2, s2) else read_fast ff sd f2 bs1 (len - head) s2) = (rc, bs, f', s')"
    using r sl f1(2) lm unfolding storage_read_def head_def head0_def f1_def s1_def by (auto split: if_splits)
  show ?thesis
  proof (cases "rc1 = 0")
    case False
    then show ?thesis using eq l(3) hl by (auto simp: STORAGE_EIO_def word_le_nat_alt)
  next
    case True
    note l4 = l(4) [OF True]
    have hu: "unat head \<le> unat len" using hl by (simp add: word_le_nat_alt)
    have u: "unat (len - head) = unat len - unat head" using hl by (simp add: unat_sub)
    have p: "unat (fptr f2) = unat (fptr f) + unat head"
      using l4 f1(2) fit hu c by (simp add: unat_word_ariths)
    have al: "512 dvd unat (fptr f2) \<and> link_map_ok c disk (link_map s2)" if "512 \<le> len - head"
    proof -
      have "head \<noteq> len" using that by auto
      then have h: "head = head0" "cltbl f1" by (auto simp: head_def split: if_splits)
      have "512 dvd unat (fptr f + head0)"
        unfolding head0_def by (rule head_aligned) (use fit hu c h(1) in \<open>simp add: head0_def\<close>)
      then show ?thesis using l4 f1(2,3) h l(2) by simp
    qed
    have "read_fast ff sd f2 bs1 (len - head) s2 = (rc, bs, f', s')" using eq True by simp
    from read_fast_law [OF laws(1-3) c l(1) _ al this] fit p u hu
    have "length bs \<le> length bs1 + unat (len - head) \<and>
        (rc = 0 \<longrightarrow> bs = bs1 @ take (unat (len - head)) (drop (unat (fptr f2)) c))" by simp
    moreover have "take (unat len) (drop (unat (fptr f)) c) =
        bs1 @ take (unat len - unat head) (drop (unat (fptr f) + unat head) c)"
      using take_add [of "unat head" "unat len - unat head" "drop (unat (fptr f)) c"] hu l4 f1(2) by (simp add: add.commute)
    ultimately show ?thesis unfolding p u using l(3) hu by auto
  qed
qed


definition file_laws ::
  "('v, 'o) fatfs \<Rightarrow> 'v sd_ops \<Rightarrow> ('o fil \<Rightarrow> 'v \<Rightarrow> bool) \<Rightarrow> bytes \<Rightarrow> (u32 \<Rightarrow> bytes) \<Rightarrow> bool" where
  "file_laws ff sd op c disk \<longleftrightarrow>
     read_law ff op c \<and> seek_law ff op c \<and> card_law sd op disk \<and> link_map_law ff op c disk \<and> length c < 2 ^ 32"

section \<open>A file system in memory\<close>

text \<open>The laws can hold: a file system whose files are a map, on a card whose sectors are \<open>disk\<close>. The
  link map of every file is one run of \<open>n\<close> clusters of one sector from cluster 2, at sector 100.
  \<open>wfail\<close> makes every write fail.\<close>

definition ram_fil :: "string \<Rightarrow> bytes \<Rightarrow> string fil" where
  "ram_fil p c = \<lparr>fobj = p, fptr = 0, objsize = of_nat (length c), cltbl = False\<rparr>"

definition ram_fs :: "bool \<Rightarrow> u32 \<Rightarrow> (string \<rightharpoonup> bytes, string) fatfs" where
  "ram_fs wfail n = \<lparr>
     ff_mount = \<lambda>s. (0, s),
     ff_getfree = \<lambda>s. (0, 0, s),
     ff_open = \<lambda>p w s. if w then (0, ram_fil p [], s\<lparr>vol := (vol s)(p \<mapsto> [])\<rparr>)
       else (case vol s p of None \<Rightarrow> (FR_NO_FILE, ram_fil p [], s) | Some c \<Rightarrow> (0, ram_fil p c, s)),
     ff_read = \<lambda>f k s. (let bs = take k (drop (unat (fptr f)) (the (vol s (fobj f))))
       in (0, bs, f\<lparr>fptr := fptr f + of_nat (length bs)\<rparr>, s)),
     ff_write = \<lambda>f bs s. if wfail then (1, 0, f, s)
       else (0, length bs, f, s\<lparr>vol := (vol s)(fobj f \<mapsto> the (vol s (fobj f)) @ bs)\<rparr>),
     ff_lseek = \<lambda>f k s. (0, f\<lparr>fptr := min k (of_nat (length (the (vol s (fobj f)))))\<rparr>, s),
     ff_linkmap = \<lambda>f s. (0, f, s\<lparr>clmt := [4, n, 2, 0], csize := 1, database := 100\<rparr>),
     ff_close = \<lambda>f s. (0, s),
     ff_unlink = \<lambda>p s. if vol s p = None then (FR_NO_FILE, s) else (0, s\<lparr>vol := (vol s)(p := None)\<rparr>),
     ff_rename = \<lambda>p q s. if vol s p = None \<or> vol s q \<noteq> None then (1, s)
       else (0, s\<lparr>vol := (vol s)(q := vol s p, p := None)\<rparr>)\<rparr>"

definition ram_sd :: "(u32 \<Rightarrow> bytes) \<Rightarrow> 'v sd_ops" where
  "ram_sd disk = \<lparr>
     op_sd_init = \<lambda>s. (0, s),
     op_sd_high_speed = \<lambda>s. (0, s),
     op_sd_read_block = \<lambda>lba s. (0, disk lba, s),
     op_sd_write_block = \<lambda>lba bs s. (0, s),
     op_sd_read_blocks = \<lambda>lba n s. (0, concat (map (\<lambda>i. disk (lba + of_nat i)) [0..<unat n]), s)\<rparr>"

lemma ram_sel:
  "ff_read (ram_fs w n) f k s = (let bs = take k (drop (unat (fptr f)) (the (vol s (fobj f))))
       in (0, bs, f\<lparr>fptr := fptr f + of_nat (length bs)\<rparr>, s))"
  "ff_lseek (ram_fs w n) f p s = (0, f\<lparr>fptr := min p (of_nat (length (the (vol s (fobj f)))))\<rparr>, s)"
  "ff_linkmap (ram_fs w n) f s = (0, f, s\<lparr>clmt := [4, n, 2, 0], csize := 1, database := 100\<rparr>)"
  "op_sd_read_blocks (ram_sd disk) lba m s = (0, concat (map (\<lambda>i. disk (lba + of_nat i)) [0..<unat m]), s)"
  by (simp_all add: ram_fs_def ram_sd_def)

definition ram_open :: "string \<Rightarrow> bytes \<Rightarrow> string fil \<Rightarrow> (string \<rightharpoonup> bytes) \<Rightarrow> bool" where
  "ram_open p c f v \<longleftrightarrow> fobj f = p \<and> v p = Some c"

lemma ram_chain: "chain [n, 2, 0] = map (\<lambda>i. 2 + of_nat i) [0..<unat n]"
  by simp

lemma ram_sector: "k < unat n \<Longrightarrow> sector_of [n, 2, 0] 1 100 k = 100 + of_nat k"
  unfolding sector_of_def ram_chain by simp

lemma ram_laws:
  assumes "length c \<le> 512 * unat n" and "length c < 2 ^ 32"
    and "\<And>k. 512 * (k + 1) \<le> length c \<Longrightarrow> disk (100 + of_nat k) = take 512 (drop (512 * k) c)"
    and "\<And>a. length (disk a) = 512"
  shows "file_laws (ram_fs w n) (ram_sd disk) (ram_open p c) c disk"
proof -
  have "link_map_ok c disk ([n, 2, 0], 1, 100)"
    unfolding link_map_ok_def prod.case ram_chain
  proof (intro conjI allI impI)
    fix k assume k: "512 * (k + 1) \<le> length c"
    from order_trans [OF k assms(1)] have "k < unat n" by simp
    then show "disk (sector_of [n, 2, 0] 1 100 k) = take 512 (drop (512 * k) c)"
      using assms(3) [OF k] by (simp add: ram_sector)
  qed (use assms(1) unat_u32_bound [of n] in simp_all)
  then have "link_map_law (ram_fs w n) (ram_open p c) c disk"
    by (simp add: link_map_law_def ram_fs_def ram_open_def link_map_def)
  moreover have "read_law (ram_fs w n) (ram_open p c) c"
    by (auto simp: read_law_def ram_fs_def ram_open_def Let_def)
  moreover have "seek_law (ram_fs w n) (ram_open p c) c"
    using assms(2) by (auto simp: seek_law_def ram_fs_def ram_open_def min_def word_le_nat_alt unat_of_nat)
  moreover have "length (concat (map (\<lambda>i. disk (a + of_nat i)) [0..<m])) = 512 * m" for a m
    by (induction m) (simp_all add: assms(4))
  then have "card_law (ram_sd disk) (ram_open p c) disk"
    by (simp add: card_law_def ram_sd_def ram_open_def)
  ultimately show ?thesis using assms(2) by (simp add: file_laws_def)
qed

definition ram_state :: "(string \<rightharpoonup> bytes) \<Rightarrow> (string \<rightharpoonup> bytes) storage_st" where
  "ram_state v = \<lparr>ddr = \<lambda>_. 0, log_ptr = 0, log_end = 0, uart = [], vol = v, card_ready = True, single_blocks = False,
     bounce = replicate 512 0, clmt = replicate 512 0, csize = 0, database = 0, n_fatent = 0, fs_type = 3\<rparr>"

section \<open>Properties of reading\<close>

text \<open>C8: \<open>storage_read\<close> of a range inside the file, with all its branches (slow head, runs of contiguous
  clusters by multiple-block reads, the fallbacks, slow tail), never stores more than \<open>len\<close> bytes, and
  with return code 0 stores exactly the file's bytes.\<close>

theorem storage_read_correct:
  assumes "file_laws ff sd op c disk" and "op f (vol s)" and "\<not> cltbl f"
    and "unat (fptr f) + unat len \<le> length c"
    and "storage_read ff sd f dst len s = (rc, bs, f', s')"
  shows "length bs \<le> unat len \<and> (rc = 0 \<longrightarrow> bs = take (unat len) (drop (unat (fptr f)) c))"
  using assms storage_read_law [of ff op c sd disk f s len dst rc bs f' s'] unfolding file_laws_def by blast

lemma ram_read_two:
  assumes "fptr f = 0" and "\<not> cltbl f" and "\<not> single_blocks s"
  shows "\<exists>f' s'. storage_read (ram_fs w 2) (ram_sd disk) f 0x30000000 1024 s = (0, disk 100 @ disk 101, f', s')"
proof -
  let ?s = "s\<lparr>clmt := [4, 2, 2, 0], csize := 1, database := 100\<rparr>"
  have run: "run_at 0 ?s = (100, 2)" by (simp add: run_at_def)
  have n: "blocks_now 2 1024 = 2" by (simp add: blocks_now_def SD_BLOCKS_MAX_def)
  have two: "[0..<2] = [0, Suc 0]" by (simp add: numeral_2_eq_2)
  have rd: "read_slow (ram_fs w 2) g 0 t = (0, [], g, t)" for g t
    by (simp add: read_slow_def ram_sel)
  have fin: "read_fast (ram_fs w 2) (ram_sd disk) g acc 0 t = (0, acc, g, t)" for g acc t
    by (simp add: read_fast.simps read_rest_def rd over_def)
  have "\<exists>f'. read_fast (ram_fs w 2) (ram_sd disk) (f\<lparr>cltbl := True\<rparr>) [] 1024 ?s = (0, disk 100 @ disk 101, f', ?s)"
    using assms(1) run n
    by (subst read_fast.simps) (simp add: ram_sel two SD_ENOCMD23_def fin)
  then show ?thesis
    unfolding storage_read_def using assms rd [of "f\<lparr>cltbl := True\<rparr>" ?s] by (auto simp: ram_sel Let_def)
qed


definition two_sectors :: "bytes \<Rightarrow> bytes \<Rightarrow> u32 \<Rightarrow> bytes" where
  "two_sectors a b l = (if l = 100 then a else b)"

lemma two_sectors_laws:
  assumes "length a = 512" and "length b = 512"
  shows "file_laws (ram_fs w 2) (ram_sd (two_sectors a b)) (ram_open p (a @ b)) (a @ b) (two_sectors a b)"
    and "file_laws (ram_fs w 2) (ram_sd (two_sectors a b)) (ram_open p a) a (two_sectors a b)"
proof -
  show "file_laws (ram_fs w 2) (ram_sd (two_sectors a b)) (ram_open p (a @ b)) (a @ b) (two_sectors a b)"
  proof (rule ram_laws)
    fix k assume "512 * (k + 1) \<le> length (a @ b)"
    then have "k = 0 \<or> k = 1" using assms by auto
    then show "two_sectors a b (100 + of_nat k) = take 512 (drop (512 * k) (a @ b))"
      using assms by (auto simp: two_sectors_def)
  qed (use assms in \<open>simp_all add: two_sectors_def\<close>)
  show "file_laws (ram_fs w 2) (ram_sd (two_sectors a b)) (ram_open p a) a (two_sectors a b)"
  proof (rule ram_laws)
    fix k assume "512 * (k + 1) \<le> length a"
    then have "k = 0" using assms by auto
    then show "two_sectors a b (100 + of_nat k) = take 512 (drop (512 * k) a)"
      using assms by (simp add: two_sectors_def)
  qed (use assms in \<open>simp_all add: two_sectors_def\<close>)
qed

lemma ram_read_sectors:
  "\<exists>f' s'. storage_read (ram_fs w 2) (ram_sd (two_sectors a b)) (ram_fil p c) 0x30000000 1024 (ram_state v) = (0, a @ b, f', s')"
  using ram_read_two [of "ram_fil p c" "ram_state v" w "two_sectors a b"]
  by (simp add: ram_fil_def ram_state_def two_sectors_def)

theorem storage_read_correct_witness:
  "\<exists>f' s'. storage_read (ram_fs False 2) (ram_sd (two_sectors (replicate 512 7) (replicate 512 8)))
     (ram_fil ''k'' (replicate 512 7 @ replicate 512 8)) 0x30000000 1024
     (ram_state [''k'' \<mapsto> replicate 512 7 @ replicate 512 8]) =
     (0, take 1024 (replicate 512 7 @ replicate 512 8), f', s')"
proof -
  let ?a = "replicate 512 7 :: bytes" and ?b = "replicate 512 8 :: bytes"
  let ?s = "ram_state [''k'' \<mapsto> ?a @ ?b]" and ?f = "ram_fil ''k'' (?a @ ?b)"
  obtain bs f' s' where r: "storage_read (ram_fs False 2) (ram_sd (two_sectors ?a ?b)) ?f 0x30000000 1024 ?s = (0, bs, f', s')"
    using ram_read_sectors by blast
  have "file_laws (ram_fs False 2) (ram_sd (two_sectors ?a ?b)) (ram_open ''k'' (?a @ ?b)) (?a @ ?b) (two_sectors ?a ?b)"
    by (rule two_sectors_laws) simp_all
  from storage_read_correct [OF this _ _ _ r] have "bs = take 1024 (?a @ ?b)"
    by (simp add: ram_open_def ram_state_def ram_fil_def)
  with r show ?thesis by blast
qed

text \<open>The multiple-block path does not look at the size of the file: with a FatFs and a card that keep
  all the laws, a read of 1024 bytes from a file of 512 bytes returns 0 and stores the sector behind the
  file. Only the slow path notices a read past the end.\<close>

theorem storage_read_past_end:
  "\<exists>(ff :: (string \<rightharpoonup> bytes, string) fatfs) sd op c disk f s f' s' bs.
     file_laws ff sd op c disk \<and> op f (vol s) \<and> \<not> cltbl f \<and> fptr f = 0 \<and> length c = 512 \<and>
     unat (objsize f) = length c \<and> storage_read ff sd f 0x30000000 1024 s = (0, bs, f', s') \<and> length bs = 1024"
proof -
  let ?a = "replicate 512 7 :: bytes" and ?b = "replicate 512 8 :: bytes"
  have "file_laws (ram_fs False 2) (ram_sd (two_sectors ?a ?b)) (ram_open ''k'' ?a) ?a (two_sectors ?a ?b)"
    by (rule two_sectors_laws) simp_all
  moreover have "ram_open ''k'' ?a (ram_fil ''k'' ?a) (vol (ram_state [''k'' \<mapsto> ?a]))" "\<not> cltbl (ram_fil ''k'' ?a)"
    "fptr (ram_fil ''k'' ?a) = 0" "unat (objsize (ram_fil ''k'' ?a)) = length ?a" "length ?a = 512" "length (?a @ ?b) = 1024"
    by (simp_all add: ram_open_def ram_state_def ram_fil_def)
  ultimately show ?thesis
    using ram_read_sectors [of False ?a ?b "''k''" ?a "[''k'' \<mapsto> ?a]"] by blast
qed

section \<open>Replacing a file\<close>

text \<open>What \<open>storage_save\<close> relies on. \<open>vw v p\<close> is the content of the file at \<open>p\<close>; \<open>wr f p d v\<close> says that \<open>f\<close>
  is open for writing at \<open>p\<close> with \<open>d\<close> written so far. A call changes no other file. A failed delete may
  have removed the entry, and a failed rename may have made the new entry.\<close>

definition open_law :: "('v, 'o) fatfs \<Rightarrow> ('v \<Rightarrow> string \<rightharpoonup> bytes) \<Rightarrow> ('o fil \<Rightarrow> string \<Rightarrow> bytes \<Rightarrow> 'v \<Rightarrow> bool) \<Rightarrow> bool" where
  "open_law ff vw wr \<longleftrightarrow> (\<forall>p s fr f s'. ff_open ff p True s = (fr, f, s') \<longrightarrow>
     (\<forall>q. q \<noteq> p \<longrightarrow> vw (vol s') q = vw (vol s) q) \<and> (fr = FR_OK \<longrightarrow> wr f p [] (vol s')))"

definition write_law :: "('v, 'o) fatfs \<Rightarrow> ('v \<Rightarrow> string \<rightharpoonup> bytes) \<Rightarrow> ('o fil \<Rightarrow> string \<Rightarrow> bytes \<Rightarrow> 'v \<Rightarrow> bool) \<Rightarrow> bool" where
  "write_law ff vw wr \<longleftrightarrow> (\<forall>f p d bs s fr put f' s'. wr f p d (vol s) \<longrightarrow> ff_write ff f bs s = (fr, put, f', s') \<longrightarrow>
     (\<forall>q. q \<noteq> p \<longrightarrow> vw (vol s') q = vw (vol s) q) \<and>
     (\<exists>d'. wr f' p d' (vol s') \<and> (fr = FR_OK \<and> put = length bs \<longrightarrow> d' = d @ bs)))"

definition close_law :: "('v, 'o) fatfs \<Rightarrow> ('v \<Rightarrow> string \<rightharpoonup> bytes) \<Rightarrow> ('o fil \<Rightarrow> string \<Rightarrow> bytes \<Rightarrow> 'v \<Rightarrow> bool) \<Rightarrow> bool" where
  "close_law ff vw wr \<longleftrightarrow> (\<forall>f p d s fr s'. wr f p d (vol s) \<longrightarrow> ff_close ff f s = (fr, s') \<longrightarrow>
     (\<forall>q. q \<noteq> p \<longrightarrow> vw (vol s') q = vw (vol s) q) \<and> (fr = FR_OK \<longrightarrow> vw (vol s') p = Some d))"

definition unlink_law :: "('v, 'o) fatfs \<Rightarrow> ('v \<Rightarrow> string \<rightharpoonup> bytes) \<Rightarrow> bool" where
  "unlink_law ff vw \<longleftrightarrow> (\<forall>p s fr s'. ff_unlink ff p s = (fr, s') \<longrightarrow>
     (\<forall>q. q \<noteq> p \<longrightarrow> vw (vol s') q = vw (vol s) q) \<and>
     (fr = FR_OK \<or> fr = FR_NO_FILE \<longrightarrow> vw (vol s') p = None) \<and> (vw (vol s') p = vw (vol s) p \<or> vw (vol s') p = None))"

definition rename_law :: "('v, 'o) fatfs \<Rightarrow> ('v \<Rightarrow> string \<rightharpoonup> bytes) \<Rightarrow> bool" where
  "rename_law ff vw \<longleftrightarrow> (\<forall>p q s fr s'. p \<noteq> q \<longrightarrow> ff_rename ff p q s = (fr, s') \<longrightarrow>
     (\<forall>r. r \<noteq> p \<and> r \<noteq> q \<longrightarrow> vw (vol s') r = vw (vol s) r) \<and>
     (fr = FR_OK \<longrightarrow> vw (vol s') q = vw (vol s) p \<and> vw (vol s') p = None) \<and>
     (vw (vol s') q = vw (vol s) p \<or> vw (vol s') q = vw (vol s) q \<and> vw (vol s') p = vw (vol s) p))"

definition save_laws :: "('v, 'o) fatfs \<Rightarrow> ('v \<Rightarrow> string \<rightharpoonup> bytes) \<Rightarrow> ('o fil \<Rightarrow> string \<Rightarrow> bytes \<Rightarrow> 'v \<Rightarrow> bool) \<Rightarrow> bool" where
  "save_laws ff vw wr \<longleftrightarrow>
     open_law ff vw wr \<and> write_law ff vw wr \<and> close_law ff vw wr \<and> unlink_law ff vw \<and> rename_law ff vw"

lemmas save_law_defs = open_law_def write_law_def close_law_def unlink_law_def rename_law_def

lemma unlink_lawD:
  assumes "unlink_law ff vw" and "ff_unlink ff p s = (fr, s')"
  shows "\<forall>q. q \<noteq> p \<longrightarrow> vw (vol s') q = vw (vol s) q" and "fr = FR_OK \<or> fr = FR_NO_FILE \<longrightarrow> vw (vol s') p = None"
    and "vw (vol s') p = vw (vol s) p \<or> vw (vol s') p = None"
proof -
  note c = assms(1) [unfolded unlink_law_def, THEN spec, THEN spec, THEN spec, THEN spec, THEN mp, OF assms(2)]
  show "\<forall>q. q \<noteq> p \<longrightarrow> vw (vol s') q = vw (vol s) q" by (rule c [THEN conjunct1])
  show "fr = FR_OK \<or> fr = FR_NO_FILE \<longrightarrow> vw (vol s') p = None" by (rule c [THEN conjunct2, THEN conjunct1])
  show "vw (vol s') p = vw (vol s) p \<or> vw (vol s') p = None" by (rule c [THEN conjunct2, THEN conjunct2])
qed

lemma rename_lawD:
  assumes "rename_law ff vw" and "p \<noteq> q" and "ff_rename ff p q s = (fr, s')"
  shows "\<forall>r. r \<noteq> p \<and> r \<noteq> q \<longrightarrow> vw (vol s') r = vw (vol s) r"
    and "fr = FR_OK \<longrightarrow> vw (vol s') q = vw (vol s) p \<and> vw (vol s') p = None"
    and "vw (vol s') q = vw (vol s) p \<or> vw (vol s') q = vw (vol s) q \<and> vw (vol s') p = vw (vol s) p"
proof -
  note c = assms(1) [unfolded rename_law_def, THEN spec, THEN spec, THEN spec, THEN spec, THEN spec, THEN mp, THEN mp, OF assms(2,3)]
  show "\<forall>r. r \<noteq> p \<and> r \<noteq> q \<longrightarrow> vw (vol s') r = vw (vol s) r" by (rule c [THEN conjunct1])
  show "fr = FR_OK \<longrightarrow> vw (vol s') q = vw (vol s) p \<and> vw (vol s') p = None" by (rule c [THEN conjunct2, THEN conjunct1])
  show "vw (vol s') q = vw (vol s) p \<or> vw (vol s') q = vw (vol s) q \<and> vw (vol s') p = vw (vol s) p" by (rule c [THEN conjunct2, THEN conjunct2])
qed

text \<open>The outcome that the calls leave, file by file.\<close>

definition saved :: "(string \<rightharpoonup> bytes) \<Rightarrow> string \<Rightarrow> string \<Rightarrow> bytes \<Rightarrow> int \<Rightarrow> (string \<rightharpoonup> bytes) \<Rightarrow> bool" where
  "saved v path tmp src rc v' \<longleftrightarrow>
     (rc = 0 \<longrightarrow> v' path = Some src \<and> v' tmp = None) \<and>
     (rc \<noteq> 0 \<longrightarrow> v' path = v path \<or> v' path = Some src \<or> v' path = None \<and> v' tmp = Some src) \<and>
     (\<forall>q. q \<noteq> path \<and> q \<noteq> tmp \<longrightarrow> v' q = v q)"

lemma saved_same: "\<forall>q. q \<noteq> tmp \<longrightarrow> v' q = v q \<Longrightarrow> path \<noteq> tmp \<Longrightarrow> saved v path tmp src STORAGE_EIO v'"
  by (simp add: saved_def STORAGE_EIO_def)

lemma saved_fail:
  "v' path = v path \<or> v' path = Some src \<or> v' path = None \<and> v' tmp = Some src \<Longrightarrow>
   (\<And>q. q \<noteq> path \<Longrightarrow> q \<noteq> tmp \<Longrightarrow> v' q = v q) \<Longrightarrow> saved v path tmp src STORAGE_EIO v'"
  by (simp add: saved_def STORAGE_EIO_def)

lemma storage_save_saved:
  assumes laws: "save_laws ff vw wr" and save: "storage_save ff path src s = (rc, s')"
  shows "saved (vw (vol s)) path (path @ ''.new'') src rc (vw (vol s'))"
proof (cases "new_name path (FF_MAX_LFN + 1)")
  case None
  then show ?thesis using save by (auto simp: storage_save_def saved_def STORAGE_EIO_def)
next
  case (Some tmp0)
  have ol: "open_law ff vw wr" and wl: "write_law ff vw wr" and cl: "close_law ff vw wr"
    and ul: "unlink_law ff vw" and rl: "rename_law ff vw" using laws by (simp_all add: save_laws_def)
  define tmp where "tmp = path @ ''.new''"
  have ne: "path \<noteq> tmp" by (simp add: tmp_def)
  have t: "new_name path (FF_MAX_LFN + 1) = Some tmp" using Some by (simp add: new_name_def tmp_def split: if_splits)
  obtain fr f s1 where o: "ff_open ff tmp True s = (fr, f, s1)" by (metis prod_cases3)
  obtain fr2 put f2 s2 where w: "ff_write ff f src s1 = (fr2, put, f2, s2)" by (metis prod_cases4)
  obtain frc s3 where c: "ff_close ff f2 s2 = (frc, s3)" by fastforce
  obtain fru su where uu: "ff_unlink ff tmp s3 = (fru, su)" by fastforce
  obtain fr3 s4 where u: "ff_unlink ff path s3 = (fr3, s4)" by fastforce
  obtain fr4 s5 where n: "ff_rename ff tmp path s4 = (fr4, s5)" by fastforce
  note eq = save [unfolded storage_save_def t option.case o Let_def prod.case w c u n uu snd_conv]
  have l1: "\<forall>q. q \<noteq> tmp \<longrightarrow> vw (vol s1) q = vw (vol s) q" "fr = FR_OK \<longrightarrow> wr f tmp [] (vol s1)"
    using ol [unfolded open_law_def, rule_format, OF o] by blast+
  show ?thesis
  proof (cases "fr = FR_OK")
    case False
    then show ?thesis using eq l1(1) saved_same [OF _ ne] unfolding tmp_def [symmetric] by auto
  next
    case True
    then obtain d where l2: "\<forall>q. q \<noteq> tmp \<longrightarrow> vw (vol s2) q = vw (vol s1) q" "wr f2 tmp d (vol s2)"
      "fr2 = FR_OK \<and> put = length src \<longrightarrow> d = [] @ src"
      using wl [unfolded write_law_def, rule_format, OF _ w] l1(2) by blast
    then have l3: "\<forall>q. q \<noteq> tmp \<longrightarrow> vw (vol s3) q = vw (vol s2) q" "frc = FR_OK \<longrightarrow> vw (vol s3) tmp = Some d"
      using cl [unfolded close_law_def, rule_format, OF _ c] by blast+
    show ?thesis
    proof (cases "frc \<noteq> FR_OK \<or> fr2 \<noteq> FR_OK \<or> put \<noteq> length src")
      case bad: True
      have "\<forall>q. q \<noteq> tmp \<longrightarrow> vw (vol su) q = vw (vol s3) q" by (rule unlink_lawD(1) [OF ul uu])
      moreover have "rc = STORAGE_EIO" "s' = su" using eq True unfolding if_P [OF bad] by simp_all
      ultimately show ?thesis using l1(1) l2(1) l3(1) saved_same [OF _ ne] unfolding tmp_def [symmetric] by simp
    next
      case ok: False
      then have new: "vw (vol s3) tmp = Some src" using l2(3) l3(2) by simp
      note l4 = unlink_lawD [OF ul u] and l5 = rename_lawD [OF rl ne [symmetric] n]
      have old: "vw (vol s3) q = vw (vol s) q" if "q \<noteq> tmp" for q using l1(1) l2(1) l3(1) that by simp
      have t4: "vw (vol s4) tmp = Some src" using l4(1) new ne by simp
      note eq' = eq [unfolded if_not_P [OF ok]]
      show ?thesis
      proof (cases "fr3 \<noteq> FR_OK \<and> fr3 \<noteq> FR_NO_FILE")
        case bad: True
        have "rc = STORAGE_EIO" "s' = s4" using eq' True unfolding if_P [OF bad] by simp_all
        moreover have "vw (vol s4) path = vw (vol s) path \<or> vw (vol s4) path = None" using l4(3) old [OF ne] by simp
        moreover have "vw (vol s4) q = vw (vol s) q" if "q \<noteq> path" "q \<noteq> tmp" for q using l4(1) old that by simp
        ultimately show ?thesis using t4 unfolding tmp_def [symmetric] by (auto intro: saved_fail)
      next
        case good: False
        then have p4: "vw (vol s4) path = None" using l4(2) by blast
        have rc: "rc = (if fr4 = FR_OK then 0 else STORAGE_EIO)" "s' = s5"
          using eq' True unfolding if_not_P [OF good] by simp_all
        have rest: "vw (vol s5) q = vw (vol s) q" if "q \<noteq> path" "q \<noteq> tmp" for q using l5(1) l4(1) old that by simp
        show ?thesis
        proof (cases "fr4 = FR_OK")
          case True
          then show ?thesis using l5(2) t4 rest rc unfolding tmp_def [symmetric] saved_def by simp
        next
          case False
          have "vw (vol s5) path = Some src \<or> vw (vol s5) path = None \<and> vw (vol s5) tmp = Some src"
            using l5(3) t4 p4 by simp
          then show ?thesis using False rest unfolding tmp_def [symmetric] rc by (auto intro: saved_fail)
        qed
      qed
    qed
  qed
qed


lemma ram_save_laws: "save_laws (ram_fs w n) id (\<lambda>f p d v. fobj f = p \<and> v p = Some d)"
  unfolding save_laws_def save_law_defs ram_fs_def
  by (auto simp: ram_fil_def FR_NO_FILE_def split: if_splits)


text \<open>The promise of storage.h, that a failure leaves the old file or a complete \<open>path.new\<close>, does not
  cover the state that such a failure leaves: when the only copy is \<open>path.new\<close>, a save whose write fails
  truncates and deletes it, and \<open>storage_load\<close> then finds nothing.\<close>

theorem storage_save_loses_only_copy:
  "\<exists>(ff :: (string \<rightharpoonup> bytes, string) fatfs) wr s s' old.
     save_laws ff id wr \<and> vol s ''s'' = None \<and> vol s ''s.new'' = Some old \<and>
     fst (storage_load ff (ram_sd (\<lambda>_. [])) ''s'' 0 4095 s) = 0 \<and>
     storage_save ff ''s'' [1, 2] s = (STORAGE_EIO, s') \<and> vol s' ''s'' = None \<and> vol s' ''s.new'' = None \<and>
     fst (storage_load ff (ram_sd (\<lambda>_. [])) ''s'' 0 4095 s') = STORAGE_ENOTFOUND"
proof -
  let ?ff = "ram_fs True 2" and ?s = "ram_state [''s.new'' \<mapsto> [9]]" and ?sd = "ram_sd (\<lambda>_. [])"
  obtain s' where r: "storage_save ?ff ''s'' [1, 2] ?s = (STORAGE_EIO, s')" "vol s' ''s'' = None" "vol s' ''s.new'' = None"
    by (simp add: storage_save_def ram_fs_def ram_fil_def ram_state_def new_name_def FF_MAX_LFN_def)
  have o: "ff_open ?ff q False t = (case vol t q of None \<Rightarrow> (FR_NO_FILE, ram_fil q [], t) | Some c \<Rightarrow> (0, ram_fil q c, t))" for q t
    by (simp add: ram_fs_def)
  have n: "new_name ''s'' (Suc FF_MAX_LFN) = Some ''s.new''" by (simp add: new_name_def FF_MAX_LFN_def)
  have none: "fst (load_one ?ff ?sd q 0 4095 t) = STORAGE_ENOTFOUND" "snd (snd (load_one ?ff ?sd q 0 4095 t)) = t"
    if "vol t q = None" for q t
    using that by (simp_all add: load_one_def o)
  have "fst (load_one ?ff ?sd ''s.new'' 0 4095 ?s) = 0"
    by (simp add: load_one_def o ram_state_def ram_fil_def FR_NO_FILE_def FR_NO_PATH_def storage_read_def ram_sel
        read_slow_def read_fast.simps read_rest_def Let_def)
  then have "fst (storage_load ?ff ?sd ''s'' 0 4095 ?s) = 0"
    using none [of ?s "''s''"] by (auto simp: storage_load_def n ram_state_def split: prod.splits)
  moreover have "fst (storage_load ?ff ?sd ''s'' 0 4095 s') = STORAGE_ENOTFOUND"
    using none [of s' "''s''"] none [of s' "''s.new''"] r(2,3) by (auto simp: storage_load_def n split: prod.splits)
  ultimately show ?thesis
    using r ram_save_laws [of True 2] by (intro exI conjI) (auto simp: ram_state_def)
qed

end
