(* ===== verification/Payload.thy ===== *)
theory Payload
  imports Storage
begin

text \<open>
  The payload loader of aipc-boot (payload.c): the directory listing, the checks on an ELF executable, and
  the load into DDR, over the file layer of the storage component. \<open>ddr\<close> is the memory.
\<close>

section \<open>Definitions\<close>

definition PAYLOAD_DIR :: string where "PAYLOAD_DIR = ''/aipc-boot/payloads''"
definition PAYLOAD_MAX :: nat where "PAYLOAD_MAX = 16"
definition NAME_SIZE :: nat where "NAME_SIZE = 64"
definition DDR_LOW :: u32 where "DDR_LOW = 0x30000000"
definition DDR_HIGH :: u32 where "DDR_HIGH = 0x34000000"
definition SELF_LOW :: u32 where "SELF_LOW = 0x33000000"
definition SELF_HIGH :: u32 where "SELF_HIGH = 0x33800000"
definition FB_ADDR :: u32 where "FB_ADDR = 0x33B00000"
definition FB_BACK_ADDR :: u32 where "FB_BACK_ADDR = 0x33C00000"
definition FB_BYTES :: u32 where "FB_BYTES = 800 * 480 * 2"
definition PT_LOAD :: u32 where "PT_LOAD = 1"
definition EM_ARM :: u16 where "EM_ARM = 40"
definition ET_EXEC :: u16 where "ET_EXEC = 2"
definition PHNUM_MAX :: u16 where "PHNUM_MAX = 16"
definition PAYLOAD_ENOTELF :: int where "PAYLOAD_ENOTELF = -40"
definition PAYLOAD_ERANGE :: int where "PAYLOAD_ERANGE = -41"

record elf32_ehdr =
  e_ident :: bytes
  e_type :: u16
  e_machine :: u16
  e_entry :: u32
  e_phoff :: u32
  e_phentsize :: u16
  e_phnum :: u16

record elf32_phdr =
  p_type :: u32
  p_offset :: u32
  p_paddr :: u32
  p_filesz :: u32
  p_memsz :: u32

text \<open>The structs as the little-endian compiler lays them out.\<close>

definition get16 :: "bytes \<Rightarrow> nat \<Rightarrow> u16" where
  "get16 bs i = of_le16 (bs ! i) (bs ! (i + 1))"

definition get32 :: "bytes \<Rightarrow> nat \<Rightarrow> u32" where
  "get32 bs i = of_le32 (bs ! i) (bs ! (i + 1)) (bs ! (i + 2)) (bs ! (i + 3))"

definition ehdr_of :: "bytes \<Rightarrow> elf32_ehdr" where
  "ehdr_of bs = \<lparr>e_ident = take 16 bs, e_type = get16 bs 16, e_machine = get16 bs 18, e_entry = get32 bs 24,
     e_phoff = get32 bs 28, e_phentsize = get16 bs 42, e_phnum = get16 bs 44\<rparr>"

definition phdr_of :: "bytes \<Rightarrow> nat \<Rightarrow> elf32_phdr" where
  "phdr_of bs i = \<lparr>p_type = get32 bs (32 * i), p_offset = get32 bs (32 * i + 4), p_paddr = get32 bs (32 * i + 12),
     p_filesz = get32 bs (32 * i + 16), p_memsz = get32 bs (32 * i + 20)\<rparr>"

definition overlaps :: "u32 \<Rightarrow> u32 \<Rightarrow> u32 \<Rightarrow> u32 \<Rightarrow> bool" where
  "overlaps a b lo hi \<longleftrightarrow> a < hi \<and> lo < b"

text \<open>The segment must stay in DDR and away from aipc-boot and both framebuffers.\<close>

definition range_ok :: "u32 \<Rightarrow> u32 \<Rightarrow> bool" where
  "range_ok addr sz \<longleftrightarrow>
     (let e = addr + sz
      in addr \<le> e \<and> DDR_LOW \<le> addr \<and> e \<le> DDR_HIGH \<and>
         \<not> overlaps addr e SELF_LOW SELF_HIGH \<and>
         \<not> overlaps addr e FB_ADDR (FB_ADDR + FB_BYTES) \<and>
         \<not> overlaps addr e FB_BACK_ADDR (FB_BACK_ADDR + FB_BYTES))"

subsection \<open>The list\<close>

record filinfo =
  fname :: string
  fattrib :: u8

definition AM_HID :: u8 where "AM_HID = 0x02"
definition AM_SYS :: u8 where "AM_SYS = 0x04"
definition AM_DIR :: u8 where "AM_DIR = 0x10"

text \<open>\<open>strcmp(a, b) > 0\<close>\<close>

fun str_gt :: "string \<Rightarrow> string \<Rightarrow> bool" where
  "str_gt [] b = False"
| "str_gt (x # a) [] = True"
| "str_gt (x # a) (y # b) = (if x = y then str_gt a b else (of_char y :: nat) < of_char x)"

text \<open>The loop that moves later names up, from the end.\<close>

fun insert_at :: "string list \<Rightarrow> nat \<Rightarrow> string \<Rightarrow> nat" where
  "insert_at names 0 n = 0"
| "insert_at names (Suc i) n = (if str_gt (names ! i) n then insert_at names i n else Suc i)"

definition insert_name :: "string \<Rightarrow> string list \<Rightarrow> string list" where
  "insert_name n names = (let i = insert_at names (length names) n in take i names @ [n] @ drop i names)"

definition skipped :: "filinfo \<Rightarrow> bool" where
  "skipped fi \<longleftrightarrow> fattrib fi AND (AM_DIR OR AM_HID OR AM_SYS) \<noteq> 0 \<or> fname fi ! 0 = CHR ''.'' \<or>
     NAME_SIZE \<le> length (fname fi)"

text \<open>\<open>dir\<close> lists what \<open>f_readdir\<close> gives before it fails or gives an empty name.\<close>

fun list_loop :: "filinfo list \<Rightarrow> string list \<Rightarrow> string list" where
  "list_loop [] names = names"
| "list_loop (fi # dir) names =
     (if PAYLOAD_MAX \<le> length names \<or> fname fi = [] then names
      else if skipped fi then list_loop dir names
      else list_loop dir (insert_name (fname fi) names))"

definition payload_list :: "filinfo list option \<Rightarrow> string list" where
  "payload_list dir = (case dir of None \<Rightarrow> [] | Some d \<Rightarrow> list_loop d [])"

subsection \<open>The load\<close>

definition read_at ::
  "('v, 'o) fatfs \<Rightarrow> 'v sd_ops \<Rightarrow> 'o fil \<Rightarrow> u32 \<Rightarrow> u32 \<Rightarrow> u32 \<Rightarrow> 'v storage_st \<Rightarrow> int \<times> bytes \<times> 'o fil \<times> 'v storage_st" where
  "read_at ff sd f off dst len s =
     (let (fr, f1, s1) = ff_lseek ff f off s
      in if fr \<noteq> FR_OK then (STORAGE_EIO, [], f1, s1) else storage_read ff sd f1 dst len s1)"

definition elf_ok :: "elf32_ehdr \<Rightarrow> bool" where
  "elf_ok eh \<longleftrightarrow> take 6 (e_ident eh) = [0x7F, 0x45, 0x4C, 0x46, 1, 1] \<and> e_type eh = ET_EXEC \<and> e_machine eh = EM_ARM \<and>
     e_phentsize eh = 32 \<and> e_phnum eh \<noteq> 0 \<and> e_phnum eh \<le> PHNUM_MAX"

definition loads :: "elf32_phdr \<Rightarrow> bool" where
  "loads p \<longleftrightarrow> p_type p = PT_LOAD \<and> p_memsz p \<noteq> 0"

fun check_loop :: "elf32_ehdr \<Rightarrow> elf32_phdr list \<Rightarrow> bool \<Rightarrow> int" where
  "check_loop eh [] entry_ok = (if entry_ok then 0 else PAYLOAD_ERANGE)"
| "check_loop eh (p # ps) entry_ok =
     (if \<not> loads p then check_loop eh ps entry_ok
      else if p_memsz p < p_filesz p \<or> \<not> range_ok (p_paddr p) (p_memsz p) then PAYLOAD_ERANGE
      else check_loop eh ps (entry_ok \<or> p_paddr p \<le> e_entry eh \<and> e_entry eh < p_paddr p + p_memsz p))"

text \<open>\<open>eh_at\<close> and \<open>ph_at\<close> are the addresses of the two buffers, which matter for their alignment only.\<close>

definition check ::
  "('v, 'o) fatfs \<Rightarrow> 'v sd_ops \<Rightarrow> u32 \<Rightarrow> u32 \<Rightarrow> 'o fil \<Rightarrow> 'v storage_st \<Rightarrow>
   int \<times> elf32_ehdr \<times> elf32_phdr list \<times> 'o fil \<times> 'v storage_st" where
  "check ff sd eh_at ph_at f s =
     (let (rc, bs, f1, s1) = read_at ff sd f 0 eh_at 52 s; eh = ehdr_of (over bs (replicate 52 0))
      in if rc \<noteq> 0 then (STORAGE_EIO, eh, [], f1, s1)
         else if \<not> elf_ok eh then (PAYLOAD_ENOTELF, eh, [], f1, s1)
         else
           let n = unat (e_phnum eh);
               (rc2, bs2, f2, s2) = read_at ff sd f1 (e_phoff eh) ph_at (of_nat (32 * n)) s1;
               ph = map (phdr_of (over bs2 (replicate (32 * n) 0))) [0..<n]
           in if rc2 \<noteq> 0 then (STORAGE_EIO, eh, ph, f2, s2) else (check_loop eh ph False, eh, ph, f2, s2))"

fun load_loop ::
  "('v, 'o) fatfs \<Rightarrow> 'v sd_ops \<Rightarrow> elf32_phdr list \<Rightarrow> 'o fil \<Rightarrow> 'v storage_st \<Rightarrow> int \<times> 'o fil \<times> 'v storage_st" where
  "load_loop ff sd [] f s = (0, f, s)"
| "load_loop ff sd (p # ps) f s =
     (if \<not> loads p then load_loop ff sd ps f s
      else
        let (rc, f1, s1) =
              (if p_filesz p \<noteq> 0 then
                 let (rc, bs, f1, s1) = read_at ff sd f (p_offset p) (p_paddr p) (p_filesz p) s
                 in (rc, f1, s1\<lparr>ddr := mem_put (ddr s1) (p_paddr p) bs\<rparr>)
               else (0, f, s))
        in if rc \<noteq> 0 then (STORAGE_EIO, f1, s1)
           else load_loop ff sd ps f1
             (s1\<lparr>ddr := mem_put (ddr s1) (p_paddr p + p_filesz p) (replicate (unat (p_memsz p - p_filesz p)) 0)\<rparr>))"

text \<open>The return code, the entry with return code 0, and the state.\<close>

definition payload_load ::
  "('v, 'o) fatfs \<Rightarrow> 'v sd_ops \<Rightarrow> u32 \<Rightarrow> u32 \<Rightarrow> string \<Rightarrow> 'v storage_st \<Rightarrow> int \<times> u32 option \<times> 'v storage_st" where
  "payload_load ff sd eh_at ph_at name s =
     (let (fr, f, s1) = ff_open ff (PAYLOAD_DIR @ ''/'' @ name) False s
      in if fr \<noteq> FR_OK then (STORAGE_ENOTFOUND, None, s1)
         else
           let (rc, eh, ph, f1, s2) = check ff sd eh_at ph_at f s1
           in if rc \<noteq> 0 then (rc, None, snd (ff_close ff f1 s2))
              else
                let (rc2, f2, s3) = load_loop ff sd ph f1 (log_detach s2); s4 = snd (ff_close ff f2 s3)
                in if rc2 \<noteq> 0 then (rc2, None, s4) else (0, Some (e_entry eh), s4))"

section \<open>Ranges\<close>

definition allowed :: "u32 \<Rightarrow> bool" where
  "allowed x \<longleftrightarrow> DDR_LOW \<le> x \<and> x < DDR_HIGH \<and> \<not> (SELF_LOW \<le> x \<and> x < SELF_HIGH) \<and>
     \<not> (FB_ADDR \<le> x \<and> x < FB_ADDR + FB_BYTES) \<and> \<not> (FB_BACK_ADDR \<le> x \<and> x < FB_BACK_ADDR + FB_BYTES)"

lemmas layout = DDR_LOW_def DDR_HIGH_def SELF_LOW_def SELF_HIGH_def FB_ADDR_def FB_BACK_ADDR_def FB_BYTES_def

lemma no_wrap: "(addr :: u32) \<le> addr + sz \<longleftrightarrow> unat addr + unat sz < 2 ^ 32"
proof (cases "unat addr + unat sz < 2 ^ 32")
  case True
  then show ?thesis by (simp add: word_le_nat_alt unat_word_ariths)
next
  case False
  then have "unat (addr + sz) = unat addr + unat sz - 2 ^ 32"
    using unat_u32_bound [of addr] unat_u32_bound [of sz] by (simp add: unat_word_ariths le_mod_geq)
  then show ?thesis using False unat_u32_bound [of sz] by (simp add: word_le_nat_alt)
qed

lemma interval_disjoint:
  assumes "0 < n" and "lo < hi"
  shows "(\<forall>i < n. \<not> (lo \<le> a + i \<and> a + i < hi)) \<longleftrightarrow> \<not> (a < hi \<and> lo < a + (n :: nat))"
proof
  assume h: "\<forall>i < n. \<not> (lo \<le> a + i \<and> a + i < hi)"
  show "\<not> (a < hi \<and> lo < a + n)"
  proof
    assume "a < hi \<and> lo < a + n"
    moreover from this have "lo - a < n" using assms(1) by linarith
    ultimately show False using h [rule_format, of "lo - a"] assms(2) by (cases "lo \<le> a") simp_all
  qed
qed auto

lemma interval_inside:
  assumes "0 < n"
  shows "(\<forall>i < n. lo \<le> a + i \<and> a + i < hi) \<longleftrightarrow> lo \<le> a \<and> a + (n :: nat) \<le> hi"
proof
  assume "\<forall>i < n. lo \<le> a + i \<and> a + i < hi"
  from this [rule_format, of 0] this [rule_format, of "n - 1"] assms show "lo \<le> a \<and> a + n \<le> hi" by auto
qed auto

definition allowed_nat :: "nat \<Rightarrow> bool" where
  "allowed_nat x \<longleftrightarrow> (0x30000000 \<le> x \<and> x < 0x34000000) \<and> \<not> (0x33000000 \<le> x \<and> x < 0x33800000) \<and>
     \<not> (0x33B00000 \<le> x \<and> x < 0x33BBB800) \<and> \<not> (0x33C00000 \<le> x \<and> x < 0x33CBB800)"

lemma allowed_nat: "allowed x \<longleftrightarrow> allowed_nat (unat x)"
  by (simp add: allowed_def allowed_nat_def layout word_less_nat_alt word_le_nat_alt)

lemma range_ok_nat:
  "range_ok addr sz \<longleftrightarrow> unat addr + unat sz < 2 ^ 32 \<and> (let a = unat addr; b = unat addr + unat sz in
     (0x30000000 \<le> a \<and> b \<le> 0x34000000) \<and> \<not> (a < 0x33800000 \<and> 0x33000000 < b) \<and>
     \<not> (a < 0x33BBB800 \<and> 0x33B00000 < b) \<and> \<not> (a < 0x33CBB800 \<and> 0x33C00000 < b))"
proof (cases "unat addr + unat sz < 2 ^ 32")
  case True
  then have "unat (addr + sz) = unat addr + unat sz" by (simp add: unat_word_ariths)
  with True show ?thesis
    by (simp add: range_ok_def no_wrap overlaps_def layout word_less_nat_alt word_le_nat_alt Let_def)
next
  case False
  then show ?thesis by (simp add: range_ok_def no_wrap Let_def)
qed

lemma range_ok_allowed:
  assumes "sz \<noteq> 0"
  shows "range_ok addr sz \<longleftrightarrow> unat addr + unat sz < 2 ^ 32 \<and> (\<forall>i < unat sz. allowed (addr + of_nat i))"
proof (cases "unat addr + unat sz < 2 ^ 32")
  case True
  define a n where "a = unat addr" and "n = unat sz"
  have n: "0 < n" using assms by (simp add: n_def unat_gt_0)
  have u: "unat (addr + of_nat i) = a + i" if "i < n" for i
    using that True by (simp add: unat_word_ariths unat_of_nat a_def n_def)
  have "(\<forall>i < n. allowed (addr + of_nat i)) \<longleftrightarrow> (\<forall>i < n. allowed_nat (a + i))"
    using u by (simp add: allowed_nat)
  also have "\<dots> \<longleftrightarrow> (0x30000000 \<le> a \<and> a + n \<le> 0x34000000) \<and> \<not> (a < 0x33800000 \<and> 0x33000000 < a + n) \<and>
     \<not> (a < 0x33BBB800 \<and> 0x33B00000 < a + n) \<and> \<not> (a < 0x33CBB800 \<and> 0x33C00000 < a + n)"
    unfolding interval_inside [OF n, symmetric] allowed_nat_def
    using interval_disjoint [OF n, of "0x33000000" "0x33800000" a] interval_disjoint [OF n, of "0x33B00000" "0x33BBB800" a]
      interval_disjoint [OF n, of "0x33C00000" "0x33CBB800" a]
    by auto
  finally show ?thesis using True unfolding range_ok_nat a_def [symmetric] n_def [symmetric] by (simp add: Let_def)
next
  case False
  then show ?thesis by (simp add: range_ok_nat)
qed


section \<open>What a load leaves alone\<close>

text \<open>The log stays in its window, and no byte outside the allowed memory changes.\<close>

definition still :: "'v storage_st \<Rightarrow> 'v storage_st \<Rightarrow> bool" where
  "still s s' \<longleftrightarrow> (log_good s \<longrightarrow> log_good s' \<and> (\<forall>x. \<not> allowed x \<longrightarrow> ddr s' x = ddr s x))"

lemma still_refl [simp, intro]: "still s s"
  by (simp add: still_def)

lemma still_trans: "still s t \<Longrightarrow> still t u \<Longrightarrow> still s u"
  by (simp add: still_def)

lemma still_fields [simp]:
  "still s (s'\<lparr>clmt := c\<rparr>) = still s s'" "still (s\<lparr>clmt := c\<rparr>) s' = still s s'"
  "still s (s'\<lparr>single_blocks := b\<rparr>) = still s s'"
  by (simp_all add: still_def log_good_def)

lemma still_detach: "still s (log_detach s)"
  by (simp add: still_def log_detach_def log_good_def log_layout)

lemma log_window_allowed: "log_good s \<Longrightarrow> log_ptr s < log_end s \<Longrightarrow> allowed (log_ptr s)"
  by (simp add: log_good_def allowed_nat allowed_nat_def log_layout word_less_nat_alt word_le_nat_alt)

lemma still_putc: "still s (log_putc c s)"
proof -
  have "ddr (log_putc c s) x = ddr s x" if "log_good s" "\<not> allowed x" for x
    using that log_window_allowed [of s] by (auto simp: log_putc_def Let_def)
  moreover have "log_good s \<Longrightarrow> log_good (log_putc c s)" by (rule log_sink.good_putc)
  ultimately show ?thesis by (simp add: still_def)
qed

lemma still_puts: "still s (log_puts t s)"
proof (induction t arbitrary: s)
  case (Cons c t)
  show ?case using still_trans [OF still_putc Cons.IH] by (simp add: log_puts_def)
qed (simp add: log_puts_def)

lemma still_rc: "still s (log_rc rc s)"
  unfolding log_rc_puts by (rule still_puts)

text \<open>What the loader relies on: FatFs and the card driver log through the log calls only and write no
  memory of the machine but the destination, of which they fill no more than they are asked to.\<close>

definition io_laws :: "('v, 'o) fatfs \<Rightarrow> 'v sd_ops \<Rightarrow> bool" where
  "io_laws ff sd \<longleftrightarrow>
     (\<forall>p w s. still s (snd (snd (ff_open ff p w s)))) \<and>
     (\<forall>f k s. still s (snd (snd (snd (ff_read ff f k s)))) \<and> length (fst (snd (ff_read ff f k s))) \<le> k) \<and>
     (\<forall>f k s. still s (snd (snd (ff_lseek ff f k s)))) \<and>
     (\<forall>f s. still s (snd (snd (ff_linkmap ff f s)))) \<and>
     (\<forall>f s. still s (snd (ff_close ff f s))) \<and>
     (\<forall>s. still s (snd (op_sd_init sd s))) \<and> (\<forall>s. still s (snd (op_sd_high_speed sd s))) \<and>
     (\<forall>lba n s. still s (snd (snd (op_sd_read_blocks sd lba n s))) \<and>
        length (fst (snd (op_sd_read_blocks sd lba n s))) \<le> 512 * unat n)"

lemma io_lawsD:
  assumes "io_laws ff sd"
  shows "ff_open ff p w s = (fr, f', s') \<Longrightarrow> still s s'"
    and "ff_read ff f k s = (fr, bs, f', s') \<Longrightarrow> still s s' \<and> length bs \<le> k"
    and "ff_lseek ff f pos s = (fr, f', s') \<Longrightarrow> still s s'"
    and "ff_linkmap ff f s = (fr, f', s') \<Longrightarrow> still s s'"
    and "still s (snd (ff_close ff f s))"
    and "op_sd_init sd s = (rc, s') \<Longrightarrow> still s s'"
    and "op_sd_high_speed sd s = (rc, s') \<Longrightarrow> still s s'"
    and "op_sd_read_blocks sd lba n s = (rc, bs, s') \<Longrightarrow> still s s' \<and> length bs \<le> 512 * unat n"
  using assms unfolding io_laws_def by (metis fst_conv snd_conv)+

lemma still_card_start:
  assumes "io_laws ff sd" and "card_start sd s = (rc, s')"
  shows "still s s'"
proof -
  obtain rc1 s1 where 1: "op_sd_init sd s = (rc1, s1)" by fastforce
  obtain rc2 s2 where 2: "op_sd_high_speed sd s1 = (rc2, s2)" by fastforce
  note st = io_lawsD(6) [OF assms(1) 1] still_trans [OF io_lawsD(6) [OF assms(1) 1] io_lawsD(7) [OF assms(1) 2]]
  show ?thesis
    using assms(2) 1 2 st still_trans [OF st(2) still_trans [OF still_puts still_rc]]
    by (auto simp: card_start_def split: if_splits)
qed

lemma still_read_rest:
  assumes "io_laws ff sd" and "read_rest ff f acc partial len s = (rc, bs, f', s')" and "length partial \<le> unat len"
  shows "still s s' \<and> length bs \<le> length acc + unat len"
  using assms(2,3) io_lawsD(2) [OF assms(1), of f "unat len" s]
  by (auto simp: read_rest_def read_slow_def over_def split: prod.splits)

lemma still_read_fast:
  assumes io: "io_laws ff sd"
  shows "read_fast ff sd f acc len s = (rc, bs, f', s') \<Longrightarrow> still s s' \<and> length bs \<le> length acc + unat len"
proof (induction "unat len" arbitrary: f acc len s rule: less_induct)
  case less
  show ?case
  proof (cases "len < 512")
    case True
    then have "read_rest ff f acc [] len s = (rc, bs, f', s')" using less.prems by (simp add: read_fast.simps)
    from still_read_rest [OF io this] show ?thesis by simp
  next
    case False
    obtain lba n0 where run: "run_at (fptr f) s = (lba, n0)" by fastforce
    define n where "n = blocks_now n0 len"
    obtain rc1 bs1 s1 where rd: "op_sd_read_blocks sd lba n s = (rc1, bs1, s1)" by (metis prod_cases3)
    have l1: "still s s1" "length bs1 \<le> 512 * unat n" using io_lawsD(8) [OF io rd] by simp_all
    have bl: "length bs1 \<le> unat len" using l1(2) blocks_now_le [of n0 len] by (simp add: n_def)
    note eq = less.prems [unfolded read_fast.simps [of ff sd f acc len s] run Let_def prod.case n_def [symmetric] rd]
    consider "n = 0" | "n \<noteq> 0" "rc1 = SD_ENOCMD23" | "n \<noteq> 0" "rc1 \<noteq> SD_ENOCMD23" "rc1 \<noteq> 0" | "n \<noteq> 0" "rc1 = 0"
      by blast
    then show ?thesis
    proof cases
      case 1
      then show ?thesis using eq False by auto
    next
      case 2
      define s2 where "s2 = (log_puts (cs ''storage: no CMD23, single blocks only'' @ [10]) s1)\<lparr>single_blocks := True\<rparr>"
      have "still s s2" using still_trans [OF l1(1) still_puts] by (simp add: s2_def)
      moreover have "read_rest ff f acc bs1 len s2 = (rc, bs, f', s')"
        using eq False 2 unfolding s2_def by (simp only: if_False if_True simp_thms)
      ultimately show ?thesis using still_read_rest [OF io _ bl] still_trans by blast
    next
      case 3
      define s0 where "s0 = log_puts (cs ''storage: multiple block read failed'' @ [10]) s1"
      obtain rc2 s2 where cst: "card_start sd s0 = (rc2, s2)" by fastforce
      have st: "still s s2"
        using still_trans [OF still_trans [OF l1(1) still_puts] still_card_start [OF io]] cst by (simp add: s0_def)
      show ?thesis
      proof (cases "rc2 = 0")
        case True
        then have "read_rest ff f acc bs1 len s2 = (rc, bs, f', s')"
          using eq False 3 cst unfolding s0_def by simp
        then show ?thesis using still_read_rest [OF io _ bl] still_trans [OF st] by blast
      next
        case False
        then have "bs = acc @ bs1" "s' = s2" using eq \<open>\<not> len < 512\<close> 3 cst unfolding s0_def by simp_all
        then show ?thesis using st bl by simp
      qed
    next
      case 4
      have d: "unat (n * 512) = unat n * 512" "unat n * 512 \<le> unat len" "0 < unat n"
        using blocks_now_bytes [of n0 len] blocks_now_le [of n0 len] 4(1) by (simp_all add: n_def unat_gt_0)
      then have len: "unat (len - n * 512) = unat len - unat n * 512" by (simp add: unat_sub word_le_nat_alt)
      obtain fr f1 s2 where sk: "ff_lseek ff f (fptr f + n * 512) s1 = (fr, f1, s2)" by (metis prod_cases3)
      have st: "still s s2" by (rule still_trans [OF l1(1) io_lawsD(3) [OF io sk]])
      show ?thesis
      proof (cases "fr = FR_OK")
        case False
        then have "bs = acc @ bs1" "s' = s2" using eq sk 4 \<open>\<not> len < 512\<close> by (simp_all add: SD_ENOCMD23_def)
        then show ?thesis using bl st by simp
      next
        case True
        have rec: "read_fast ff sd f1 (acc @ bs1) (len - n * 512) s2 = (rc, bs, f', s')"
          using eq sk 4 True False by (simp add: SD_ENOCMD23_def)
        have "still s2 s' \<and> length bs \<le> length (acc @ bs1) + unat (len - n * 512)"
          by (rule less.hyps [OF _ rec]) (use len d in simp)
        then show ?thesis using still_trans [OF st] l1(2) len d(2) by auto
      qed
    qed
  qed
qed


lemma still_storage_read:
  assumes io: "io_laws ff sd" and r: "storage_read ff sd f dst len s = (rc, bs, f', s')"
  shows "still s s' \<and> length bs \<le> unat len"
proof -
  obtain fr f0 s0 where lm: "ff_linkmap ff (f\<lparr>cltbl := True\<rparr>) (s\<lparr>clmt := (clmt s)[0 := 512]\<rparr>) = (fr, f0, s0)"
    by (metis prod_cases3)
  define f1 where "f1 = (if cltbl f then f else if fr \<noteq> FR_OK then f0\<lparr>cltbl := False\<rparr> else f0)"
  define s1 where "s1 = (if cltbl f then s else s0)"
  define head0 where "head0 = (512 - fptr f1 mod 512) mod 512"
  define head where "head = (if len < head0 \<or> \<not> cltbl f1 \<or> single_blocks s1 \<or> (dst + head0) AND 63 \<noteq> 0 then len else head0)"
  have hl: "head \<le> len" by (auto simp: head_def)
  have s1: "still s s1" using io_lawsD(4) [OF io lm] by (simp add: s1_def)
  obtain rc1 bs1 f2 s2 where sl: "read_slow ff f1 (unat head) s1 = (rc1, bs1, f2, s2)" by (metis prod_cases4)
  then have s2: "still s1 s2 \<and> length bs1 \<le> unat head"
    using io_lawsD(2) [OF io, of f1 "unat head" s1] by (auto simp: read_slow_def split: prod.splits)
  have eq: "(if rc1 \<noteq> 0 then (STORAGE_EIO, bs1, f2, s2) else read_fast ff sd f2 bs1 (len - head) s2) = (rc, bs, f', s')"
    using r sl lm unfolding storage_read_def head_def head0_def f1_def s1_def by (auto split: if_splits)
  have len: "unat (len - head) = unat len - unat head" "unat head \<le> unat len"
    using hl by (simp_all add: unat_sub word_le_nat_alt)
  show ?thesis
  proof (cases "rc1 = 0")
    case False
    then show ?thesis using eq s1 s2 len still_trans by auto
  next
    case True
    then have "still s2 s' \<and> length bs \<le> length bs1 + unat (len - head)"
      using still_read_fast [OF io] eq by simp
    moreover have "still s s2" using s1 s2 still_trans by blast
    ultimately show ?thesis using still_trans [of s s2 s'] s2 len by auto
  qed
qed

lemma still_read_at:
  assumes io: "io_laws ff sd" and "read_at ff sd f off dst len s = (rc, bs, f', s')"
  shows "still s s' \<and> length bs \<le> unat len"
proof -
  obtain fr f1 s1 where sk: "ff_lseek ff f off s = (fr, f1, s1)" by (metis prod_cases3)
  show ?thesis
    using assms(2) sk io_lawsD(3) [OF io sk] still_storage_read [OF io, of f1 dst len s1] still_trans
    by (auto simp: read_at_def split: if_splits)
qed

lemma still_check:
  assumes io: "io_laws ff sd" and "check ff sd eh_at ph_at f s = (rc, eh, ph, f', s')"
  shows "still s s'"
proof -
  obtain rc1 bs1 f1 s1 where 1: "read_at ff sd f 0 eh_at 52 s = (rc1, bs1, f1, s1)" by (metis prod_cases4)
  define e where "e = ehdr_of (over bs1 (replicate 52 0))"
  obtain rc2 bs2 f2 s2 where 2: "read_at ff sd f1 (e_phoff e) ph_at (of_nat (32 * unat (e_phnum e))) s1 = (rc2, bs2, f2, s2)"
    by (metis prod_cases4)
  have st: "still s s1" "still s s2" using still_read_at [OF io 1] still_read_at [OF io 2] still_trans by blast+
  show ?thesis
    using assms(2) st unfolding check_def 1 Let_def prod.case e_def [symmetric] 2 by (auto split: if_splits)
qed

lemma check_loop_ok:
  assumes "check_loop eh ps b = 0"
  shows "\<forall>p \<in> set ps. loads p \<longrightarrow> p_filesz p \<le> p_memsz p \<and> range_ok (p_paddr p) (p_memsz p)"
    and "b \<or> (\<exists>p \<in> set ps. loads p \<and> p_paddr p \<le> e_entry eh \<and> e_entry eh < p_paddr p + p_memsz p)"
  using assms by (induction ps arbitrary: b) (auto simp: PAYLOAD_ERANGE_def split: if_splits)

lemma check_result:
  assumes "check ff sd eh_at ph_at f s = (0, eh, ph, f', s')"
  shows "check_loop eh ph False = 0"
proof -
  obtain rc1 bs1 f1 s1 where 1: "read_at ff sd f 0 eh_at 52 s = (rc1, bs1, f1, s1)" by (metis prod_cases4)
  define e where "e = ehdr_of (over bs1 (replicate 52 0))"
  obtain rc2 bs2 f2 s2 where 2: "read_at ff sd f1 (e_phoff e) ph_at (of_nat (32 * unat (e_phnum e))) s1 = (rc2, bs2, f2, s2)"
    by (metis prod_cases4)
  show ?thesis
    using assms unfolding check_def 1 Let_def prod.case e_def [symmetric] 2
    by (auto simp: STORAGE_EIO_def PAYLOAD_ENOTELF_def split: if_splits)
qed

text \<open>Bytes stored from a segment's start stay in allowed memory.\<close>

lemma segment_write:
  assumes "range_ok a n" and "n \<noteq> 0" and "unat off + length bs \<le> unat n" and "\<not> allowed x"
  shows "mem_put m (a + off) bs x = m x"
proof -
  have all: "unat a + unat n < 2 ^ 32" "\<forall>i < unat n. allowed (a + of_nat i)"
    using assms(1) range_ok_allowed [OF assms(2)] by blast+
  have "\<not> unat (x - (a + off)) < length bs"
  proof
    assume lt: "unat (x - (a + off)) < length bs"
    have "x = a + of_nat (unat off + unat (x - (a + off)))" by simp
    moreover have "unat off + unat (x - (a + off)) < unat n" using lt assms(3) by linarith
    ultimately show False using all(2) assms(4) by metis
  qed
  moreover have "length bs \<le> 2 ^ 32" using assms(3) unat_u32_bound [of n] by simp
  ultimately show ?thesis by (simp add: mem_put_apply)
qed

lemma still_put:
  assumes "range_ok a n" and "n \<noteq> 0" and "unat off + length bs \<le> unat n"
  shows "still s (s\<lparr>ddr := mem_put (ddr s) (a + off) bs\<rparr>)"
  using segment_write [OF assms] by (auto simp: still_def log_good_def)

lemma still_load_loop:
  assumes io: "io_laws ff sd"
  shows "\<forall>p \<in> set ps. loads p \<longrightarrow> p_filesz p \<le> p_memsz p \<and> range_ok (p_paddr p) (p_memsz p) \<Longrightarrow>
    load_loop ff sd ps f s = (rc, f', s') \<Longrightarrow> still s s'"
proof (induction ps arbitrary: f s)
  case (Cons p ps)
  show ?case
  proof (cases "loads p")
    case False
    then show ?thesis using Cons by simp
  next
    case True
    then have p: "p_filesz p \<le> p_memsz p" "range_ok (p_paddr p) (p_memsz p)" "p_memsz p \<noteq> 0"
      using Cons.prems(1) by (simp_all add: loads_def)
    obtain rc1 bs1 f0 s0 where rd: "read_at ff sd f (p_offset p) (p_paddr p) (p_filesz p) s = (rc1, bs1, f0, s0)"
      by (metis prod_cases4)
    define r where "r = (if p_filesz p \<noteq> 0 then rc1 else 0)"
    define f1 where "f1 = (if p_filesz p \<noteq> 0 then f0 else f)"
    define s1 where "s1 = (if p_filesz p \<noteq> 0 then s0\<lparr>ddr := mem_put (ddr s0) (p_paddr p) bs1\<rparr> else s)"
    define s2 where "s2 = s1\<lparr>ddr := mem_put (ddr s1) (p_paddr p + p_filesz p) (replicate (unat (p_memsz p - p_filesz p)) 0)\<rparr>"
    have b: "still s s0" "length bs1 \<le> unat (p_filesz p)" using still_read_at [OF io rd] by simp_all
    have fm: "unat (p_filesz p) \<le> unat (p_memsz p)" using p(1) by (simp add: word_le_nat_alt)
    have "still s0 (s0\<lparr>ddr := mem_put (ddr s0) (p_paddr p) bs1\<rparr>)"
      using still_put [OF p(2,3), of 0 bs1 s0] b(2) fm by simp
    then have s1: "still s s1" using b(1) still_trans by (auto simp: s1_def)
    have "still s1 s2"
      unfolding s2_def by (rule still_put [OF p(2,3)]) (use fm in \<open>simp add: unat_sub p(1)\<close>)
    with s1 have s2: "still s s2" using still_trans by blast
    have "(if r \<noteq> 0 then (STORAGE_EIO, f1, s1) else load_loop ff sd ps f1 s2) = (rc, f', s')"
      using Cons.prems(2) True rd by (auto simp: r_def f1_def s1_def s2_def split: if_splits)
    moreover have "still s2 s'" if "load_loop ff sd ps f1 s2 = (rc, f', s')"
      using Cons.IH [OF _ that] Cons.prems(1) by simp
    ultimately show ?thesis using s1 still_trans [OF s2] by (auto split: if_splits)
  qed
qed auto


section \<open>Properties\<close>

text \<open>C39: For a segment that is not empty, \<open>range_ok\<close> accepts exactly the ranges that do not wrap around
  the address space and all of whose bytes lie in DDR outside aipc-boot and both framebuffers.\<close>

theorem range_ok_exact:
  assumes "sz \<noteq> 0"
  shows "range_ok addr sz \<longleftrightarrow> unat addr + unat sz < 2 ^ 32 \<and>
    (\<forall>i < unat sz. DDR_LOW \<le> addr + of_nat i \<and> addr + of_nat i < DDR_HIGH \<and>
       \<not> (SELF_LOW \<le> addr + of_nat i \<and> addr + of_nat i < SELF_HIGH) \<and>
       \<not> (FB_ADDR \<le> addr + of_nat i \<and> addr + of_nat i < FB_ADDR + FB_BYTES) \<and>
       \<not> (FB_BACK_ADDR \<le> addr + of_nat i \<and> addr + of_nat i < FB_BACK_ADDR + FB_BYTES))"
  using range_ok_allowed [OF assms] unfolding allowed_def .

theorem range_ok_exact_witness: "range_ok 0x30000000 1 \<and> DDR_LOW \<le> 0x30000000"
proof -
  have "range_ok 0x30000000 1" by code_simp
  then show ?thesis using range_ok_exact [of 1 "0x30000000"] by simp
qed



lemma ram_io_laws: "io_laws (ram_fs w n) (ram_sd (\<lambda>_. []))"
proof -
  have "concat (map (\<lambda>i. []) xs) = []" for xs :: "nat list" by (induction xs) simp_all
  note [simp] = this
  show ?thesis
    unfolding io_laws_def ram_fs_def ram_sd_def
    by (auto simp: still_def log_good_def Let_def split: option.splits)
qed

text \<open>One program header, one segment of four bytes at 0x30100000, six bytes of memory.\<close>

definition tiny_elf :: bytes where
  "tiny_elf = [0x7F, 0x45, 0x4C, 0x46, 1, 1, 1, 0, 0, 0, 0, 0, 0, 0, 0, 0, 2, 0, 40, 0] @ le32 1 @ le32 0x30100000 @ le32 52 @
     le32 0 @ le32 0 @ [52, 0, 32, 0, 1, 0, 0, 0, 0, 0, 0, 0] @
     le32 1 @ le32 84 @ le32 0x30100000 @ le32 0x30100000 @ le32 4 @ le32 6 @ le32 7 @ le32 4 @ [1, 2, 3, 4]"

definition tiny_state :: "(string \<rightharpoonup> bytes) storage_st" where
  "tiny_state = (ram_state [''/aipc-boot/payloads/a'' \<mapsto> tiny_elf])\<lparr>log_ptr := LOG_BASE, log_end := LOG_BASE + LOG_SIZE\<rparr>"

lemma tiny_loads: "(case payload_load (ram_fs False 1) (ram_sd (\<lambda>_. [])) 0 0 ''a'' tiny_state of
    (rc, e, s') \<Rightarrow> rc = 0 \<and> e = Some 0x30100000 \<and> map (ddr s') [0x30100000, 0x30100003, 0x30100005] = [1, 4, 0])"
  by code_simp


section \<open>The list is sorted\<close>

lemma str_gt_asym: "str_gt a b \<Longrightarrow> \<not> str_gt b a"
  by (induction a b rule: str_gt.induct) (auto split: if_splits)

lemma str_gt_irrefl [simp]: "\<not> str_gt a a"
  using str_gt_asym by blast

lemma str_gt_trans: "str_gt a b \<Longrightarrow> str_gt b c \<Longrightarrow> str_gt a c"
proof (induction a b arbitrary: c rule: str_gt.induct)
  case (3 x a y b)
  then show ?case by (cases c) (auto split: if_splits)
qed auto

lemma str_gt_total: "str_gt a b \<or> str_gt b a \<or> a = b"
proof (induction a b rule: str_gt.induct)
  case (1 b)
  then show ?case by (cases b) simp_all
next
  case (3 x a y b)
  show ?case
  proof (cases "x = y")
    case False
    then have "(of_char x :: nat) < of_char y \<or> (of_char y :: nat) < of_char x" by (metis nat_neq_iff of_char_eq_iff)
    then show ?thesis using False by auto
  qed (use 3 in auto)
qed simp

definition str_le :: "string \<Rightarrow> string \<Rightarrow> bool" where
  "str_le a b \<longleftrightarrow> \<not> str_gt a b"

lemma str_le_trans: "str_le a b \<Longrightarrow> str_le b c \<Longrightarrow> str_le a c"
  unfolding str_le_def using str_gt_total [of a b] str_gt_trans [of c b a] str_gt_total [of b c] str_gt_trans str_gt_asym
  by metis

lemma insert_at_spec:
  assumes "i \<le> length names"
  shows "insert_at names i n \<le> i \<and> (\<forall>j. insert_at names i n \<le> j \<and> j < i \<longrightarrow> str_gt (names ! j) n) \<and>
    (0 < insert_at names i n \<longrightarrow> str_le (names ! (insert_at names i n - 1)) n)"
  using assms by (induction i) (auto simp: str_le_def less_Suc_eq)

lemma insert_name_sorted:
  assumes "sorted_wrt str_le names"
  shows "sorted_wrt str_le (insert_name n names)"
proof -
  define i where "i = insert_at names (length names) n"
  note sp = insert_at_spec [OF order_refl, of names n, folded i_def]
  have lo: "str_le x n" if "x \<in> set (take i names)" for x
  proof -
    obtain j where j: "j < i" "x = names ! j" using \<open>x \<in> _\<close> sp by (auto simp: in_set_conv_nth)
    have "str_le (names ! j) (names ! (i - 1))"
    proof (cases "j = i - 1")
      case False
      then have "j < i - 1" "i - 1 < length names" using j sp by auto
      then show ?thesis by (rule sorted_wrt_nth_less [OF assms])
    qed (simp add: str_le_def)
    then show ?thesis using str_le_trans sp j by fastforce
  qed
  have hi: "str_le n x" if x: "x \<in> set (drop i names)" for x
  proof -
    obtain j where "j < length (drop i names)" "drop i names ! j = x" using x by (meson in_set_conv_nth)
    then have "j < length names - i" "x = names ! (i + j)" using sp by simp_all
    then have "str_gt x n" using sp by simp
    then show ?thesis by (simp add: str_le_def str_gt_asym)
  qed
  have "sorted_wrt str_le (take i names @ drop i names)" using assms by simp
  then show ?thesis
    unfolding insert_name_def Let_def i_def [symmetric] using lo hi
    by (auto simp: sorted_wrt_append intro: str_le_trans [of _ n])
qed

lemma insert_name_mset: "mset (insert_name n names) = add_mset n (mset names)"
proof -
  have "mset (take i names) + mset (drop i names) = mset names" for i
    unfolding mset_append [symmetric] by simp
  then show ?thesis by (simp add: insert_name_def Let_def)
qed

lemma list_loop_spec:
  "length names \<le> 16 \<Longrightarrow> sorted_wrt str_le names \<Longrightarrow>
   sorted_wrt str_le (list_loop dir names) \<and>
   mset (list_loop dir names) = mset names +
     mset (take (16 - length names) (map fname (filter (\<lambda>fi. \<not> skipped fi) (takeWhile (\<lambda>fi. fname fi \<noteq> []) dir))))"
proof (induction dir arbitrary: names)
  case (Cons fi dir)
  have len: "length (insert_name n names) = Suc (length names)" for n
    using arg_cong [OF insert_name_mset, of size] by (simp del: size_mset add: size_mset [symmetric])
  show ?case
  proof (cases "16 \<le> length names \<or> fname fi = [] \<or> skipped fi")
    case True
    then show ?thesis using Cons by (auto simp: PAYLOAD_MAX_def)
  next
    case False
    then have "sorted_wrt str_le (list_loop dir (insert_name (fname fi) names)) \<and>
       mset (list_loop dir (insert_name (fname fi) names)) = mset (insert_name (fname fi) names) +
       mset (take (15 - length names) (map fname (filter (\<lambda>fi. \<not> skipped fi) (takeWhile (\<lambda>fi. fname fi \<noteq> []) dir))))"
      using Cons.IH [of "insert_name (fname fi) names"] Cons.prems insert_name_sorted by (simp add: len)
    moreover have "16 - length names = Suc (15 - length names)" using False by auto
    ultimately show ?thesis using False by (simp add: PAYLOAD_MAX_def insert_name_mset)
  qed
qed simp

text \<open>\<open>payload_list\<close> gives the first 16 usable names of the directory, each as often as it occurs there,
  in the order of \<open>strcmp\<close>; a missing directory gives none.\<close>

theorem payload_list_sorted:
  "payload_list None = [] \<and> sorted_wrt (\<lambda>a b. \<not> str_gt a b) (payload_list (Some dir)) \<and>
   mset (payload_list (Some dir)) =
     mset (take 16 (map fname (filter (\<lambda>fi. \<not> skipped fi) (takeWhile (\<lambda>fi. fname fi \<noteq> []) dir))))"
  using list_loop_spec [of "[]" dir] unfolding str_le_def [abs_def] by (simp add: payload_list_def)

end
