(* ===== verification/Fat.thy ===== *)
theory Fat
  imports Sd
begin

text \<open>
  The read-only FAT16/FAT32 loader of lib/fat.c, over the card driver. Loops that follow a cluster chain
  have fuel; \<open>fat_load_file_correct\<close> shows that it never runs out (\<open>None\<close>), because a valid volume has at least one
  sector per cluster and both loops count sectors or bytes.
\<close>

section \<open>State\<close>

definition MAX_SECTORS_PER_CLUSTER :: u32 where "MAX_SECTORS_PER_CLUSTER = 128"
definition MAX_FAT32_ROOT_SECTORS :: nat where "MAX_FAT32_ROOT_SECTORS = 4096"

record fat_vol =
  bytes_per_sector :: u32
  sectors_per_cluster :: u32
  fat_start_lba :: u32
  root_start_lba :: u32
  root_dir_sectors :: u32
  data_start_lba :: u32
  root_cluster :: u32
  is_fat32 :: bool

record 'h fat_st = "'h sd_st" +
  io_buf :: bytes
  fat_buf :: bytes
  fat_buf_lba :: u32
  fvol :: fat_vol

type_synonym ('h, 'a) fat = "('h fat_st, 'a) state"

definition frd16 :: "bytes \<Rightarrow> nat \<Rightarrow> u32" where
  "frd16 p i = ucast (of_le16 (p ! i) (p ! (i + 1)))"

definition frd32 :: "bytes \<Rightarrow> nat \<Rightarrow> u32" where
  "frd32 p i = of_le32 (p ! i) (p ! (i + 1)) (p ! (i + 2)) (p ! (i + 3))"

definition is_power_of_two :: "u32 \<Rightarrow> bool" where
  "is_power_of_two x \<longleftrightarrow> x \<noteq> 0 \<and> x AND (x - 1) = 0"

section \<open>Sectors and the FAT\<close>

text \<open>The return code and the bytes that were stored.\<close>

definition read_sector :: "'h bus \<Rightarrow> u32 \<Rightarrow> ('h, int \<times> bytes) fat" where
  "read_sector b lba = do {
     (rc, ws) \<leftarrow> sd_read_block b lba;
     State_Monad.return (rc, concat (map le32 ws))
   }"

definition read_io :: "'h bus \<Rightarrow> u32 \<Rightarrow> ('h, int) fat" where
  "read_io b lba = do {
     (rc, bs) \<leftarrow> read_sector b lba;
     modify (\<lambda>s. s\<lparr>io_buf := put_bytes (io_buf s) 0 bs\<rparr>);
     State_Monad.return rc
   }"

definition fat_pos :: "fat_vol \<Rightarrow> u32 \<Rightarrow> u32 \<times> nat" where
  "fat_pos v cluster =
     (let byte_off = (if is_fat32 v then cluster * 4 else cluster * 2)
      in (fat_start_lba v + byte_off div 512, unat (byte_off AND 0x1FF)))"

definition fat_value :: "fat_vol \<Rightarrow> bytes \<Rightarrow> nat \<Rightarrow> u32" where
  "fat_value v buf off = (if is_fat32 v then frd32 buf off AND 0x0FFFFFFF else frd16 buf off)"

definition fat_entry :: "'h bus \<Rightarrow> u32 \<Rightarrow> ('h, u32) fat" where
  "fat_entry b cluster = do {
     v \<leftarrow> gets fvol;
     let (lba, off) = fat_pos v cluster;
     cached \<leftarrow> gets fat_buf_lba;
     rc \<leftarrow> (if lba \<noteq> cached then do {
              (rc, bs) \<leftarrow> read_sector b lba;
              modify (\<lambda>s. s\<lparr>fat_buf := put_bytes (fat_buf s) 0 bs\<rparr>);
              whenM (0 \<le> rc) (modify (\<lambda>s. s\<lparr>fat_buf_lba := lba\<rparr>));
              State_Monad.return rc
            }
            else State_Monad.return 0);
     if rc < 0 then State_Monad.return (if is_fat32 v then 0x0FFFFFFF else 0xFFFF)
     else do { buf \<leftarrow> gets fat_buf; State_Monad.return (fat_value v buf off) }
   }"

section \<open>The root directory\<close>

definition name_match :: "bytes \<Rightarrow> bytes \<Rightarrow> bool" where
  "name_match ent name11 \<longleftrightarrow> list_all (\<lambda>i. ent ! i = name11 ! i) [0..<11]"

text \<open>What \<open>scan_dir_sector\<close> returns: -1, 0, or 1 with the first cluster and the size.\<close>

datatype dir_scan = Dir_end | Dir_more | Dir_found u32 u32

fun scan_dir_loop :: "bool \<Rightarrow> bytes \<Rightarrow> bytes \<Rightarrow> nat list \<Rightarrow> dir_scan" where
  "scan_dir_loop is32 sec name11 [] = Dir_more"
| "scan_dir_loop is32 sec name11 (e # es) =
     (let ent = drop e sec
      in if ent ! 0 = 0 then Dir_end
         else if ent ! 0 = 0xE5 then scan_dir_loop is32 sec name11 es
         else if ent ! 11 = 0x0F then scan_dir_loop is32 sec name11 es
         else if ent ! 11 AND 0x08 \<noteq> 0 then scan_dir_loop is32 sec name11 es
         else if \<not> name_match ent name11 then scan_dir_loop is32 sec name11 es
         else
           let lo = frd16 ent 26; hi = (if is32 then frd16 ent 20 else 0)
           in Dir_found (push_bit 16 hi OR lo) (frd32 ent 28))"

definition scan_dir_sector :: "bool \<Rightarrow> bytes \<Rightarrow> bytes \<Rightarrow> dir_scan" where
  "scan_dir_sector is32 sec name11 = scan_dir_loop is32 sec name11 (map ((*) 32) [0..<16])"

text \<open>The sectors of one directory cluster; \<open>k\<close> are left. \<open>Inl\<close> ends the search, \<open>Inr\<close> is the count of
  scanned sectors.\<close>

fun scan_cluster :: "'h bus \<Rightarrow> bytes \<Rightarrow> u32 \<Rightarrow> nat \<Rightarrow> nat \<Rightarrow> ('h, (int + u32 \<times> u32) + nat) fat" where
  "scan_cluster b name11 lba 0 scanned = State_Monad.return (Inr scanned)"
| "scan_cluster b name11 lba (Suc k) scanned =
     (if MAX_FAT32_ROOT_SECTORS \<le> scanned then State_Monad.return (Inl (Inl (- 7)))
      else do {
        rc \<leftarrow> read_io b lba;
        if rc < 0 then State_Monad.return (Inl (Inl (- 6)))
        else do {
          v \<leftarrow> gets fvol;
          io \<leftarrow> gets io_buf;
          case scan_dir_sector (is_fat32 v) io name11 of
            Dir_found c n \<Rightarrow> State_Monad.return (Inl (Inr (c, n)))
          | Dir_end \<Rightarrow> State_Monad.return (Inl (Inl (- 7)))
          | Dir_more \<Rightarrow> scan_cluster b name11 (lba + 1) k (scanned + 1)
        }
      })"

definition cluster_lba :: "fat_vol \<Rightarrow> u32 \<Rightarrow> u32" where
  "cluster_lba v cluster = data_start_lba v + (cluster - 2) * sectors_per_cluster v"

fun scan_root_chain :: "'h bus \<Rightarrow> bytes \<Rightarrow> nat \<Rightarrow> u32 \<Rightarrow> nat \<Rightarrow> ('h, (int + u32 \<times> u32) option) fat" where
  "scan_root_chain b name11 0 cluster scanned = State_Monad.return None"
| "scan_root_chain b name11 (Suc fuel) cluster scanned =
     (if cluster < 0x0FFFFFF8 \<and> 2 \<le> cluster \<and> scanned < MAX_FAT32_ROOT_SECTORS then do {
        v \<leftarrow> gets fvol;
        r \<leftarrow> scan_cluster b name11 (cluster_lba v cluster) (unat (sectors_per_cluster v)) scanned;
        case r of
          Inl x \<Rightarrow> State_Monad.return (Some x)
        | Inr n \<Rightarrow> do { c \<leftarrow> fat_entry b cluster; scan_root_chain b name11 fuel c n }
      }
      else State_Monad.return (Some (Inl (- 7))))"

fun scan_root_fixed :: "'h bus \<Rightarrow> bytes \<Rightarrow> u32 \<Rightarrow> nat \<Rightarrow> ('h, int + u32 \<times> u32) fat" where
  "scan_root_fixed b name11 lba 0 = State_Monad.return (Inl (- 7))"
| "scan_root_fixed b name11 lba (Suc k) = do {
     rc \<leftarrow> read_io b lba;
     if rc < 0 then State_Monad.return (Inl (- 6))
     else do {
       v \<leftarrow> gets fvol;
       io \<leftarrow> gets io_buf;
       case scan_dir_sector (is_fat32 v) io name11 of
         Dir_found c n \<Rightarrow> State_Monad.return (Inr (c, n))
       | Dir_end \<Rightarrow> State_Monad.return (Inl (- 7))
       | Dir_more \<Rightarrow> scan_root_fixed b name11 (lba + 1) k
     }
   }"

definition find_in_root :: "'h bus \<Rightarrow> bytes \<Rightarrow> ('h, (int + u32 \<times> u32) option) fat" where
  "find_in_root b name11 = do {
     v \<leftarrow> gets fvol;
     if is_fat32 v then scan_root_chain b name11 (Suc MAX_FAT32_ROOT_SECTORS) (root_cluster v) 0
     else do {
       r \<leftarrow> scan_root_fixed b name11 (root_start_lba v) (unat (root_dir_sectors v));
       State_Monad.return (Some r)
     }
   }"

section \<open>Loading a file\<close>

definition fat_type :: "u8 \<Rightarrow> bool" where
  "fat_type t \<longleftrightarrow> t = 0x04 \<or> t = 0x06 \<or> t = 0x0B \<or> t = 0x0C \<or> t = 0x0E"

fun find_part :: "bytes \<Rightarrow> nat list \<Rightarrow> u32" where
  "find_part io [] = 0"
| "find_part io (i # is) =
     (let e = 0x1BE + 16 * i in if fat_type (io ! (e + 4)) then frd32 io (e + 8) else find_part io is)"

text \<open>The volume from the boot sector; the flag is whether the loader supports it.\<close>

definition set_volume :: "u32 \<Rightarrow> bytes \<Rightarrow> fat_vol \<Rightarrow> bool \<times> fat_vol" where
  "set_volume part_lba io v0 =
     (let v1 = v0\<lparr>bytes_per_sector := frd16 io 0x0B, sectors_per_cluster := ucast (io ! 0x0D)\<rparr>;
          reserved = frd16 io 0x0E; num_fats = (ucast (io ! 0x10) :: u32);
          root_entries = frd16 io 0x11; spf16 = frd16 io 0x16
      in if bytes_per_sector v1 \<noteq> 512 then (False, v1)
         else if \<not> is_power_of_two (sectors_per_cluster v1) \<or> MAX_SECTORS_PER_CLUSTER < sectors_per_cluster v1
           then (False, v1)
         else if reserved = 0 \<or> num_fats = 0 \<or> 4 < num_fats then (False, v1)
         else if spf16 = 0 then
           let spf = frd32 io 0x24; v2 = v1\<lparr>is_fat32 := True, root_cluster := frd32 io 0x2C\<rparr>
           in if spf = 0 \<or> root_cluster v2 < 2 then (False, v2)
              else
                let fs = part_lba + reserved
                in (True, v2\<lparr>fat_start_lba := fs, data_start_lba := fs + num_fats * spf\<rparr>)
         else
           let v2 = v1\<lparr>is_fat32 := False\<rparr>
           in if root_entries = 0 then (False, v2)
              else
                let fs = part_lba + reserved; rs = fs + num_fats * spf16; n = (root_entries * 32 + 511) div 512
                in (True, v2\<lparr>fat_start_lba := fs, root_start_lba := rs, root_dir_sectors := n,
                      data_start_lba := rs + n\<rparr>))"

text \<open>The sectors of one cluster; \<open>k\<close> are left. The result is the return code, \<open>loaded\<close> and the bytes stored
  at \<open>dst\<close>.\<close>

fun load_sectors :: "'h bus \<Rightarrow> u32 \<Rightarrow> u32 \<Rightarrow> nat \<Rightarrow> u32 \<Rightarrow> bytes \<Rightarrow> ('h, int \<times> u32 \<times> bytes) fat" where
  "load_sectors b file_size lba 0 loaded out = State_Monad.return (0, loaded, out)"
| "load_sectors b file_size lba (Suc k) loaded out =
     (if loaded < file_size then
        let remain = file_size - loaded
        in if 512 \<le> remain then do {
             (rc, bs) \<leftarrow> read_sector b lba;
             if rc < 0 then State_Monad.return (- 8, loaded, out @ bs)
             else load_sectors b file_size (lba + 1) k (loaded + 512) (out @ bs)
           }
           else do {
             rc \<leftarrow> read_io b lba;
             if rc < 0 then State_Monad.return (- 8, loaded, out)
             else do {
               io \<leftarrow> gets io_buf;
               load_sectors b file_size (lba + 1) k (loaded + remain) (out @ take (unat remain) io)
             }
           }
      else State_Monad.return (0, loaded, out))"

fun load_chain :: "'h bus \<Rightarrow> u32 \<Rightarrow> u32 \<Rightarrow> nat \<Rightarrow> u32 \<Rightarrow> u32 \<Rightarrow> bytes \<Rightarrow> ('h, (int \<times> u32 \<times> bytes) option) fat" where
  "load_chain b eoc file_size 0 cluster loaded out = State_Monad.return None"
| "load_chain b eoc file_size (Suc fuel) cluster loaded out =
     (if cluster < eoc \<and> 2 \<le> cluster \<and> loaded < file_size then do {
        v \<leftarrow> gets fvol;
        (rc, loaded1, out1) \<leftarrow> load_sectors b file_size (cluster_lba v cluster) (unat (sectors_per_cluster v)) loaded out;
        if rc < 0 then State_Monad.return (Some (rc, loaded1, out1))
        else do { c \<leftarrow> fat_entry b cluster; load_chain b eoc file_size fuel c loaded1 out1 }
      }
      else State_Monad.return (Some (0, loaded, out)))"

definition load_data :: "'h bus \<Rightarrow> u32 \<Rightarrow> u32 \<Rightarrow> ('h, (int \<times> bytes \<times> u32 option) option) fat" where
  "load_data b first_cluster file_size = do {
     v \<leftarrow> gets fvol;
     r \<leftarrow> load_chain b (if is_fat32 v then 0x0FFFFFF8 else 0xFFF8) file_size (Suc (unat file_size)) first_cluster 0 [];
     State_Monad.return (case r of
       None \<Rightarrow> None
     | Some (rc, loaded, out) \<Rightarrow>
         if rc < 0 then Some (rc, out, None)
         else if loaded \<noteq> file_size then Some (- 10, out, None)
         else Some (0, out, Some file_size))
   }"

text \<open>The return code, the bytes stored at \<open>dst\<close>, and \<open>out_size\<close> if it was set.\<close>

definition fat_load_file :: "'h bus \<Rightarrow> bytes \<Rightarrow> u32 \<Rightarrow> ('h, (int \<times> bytes \<times> u32 option) option) fat" where
  "fat_load_file b name11 max_bytes = do {
     modify (\<lambda>s. s\<lparr>fat_buf_lba := 0xFFFFFFFF\<rparr>);
     rc \<leftarrow> read_io b 0;
     io \<leftarrow> gets io_buf;
     if rc < 0 then State_Monad.return (Some (- 1, [], None))
     else if io ! 0x1FE \<noteq> 0x55 \<or> io ! 0x1FF \<noteq> 0xAA then State_Monad.return (Some (- 2, [], None))
     else do {
       let part_lba = find_part io [0..<4];
       if part_lba = 0 then State_Monad.return (Some (- 3, [], None))
       else do {
         rc2 \<leftarrow> read_io b part_lba;
         bpb \<leftarrow> gets io_buf;
         if rc2 < 0 then State_Monad.return (Some (- 4, [], None))
         else do {
           v0 \<leftarrow> gets fvol;
           let (ok, v) = set_volume part_lba bpb v0;
           modify (\<lambda>s. s\<lparr>fvol := v\<rparr>);
           if \<not> ok then State_Monad.return (Some (- 5, [], None))
           else do {
             f \<leftarrow> find_in_root b name11;
             case f of
               None \<Rightarrow> State_Monad.return None
             | Some (Inl frc) \<Rightarrow> State_Monad.return (Some (frc, [], None))
             | Some (Inr (first_cluster, file_size)) \<Rightarrow>
                 if file_size = 0 \<or> first_cluster < 2 then State_Monad.return (Some (- 9, [], None))
                 else if max_bytes < file_size then State_Monad.return (Some (- 9, [], None))
                 else load_data b first_cluster file_size
           }
         }
       }
     }
   }"


section \<open>The volume on the card\<close>

text \<open>A reference description over the sectors of the card: the FAT read without a cache, the clusters of a
  chain, the entries of the root directory as one list.\<close>

type_synonym disk = "u32 \<Rightarrow> bytes"

definition fat_at :: "disk \<Rightarrow> fat_vol \<Rightarrow> u32 \<Rightarrow> u32" where
  "fat_at disk v c = fat_value v (disk (fst (fat_pos v c))) (snd (fat_pos v c))"

definition end_mark :: "fat_vol \<Rightarrow> u32" where
  "end_mark v = (if is_fat32 v then 0x0FFFFFF8 else 0xFFF8)"

fun fat_chain :: "disk \<Rightarrow> fat_vol \<Rightarrow> nat \<Rightarrow> u32 \<Rightarrow> u32 list" where
  "fat_chain disk v 0 c = []"
| "fat_chain disk v (Suc n) c = (if c < end_mark v \<and> 2 \<le> c then c # fat_chain disk v n (fat_at disk v c) else [])"

definition sectors_from :: "u32 \<Rightarrow> nat \<Rightarrow> u32 list" where
  "sectors_from lba k = map (\<lambda>i. lba + of_nat i) [0..<k]"

definition chain_sectors :: "disk \<Rightarrow> fat_vol \<Rightarrow> nat \<Rightarrow> u32 \<Rightarrow> u32 list" where
  "chain_sectors disk v n c = concat (map (\<lambda>x. sectors_from (cluster_lba v x) (unat (sectors_per_cluster v))) (fat_chain disk v n c))"

definition sector_entries :: "bytes \<Rightarrow> bytes list" where
  "sector_entries sec = map (\<lambda>i. take 32 (drop (32 * i) sec)) [0..<16]"

definition wanted :: "bytes \<Rightarrow> bytes \<Rightarrow> bool" where
  "wanted name11 e \<longleftrightarrow> e ! 0 \<noteq> 0xE5 \<and> e ! 11 \<noteq> 0x0F \<and> e ! 11 AND 0x08 = 0 \<and> take 11 e = name11"

definition dir_lookup :: "bytes \<Rightarrow> bytes list \<Rightarrow> bytes option" where
  "dir_lookup name11 es = find (wanted name11) (takeWhile (\<lambda>e. e ! 0 \<noteq> 0) es)"

definition dir_find :: "disk \<Rightarrow> bytes \<Rightarrow> u32 list \<Rightarrow> bytes option" where
  "dir_find disk name11 secs = dir_lookup name11 (concat (map (sector_entries \<circ> disk) secs))"

definition root_sectors :: "disk \<Rightarrow> fat_vol \<Rightarrow> u32 list" where
  "root_sectors disk v =
     (if is_fat32 v
      then take MAX_FAT32_ROOT_SECTORS (chain_sectors disk v (Suc MAX_FAT32_ROOT_SECTORS) (root_cluster v))
      else sectors_from (root_start_lba v) (unat (root_dir_sectors v)))"

definition ent_cluster :: "fat_vol \<Rightarrow> bytes \<Rightarrow> u32" where
  "ent_cluster v e = push_bit 16 (if is_fat32 v then frd16 e 20 else 0) OR frd16 e 26"

definition ent_size :: "bytes \<Rightarrow> u32" where
  "ent_size e = frd32 e 28"

text \<open>The bytes of a file: what the sectors of its chain hold, up to its size.\<close>

definition file_bytes :: "disk \<Rightarrow> fat_vol \<Rightarrow> bytes \<Rightarrow> bytes" where
  "file_bytes disk v e =
     take (unat (ent_size e)) (concat (map disk (chain_sectors disk v (Suc (unat (ent_size e))) (ent_cluster v e))))"

text \<open>What the loader relies on: while \<open>I\<close> holds of the hardware and the driver, a read that succeeds gives the
  bytes of the sector; on a \<open>reliable\<close> card every read succeeds.\<close>

definition sd_card_law :: "'h bus \<Rightarrow> disk \<Rightarrow> ('h \<Rightarrow> bool \<Rightarrow> bool \<Rightarrow> bool) \<Rightarrow> bool \<Rightarrow> bool" where
  "sd_card_law b disk I reliable \<longleftrightarrow> (\<forall>l. length (disk l) = 512) \<and>
     (\<forall>(s :: 'h fat_st) lba. I (hwst s) (g_sdhc s) (g_bus_4bit s) \<longrightarrow>
        (let ((rc, ws), s') = run_state (sd_read_block b lba) s
         in I (hwst s') (g_sdhc s') (g_bus_4bit s') \<and> (rc = 0 \<longrightarrow> concat (map le32 ws) = disk lba) \<and>
            (reliable \<longrightarrow> rc = 0)))"

definition fat_inv :: "disk \<Rightarrow> ('h \<Rightarrow> bool \<Rightarrow> bool \<Rightarrow> bool) \<Rightarrow> fat_vol \<Rightarrow> 'h fat_st \<Rightarrow> bool" where
  "fat_inv disk I v s \<longleftrightarrow> I (hwst s) (g_sdhc s) (g_bus_4bit s) \<and> fvol s = v \<and> length (io_buf s) = 512 \<and>
     length (fat_buf s) = 512 \<and> (fat_buf_lba s = 0xFFFFFFFF \<or> fat_buf s = disk (fat_buf_lba s))"

section \<open>Reading sectors\<close>

text \<open>Whatever the hardware does, a read either stores a whole sector or fails and stores nothing.\<close>

lemma read_block_yields: "yields (\<lambda>(rc, ws). rc = 0 \<and> length ws = 128 \<or> rc < 0 \<and> ws = []) (sd_read_block b lba)"
proof -
  have words: "yields (\<lambda>ws. length ws = n) (read_words b a n)" for a n
  proof (induction n arbitrary: a)
    case (Suc n)
    show ?case
      unfolding read_words.simps by (rule yields_then, rule yields_bind [OF Suc]) (auto intro: yields_return)
  qed (simp add: yields_return)
  have once: "yields (\<lambda>(rc, ws). rc = 0 \<and> length ws = 128 \<or> rc < 0 \<and> ws = []) (sd_read_block_once b lba)"
    unfolding sd_read_block_once_def
    by (intro yields_then yields_if yields_bind [OF words]) (auto intro!: yields_return yields_then)
  have "rc < 0 \<Longrightarrow> yields (\<lambda>(rc, ws). rc = 0 \<and> length ws = 128 \<or> rc < 0 \<and> ws = []) (sd_read_tries b n lba rc)" for n rc
    by (induction n arbitrary: rc) (auto intro!: yields_return yields_bind [OF once])
  from this [of "- 1"] show ?thesis by (simp add: sd_read_block_def)
qed

lemma length_concat_le32: "length (concat (map le32 ws)) = 4 * length ws"
  by (induction ws) simp_all

definition others :: "'h fat_st \<Rightarrow> bytes \<times> bytes \<times> u32 \<times> fat_vol" where
  "others s = (io_buf s, fat_buf s, fat_buf_lba s, fvol s)"

lemma read_block_others: "others (snd (run_state (sd_read_block b lba) s)) = others s"
proof -
  have "pad_user b (\<lambda>s'. others s' = others s)"
    by (auto simp: pad_user_def preserves_def others_def run_reg_rd run_reg_wr)
  from preservesD [OF preserves_read_block [OF this]] show ?thesis by simp
qed

lemma read_sector_spec:
  assumes "sd_card_law b disk I rel"
  shows "triple (fat_inv disk I v) (read_sector b lba)
    (\<lambda>(rc, bs) s. fat_inv disk I v s \<and> (rc = 0 \<and> bs = disk lba \<or> \<not> rel \<and> rc < 0 \<and> bs = []))"
proof (rule tripleI)
  fix s x s1 assume i: "fat_inv disk I v s" and run: "run_state (read_sector b lba) s = (x, s1)"
  obtain rc ws s' where r: "run_state (sd_read_block b lba) s = ((rc, ws), s')" by (metis prod.collapse)
  from read_block_others [of b lba s] have o: "others s' = others s" by (simp add: r)
  from yieldsD [OF read_block_yields, of b lba s] have y: "rc = 0 \<and> length ws = 128 \<or> rc < 0 \<and> ws = []" by (simp add: r)
  have "I (hwst s) (g_sdhc s) (g_bus_4bit s)" using i by (simp add: fat_inv_def)
  then have "let ((rc, ws), s') = run_state (sd_read_block b lba) s
      in I (hwst s') (g_sdhc s') (g_bus_4bit s') \<and> (rc = 0 \<longrightarrow> concat (map le32 ws) = disk lba) \<and> (rel \<longrightarrow> rc = 0)"
    using assms unfolding sd_card_law_def by blast
  then have "I (hwst s') (g_sdhc s') (g_bus_4bit s')" "rc = 0 \<longrightarrow> concat (map le32 ws) = disk lba" "rel \<longrightarrow> rc = 0"
    by (simp_all add: r)
  moreover have "x = (rc, concat (map le32 ws))" "s1 = s'" using run by (simp_all add: read_sector_def run_bind run_return r)
  ultimately show "(case x of (rc, bs) \<Rightarrow>
      \<lambda>s. fat_inv disk I v s \<and> (rc = 0 \<and> bs = disk lba \<or> \<not> rel \<and> rc < 0 \<and> bs = [])) s1"
    using i o y by (auto simp: fat_inv_def others_def)
qed

lemma read_io_spec:
  assumes law: "sd_card_law b disk I rel"
  shows "triple (fat_inv disk I v) (read_io b lba)
    (\<lambda>rc s. fat_inv disk I v s \<and> (rc = 0 \<and> io_buf s = disk lba \<or> \<not> rel \<and> rc < 0))"
proof (rule tripleI)
  fix s rc s2 assume i: "fat_inv disk I v s" and run: "run_state (read_io b lba) s = (rc, s2)"
  obtain rc1 bs s1 where r: "run_state (read_sector b lba) s = ((rc1, bs), s1)" by (metis prod.collapse)
  have len: "length (disk l) = 512" for l using law by (simp add: sd_card_law_def)
  have "rc = rc1" "s2 = s1\<lparr>io_buf := put_bytes (io_buf s1) 0 bs\<rparr>"
    using run by (simp_all add: read_io_def run_bind run_return run_modify r)
  then show "fat_inv disk I v s2 \<and> (rc = 0 \<and> io_buf s2 = disk lba \<or> \<not> rel \<and> rc < 0)"
    using tripleD [OF read_sector_spec [OF law] i r] by (auto simp: fat_inv_def put_bytes_def len)
qed


text \<open>The cache of the FAT is invisible. Its initial mark is the sector number \<open>0xFFFFFFFF\<close>, so the FAT must
  not lie there.\<close>

lemma fat_pos_lba:
  assumes "fat_start_lba v \<le> 0xFF000000"
  shows "fst (fat_pos v c) \<noteq> 0xFFFFFFFF"
proof -
  define q where "q = (if is_fat32 v then c * 4 else c * 2) div 512"
  have "unat (x div 512) < 2 ^ 23" for x :: u32
    using unat_u32_bound [of x] by (simp add: unat_div less_mult_imp_div_less)
  then have "unat q < 2 ^ 23" unfolding q_def .
  moreover have "unat (fat_start_lba v) \<le> 0xFF000000" using assms by (simp add: word_le_nat_alt)
  ultimately have "unat (fat_start_lba v + q) = unat (fat_start_lba v) + unat q" "unat (fat_start_lba v) + unat q < 0xFFFFFFFF"
    by (simp_all add: unat_word_ariths)
  then have "unat (fat_start_lba v + q) \<noteq> unat (0xFFFFFFFF :: u32)" by simp
  then show ?thesis by (auto simp: fat_pos_def Let_def q_def)
qed

lemma fat_entry_spec:
  assumes law: "sd_card_law b disk I rel" and low: "fat_start_lba v \<le> 0xFF000000"
  shows "triple (fat_inv disk I v) (fat_entry b c)
    (\<lambda>x s. fat_inv disk I v s \<and> (x = fat_at disk v c \<or> \<not> rel \<and> end_mark v \<le> x))"
proof (rule tripleI)
  fix s x s2 assume i: "fat_inv disk I v s" and run: "run_state (fat_entry b c) s = (x, s2)"
  obtain lba off where p: "fat_pos v c = (lba, off)" by (cases "fat_pos v c")
  have ne: "lba \<noteq> 0xFFFFFFFF" using fat_pos_lba [OF low, of c] by (simp add: p)
  have v: "fvol s = v" using i by (simp add: fat_inv_def)
  show "fat_inv disk I v s2 \<and> (x = fat_at disk v c \<or> \<not> rel \<and> end_mark v \<le> x)"
  proof (cases "lba = fat_buf_lba s")
    case True
    then have "s2 = s \<and> x = fat_value v (fat_buf s) off"
      using run by (auto simp: fat_entry_def run_simps v p)
    then show ?thesis using i True ne by (auto simp: fat_inv_def fat_at_def p)
  next
    case False
    obtain rc bs s1 where r: "run_state (read_sector b lba) s = ((rc, bs), s1)" by (metis prod.collapse)
    have len: "length (disk l) = 512" for l using law by (simp add: sd_card_law_def)
    have i1: "fat_inv disk I v s1" "rc = 0 \<and> bs = disk lba \<or> \<not> rel \<and> rc < 0 \<and> bs = []"
      using tripleD [OF read_sector_spec [OF law] i r] by simp_all
    show ?thesis
    proof (cases "rc = 0")
      case rc0: True
      then have "s2 = s1\<lparr>fat_buf := put_bytes (fat_buf s1) 0 bs, fat_buf_lba := lba\<rparr>"
          "x = fat_value v (put_bytes (fat_buf s1) 0 bs) off"
        using run False by (simp_all add: fat_entry_def run_simps v p r)
      then show ?thesis using i1 rc0 by (auto simp: fat_inv_def fat_at_def p put_bytes_def len)
    next
      case rc1: False
      then have f: "rc < 0" "bs = []" "\<not> rel" using i1(2) by auto
      then have "s2 = s1" "x = (if is_fat32 v then 0x0FFFFFFF else 0xFFFF)"
        using run False by (simp_all add: fat_entry_def run_simps v p r)
      then show ?thesis using i1 f by (auto simp: end_mark_def)
    qed
  qed
qed

section \<open>The directory scan\<close>

lemma name_match_take: "11 \<le> length e \<Longrightarrow> length name11 = 11 \<Longrightarrow> name_match e name11 \<longleftrightarrow> take 11 e = name11"
  by (auto simp: name_match_def list_all_iff list_eq_iff_nth_eq)

lemma dir_lookup_append:
  "dir_lookup name11 (es @ es') =
     (case dir_lookup name11 es of
        Some e \<Rightarrow> Some e
      | None \<Rightarrow> if \<forall>e \<in> set es. e ! 0 \<noteq> 0 then dir_lookup name11 es' else None)"
  by (induction es) (auto simp: dir_lookup_def)

definition scan_of :: "fat_vol \<Rightarrow> bytes \<Rightarrow> bytes list \<Rightarrow> dir_scan" where
  "scan_of v name11 es =
     (case dir_lookup name11 es of
        Some e \<Rightarrow> Dir_found (ent_cluster v e) (ent_size e)
      | None \<Rightarrow> if \<forall>e \<in> set es. e ! 0 \<noteq> 0 then Dir_more else Dir_end)"

lemma scan_dir_loop_spec:
  assumes "length name11 = 11" and "length sec = 512" and "\<forall>i \<in> set is. i < 16"
  shows "scan_dir_loop (is_fat32 v) sec name11 (map ((*) 32) is) = scan_of v name11 (map (\<lambda>i. take 32 (drop (32 * i) sec)) is)"
  using assms(3)
proof (induction "is")
  case (Cons i "is")
  define e where "e = drop (32 * i) sec"
  have len: "32 \<le> length e" using Cons.prems assms(2) by (auto simp: e_def)
  have nth: "take 32 e ! k = e ! k" if "k < 32" for k using that by simp
  have w: "wanted name11 (take 32 e) \<longleftrightarrow> e ! 0 \<noteq> 0xE5 \<and> e ! 11 \<noteq> 0x0F \<and> e ! 11 AND 0x08 = 0 \<and> name_match e name11"
    using len by (simp add: wanted_def name_match_take assms(1))
  have c: "ent_cluster v (take 32 e) = push_bit 16 (if is_fat32 v then frd16 e 20 else 0) OR frd16 e 26" "ent_size (take 32 e) = frd32 e 28"
    by (simp_all add: ent_cluster_def ent_size_def frd16_def frd32_def)
  have ih: "scan_dir_loop (is_fat32 v) sec name11 (map ((*) 32) is) = scan_of v name11 (map (\<lambda>i. take 32 (drop (32 * i) sec)) is)"
    using Cons by simp
  show ?case
  proof (cases "e ! 0 = 0")
    case True
    then show ?thesis by (simp add: scan_of_def dir_lookup_def e_def [symmetric])
  next
    case False
    then show ?thesis
      by (cases "wanted name11 (take 32 e)")
        (simp_all add: ih e_def [symmetric] scan_of_def dir_lookup_def c w Let_def, auto simp: w)
  qed
qed (simp add: scan_of_def dir_lookup_def)

lemma scan_dir_sector_spec:
  assumes "length name11 = 11" and "length sec = 512"
  shows "scan_dir_sector (is_fat32 v) sec name11 = scan_of v name11 (sector_entries sec)"
  unfolding scan_dir_sector_def sector_entries_def by (rule scan_dir_loop_spec [OF assms]) simp

definition found :: "fat_vol \<Rightarrow> bytes option \<Rightarrow> int + u32 \<times> u32" where
  "found v r = (case r of None \<Rightarrow> Inl (- 7) | Some e \<Rightarrow> Inr (ent_cluster v e, ent_size e))"

lemma scan_sector_cases:
  assumes "length name11 = 11" and "length (disk lba) = 512"
  shows "case scan_dir_sector (is_fat32 v) (disk lba) name11 of
      Dir_found c n \<Rightarrow> \<forall>more. found v (dir_find disk name11 (lba # more)) = Inr (c, n)
    | Dir_end \<Rightarrow> \<forall>more. found v (dir_find disk name11 (lba # more)) = Inl (- 7)
    | Dir_more \<Rightarrow> \<forall>more. dir_find disk name11 (lba # more) = dir_find disk name11 more"
  unfolding scan_dir_sector_spec [OF assms] scan_of_def
  by (auto simp: dir_find_def dir_lookup_append found_def split: option.splits)


lemma sectors_from_Suc [simp]: "sectors_from lba 0 = []" "sectors_from lba (Suc k) = lba # sectors_from (lba + 1) k"
proof -
  have "map f [0..<Suc k] = f 0 # map (f \<circ> Suc) [0..<k]" for f :: "nat \<Rightarrow> u32"
    by (simp add: upt_conv_Cons map_Suc_upt [symmetric] del: upt_Suc)
  then show "sectors_from lba (Suc k) = lba # sectors_from (lba + 1) k"
    by (simp add: sectors_from_def comp_def ac_simps del: upt_Suc)
qed (simp add: sectors_from_def)

lemma length_sectors_from [simp]: "length (sectors_from lba k) = k"
  by (simp add: sectors_from_def)

lemma found_Nil [simp]: "found v (dir_find disk name11 []) = Inl (- 7)"
  by (simp add: found_def dir_find_def dir_lookup_def)

lemma take_left: "scanned < m \<Longrightarrow> take (m - scanned) (x # xs) = x # take (m - (scanned + 1)) xs"
  by (cases "m - scanned") (simp_all add: diff_Suc split: nat.splits)

text \<open>What a part of the search may say: it is right about the sectors it saw, or a read failed.\<close>

definition scan_ok :: "bool \<Rightarrow> fat_vol \<Rightarrow> bytes option \<Rightarrow> int + u32 \<times> u32 \<Rightarrow> bool" where
  "scan_ok rel v r x \<longleftrightarrow> x = found v r \<or> \<not> rel \<and> (\<exists>rc < 0. x = Inl rc)"

lemma scan_sector_step:
  assumes "length name11 = 11" and "length (disk lba) = 512"
  shows "scan_dir_sector (is_fat32 v) (disk lba) name11 = Dir_found c n \<Longrightarrow> found v (dir_find disk name11 (lba # rest)) = Inr (c, n)"
    and "scan_dir_sector (is_fat32 v) (disk lba) name11 = Dir_end \<Longrightarrow> found v (dir_find disk name11 (lba # rest)) = Inl (- 7)"
    and "scan_dir_sector (is_fat32 v) (disk lba) name11 = Dir_more \<Longrightarrow> dir_find disk name11 (lba # rest) = dir_find disk name11 rest"
  using scan_sector_cases [of name11 disk lba v, OF assms] by simp_all

lemma scan_cluster_spec:
  assumes law: "sd_card_law b disk I rel" and n11: "length name11 = 11"
  shows "triple (fat_inv disk I v) (scan_cluster b name11 lba k scanned)
    (\<lambda>r s. fat_inv disk I v s \<and> (case r of
       Inl x \<Rightarrow> \<forall>more. scan_ok rel v (dir_find disk name11 (take (MAX_FAT32_ROOT_SECTORS - scanned) (sectors_from lba k @ more))) x
     | Inr n \<Rightarrow> n = scanned + k \<and> (k = 0 \<or> n \<le> MAX_FAT32_ROOT_SECTORS) \<and>
         (\<forall>more. dir_find disk name11 (sectors_from lba k @ more) = dir_find disk name11 more)))"
proof (induction k arbitrary: lba scanned)
  case 0
  show ?case by (auto intro: triple_return)
next
  case (Suc k)
  have len: "length (disk lba) = 512" using law by (simp add: sd_card_law_def)
  note step = scan_sector_step [of name11 disk lba v, OF n11 len]
  show ?case
  proof (rule tripleI)
    fix s r s' assume i: "fat_inv disk I v s" and run: "run_state (scan_cluster b name11 lba (Suc k) scanned) s = (r, s')"
    let ?m = MAX_FAT32_ROOT_SECTORS
    let ?Q = "fat_inv disk I v s' \<and> (case r of
       Inl x \<Rightarrow> \<forall>more. scan_ok rel v (dir_find disk name11 (take (?m - scanned) (sectors_from lba (Suc k) @ more))) x
     | Inr n \<Rightarrow> n = scanned + Suc k \<and> (Suc k = 0 \<or> n \<le> ?m) \<and>
         (\<forall>more. dir_find disk name11 (sectors_from lba (Suc k) @ more) = dir_find disk name11 more))"
    show ?Q
    proof (cases "?m \<le> scanned")
      case True
      then have "r = Inl (Inl (- 7))" "s' = s" using run by (simp_all add: run_simps)
      then show ?Q using i True by (simp add: scan_ok_def)
    next
      case False
      then have left: "take (?m - scanned) (sectors_from lba (Suc k) @ rest)
          = lba # take (?m - (scanned + 1)) (sectors_from (lba + 1) k @ rest)" for rest
        by (simp only: sectors_from_Suc append_Cons take_left not_le)
      obtain rc s1 where r: "run_state (read_io b lba) s = (rc, s1)" by (metis prod.collapse)
      note io = tripleD [OF read_io_spec [OF law] i r]
      show ?Q
      proof (cases "rc < 0")
        case True
        then have "r = Inl (Inl (- 6))" "s' = s1" using run False by (simp_all add: run_simps r)
        then show ?Q using io True by (auto simp: scan_ok_def)
      next
        case rc: False
        then have b: "io_buf s1 = disk lba" "fvol s1 = v" using io by (auto simp: fat_inv_def)
        show ?Q
        proof (cases "scan_dir_sector (is_fat32 v) (disk lba) name11")
          case Dir_more
          then have r2: "run_state (scan_cluster b name11 (lba + 1) k (scanned + 1)) s1 = (r, s')"
            using run False rc by (simp add: run_simps r b)
          note ih = tripleD [OF Suc.IH conjunct1 [OF io] r2]
          show ?Q
          proof (cases r)
            case (Inl x)
            then show ?Q using ih
              by (simp add: left step(3) [OF Dir_more] del: take_append sectors_from_Suc)
          next
            case (Inr n)
            then show ?Q using ih False by (auto simp: step(3) [OF Dir_more])
          qed
        next
          case Dir_end
          then have "r = Inl (Inl (- 7))" "s' = s1" using run False rc by (simp_all add: run_simps r b)
          then show ?Q using io by (simp add: left step(2) [OF Dir_end] scan_ok_def del: sectors_from_Suc take_append)
        next
          case (Dir_found c n)
          then have "r = Inl (Inr (c, n))" "s' = s1" using run False rc by (simp_all add: run_simps r b)
          then show ?Q using io by (simp add: left step(1) [OF Dir_found] scan_ok_def del: sectors_from_Suc take_append)
        qed
      qed
    qed
  qed
qed

lemma scan_root_fixed_spec:
  assumes law: "sd_card_law b disk I rel" and n11: "length name11 = 11"
  shows "triple (fat_inv disk I v) (scan_root_fixed b name11 lba k)
    (\<lambda>x s. fat_inv disk I v s \<and> scan_ok rel v (dir_find disk name11 (sectors_from lba k)) x)"
proof (induction k arbitrary: lba)
  case 0
  show ?case by (auto simp: scan_ok_def intro: triple_return)
next
  case (Suc k)
  have len: "length (disk lba) = 512" using law by (simp add: sd_card_law_def)
  note step = scan_sector_step [of name11 disk lba v, OF n11 len]
  show ?case
  proof (rule tripleI)
    fix s x s' assume i: "fat_inv disk I v s" and run: "run_state (scan_root_fixed b name11 lba (Suc k)) s = (x, s')"
    obtain rc s1 where r: "run_state (read_io b lba) s = (rc, s1)" by (metis prod.collapse)
    note io = tripleD [OF read_io_spec [OF law] i r]
    show "fat_inv disk I v s' \<and> scan_ok rel v (dir_find disk name11 (sectors_from lba (Suc k))) x"
    proof (cases "rc < 0")
      case True
      then have "x = Inl (- 6)" "s' = s1" using run by (simp_all add: run_simps r)
      then show ?thesis using io True by (auto simp: scan_ok_def)
    next
      case rc: False
      then have b: "io_buf s1 = disk lba" "fvol s1 = v" using io by (auto simp: fat_inv_def)
      show ?thesis
      proof (cases "scan_dir_sector (is_fat32 v) (disk lba) name11")
        case Dir_more
        then have "run_state (scan_root_fixed b name11 (lba + 1) k) s1 = (x, s')" using run rc by (simp add: run_simps r b)
        from tripleD [OF Suc.IH conjunct1 [OF io] this] show ?thesis by (simp add: step(3) [OF Dir_more])
      next
        case Dir_end
        then have "x = Inl (- 7)" "s' = s1" using run rc by (simp_all add: run_simps r b)
        then show ?thesis using io by (simp add: step(2) [OF Dir_end] scan_ok_def)
      next
        case (Dir_found c n)
        then have "x = Inr (c, n)" "s' = s1" using run rc by (simp_all add: run_simps r b)
        then show ?thesis using io by (simp add: step(1) [OF Dir_found] scan_ok_def)
      qed
    qed
  qed
qed


lemma chain_sectors_Suc:
  "chain_sectors disk v (Suc n) c =
     (if c < end_mark v \<and> 2 \<le> c
      then sectors_from (cluster_lba v c) (unat (sectors_per_cluster v)) @ chain_sectors disk v n (fat_at disk v c) else [])"
  unfolding chain_sectors_def by (cases "c < end_mark v \<and> 2 \<le> c") auto

lemma chain_sectors_0 [simp]: "chain_sectors disk v 0 c = []"
  by (simp add: chain_sectors_def)

lemma chain_sectors_end: "end_mark v \<le> c \<Longrightarrow> chain_sectors disk v n c = []"
  by (cases n) (auto simp: chain_sectors_Suc)

lemma scan_root_chain_spec:
  assumes law: "sd_card_law b disk I rel" and n11: "length name11 = 11" and low: "fat_start_lba v \<le> 0xFF000000"
    and v: "is_fat32 v" "sectors_per_cluster v \<noteq> 0"
  shows "scanned \<le> MAX_FAT32_ROOT_SECTORS \<Longrightarrow> MAX_FAT32_ROOT_SECTORS < scanned + n \<Longrightarrow> triple (fat_inv disk I v) (scan_root_chain b name11 n c scanned)
    (\<lambda>r s. fat_inv disk I v s \<and> (\<exists>x. r = Some x \<and>
       scan_ok rel v (dir_find disk name11 (take (MAX_FAT32_ROOT_SECTORS - scanned) (chain_sectors disk v n c))) x))"
proof (induction n arbitrary: c scanned)
  case 0
  then show ?case by simp
next
  case (Suc n)
  let ?m = MAX_FAT32_ROOT_SECTORS
  show ?case
  proof (rule tripleI)
    fix s r s' assume i: "fat_inv disk I v s" and run: "run_state (scan_root_chain b name11 (Suc n) c scanned) s = (r, s')"
    let ?Q = "fat_inv disk I v s' \<and> (\<exists>x. r = Some x \<and>
        scan_ok rel v (dir_find disk name11 (take (?m - scanned) (chain_sectors disk v (Suc n) c))) x)"
    show ?Q
    proof (cases "c < 0x0FFFFFF8 \<and> 2 \<le> c \<and> scanned < ?m")
      case False
      then have "r = Some (Inl (- 7))" "s' = s" using run by (auto simp: run_simps)
      moreover have "take (?m - scanned) (chain_sectors disk v (Suc n) c) = []"
        using False v(1) by (auto simp: chain_sectors_Suc end_mark_def)
      ultimately show ?Q using i by (auto simp: scan_ok_def)
    next
      case True
      let ?k = "unat (sectors_per_cluster v)"
      have fv: "fvol s = v" using i by (simp add: fat_inv_def)
      have secs: "chain_sectors disk v (Suc n) c
          = sectors_from (cluster_lba v c) ?k @ chain_sectors disk v n (fat_at disk v c)"
        using True v(1) by (simp add: chain_sectors_Suc end_mark_def)
      obtain q s1 where r: "run_state (scan_cluster b name11 (cluster_lba v c) ?k scanned) s = (q, s1)" by (metis prod.collapse)
      note sc = tripleD [OF scan_cluster_spec [OF law n11] i r]
      show ?Q
      proof (cases q)
        case (Inl x)
        then have "r = Some x" "s' = s1" using run True by (simp_all add: run_simps fv r)
        then show ?Q using sc Inl by (simp add: secs del: take_append)
      next
        case (Inr m)
        obtain c' s2 where e: "run_state (fat_entry b c) s1 = (c', s2)" by (metis prod.collapse)
        have r2: "run_state (scan_root_chain b name11 n c' m) s2 = (r, s')" using run True Inr by (simp add: run_simps fv r e)
        have k: "0 < ?k" using v(2) by (simp add: unat_gt_0)
        have m: "m = scanned + ?k" "m \<le> ?m"
          and df: "dir_find disk name11 (sectors_from (cluster_lba v c) ?k @ rest) = dir_find disk name11 rest" for rest
          using sc Inr k by auto
        note fe = tripleD [OF fat_entry_spec [OF law low] conjunct1 [OF sc] e]
        have "?m < m + n" using Suc.prems(2) m(1) k by simp
        note ih = tripleD [OF Suc.IH [OF m(2) this] conjunct1 [OF fe] r2]
        have eq: "dir_find disk name11 (take (?m - scanned) (chain_sectors disk v (Suc n) c))
            = dir_find disk name11 (take (?m - m) (chain_sectors disk v n (fat_at disk v c)))"
          using m unfolding secs by (simp add: df)
        from fe consider "c' = fat_at disk v c" | "\<not> rel" "end_mark v \<le> c'" by blast
        then show ?Q
        proof cases
          case 1
          then show ?Q using ih by (simp add: eq)
        next
          case 2
          then show ?Q using ih by (auto simp: chain_sectors_end scan_ok_def)
        qed
      qed
    qed
  qed
qed

lemma find_in_root_spec:
  assumes law: "sd_card_law b disk I rel" and n11: "length name11 = 11" and low: "fat_start_lba v \<le> 0xFF000000"
    and v: "sectors_per_cluster v \<noteq> 0"
  shows "triple (fat_inv disk I v) (find_in_root b name11)
    (\<lambda>r s. fat_inv disk I v s \<and> (\<exists>x. r = Some x \<and> scan_ok rel v (dir_find disk name11 (root_sectors disk v)) x))"
proof (rule tripleI)
  fix s r s' assume i: "fat_inv disk I v s" and run: "run_state (find_in_root b name11) s = (r, s')"
  have fv: "fvol s = v" using i by (simp add: fat_inv_def)
  show "fat_inv disk I v s' \<and> (\<exists>x. r = Some x \<and> scan_ok rel v (dir_find disk name11 (root_sectors disk v)) x)"
  proof (cases "is_fat32 v")
    case True
    then have "run_state (scan_root_chain b name11 (Suc MAX_FAT32_ROOT_SECTORS) (root_cluster v) 0) s = (r, s')"
      using run by (simp add: find_in_root_def run_bind run_gets fv del: scan_root_chain.simps)
    from tripleD [OF scan_root_chain_spec [OF law n11 low True v, of 0 "Suc MAX_FAT32_ROOT_SECTORS"] i this] show ?thesis
      using True by (simp add: root_sectors_def)
  next
    case False
    obtain x s1 where r: "run_state (scan_root_fixed b name11 (root_start_lba v) (unat (root_dir_sectors v))) s = (x, s1)"
      by (metis prod.collapse)
    then have "r = Some x" "s' = s1" using run False by (simp_all add: find_in_root_def run_simps fv)
    then show ?thesis using tripleD [OF scan_root_fixed_spec [OF law n11] i r] False by (simp add: root_sectors_def)
  qed
qed


section \<open>The file data\<close>

lemma length_concat_disk: "\<forall>l. length (disk l) = 512 \<Longrightarrow> length (concat (map disk ls)) = 512 * length ls"
  by (induction ls) simp_all

text \<open>The state of the copy: \<open>out\<close> holds \<open>loaded\<close> bytes, at most the size of the file.\<close>

definition copied :: "u32 \<Rightarrow> u32 \<Rightarrow> bytes \<Rightarrow> bool" where
  "copied file_size loaded out \<longleftrightarrow> unat loaded = length out \<and> length out \<le> unat file_size"

lemma copied_step:
  assumes "copied fsize loaded out" and "loaded < fsize" and "length bs = unat d" and "d \<le> fsize - loaded"
  shows "copied fsize (loaded + d) (out @ bs)"
proof -
  have "unat (fsize - loaded) = unat fsize - unat loaded" using assms(2) by (simp add: unat_sub word_less_nat_alt word_le_nat_alt)
  then have "unat loaded + unat d \<le> unat fsize" using assms(2,4) by (simp add: word_le_nat_alt word_less_nat_alt)
  moreover from this have "unat (loaded + d) = unat loaded + unat d" using unat_u32_bound [of fsize] by (simp add: unat_word_ariths)
  ultimately show ?thesis using assms by (simp add: copied_def)
qed

lemma load_sectors_spec:
  assumes law: "sd_card_law b disk I rel"
  shows "copied fsize loaded out \<Longrightarrow> triple (fat_inv disk I v) (load_sectors b fsize lba k loaded out)
    (\<lambda>(rc, loaded', out') s. fat_inv disk I v s \<and> copied fsize loaded' out' \<and>
       (rc = 0 \<and> out' = take (unat fsize) (out @ concat (map disk (sectors_from lba k))) \<or> \<not> rel \<and> rc = - 8))"
proof (induction k arbitrary: lba loaded out)
  case 0
  then show ?case by (auto simp: copied_def intro!: triple_return)
next
  case (Suc k)
  have len: "length (disk l) = 512" for l using law by (simp add: sd_card_law_def)
  show ?case
  proof (rule tripleI)
    fix s r s' assume i: "fat_inv disk I v s" and run: "run_state (load_sectors b fsize lba (Suc k) loaded out) s = (r, s')"
    let ?Q = "\<lambda>r s'. case r of (rc, loaded', out') \<Rightarrow> fat_inv disk I v s' \<and> copied fsize loaded' out' \<and>
        (rc = 0 \<and> out' = take (unat fsize) (out @ concat (map disk (sectors_from lba (Suc k)))) \<or> \<not> rel \<and> rc = - 8)"
    have "?Q r s'"
    proof (cases "loaded < fsize")
      case False
      then have "r = (0, loaded, out)" "s' = s" using run by (simp_all add: run_simps)
      then show ?thesis using i Suc.prems False by (auto simp: copied_def word_less_nat_alt)
    next
      case True
      define remain where "remain = fsize - loaded"
      have rem: "unat remain = unat fsize - length out" "length out < unat fsize"
        using True Suc.prems by (simp_all add: remain_def copied_def unat_sub word_less_nat_alt word_le_nat_alt)
      show ?thesis
      proof (cases "512 \<le> remain")
        case big: True
        obtain rc bs s1 where r: "run_state (read_sector b lba) s = ((rc, bs), s1)" by (metis prod.collapse)
        have rs: "fat_inv disk I v s1" "rc = 0 \<and> bs = disk lba \<or> \<not> rel \<and> rc < 0 \<and> bs = []"
          using tripleD [OF read_sector_spec [OF law] i r] by simp_all
        show ?thesis
        proof (cases "rc < 0")
          case neg: True
          then have "r = (- 8, loaded, out @ bs)" "s' = s1"
            using run True big by (simp_all add: run_simps remain_def r)
          then show ?thesis using rs neg Suc.prems by auto
        next
          case False
          then have bs: "bs = disk lba" using rs by auto
          have "copied fsize (loaded + 512) (out @ disk lba)"
            by (rule copied_step [OF Suc.prems True]) (use big in \<open>simp_all add: len remain_def\<close>)
          note ih = Suc.IH [OF this]
          have "run_state (load_sectors b fsize (lba + 1) k (loaded + 512) (out @ disk lba)) s1 = (r, s')"
            using run True big False by (simp add: run_simps remain_def r bs)
          from tripleD [OF ih rs(1) this] show ?thesis by auto
        qed
      next
        case small: False
        obtain rc s1 where r: "run_state (read_io b lba) s = (rc, s1)" by (metis prod.collapse)
        note io = tripleD [OF read_io_spec [OF law] i r]
        show ?thesis
        proof (cases "rc < 0")
          case neg: True
          then have "r = (- 8, loaded, out)" "s' = s1" using run True small by (simp_all add: run_simps remain_def r Let_def)
          then show ?thesis using io neg Suc.prems by auto
        next
          case False
          then have io1: "io_buf s1 = disk lba" using io by auto
          have r512: "unat remain < 512" using small by (simp add: word_le_nat_alt)
          have cp: "copied fsize (loaded + remain) (out @ take (unat remain) (disk lba))"
            by (rule copied_step [OF Suc.prems True]) (use r512 in \<open>simp_all add: len remain_def\<close>)
          have "run_state (load_sectors b fsize (lba + 1) k (loaded + remain) (out @ take (unat remain) (disk lba))) s1 = (r, s')"
            using run True small False by (simp add: run_simps remain_def r io1 Let_def)
          from tripleD [OF Suc.IH [OF cp] conjunct1 [OF io] this] show ?thesis
            using r512 rem by (auto simp: len min_def)
        qed
      qed
    qed
    then show "(case r of (rc, loaded', out') \<Rightarrow> \<lambda>s. fat_inv disk I v s \<and> copied fsize loaded' out' \<and>
        (rc = 0 \<and> out' = take (unat fsize) (out @ concat (map disk (sectors_from lba (Suc k)))) \<or> \<not> rel \<and> rc = - 8)) s'"
      by (cases r) auto
  qed
qed


lemma take_concat_full: "length out = n \<Longrightarrow> take n (out @ xs) = out"
  by simp

lemma load_chain_spec:
  assumes law: "sd_card_law b disk I rel" and low: "fat_start_lba v \<le> 0xFF000000" and spc: "sectors_per_cluster v \<noteq> 0"
  shows "copied fsize loaded out \<Longrightarrow> unat fsize < length out + n \<Longrightarrow>
    triple (fat_inv disk I v) (load_chain b (end_mark v) fsize n c loaded out)
    (\<lambda>r s. \<exists>rc loaded' out'. r = Some (rc, loaded', out') \<and> copied fsize loaded' out' \<and>
       (rc = 0 \<and> out' = take (unat fsize) (out @ concat (map disk (chain_sectors disk v n c))) \<or>
        \<not> rel \<and> (rc = - 8 \<or> rc = 0 \<and> length out' < unat fsize)))"
proof (induction n arbitrary: c loaded out)
  case 0
  then show ?case by (auto simp: copied_def intro!: triple_return)
next
  case (Suc n)
  have len: "\<forall>l. length (disk l) = 512" using law by (simp add: sd_card_law_def)
  show ?case
  proof (rule tripleI)
    fix s r s' assume i: "fat_inv disk I v s" and run: "run_state (load_chain b (end_mark v) fsize (Suc n) c loaded out) s = (r, s')"
    let ?secs = "sectors_from (cluster_lba v c) (unat (sectors_per_cluster v))"
    let ?Q = "\<exists>rc loaded' out'. r = Some (rc, loaded', out') \<and> copied fsize loaded' out' \<and>
       (rc = 0 \<and> out' = take (unat fsize) (out @ concat (map disk (chain_sectors disk v (Suc n) c))) \<or>
        \<not> rel \<and> (rc = - 8 \<or> rc = 0 \<and> length out' < unat fsize))"
    show ?Q
    proof (cases "c < end_mark v \<and> 2 \<le> c \<and> loaded < fsize")
      case False
      then have "r = Some (0, loaded, out)" using run by (auto simp: run_simps)
      then show ?Q using Suc.prems(1) False by (auto simp: copied_def chain_sectors_Suc word_less_nat_alt)
    next
      case True
      have fv: "fvol s = v" using i by (simp add: fat_inv_def)
      obtain rc1 loaded1 out1 s1 where r: "run_state (load_sectors b fsize (cluster_lba v c) (unat (sectors_per_cluster v)) loaded out) s
          = ((rc1, loaded1, out1), s1)" by (metis prod.collapse)
      have ls: "fat_inv disk I v s1" "copied fsize loaded1 out1"
          "rc1 = 0 \<and> out1 = take (unat fsize) (out @ concat (map disk ?secs)) \<or> \<not> rel \<and> rc1 = - 8"
        using tripleD [OF load_sectors_spec [OF law Suc.prems(1)] i r] by simp_all
      show ?Q
      proof (cases "rc1 < 0")
        case neg: True
        then have "r = Some (rc1, loaded1, out1)" using run True by (simp add: run_simps fv r)
        then show ?Q using ls neg by auto
      next
        case False
        then have out1: "rc1 = 0" "out1 = take (unat fsize) (out @ concat (map disk ?secs))" using ls(3) by auto
        obtain c' s2 where e: "run_state (fat_entry b c) s1 = (c', s2)" by (metis prod.collapse)
        note fe = tripleD [OF fat_entry_spec [OF law low] ls(1) e]
        have r2: "run_state (load_chain b (end_mark v) fsize n c' loaded1 out1) s2 = (r, s')"
          using run True out1(1) by (simp add: run_simps fv r e)
        have "0 < unat (sectors_per_cluster v)" using spc by (simp add: unat_gt_0)
        then have "length out < length out1" using True Suc.prems(1)
          by (auto simp: out1(2) length_concat_disk [OF len] copied_def word_less_nat_alt)
        then have "unat fsize < length out1 + n" using Suc.prems(2) by simp
        note ih = tripleD [OF Suc.IH [OF ls(2) this] conjunct1 [OF fe] r2]
        have all: "take (unat fsize) (out1 @ xs) = take (unat fsize) (out @ concat (map disk ?secs) @ xs)"
          if "length out1 < unat fsize \<or> xs = []" for xs using that unfolding out1(2) by (auto simp: min_def)
        have full: "take (unat fsize) (out @ concat (map disk ?secs) @ xs) = out1" if "length out1 = unat fsize" for xs
          using that unfolding out1(2) by (auto simp: min_def split: if_splits)
        have secs: "concat (map disk (chain_sectors disk v (Suc n) c))
            = concat (map disk ?secs) @ concat (map disk (chain_sectors disk v n (fat_at disk v c)))"
          using True by (simp add: chain_sectors_Suc)
        show ?Q
        proof (cases "length out1 = unat fsize")
          case True
          then have "\<exists>rc loaded' out'. r = Some (rc, loaded', out') \<and> copied fsize loaded' out' \<and> (rc = 0 \<and> out' = out1 \<or>
              \<not> rel \<and> (rc = - 8 \<or> rc = 0 \<and> length out' < unat fsize))"
            using ih by (auto simp: take_concat_full)
          then show ?Q unfolding secs full [OF True] .
        next
          case False
          then have lt: "length out1 < unat fsize" using ls(2) by (auto simp: copied_def)
          from fe consider "c' = fat_at disk v c" | "\<not> rel" "end_mark v \<le> c'" by blast
          then show ?Q
          proof cases
            case 1
            have "take (unat fsize) (out1 @ concat (map disk (chain_sectors disk v n (fat_at disk v c))))
                = take (unat fsize) (out @ concat (map disk ?secs) @ concat (map disk (chain_sectors disk v n (fat_at disk v c))))"
              by (rule all) (use lt in blast)
            then show ?Q using ih unfolding 1 secs by simp
          next
            case 2
            then show ?Q using ih lt by (auto simp: chain_sectors_end)
          qed
        qed
      qed
    qed
  qed
qed


lemma load_data_spec:
  assumes law: "sd_card_law b disk I rel" and low: "fat_start_lba v \<le> 0xFF000000" and spc: "sectors_per_cluster v \<noteq> 0"
    and i: "fat_inv disk I v s"
  obtains rc out sz where "fst (run_state (load_data b (ent_cluster v e) (ent_size e)) s) = Some (rc, out, sz)"
    and "length out \<le> unat (ent_size e)"
    and "rc = 0 \<longrightarrow> out = file_bytes disk v e \<and> length out = unat (ent_size e) \<and> sz = Some (ent_size e)"
    and "rel \<and> length (file_bytes disk v e) = unat (ent_size e) \<longrightarrow> rc = 0"
proof -
  let ?n = "ent_size e"
  have fv: "fvol s = v" using i by (simp add: fat_inv_def)
  obtain r s1 where r: "run_state (load_chain b (end_mark v) ?n (Suc (unat ?n)) (ent_cluster v e) 0 []) s = (r, s1)"
    by (metis prod.collapse)
  have "copied ?n 0 []" by (simp add: copied_def)
  from tripleD [OF load_chain_spec [OF law low spc this] i r]
  obtain rc loaded out where o: "r = Some (rc, loaded, out)" "copied ?n loaded out"
      "rc = 0 \<and> out = file_bytes disk v e \<or> \<not> rel \<and> (rc = - 8 \<or> rc = 0 \<and> length out < unat ?n)"
    by (auto simp: file_bytes_def)
  have "loaded = ?n \<longleftrightarrow> length out = unat ?n" using o(2) by (auto simp: copied_def word_unat_eq_iff)
  moreover have "fst (run_state (load_data b (ent_cluster v e) ?n) s) =
      Some (if rc < 0 then (rc, out, None) else if loaded \<noteq> ?n then (- 10, out, None) else (0, out, Some ?n))"
    using r by (simp add: load_data_def run_simps fv end_mark_def o(1) del: load_chain.simps)
  ultimately have "\<exists>rc out sz. fst (run_state (load_data b (ent_cluster v e) ?n) s) = Some (rc, out, sz) \<and> length out \<le> unat ?n \<and>
      (rc = 0 \<longrightarrow> out = file_bytes disk v e \<and> length out = unat ?n \<and> sz = Some ?n) \<and>
      (rel \<and> length (file_bytes disk v e) = unat ?n \<longrightarrow> rc = 0)"
    using o(2,3) by (cases "rc < 0"; cases "loaded = ?n") (auto simp: copied_def)
  then show ?thesis using that by blast
qed

lemma set_volume_ok:
  assumes "set_volume part bpb v0 = (True, v)"
  shows "sectors_per_cluster v \<noteq> 0" and "fat_start_lba v = part + frd16 bpb 0x0E"
  using assms by (auto simp: set_volume_def Let_def is_power_of_two_def split: if_splits)

section \<open>The loops end on every hardware\<close>

lemma keeps_fvol_sector:
  fixes b :: "'h bus"
  shows "keeps fvol (read_sector b lba)"
proof -
  have "keeps fvol (sd_read_block b lba :: ('h, int \<times> u32 list) fat)"
    using read_block_others [of b lba] by (simp add: keeps_def others_def)
  then show ?thesis unfolding read_sector_def by (intro keeps_rules)
qed

lemma keeps_fvol_io: "keeps fvol (read_io b lba)"
  unfolding read_io_def by (intro keeps_rules keeps_fvol_sector keeps_modify) simp

lemma keeps_fvol_entry: "keeps fvol (fat_entry b c)"
  unfolding fat_entry_def
  by (intro keeps_rules keeps_fvol_sector keeps_modify keeps_when keeps_gets) simp_all

lemma keeps_case_dir:
  "keeps f m \<Longrightarrow> keeps f n \<Longrightarrow> (\<And>c z. keeps f (k c z)) \<Longrightarrow>
   keeps f (case d of Dir_end \<Rightarrow> m | Dir_more \<Rightarrow> n | Dir_found c z \<Rightarrow> k c z)"
  by (cases d) simp_all

lemma keeps_fvol_cluster: "keeps fvol (scan_cluster b name11 lba k scanned)"
  by (induction k arbitrary: lba scanned)
    (simp_all, (intro keeps_rules keeps_fvol_io keeps_gets keeps_case_dir impI conjI | simp)+)

lemma keeps_fvol_sectors: "keeps fvol (load_sectors b n lba k loaded out)"
proof (induction k arbitrary: lba loaded out)
  case (Suc k)
  show ?case
    unfolding load_sectors.simps by (intro keeps_rules keeps_fvol_io keeps_fvol_sector keeps_gets Suc)
qed (simp add: keeps_return)

lemma yields_case_dir:
  "yields P m \<Longrightarrow> yields P n \<Longrightarrow> (\<And>c z. yields P (k c z)) \<Longrightarrow>
   yields P (case d of Dir_end \<Rightarrow> m | Dir_more \<Rightarrow> n | Dir_found c z \<Rightarrow> k c z)"
  by (cases d) simp_all

lemma scan_cluster_count:
  "yields (\<lambda>r. \<forall>n. r = Inr n \<longrightarrow> n = scanned + k \<and> (k = 0 \<or> n \<le> MAX_FAT32_ROOT_SECTORS)) (scan_cluster b name11 lba k scanned)"
proof (induction k arbitrary: lba scanned)
  case (Suc k)
  show ?case
    unfolding scan_cluster.simps
    by (intro yields_if yields_then yields_case_dir yields_mono [OF Suc]) (auto intro!: yields_return)
qed (auto intro: yields_return)

lemma scan_root_chain_total:
  "scanned \<le> MAX_FAT32_ROOT_SECTORS \<Longrightarrow> MAX_FAT32_ROOT_SECTORS < scanned + n \<Longrightarrow> sectors_per_cluster (fvol s) \<noteq> 0 \<Longrightarrow>
   run_state (scan_root_chain b name11 n c scanned) s = (r, s') \<Longrightarrow> r \<noteq> None \<and> fvol s' = fvol s"
proof (induction n arbitrary: c scanned s)
  case (Suc n)
  let ?v = "fvol s" and ?k = "unat (sectors_per_cluster (fvol s))"
  obtain q s1 where sc: "run_state (scan_cluster b name11 (cluster_lba ?v c) ?k scanned) s = (q, s1)" by (metis prod.collapse)
  have v1: "fvol s1 = ?v" using keepsD [OF keeps_fvol_cluster, of b name11 "cluster_lba ?v c" ?k scanned s] by (simp add: sc)
  have count: "\<forall>m. q = Inr m \<longrightarrow> m = scanned + ?k \<and> (?k = 0 \<or> m \<le> MAX_FAT32_ROOT_SECTORS)"
    using yieldsD [OF scan_cluster_count [where scanned = scanned and k = ?k and b = b and lba = "cluster_lba ?v c"
      and ?name11.0 = name11], of s] by (simp add: sc)
  show ?case
  proof (cases "c < 0x0FFFFFF8 \<and> 2 \<le> c \<and> scanned < MAX_FAT32_ROOT_SECTORS")
    case False
    then show ?thesis using Suc.prems(4) by (auto simp: run_return)
  next
    case True
    show ?thesis
    proof (cases q)
      case (Inl x)
      then show ?thesis using True Suc.prems(4) v1 by (auto simp: run_simps sc)
    next
      case (Inr m)
      obtain c' s2 where fe: "run_state (fat_entry b c) s1 = (c', s2)" by (metis prod.collapse)
      have v2: "fvol s2 = ?v" using keepsD [OF keeps_fvol_entry, of b c s1] by (simp add: fe v1)
      have "0 < ?k" using Suc.prems(3) by (simp add: unat_gt_0)
      then have m: "m = scanned + ?k" "m \<le> MAX_FAT32_ROOT_SECTORS" using count Inr by auto
      have "run_state (scan_root_chain b name11 n c' m) s2 = (r, s')" using True Inr Suc.prems(4) by (simp add: run_simps sc fe)
      moreover have "MAX_FAT32_ROOT_SECTORS < m + n" using Suc.prems(2) m(1) \<open>0 < ?k\<close> by simp
      ultimately show ?thesis using Suc.IH [of m s2 c'] m(2) Suc.prems(3) by (simp add: v2)
    qed
  qed
qed simp

lemma scan_root_fixed_keeps: "keeps fvol (scan_root_fixed b name11 lba k)"
  by (induction k arbitrary: lba)
    (simp_all, (intro keeps_rules keeps_fvol_io keeps_gets keeps_case_dir impI conjI | simp)+)

lemma find_in_root_total:
  assumes "sectors_per_cluster (fvol s) \<noteq> 0" and "run_state (find_in_root b name11) s = (r, s')"
  shows "r \<noteq> None \<and> fvol s' = fvol s"
proof (cases "is_fat32 (fvol s)")
  case True
  then have "run_state (scan_root_chain b name11 (Suc MAX_FAT32_ROOT_SECTORS) (root_cluster (fvol s)) 0) s = (r, s')"
    using assms(2) by (simp add: find_in_root_def run_bind run_gets del: scan_root_chain.simps)
  from scan_root_chain_total [OF _ _ assms(1) this] show ?thesis by simp
next
  case False
  obtain x s1 where "run_state (scan_root_fixed b name11 (root_start_lba (fvol s)) (unat (root_dir_sectors (fvol s)))) s = (x, s1)"
    by (metis prod.collapse)
  then show ?thesis
    using assms(2) False keepsD [OF scan_root_fixed_keeps, of b name11 "root_start_lba (fvol s)" "unat (root_dir_sectors (fvol s))" s]
    by (auto simp: find_in_root_def run_simps)
qed

text \<open>Every round of the file loop loads something.\<close>

lemma load_sectors_grows:
  fixes b :: "'h bus"
  shows "loaded \<le> fsize \<Longrightarrow> yields (\<lambda>(rc, loaded', _). loaded \<le> loaded' \<and> loaded' \<le> fsize \<and> (rc = 0 \<or> rc < 0) \<and>
      (rc = 0 \<longrightarrow> k \<noteq> 0 \<longrightarrow> loaded < fsize \<longrightarrow> loaded < loaded')) (load_sectors b fsize lba k loaded out)"
proof (induction k arbitrary: lba loaded out)
  case (Suc k)
  have step: "loaded < loaded + d \<and> loaded + d \<le> fsize" if "loaded < fsize" "d \<noteq> 0" "d \<le> fsize - loaded" for d
  proof -
    have "unat (fsize - loaded) = unat fsize - unat loaded" using that(1) by (simp add: unat_sub word_less_nat_alt word_le_nat_alt)
    then have "unat loaded + unat d \<le> unat fsize" "0 < unat d" using that by (simp_all add: word_le_nat_alt word_less_nat_alt unat_gt_0)
    moreover from this have "unat (loaded + d) = unat loaded + unat d" using unat_u32_bound [of fsize] by (simp add: unat_word_ariths)
    ultimately show ?thesis by (simp add: word_le_nat_alt word_less_nat_alt)
  qed
  have next_round: "yields (\<lambda>(rc, loaded', _). loaded \<le> loaded' \<and> loaded' \<le> fsize \<and> (rc = 0 \<or> rc < 0) \<and> (rc = 0 \<longrightarrow> Suc k \<noteq> 0 \<longrightarrow> loaded < fsize \<longrightarrow> loaded < loaded'))
      (load_sectors b fsize (lba + 1) k (loaded + d) out1)" if "loaded < fsize" "d \<noteq> 0" "d \<le> fsize - loaded" for d out1
    by (rule yields_mono [OF Suc.IH]) (use step [OF that] in auto)
  have "fsize - loaded \<noteq> 0" if "loaded < fsize" using that by auto
  then show ?case
    unfolding load_sectors.simps Let_def using Suc.prems
    by (intro yields_if yields_then yields_case_prod next_round) (auto intro!: yields_return)
qed (auto intro: yields_return)

lemma load_chain_total:
  "loaded \<le> fsize \<Longrightarrow> unat fsize < unat loaded + n \<Longrightarrow> sectors_per_cluster (fvol s) \<noteq> 0 \<Longrightarrow>
   fst (run_state (load_chain b eoc fsize n c loaded out) s) \<noteq> None"
proof (induction n arbitrary: c loaded out s)
  case 0
  then show ?case by (simp add: word_le_nat_alt)
next
  case (Suc n)
  let ?v = "fvol s" and ?k = "unat (sectors_per_cluster (fvol s))"
  obtain rc l1 out1 s1 where ls: "run_state (load_sectors b fsize (cluster_lba ?v c) ?k loaded out) s = ((rc, l1, out1), s1)"
    by (metis prod.collapse)
  have v1: "fvol s1 = ?v" using keepsD [OF keeps_fvol_sectors, of b fsize "cluster_lba ?v c" ?k loaded out s] by (simp add: ls)
  have g: "l1 \<le> fsize \<and> (rc = 0 \<or> rc < 0) \<and> (rc = 0 \<longrightarrow> ?k \<noteq> 0 \<longrightarrow> loaded < fsize \<longrightarrow> loaded < l1)"
    using yieldsD [OF load_sectors_grows [OF Suc.prems(1), where b = b and k = ?k and lba = "cluster_lba ?v c" and out = out], of s]
    by (simp add: ls)
  obtain c' s2 where fe: "run_state (fat_entry b c) s1 = (c', s2)" by (metis prod.collapse)
  have v2: "fvol s2 = ?v" using keepsD [OF keeps_fvol_entry, of b c s1] by (simp add: fe v1)
  have "fst (run_state (load_chain b eoc fsize n c' l1 out1) s2) \<noteq> None" if "loaded < fsize" "\<not> rc < 0"
  proof -
    have "0 < ?k" using Suc.prems(3) by (simp add: unat_gt_0)
    then have "unat loaded < unat l1" using g that by (auto simp: word_less_nat_alt)
    then show ?thesis using g Suc.prems v2 by (intro Suc.IH) auto
  qed
  then show ?case by (simp add: run_simps ls fe)
qed

lemma load_data_total: "sectors_per_cluster (fvol s) \<noteq> 0 \<Longrightarrow> fst (run_state (load_data b c n) s) \<noteq> None"
  using load_chain_total [of 0 n "Suc (unat n)" s b "if is_fat32 (fvol s) then 0x0FFFFFF8 else 0xFFF8" c "[]"]
  by (auto simp: load_data_def run_bind run_gets run_return simp del: load_chain.simps split: prod.splits)

lemma fat_load_file_total: "fst (run_state (fat_load_file b name11 max_bytes) s) \<noteq> None"
proof -
  define s0 where "s0 = s\<lparr>fat_buf_lba := 0xFFFFFFFF\<rparr>"
  obtain rc1 s1 where r1: "run_state (read_io b 0) s0 = (rc1, s1)" by (metis prod.collapse)
  define part where "part = find_part (io_buf s1) [0..<4]"
  obtain rc2 s2 where r2: "run_state (read_io b part) s1 = (rc2, s2)" by (metis prod.collapse)
  obtain ok v where v: "set_volume part (io_buf s2) (fvol s2) = (ok, v)" by (metis prod.collapse)
  define s3 where "s3 = s2\<lparr>fvol := v\<rparr>"
  obtain f s4 where fr: "run_state (find_in_root b name11) s3 = (f, s4)" by (metis prod.collapse)
  have ft: "ok \<Longrightarrow> (\<exists>x. f = Some x) \<and> sectors_per_cluster (fvol s4) \<noteq> 0"
    using set_volume_ok(1) [of part "io_buf s2" "fvol s2" v] find_in_root_total [OF _ fr] v by (auto simp: s3_def)
  then show ?thesis
    using r1 r2 v fr load_data_total [of s4 b]
    by (cases f) (auto simp: fat_load_file_def run_bind run_modify run_gets run_return s0_def [symmetric] part_def [symmetric]
        s3_def [symmetric] Let_def split: sum.splits)
qed

text \<open>The first FAT partition and the start of its FAT.\<close>

definition first_part :: "disk \<Rightarrow> u32" where
  "first_part disk = find_part (disk 0) [0..<4]"

definition fat_first :: "disk \<Rightarrow> u32" where
  "fat_first disk = first_part disk + frd16 (disk (first_part disk)) 0x0E"

definition boot_signed :: "disk \<Rightarrow> bool" where
  "boot_signed disk \<longleftrightarrow> disk 0 ! 0x1FE = 0x55 \<and> disk 0 ! 0x1FF = 0xAA"

text \<open>The search and the load, on a supported volume.\<close>

definition load_result :: "disk \<Rightarrow> bytes \<Rightarrow> u32 \<Rightarrow> bool \<Rightarrow> fat_vol \<Rightarrow> (int \<times> bytes \<times> u32 option) option \<Rightarrow> bool" where
  "load_result disk name11 max_bytes rel v r \<longleftrightarrow> (\<exists>rc out sz. r = Some (rc, out, sz) \<and> length out \<le> unat max_bytes \<and>
     (rc = 0 \<longrightarrow> (\<exists>e. dir_find disk name11 (root_sectors disk v) = Some e \<and> out = file_bytes disk v e \<and>
        length out = unat (ent_size e) \<and> sz = Some (ent_size e))) \<and>
     (\<forall>e. rel \<and> dir_find disk name11 (root_sectors disk v) = Some e \<and> ent_size e \<noteq> 0 \<and> 2 \<le> ent_cluster v e \<and>
        ent_size e \<le> max_bytes \<and> length (file_bytes disk v e) = unat (ent_size e) \<longrightarrow> rc = 0))"

lemma load_result_error:
  "rc \<noteq> 0 \<Longrightarrow> \<not> rel \<or> (\<forall>e. dir_find disk name11 (root_sectors disk v) = Some e \<longrightarrow>
     \<not> (ent_size e \<noteq> 0 \<and> 2 \<le> ent_cluster v e \<and> ent_size e \<le> max_bytes)) \<Longrightarrow>
   load_result disk name11 max_bytes rel v (Some (rc, [], None))"
  by (auto simp: load_result_def)

lemma search_and_load:
  assumes law: "sd_card_law b disk I rel" and n11: "length name11 = 11"
    and low: "fat_start_lba v \<le> 0xFF000000" and spc: "sectors_per_cluster v \<noteq> 0" and i: "fat_inv disk I v s"
  shows "load_result disk name11 max_bytes rel v (fst (run_state (do {
      f \<leftarrow> find_in_root b name11;
      case f of
        None \<Rightarrow> State_Monad.return None
      | Some (Inl frc) \<Rightarrow> State_Monad.return (Some (frc, [], None))
      | Some (Inr (first_cluster, file_size)) \<Rightarrow>
          if file_size = 0 \<or> first_cluster < 2 then State_Monad.return (Some (- 9, [], None))
          else if max_bytes < file_size then State_Monad.return (Some (- 9, [], None))
          else load_data b first_cluster file_size }) s))"
proof -
  obtain f s1 where f: "run_state (find_in_root b name11) s = (f, s1)" by (metis prod.collapse)
  from tripleD [OF find_in_root_spec [OF law n11 low spc] i f] obtain x
    where x: "f = Some x" "scan_ok rel v (dir_find disk name11 (root_sectors disk v)) x" and i1: "fat_inv disk I v s1" by blast
  show ?thesis
  proof (cases x)
    case (Inl rc)
    then have "rc < 0" "\<not> rel \<or> dir_find disk name11 (root_sectors disk v) = None"
      using x(2) by (auto simp: scan_ok_def found_def split: option.splits)
    then show ?thesis using x(1) Inl f by (auto simp: run_simps intro!: load_result_error)
  next
    case (Inr p)
    then obtain e where e: "dir_find disk name11 (root_sectors disk v) = Some e" "p = (ent_cluster v e, ent_size e)"
      using x(2) by (auto simp: scan_ok_def found_def split: option.splits)
    show ?thesis
    proof (cases "ent_size e = 0 \<or> ent_cluster v e < 2 \<or> max_bytes < ent_size e")
      case True
      then show ?thesis using x(1) Inr e f by (auto simp: run_simps intro!: load_result_error)
    next
      case False
      obtain rc out sz where l: "fst (run_state (load_data b (ent_cluster v e) (ent_size e)) s1) = Some (rc, out, sz)"
          "length out \<le> unat (ent_size e)"
          "rc = 0 \<longrightarrow> out = file_bytes disk v e \<and> length out = unat (ent_size e) \<and> sz = Some (ent_size e)"
          "rel \<and> length (file_bytes disk v e) = unat (ent_size e) \<longrightarrow> rc = 0"
        using load_data_spec [OF law low spc i1] .
      have "unat (ent_size e) \<le> unat max_bytes" using False by (simp add: word_le_nat_alt word_less_nat_alt not_less)
      then show ?thesis using x(1) Inr e f False l by (auto simp: run_simps load_result_def)
    qed
  qed
qed

text \<open>C9: On every card whose reads give the sector or fail, \<open>fat_load_file\<close> returns. It stores at most
  \<open>max_bytes\<close> bytes. When it returns 0, it stored exactly the bytes that the cluster chain of the first matching
  root directory entry holds, and the size is the entry's. When no read fails and the root directory of a
  supported volume has the file with a size in range and a long enough chain, it returns 0.\<close>

theorem fat_load_file_correct:
  assumes law: "sd_card_law b disk I rel" and n11: "length name11 = 11" and low: "fat_first disk \<le> 0xFF000000"
    and st: "I (hwst s) (g_sdhc s) (g_bus_4bit s)" "length (io_buf s) = 512" "length (fat_buf s) = 512"
  defines "vol \<equiv> set_volume (first_part disk) (disk (first_part disk)) (fvol s)"
  shows "\<exists>rc out sz. fst (run_state (fat_load_file b name11 max_bytes) s) = Some (rc, out, sz) \<and>
    length out \<le> unat max_bytes \<and>
    (rc = 0 \<longrightarrow> boot_signed disk \<and> first_part disk \<noteq> 0 \<and> fst vol \<and> (\<exists>e. dir_find disk name11 (root_sectors disk (snd vol)) = Some e \<and>
       out = file_bytes disk (snd vol) e \<and> length out = unat (ent_size e) \<and> sz = Some (ent_size e))) \<and>
    (\<forall>e. rel \<and> boot_signed disk \<and> first_part disk \<noteq> 0 \<and> fst vol \<and> dir_find disk name11 (root_sectors disk (snd vol)) = Some e \<and>
       ent_size e \<noteq> 0 \<and> 2 \<le> ent_cluster (snd vol) e \<and> ent_size e \<le> max_bytes \<and>
       length (file_bytes disk (snd vol) e) = unat (ent_size e) \<longrightarrow> rc = 0)"
proof -
  define s0 where "s0 = s\<lparr>fat_buf_lba := 0xFFFFFFFF\<rparr>"
  have i0: "fat_inv disk I (fvol s) s0" using st by (simp add: fat_inv_def s0_def)
  let ?P = "\<lambda>r. \<exists>rc out sz. r = Some (rc, out, sz) \<and> length out \<le> unat max_bytes \<and>
    (rc = 0 \<longrightarrow> boot_signed disk \<and> first_part disk \<noteq> 0 \<and> fst vol \<and> (\<exists>e. dir_find disk name11 (root_sectors disk (snd vol)) = Some e \<and>
       out = file_bytes disk (snd vol) e \<and> length out = unat (ent_size e) \<and> sz = Some (ent_size e))) \<and>
    (\<forall>e. rel \<and> boot_signed disk \<and> first_part disk \<noteq> 0 \<and> fst vol \<and> dir_find disk name11 (root_sectors disk (snd vol)) = Some e \<and>
       ent_size e \<noteq> 0 \<and> 2 \<le> ent_cluster (snd vol) e \<and> ent_size e \<le> max_bytes \<and>
       length (file_bytes disk (snd vol) e) = unat (ent_size e) \<longrightarrow> rc = 0)"
  have err: "?P (Some (rc, [], None))" if "rc \<noteq> 0" "\<not> rel \<or> \<not> boot_signed disk \<or> first_part disk = 0 \<or> \<not> fst vol" for rc
    using that by auto
  obtain rc1 s1 where r1: "run_state (read_io b 0) s0 = (rc1, s1)" by (metis prod.collapse)
  note io1 = tripleD [OF read_io_spec [OF law] i0 r1]
  show ?thesis
  proof (cases "rc1 < 0 \<or> \<not> boot_signed disk \<or> first_part disk = 0")
    case True
    have "\<exists>rc. rc \<noteq> 0 \<and> fst (run_state (fat_load_file b name11 max_bytes) s) = Some (rc, [], None)"
    proof (cases "rc1 < 0")
      case neg: True
      then show ?thesis using r1 by (simp add: fat_load_file_def run_simps s0_def)
    next
      case False
      then show ?thesis using True io1 r1
        by (auto simp: fat_load_file_def run_simps s0_def boot_signed_def first_part_def Let_def)
    qed
    then show ?thesis using True io1 err by (metis order_less_irrefl)
  next
    case False
    then have b1: "io_buf s1 = disk 0" using io1 by auto
    obtain rc2 s2 where r2: "run_state (read_io b (first_part disk)) s1 = (rc2, s2)" by (metis prod.collapse)
    note io2 = tripleD [OF read_io_spec [OF law] conjunct1 [OF io1] r2]
    show ?thesis
    proof (cases "rc2 < 0 \<or> \<not> fst vol")
      case True
      have "\<exists>rc. rc \<noteq> 0 \<and> fst (run_state (fat_load_file b name11 max_bytes) s) = Some (rc, [], None)"
      proof (cases "rc2 < 0")
        case True
        then show ?thesis using r1 r2 False
          by (auto simp: fat_load_file_def run_simps s0_def [symmetric] boot_signed_def first_part_def b1 Let_def)
      next
        case rc2: False
        then have "io_buf s2 = disk (first_part disk)" "fvol s2 = fvol s" using io2 by (auto simp: fat_inv_def)
        then show ?thesis using True rc2 r1 r2 False
          by (auto simp: fat_load_file_def run_simps s0_def [symmetric] boot_signed_def first_part_def b1 vol_def Let_def split: prod.splits)
      qed
      then show ?thesis using True io2 err by (metis order_less_irrefl)
    next
      case ok: False
      then have b2: "io_buf s2 = disk (first_part disk)" "fvol s2 = fvol s" using io2 by (auto simp: fat_inv_def)
      obtain v where v: "vol = (True, v)" using ok by (cases vol) auto
      note sv = set_volume_ok [OF v [unfolded vol_def]]
      have i3: "fat_inv disk I v (s2\<lparr>fvol := v\<rparr>)" using io2 by (simp add: fat_inv_def)
      have low1: "fat_start_lba v \<le> 0xFF000000" using low sv(2) by (simp add: fat_first_def)
      note sl = search_and_load [OF law n11 low1 sv(1) i3, of max_bytes]
      have "load_result disk name11 max_bytes rel v (fst (run_state (fat_load_file b name11 max_bytes) s))"
        using sl False ok r1 r2 v [unfolded vol_def]
        by (simp add: fat_load_file_def run_bind run_modify run_gets s0_def [symmetric] boot_signed_def first_part_def b1 b2 Let_def
            split del: if_split cong: if_cong)
      then show ?thesis unfolding v load_result_def using False by auto
    qed
  qed
qed


text \<open>A controller that answers every command and shows the sector of the last argument in its buffer, and a card
  with a FAT16 volume that holds the file BOOT.BIN of three bytes.\<close>

definition card_bus :: "disk \<Rightarrow> u32 bus" where
  "card_bus disk = \<lparr>
     rd32 = \<lambda>a h. (if a = MCI_STA then STA_RESPEND else if a = L2_BUFSTAT1 then 0x80000
       else if SD_L2_BUF_ADDR \<le> a then frd32 (disk h) (unat (a - SD_L2_BUF_ADDR)) else 0, h),
     wr32 = \<lambda>a v h. if a = MCI_ARG then v else h\<rparr>"

lemma sd_st_same [simp]: "s\<lparr>hwst := hwst s\<rparr> = (s :: ('h, 'z) dev_st_scheme)"
  by (cases s) simp

lemma wait_limit_pos: "WAIT_LIMIT \<noteq> 0"
  by (simp add: WAIT_LIMIT_def)

lemma card_bus_wait: "run_state (wait_sta (card_bus disk) RESP_MASK) s = (STA_RESPEND, s)"
proof -
  obtain n where n: "WAIT_LIMIT = Suc n" using not0_implies_Suc [OF wait_limit_pos] by blast
  show ?thesis unfolding wait_sta_def n by (simp add: wait_sta_def run_simps card_bus_def RESP_MASK_def STA_RESPEND_def STA_RESPTIMEO_def STA_RESPCRCFAIL_def)
qed

lemma card_bus_fill: "run_state (l2_fill_loop (card_bus disk) WAIT_LIMIT) s = (True, s)"
proof -
  obtain n where n: "WAIT_LIMIT = Suc n" using not0_implies_Suc [OF wait_limit_pos] by blast
  show ?thesis unfolding n by (simp add: run_simps card_bus_def mci_addrs)
qed

lemma card_bus_words:
  assumes "off + 4 * n \<le> 512"
  shows "run_state (read_words (card_bus disk) (SD_L2_BUF_ADDR + of_nat off) n) s
    = (map (\<lambda>i. frd32 (disk (hwst s)) (off + 4 * i)) [0..<n], s)"
  using assms
proof (induction n arbitrary: off)
  case (Suc n)
  have o: "unat (of_nat off :: u32) = off" using Suc.prems by (simp add: unat_of_nat)
  have "unat (SD_L2_BUF_ADDR + of_nat off) = 0x48000800 + off"
    using Suc.prems o by (simp add: SD_L2_BUF_ADDR_def SD_L2_BUF_ID_def unat_word_ariths)
  then have a: "SD_L2_BUF_ADDR \<le> SD_L2_BUF_ADDR + of_nat off" "SD_L2_BUF_ADDR + of_nat off \<noteq> MCI_STA" "SD_L2_BUF_ADDR + of_nat off \<noteq> L2_BUFSTAT1"
    by (auto simp: word_le_nat_alt SD_L2_BUF_ADDR_def SD_L2_BUF_ID_def mci_addrs word_unat_eq_iff)
  have "SD_L2_BUF_ADDR + of_nat off + 4 = SD_L2_BUF_ADDR + of_nat (off + 4)" by simp
  then have r: "run_state (read_words (card_bus disk) (SD_L2_BUF_ADDR + of_nat off + 4) n) s
      = (map (\<lambda>i. frd32 (disk (hwst s)) (off + 4 + 4 * i)) [0..<n], s)"
    using Suc.IH [of "off + 4"] Suc.prems by (simp add: add.assoc)
  have "map f [0..<Suc n] = f 0 # map (f \<circ> Suc) [0..<n]" for f :: "nat \<Rightarrow> u32"
    by (simp add: upt_conv_Cons map_Suc_upt [symmetric] del: upt_Suc)
  then show ?case using a o r by (simp add: run_simps card_bus_def comp_def del: upt_Suc) (simp add: ac_simps)
qed (simp add: run_simps)

lemma concat_le32_words: "4 * n \<le> length bs \<Longrightarrow> concat (map (\<lambda>i. le32 (frd32 bs (4 * i))) [0..<n]) = take (4 * n) bs"
proof (induction n)
  case (Suc n)
  have "take (4 * Suc n) bs = take (4 * n) bs @ take 4 (drop (4 * n) bs)" using take_add [of "4 * n" 4 bs] by (simp add: ac_simps)
  also have "take 4 (drop (4 * n) bs) = [bs ! (4 * n), bs ! (4 * n + 1), bs ! (4 * n + 2), bs ! (4 * n + 3)]"
    using Suc.prems by (auto simp: list_eq_iff_nth_eq less_Suc_eq numeral_eq_Suc)
  finally show ?case using Suc by (simp add: frd32_def le32_of_le32)
qed simp

lemma card_bus_law:
  assumes "\<forall>l. length (disk l) = 512"
  shows "sd_card_law (card_bus disk) disk (\<lambda>h sdhc four. sdhc) True"
proof -
  have wr: "wr32 (card_bus disk) a v h = (if a = MCI_ARG then v else h)" for a v h by (simp add: card_bus_def)
  have ne: "MCI_CMD \<noteq> MCI_ARG" "MCI_DATACTRL \<noteq> MCI_ARG" "MCI_DMACTRL \<noteq> MCI_ARG" "L2_CONBUF0_7 \<noteq> MCI_ARG"
    "MCI_DATATIMER \<noteq> MCI_ARG" "MCI_DATALEN \<noteq> MCI_ARG" "MCI_MASK \<noteq> MCI_ARG" by (simp_all add: mci_addrs)
  have rd: "snd (rd32 (card_bus disk) a h) = h" for a h by (simp add: card_bus_def)
  have stop: "run_state (sd_stop_transfer (card_bus disk)) s = ((), s)" for s :: "u32 fat_st"
    by (simp add: sd_stop_transfer_def reg_rmw_def run_simps wr ne rd)
  have w: "run_state (read_words (card_bus disk) SD_L2_BUF_ADDR 128) s = (map (\<lambda>i. frd32 (disk (hwst s)) (4 * i)) [0..<128], s)"
    for s :: "u32 fat_st" using card_bus_words [of 0 128 disk s] by simp
  have "concat (map le32 (map (\<lambda>i. frd32 (disk lba) (4 * i)) [0..<128])) = disk lba" for lba
    using concat_le32_words [of 128 "disk lba"] assms by (simp add: comp_def del: upt_rec_numeral)
  moreover have "run_state (sd_read_block (card_bus disk) lba) s
      = ((0, map (\<lambda>i. frd32 (disk lba) (4 * i)) [0..<128]), s\<lparr>hwst := lba\<rparr>)" if "g_sdhc s" for lba and s :: "u32 fat_st"
  proof -
    have "run_state (sd_read_block_once (card_bus disk) lba) s
        = ((0, map (\<lambda>i. frd32 (disk lba) (4 * i)) [0..<128]), s\<lparr>hwst := lba\<rparr>)"
      using that by (simp add: sd_read_block_once_def reg_rmw_def run_simps wr ne rd card_bus_wait card_bus_fill w stop
          block_arg_def STA_RESPEND_def del: upt_rec_numeral)
    then show ?thesis by (simp add: sd_read_block_def SD_READ_TRIES_def numeral_eq_Suc run_simps del: upt_rec_numeral)
  qed
  ultimately show ?thesis using assms by (simp add: sd_card_law_def del: upt_rec_numeral)
qed


definition sample_name :: bytes where
  "sample_name = cs ''BOOT    BIN''"

definition sample_root :: bytes where
  "sample_root = cs ''BOOT    BIN'' @ [0x20] @ replicate 14 0 @ [2, 0, 3, 0, 0, 0] @ replicate 480 0"

definition sample_disk :: disk where
  "sample_disk l =
     (if l = 0 then (replicate 512 0)[0x1C2 := 6, 0x1C6 := 1, 0x1FE := 0x55, 0x1FF := 0xAA]
      else if l = 1 then (replicate 512 0)[0x0C := 2, 0x0D := 1, 0x0E := 1, 0x10 := 1, 0x11 := 16, 0x16 := 1]
      else if l = 2 then (replicate 512 0)[4 := 0xFF, 5 := 0xFF]
      else if l = 3 then sample_root
      else [7, 8, 9] @ replicate 509 0)"

definition sample_vol :: fat_vol where
  "sample_vol = \<lparr>bytes_per_sector = 512, sectors_per_cluster = 1, fat_start_lba = 2, root_start_lba = 3,
     root_dir_sectors = 1, data_start_lba = 4, root_cluster = 0, is_fat32 = False\<rparr>"

definition sample_st :: "u32 fat_st" where
  "sample_st = \<lparr>ddr = \<lambda>_. 0, log_ptr = 0, log_end = 0, uart = [], hwst = 0, pages_per_block = 0, corrections = 0,
     retries = 0, g_sdhc = True, g_bus_4bit = False,
     g_rca_arg = 0, g_pin_save = \<lparr>sc_0c = 0, sc_74 = 0, sc_78 = 0, sc_a0 = 0, valid = False\<rparr>,
     io_buf = replicate 512 0, fat_buf = replicate 512 0, fat_buf_lba = 0,
     fvol = \<lparr>bytes_per_sector = 0, sectors_per_cluster = 0, fat_start_lba = 0, root_start_lba = 0,
       root_dir_sectors = 0, data_start_lba = 0, root_cluster = 0, is_fat32 = False\<rparr>\<rparr>"

definition sample_entry :: bytes where
  "sample_entry = cs ''BOOT    BIN'' @ [0x20] @ replicate 14 0 @ [2, 0, 3, 0, 0, 0]"

lemmas le_defs = frd16_def frd32_def of_le16_def of_le32_def

lemma sample_lengths: "\<forall>l. length (sample_disk l) = 512"
  by (simp add: sample_disk_def sample_root_def)

lemma sample_part: "first_part sample_disk = 1" "boot_signed sample_disk"
  by (simp_all add: first_part_def boot_signed_def sample_disk_def upt_rec fat_type_def le_defs)

lemma sample_volume: "set_volume 1 (sample_disk 1) (fvol sample_st) = (True, sample_vol)"
  by (simp add: set_volume_def sample_disk_def le_defs is_power_of_two_def MAX_SECTORS_PER_CLUSTER_def sample_vol_def sample_st_def)

lemma sample_lookup: "dir_find sample_disk sample_name (root_sectors sample_disk sample_vol) = Some sample_entry"
proof -
  have "root_sectors sample_disk sample_vol = [3]" by (simp add: root_sectors_def sample_vol_def sectors_from_def)
  moreover have "sector_entries (sample_disk 3) = sample_entry # map (\<lambda>i. take 32 (drop (32 * i) sample_root)) [1..<16]"
    by (simp add: sector_entries_def sample_disk_def upt_conv_Cons sample_root_def sample_entry_def)
  moreover have "sample_entry ! 0 \<noteq> 0" "wanted sample_name sample_entry"
    by (simp_all add: wanted_def sample_entry_def sample_name_def)
  ultimately show ?thesis by (simp add: dir_find_def dir_lookup_def)
qed

lemma sample_file: "ent_cluster sample_vol sample_entry = 2" "ent_size sample_entry = 3" "file_bytes sample_disk sample_vol sample_entry = [7, 8, 9]"
proof -
  show c: "ent_cluster sample_vol sample_entry = 2" "ent_size sample_entry = 3"
    by (simp_all add: ent_cluster_def ent_size_def sample_vol_def sample_entry_def le_defs nth_append)
  have "fat_at sample_disk sample_vol 2 = 0xFFFF"
    by (simp add: fat_at_def fat_pos_def fat_value_def sample_vol_def sample_disk_def le_defs)
  then have "chain_sectors sample_disk sample_vol (Suc 3) 2 = [4]"
    unfolding chain_sectors_Suc by (simp add: chain_sectors_end end_mark_def cluster_lba_def sectors_from_def sample_vol_def)
  then show "file_bytes sample_disk sample_vol sample_entry = [7, 8, 9]"
    by (simp add: file_bytes_def c sample_disk_def)
qed

theorem fat_load_file_correct_witness:
  "fst (run_state (fat_load_file (card_bus sample_disk) sample_name 100) sample_st) = Some (0, [7, 8, 9], Some 3)"
proof -
  have low: "fat_first sample_disk \<le> 0xFF000000"
    by (simp add: fat_first_def sample_part) (simp add: sample_disk_def le_defs)
  have "length sample_name = 11" "g_sdhc sample_st" "length (io_buf sample_st) = 512" "length (fat_buf sample_st) = 512"
    by (simp_all add: sample_st_def sample_name_def)
  from fat_load_file_correct [OF card_bus_law [OF sample_lengths] this(1) low this(2-4), of 100]
  show ?thesis by (auto simp: sample_part sample_volume sample_lookup sample_file)
qed

end
