(* ===== verification/Soc.thy ===== *)
theory Soc
  imports Hw
begin

text \<open>
  The board control of lib/soc.c: UART and L2 setup, the power latch, the LED, the power key, the amplifiers and the
  pads of the NAND. \<open>uart_putc\<close> is the character list of \<open>Log\<close>; the two hand-over functions are outcomes of \<open>Nboot\<close>.
\<close>

section \<open>Registers\<close>

definition SYSCTRL_SHAREPIN2 :: u32 where "SYSCTRL_SHAREPIN2 = 0x08000074"
definition SYSCTRL_SHAREPIN1 :: u32 where "SYSCTRL_SHAREPIN1 = 0x08000078"
definition UART_CTRL :: u32 where "UART_CTRL = 0x20026000"
definition UART_RX_THRESH :: u32 where "UART_RX_THRESH = 0x2002600C"
definition L2CTR_UART_CFG :: u32 where "L2CTR_UART_CFG = 0x2002C040"
definition SOC_DMA_PATH_CFG :: u32 where "SOC_DMA_PATH_CFG = 0x2002C084"
definition SOC_BUF0_7_CFG :: u32 where "SOC_BUF0_7_CFG = 0x2002C088"
definition SOC_ASSIGN_REG1 :: u32 where "SOC_ASSIGN_REG1 = 0x2002C090"
definition NF_TIMING0_BLK0 :: u32 where "NF_TIMING0_BLK0 = 0x2002A05C"
definition SYSCTRL_GPIO1_DIR :: u32 where "SYSCTRL_GPIO1_DIR = 0x0800007C"
definition SYSCTRL_GPIO1_IN :: u32 where "SYSCTRL_GPIO1_IN = 0x080000BC"
definition POWER_KEY_BIT :: u32 where "POWER_KEY_BIT = 0x00000008"
definition JTAG_MUX_BIT :: u32 where "JTAG_MUX_BIT = 0x00000001"
definition SYSCTRL_GPIO3_DIR :: u32 where "SYSCTRL_GPIO3_DIR = 0x0800008C"
definition SYSCTRL_GPIO3_OUT :: u32 where "SYSCTRL_GPIO3_OUT = 0x08000090"
definition AMP_ENABLE_BIT :: u32 where "AMP_ENABLE_BIT = 0x00000020"
definition SYSCTRL_GPIO4_DIR :: u32 where "SYSCTRL_GPIO4_DIR = 0x08000094"
definition SYSCTRL_GPIO4_IN :: u32 where "SYSCTRL_GPIO4_IN = 0x080000C8"
definition SYSCTRL_GPIO4_OUT :: u32 where "SYSCTRL_GPIO4_OUT = 0x08000098"
definition POWER_ON_BIT :: u32 where "POWER_ON_BIT = 0x00000200"
definition WORK_LED_BIT :: u32 where "WORK_LED_BIT = 0x00000100"
definition AC_DET_BIT :: u32 where "AC_DET_BIT = 0x00000080"
definition AC_DET_IN_BIT :: u32 where "AC_DET_IN_BIT = drop_bit 3 AC_DET_BIT"

section \<open>Operations\<close>

definition uart_init :: "'h bus \<Rightarrow> ('h, 'z, unit) dev" where
  "uart_init b = do {
     reg_rmw b SYSCTRL_SHAREPIN1 0 0x00000200;
     reg_rmw b L2CTR_UART_CFG 0 0x00000800;
     c \<leftarrow> reg_rd b UART_CTRL;
     whenM (c = 0) (reg_wr b UART_CTRL 0x30200208);
     reg_wr b UART_RX_THRESH 0
   }"

definition l2_init :: "'h bus \<Rightarrow> ('h, 'z, unit) dev" where
  "l2_init b = reg_rmw b SOC_DMA_PATH_CFG 0 0x30000000"

definition power_hold :: "'h bus \<Rightarrow> ('h, 'z, unit) dev" where
  "power_hold b = do { reg_rmw b SYSCTRL_GPIO4_OUT 0 POWER_ON_BIT; reg_rmw b SYSCTRL_GPIO4_DIR POWER_ON_BIT 0 }"

definition power_release :: "'h bus \<Rightarrow> ('h, 'z, unit) dev" where
  "power_release b = do { reg_rmw b SYSCTRL_GPIO4_OUT POWER_ON_BIT 0; reg_rmw b SYSCTRL_GPIO4_DIR POWER_ON_BIT 0 }"

definition work_led :: "'h bus \<Rightarrow> u32 \<Rightarrow> ('h, 'z, unit) dev" where
  "work_led b on = do {
     (if on \<noteq> 0 then reg_rmw b SYSCTRL_GPIO4_OUT 0 WORK_LED_BIT else reg_rmw b SYSCTRL_GPIO4_OUT WORK_LED_BIT 0);
     reg_rmw b SYSCTRL_GPIO4_DIR WORK_LED_BIT 0
   }"

definition ac_det :: "'h bus \<Rightarrow> ('h, 'z, bool) dev" where
  "ac_det b = do {
     reg_rmw b SYSCTRL_GPIO4_DIR 0 AC_DET_BIT;
     v \<leftarrow> reg_rd b SYSCTRL_GPIO4_IN;
     State_Monad.return (v AND AC_DET_IN_BIT \<noteq> 0)
   }"

definition power_key_down :: "'h bus \<Rightarrow> ('h, 'z, bool) dev" where
  "power_key_down b = do {
     reg_rmw b SYSCTRL_SHAREPIN1 JTAG_MUX_BIT 0;
     reg_rmw b SYSCTRL_GPIO1_DIR 0 POWER_KEY_BIT;
     v \<leftarrow> reg_rd b SYSCTRL_GPIO1_IN;
     State_Monad.return (v AND POWER_KEY_BIT = 0)
   }"

definition speaker_amp :: "'h bus \<Rightarrow> u32 \<Rightarrow> ('h, 'z, unit) dev" where
  "speaker_amp b on = do {
     (if on \<noteq> 0 then reg_rmw b SYSCTRL_GPIO3_OUT 0 AMP_ENABLE_BIT else reg_rmw b SYSCTRL_GPIO3_OUT AMP_ENABLE_BIT 0);
     reg_rmw b SYSCTRL_GPIO3_DIR AMP_ENABLE_BIT 0
   }"

definition nf_hw_init :: "'h bus \<Rightarrow> ('h, 'z, unit) dev" where
  "nf_hw_init b = do {
     reg_rmw b SYSCTRL_SHAREPIN2 0x00000018 0x00000008;
     reg_rmw b SYSCTRL_SHAREPIN1 0 0x00C70200;
     reg_rmw b SOC_ASSIGN_REG1 0x00000E00 0;
     reg_rmw b SOC_BUF0_7_CFG 0 0x00010000;
     reg_rmw b SOC_BUF0_7_CFG 0 0x01000000;
     l2_init b;
     reg_wr b NF_TIMING0_BLK0 0x000F5BD1
   }"

end
