(* ===== verification/Nboot.thy ===== *)
theory Nboot
  imports Fat Soc
begin

text \<open>
  The first-stage loader openNBOOT (opennboot/main.c): it boots \<open>BOOT.BIN\<close> from the SD card, and otherwise the
  IPL of the original system from NAND. It composes the card driver, the FAT loader, the NAND reader and the board
  control. The functions that do not return are outcomes.
\<close>

section \<open>The loader\<close>

definition HANDOFF_DST :: u32 where "HANDOFF_DST = 0x30037FD4"
definition HANDOFF_BYTES :: u32 where "HANDOFF_BYTES = 0x00064000"
definition SD_BOOT_DST :: u32 where "SD_BOOT_DST = 0x33000000"
definition SD_BOOT_MAX :: u32 where "SD_BOOT_MAX = 0x00A00000"

definition sum32 :: "bytes \<Rightarrow> u32" where
  "sum32 p = fold (\<lambda>x s. push_bit 1 s + drop_bit 31 s + ucast x) p 0"

text \<open>\<open>handoff_bare\<close> and \<open>handoff_eboot\<close> with what was stored at their destination, and \<open>halt\<close>.\<close>

datatype outcome = Handoff_bare u32 bytes | Handoff_eboot bytes | Halted string int

definition halt :: "string \<Rightarrow> int \<Rightarrow> ('h, outcome option) fat" where
  "halt why rc = do {
     modify (\<lambda>s. log_rc rc (log_puts (cs why) (log_puts (cs ''halt: '') s)));
     State_Monad.return (Some (Halted why rc))
   }"

text \<open>The return code, the bytes at \<open>SD_BOOT_DST\<close> and \<open>out_size\<close>.\<close>

definition sd_try_boot :: "'h bus \<Rightarrow> ('h, (int \<times> bytes \<times> u32 option) option) fat" where
  "sd_try_boot b = do {
     rc \<leftarrow> sd_init b;
     if rc \<noteq> 0 then do {
       modify (\<lambda>s. log_rc rc (log_puts (cs ''sd: no card'') s));
       sd_release_pins b;
       State_Monad.return (Some (rc, [], None))
     }
     else do {
       r \<leftarrow> fat_load_file b (cs ''BOOT    BIN'') SD_BOOT_MAX;
       case r of
         None \<Rightarrow> State_Monad.return None
       | Some (rc1, out, out_size) \<Rightarrow> do {
           sd_release_pins b;
           whenM (rc1 \<noteq> 0) (modify (\<lambda>s. log_rc rc1 (log_puts (cs ''sd: no BOOT.BIN'') s)));
           State_Monad.return (Some (rc1, out, out_size))
         }
     }
   }"

text \<open>\<open>boot_main\<close> up to the attempt to boot from the card\<close>

definition boot_start :: "'h bus \<Rightarrow> ('h, unit) fat" where
  "boot_start b = do {
     uart_init b;
     modify log_init;
     modify (log_puts (cs ''openNBOOT'' @ [10]));
     l2_init b
   }"

definition log_ipl :: "bytes \<Rightarrow> 'h fat_st \<Rightarrow> 'h fat_st" where
  "log_ipl out s =
     log_puts ([10] @ cs ''eboot: entering'' @ [10])
       (log_dec (retries s) (log_puts (cs '' retries='')
         (log_dec (corrections s) (log_puts (cs '' corrections='')
           (log_hex32 (sum32 out) (log_puts (cs ''ipl loaded, sum='') s))))))"

text \<open>\<open>boot_main\<close> after the card has no usable file\<close>

definition boot_nand :: "'h bus \<Rightarrow> ('h, outcome option) fat" where
  "boot_nand b = do {
     nf_hw_init b;
     nand_init b;
     rc \<leftarrow> nand_probe_geometry b;
     if rc \<noteq> 0 then halt ''geometry probe'' rc
     else do {
       r \<leftarrow> nand_load_image b IPL_START_BLOCK HANDOFF_BYTES;
       case r of
         None \<Rightarrow> State_Monad.return None
       | Some (rc1, out) \<Rightarrow>
           if rc1 \<noteq> 0 then halt ''ipl load'' rc1
           else do { modify (log_ipl out); State_Monad.return (Some (Handoff_eboot out)) }
     }
   }"

definition boot_main :: "'h bus \<Rightarrow> ('h, outcome option) fat" where
  "boot_main b = do {
     boot_start b;
     r \<leftarrow> sd_try_boot b;
     case r of
       None \<Rightarrow> State_Monad.return None
     | Some (rc, out, out_size) \<Rightarrow>
         if rc = 0 then do {
           modify (\<lambda>s. log_puts (cs '' bytes, entering'' @ [10])
             (log_dec (case out_size of None \<Rightarrow> 0 | Some n \<Rightarrow> n) (log_puts (cs ''sd: BOOT.BIN '') s)));
           State_Monad.return (Some (Handoff_bare SD_BOOT_DST out))
         }
         else boot_nand b
   }"

section \<open>The pads across the card attempt\<close>

lemma pads_inv_log:
  assumes "pads_inv pv orig (s :: 'h fat_st)" and "log_st.more s' = log_st.more s"
  shows "pads_inv pv orig s'"
proof -
  have "hwst s' = hwst s" "g_pin_save s' = g_pin_save s" using assms(2) by (cases s; cases s'; simp)+
  then show ?thesis using assms(1) by (simp add: pads_inv_def saved_pads_def)
qed

lemma pads_inv_fat:
  "pads_inv pv orig (s\<lparr>io_buf := x\<rparr>) = pads_inv pv orig s" "pads_inv pv orig (s\<lparr>fat_buf := x\<rparr>) = pads_inv pv orig s"
  "pads_inv pv orig (s\<lparr>fat_buf_lba := l\<rparr>) = pads_inv pv orig s" "pads_inv pv orig (s\<lparr>fvol := v\<rparr>) = pads_inv pv orig s"
  by (simp_all add: pads_inv_def saved_pads_def)

lemma preserves_case_dir:
  "preserves I m \<Longrightarrow> preserves I n \<Longrightarrow> (\<And>c z. preserves I (k c z)) \<Longrightarrow>
   preserves I (case d of Dir_end \<Rightarrow> m | Dir_more \<Rightarrow> n | Dir_found c z \<Rightarrow> k c z)"
  by (cases d) simp_all

lemma preserves_case_sum:
  "(\<And>x. preserves I (f x)) \<Longrightarrow> (\<And>x. preserves I (g x)) \<Longrightarrow> preserves I (case d of Inl x \<Rightarrow> f x | Inr y \<Rightarrow> g y)"
  by (cases d) simp_all

lemmas fat_rules = preserves_rules preserves_case_dir preserves_case_sum

lemma fat_keeps_pads:
  assumes law: "pad_law b pv"
  shows "preserves (pads_inv pv orig) (fat_load_file b name11 m)"
proof -
  let ?I = "pads_inv pv orig :: 'a fat_st \<Rightarrow> bool"
  have sector: "preserves ?I (read_sector b lba)" for lba
    unfolding read_sector_def by (intro fat_rules preserves_read_block pads_inv_user law)
  have io: "preserves ?I (read_io b lba)" for lba
    unfolding read_io_def by (intro fat_rules sector) (simp add: pads_inv_fat)
  have entry: "preserves ?I (fat_entry b c)" for c
    unfolding fat_entry_def by (intro fat_rules sector) (simp_all add: pads_inv_fat)
  have cluster: "preserves ?I (scan_cluster b name11 lba k n)" for lba k n
    by (induction k arbitrary: lba n) (simp_all, (intro fat_rules io impI conjI | simp)+)
  have chain: "preserves ?I (scan_root_chain b name11 f c n)" for f c n
    by (induction f arbitrary: c n) (simp_all, (intro fat_rules cluster entry impI conjI | simp)+)
  have fixed: "preserves ?I (scan_root_fixed b name11 lba k)" for lba k
    by (induction k arbitrary: lba) (simp_all, (intro fat_rules io impI conjI | simp)+)
  have root: "preserves ?I (find_in_root b name11)"
    unfolding find_in_root_def by (intro fat_rules chain fixed)
  have sectors: "preserves ?I (load_sectors b z lba k l out)" for z lba k l out
  proof (induction k arbitrary: lba l out)
    case (Suc k)
    show ?case unfolding load_sectors.simps by (intro fat_rules sector io Suc)
  qed (simp add: preserves_return)
  have load: "preserves ?I (load_chain b e z f c l out)" for e z f c l out
    by (induction f arbitrary: c l out) (simp_all, (intro fat_rules sectors entry impI conjI | simp)+)
  have data: "preserves ?I (load_data b c z)" for c z
    unfolding load_data_def by (intro fat_rules load)
  show ?thesis
    unfolding fat_load_file_def by (intro fat_rules io root data) (simp_all add: pads_inv_fat)
qed

lemma sd_try_boot_restores:
  assumes law: "pad_law b pv" and free: "\<not> valid (g_pin_save s)" and run: "run_state (sd_try_boot b) s = (r, s')"
  shows "\<forall>a \<in> pads. pv (hwst s') a = pv (hwst s) a" and "r \<noteq> None"
proof -
  let ?orig = "pv (hwst s)"
  have i0: "pads_inv pv ?orig s" using free by (simp add: pads_inv_def)
  obtain rc s1 where si: "run_state (sd_init b) s = (rc, s1)" by (metis prod.collapse)
  have i1: "pads_inv pv ?orig s1" using sd_init_saves [OF law i0] by (simp add: si pads_inv_def)
  have "(\<forall>a \<in> pads. pv (hwst s') a = ?orig a) \<and> r \<noteq> None"
  proof (cases "rc = 0")
    case False
    define s2 where "s2 = log_rc rc (log_puts (cs ''sd: no card'') s1)"
    have "pads_inv pv ?orig s2" by (rule pads_inv_log [OF i1]) (simp add: s2_def)
    moreover obtain s3 where s3: "run_state (sd_release_pins b) s2 = ((), s3)" by (cases "run_state (sd_release_pins b) s2") simp
    moreover have "r \<noteq> None" "s' = s3" using run False s3 unfolding s2_def by (auto simp: sd_try_boot_def run_simps si)
    ultimately show ?thesis using release_writes_back(1) [OF law, of ?orig s2] by simp
  next
    case True
    obtain f s2 where ff: "run_state (fat_load_file b (cs ''BOOT    BIN'') SD_BOOT_MAX) s1 = (f, s2)" by (metis prod.collapse)
    have i2: "pads_inv pv ?orig s2" using preservesD [OF fat_keeps_pads [OF law] i1] ff by (metis snd_conv)
    obtain rc1 out n where f: "f = Some (rc1, out, n)"
      using fat_load_file_total [of b "cs ''BOOT    BIN''" SD_BOOT_MAX s1] ff by (cases f) auto
    obtain s3 where s3: "run_state (sd_release_pins b) s2 = ((), s3)" by (cases "run_state (sd_release_pins b) s2") simp
    have "hwst (log_rc rc1 (log_puts (cs ''sd: no BOOT.BIN'') s3)) = hwst s3" by (rule log_more_nand) simp
    then have "hwst s' = hwst s3" "r \<noteq> None"
      using run True ff by (auto simp: sd_try_boot_def run_simps si f s3 simp del: cs_Cons split: if_splits)
    then show ?thesis using release_writes_back(1) [OF law i2] by (simp add: s3)
  qed
  then show "\<forall>a \<in> pads. pv (hwst s') a = pv (hwst s) a" "r \<noteq> None" by blast+
qed


section \<open>The NAND path\<close>

lemma keeps_geometry_image: "keeps pages_per_block (nand_load_image b block n)"
proof -
  have "keeps pages_per_block (load_blocks b f block n k out)" for f block n k out
  proof (induction f arbitrary: block n k out)
    case (Suc f)
    show ?case
      unfolding load_blocks.simps
      by (intro geometry_rules keeps_geometry_bad keeps_geometry_pages keeps_geometry_log(2) Suc)
  qed (simp add: keeps_return)
  then show ?thesis unfolding nand_load_image_def by (intro keeps_rules keeps_gets)
qed

lemma boot_nand_outcome:
  assumes "run_state (boot_nand b) s = (r, s')"
  shows "(\<exists>out. r = Some (Handoff_eboot out) \<and> pages_per_block s' \<in> {64, 128, 32, 256}) \<or>
    (\<exists>why rc. r = Some (Halted why rc) \<and> rc \<noteq> 0)"
proof -
  obtain s1 where s1: "run_state (nf_hw_init b) s = ((), s1)" by (cases "run_state (nf_hw_init b) s") simp
  obtain s2 where s2: "run_state (nand_init b) s1 = ((), s2)" by (cases "run_state (nand_init b) s1") simp
  obtain rc s3 where s3: "run_state (nand_probe_geometry b) s2 = (rc, s3)" by (metis prod.collapse)
  obtain q s4 where s4: "run_state (nand_load_image b IPL_START_BLOCK HANDOFF_BYTES) s3 = (q, s4)" by (metis prod.collapse)
  have p: "pages_per_block s4 = pages_per_block s3"
    using keepsD [OF keeps_geometry_image, of b IPL_START_BLOCK HANDOFF_BYTES s3] by (simp add: s4)
  obtain rc1 out where q: "q = Some (rc1, out)" using nand_load_image_total [of b IPL_START_BLOCK HANDOFF_BYTES s3] by (auto simp: s4)
  have "pages_per_block (log_ipl out s4) = pages_per_block s4" by (rule log_more_nand) (simp add: log_ipl_def del: cs_Cons)
  then show ?thesis
    using assms probe_geometry [OF s3] by (auto simp: boot_nand_def halt_def run_simps s1 s2 s3 s4 p q NAND_EPROBE_def split: if_splits)
qed

lemma boot_start_pins: "keeps g_pin_save (boot_start b)"
proof -
  have l: "g_pin_save (log_init s) = g_pin_save s" for s :: "'a fat_st" by (simp add: log_init_def)
  have p: "g_pin_save (log_puts str s) = g_pin_save s" for str and s :: "'a fat_st"
    unfolding log_puts_def by (induction str arbitrary: s) (simp_all add: log_putc_def Let_def)
  have r: "keeps g_pin_save (reg_rd b a :: ('a, u32) fat)" "keeps g_pin_save (reg_wr b a v :: ('a, unit) fat)" for a v
    by (simp_all add: keeps_def run_reg_rd run_reg_wr)
  show ?thesis
    unfolding boot_start_def uart_init_def l2_init_def reg_rmw_def
    by (intro keeps_rules keeps_modify keeps_when r l p)
qed

section \<open>Properties\<close>

text \<open>C3: openNBOOT always ends in one of its three ways, whatever the hardware answers. It enters the card's
  \<open>BOOT.BIN\<close> exactly when the card attempt succeeded. Otherwise the NAND path runs, from a state in which the
  pad registers that NAND and SD share are as they were before the card was touched; it enters the IPL only with a
  known geometry, and halts only with an error code.\<close>

theorem boot_main_outcome:
  assumes law: "pad_law b pv" and free: "\<not> valid (g_pin_save s)"
  defines "s1 \<equiv> snd (run_state (boot_start b) s)"
  defines "r \<equiv> fst (run_state (sd_try_boot b) s1)" and "s2 \<equiv> snd (run_state (sd_try_boot b) s1)"
  shows "\<exists>x s'. run_state (boot_main b) s = (Some x, s') \<and> (\<forall>a \<in> pads. pv (hwst s2) a = pv (hwst s1) a) \<and>
    (case x of
       Handoff_bare a out \<Rightarrow> a = SD_BOOT_DST \<and> (\<exists>n. r = Some (0, out, n))
     | Handoff_eboot out \<Rightarrow> (\<exists>rc z n. r = Some (rc, z, n) \<and> rc \<noteq> 0) \<and> run_state (boot_nand b) s2 = (Some x, s') \<and>
         pages_per_block s' \<in> {64, 128, 32, 256}
     | Halted why rc \<Rightarrow> (\<exists>rc1 z n. r = Some (rc1, z, n) \<and> rc1 \<noteq> 0) \<and> run_state (boot_nand b) s2 = (Some x, s') \<and> rc \<noteq> 0)"
proof -
  have st: "run_state (boot_start b) s = ((), s1)" unfolding s1_def by (cases "run_state (boot_start b) s") simp
  have "\<not> valid (g_pin_save s1)" using keepsD [OF boot_start_pins, of b s] free by (simp add: s1_def)
  moreover have tb: "run_state (sd_try_boot b) s1 = (r, s2)" by (simp add: r_def s2_def)
  ultimately have pads: "\<forall>a \<in> pads. pv (hwst s2) a = pv (hwst s1) a" and "r \<noteq> None"
    using sd_try_boot_restores [OF law] by blast+
  then obtain rc out n where r: "r = Some (rc, out, n)" by auto
  show ?thesis
  proof (cases "rc = 0")
    case True
    then show ?thesis using pads by (auto simp: boot_main_def run_simps st tb r)
  next
    case False
    obtain q s' where bn: "run_state (boot_nand b) s2 = (q, s')" by (metis prod.collapse)
    have "run_state (boot_main b) s = (q, s')" using False by (simp add: boot_main_def run_simps st tb r bn)
    then show ?thesis using boot_nand_outcome [OF bn] bn pads False r by auto
  qed
qed


definition ram_boot :: "(u32 \<Rightarrow> u32) fat_st" where
  "ram_boot = sd_st.extend ram_card \<lparr>io_buf = replicate 512 0, fat_buf = replicate 512 0, fat_buf_lba = 0,
     fvol = sample_vol\<rparr>"

theorem boot_main_outcome_witness:
  "let s1 = snd (run_state (boot_start ram_bus) ram_boot); s2 = snd (run_state (sd_try_boot ram_bus) s1)
   in fst (run_state (boot_main ram_bus) ram_boot) \<noteq> None \<and> hwst s2 (SYSCTRL 0x78) = hwst s1 (SYSCTRL 0x78)"
proof -
  define pv where "pv h a = (if a \<in> pads then h a else (0 :: u32))" for h a
  have "pad_law ram_bus pv" by (auto simp: pad_law_def ram_bus_def pv_def)
  moreover have "\<not> valid (g_pin_save ram_boot)" by (simp add: ram_boot_def ram_card_def sd_st.defs)
  ultimately obtain x s' where "run_state (boot_main ram_bus) ram_boot = (Some x, s')"
      "\<forall>a \<in> pads. pv (hwst (snd (run_state (sd_try_boot ram_bus) (snd (run_state (boot_start ram_bus) ram_boot))))) a
        = pv (hwst (snd (run_state (boot_start ram_bus) ram_boot))) a"
    using boot_main_outcome by blast
  then show ?thesis by (simp add: pads_def pv_def)
qed

end
