(* ===== verification/Mmu.thy ===== *)
theory Mmu
  imports Payload
begin

text \<open>
  The section table of lib/mmu.c and the memory map of aipc-boot (aipc-boot/main.c). \<open>mmu_enable\<close> is
  assembly: \<open>map_memory\<close> gives the table that it is called with.
\<close>

section \<open>Definitions\<close>

definition L1_ENTRIES :: u32 where "L1_ENTRIES = 4096"
definition SECTION_SHIFT :: nat where "SECTION_SHIFT = 20"
definition SECTION_MASK :: u32 where "SECTION_MASK = 0xFFF00000"
definition MMU_SECTION_SIZE :: u32 where "MMU_SECTION_SIZE = 0x00100000"
definition MMU_DEVICE :: u32 where "MMU_DEVICE = 0x00000C12"
definition MMU_BUFFERED :: u32 where "MMU_BUFFERED = MMU_DEVICE OR 0x00000004"
definition MMU_CACHED :: u32 where "MMU_CACHED = MMU_BUFFERED OR 0x00000008"

definition DDR_BASE :: u32 where "DDR_BASE = 0x30000000"
definition DDR_SIZE :: u32 where "DDR_SIZE = 0x04000000"
definition SYSCTRL_BASE :: u32 where "SYSCTRL_BASE = 0x08000000"
definition PERIPH_BASE :: u32 where "PERIPH_BASE = 0x20000000"
definition L2_BUF_BASE :: u32 where "L2_BUF_BASE = 0x48000000"

text \<open>The table is the list of the words of \<open>l1_table\<close>.\<close>

definition mmu_reset :: "u32 list" where
  "mmu_reset = replicate (unat L1_ENTRIES) 0"

text \<open>\<open>for (i = 0; i < count && first + i < L1_ENTRIES; ++i)\<close>; the first argument is \<open>count - i\<close>.\<close>

fun map_loop :: "nat \<Rightarrow> u32 \<Rightarrow> u32 \<Rightarrow> u32 \<Rightarrow> u32 list \<Rightarrow> u32 list" where
  "map_loop 0 first i flags t = t"
| "map_loop (Suc n) first i flags t =
     (if first + i < L1_ENTRIES
      then let addr = push_bit SECTION_SHIFT (first + i)
           in map_loop n first (i + 1) flags (t[unat (first + i) := (addr AND SECTION_MASK) OR flags])
      else t)"

definition mmu_map :: "u32 \<Rightarrow> u32 \<Rightarrow> u32 \<Rightarrow> u32 list \<Rightarrow> u32 list" where
  "mmu_map base len flags t =
     (let first = drop_bit SECTION_SHIFT base;
          n = (len + MMU_SECTION_SIZE - 1) div MMU_SECTION_SIZE;
          n' = (if n = 0 then 1 else n)
      in map_loop (unat n') first 0 flags t)"

definition map_memory :: "u32 list" where
  "map_memory =
     mmu_map L2_BUF_BASE MMU_SECTION_SIZE MMU_DEVICE
       (mmu_map PERIPH_BASE MMU_SECTION_SIZE MMU_DEVICE
         (mmu_map SYSCTRL_BASE MMU_SECTION_SIZE MMU_DEVICE
           (mmu_map LOG_BASE MMU_SECTION_SIZE MMU_BUFFERED
             (mmu_map FB_BACK_ADDR MMU_SECTION_SIZE MMU_DEVICE
               (mmu_map FB_ADDR MMU_SECTION_SIZE MMU_DEVICE
                 (mmu_map DDR_BASE DDR_SIZE MMU_CACHED mmu_reset))))))"

section \<open>The loop\<close>

definition section_entry :: "nat \<Rightarrow> u32 \<Rightarrow> u32" where
  "section_entry k flags = push_bit 20 (of_nat k) OR flags"

lemma length_map_loop [simp]: "length (map_loop n first i flags t) = length t"
  by (induction n first i flags t rule: map_loop.induct) (simp_all add: Let_def)

lemma section_addr:
  "push_bit SECTION_SHIFT a AND SECTION_MASK = push_bit 20 (a :: u32)"
proof (rule bit_word_eqI)
  have m: "SECTION_MASK = push_bit 20 (mask 12)"
    by (simp add: SECTION_MASK_def mask_eq_exp_minus_1 push_bit_eq_mult)
  fix n assume "n < LENGTH(32)"
  then show "bit (push_bit SECTION_SHIFT a AND SECTION_MASK) n = bit (push_bit 20 a :: u32) n"
    unfolding m SECTION_SHIFT_def by (auto simp: bit_simps)
qed

lemma map_loop_nth:
  assumes "length t = 4096" and "k < 4096" and "unat first + unat i + n < 2 ^ 32"
  shows "map_loop n first i flags t ! k =
    (if unat first + unat i \<le> k \<and> k < unat first + unat i + n then section_entry k flags else t ! k)"
  using assms
proof (induction n first i flags t rule: map_loop.induct)
  case (2 n first i flags t)
  have u: "unat (first + i) = unat first + unat i" "unat (i + 1) = unat i + 1"
    using "2.prems"(3) by (simp_all add: unat_word_ariths)
  show ?case
  proof (cases "first + i < L1_ENTRIES")
    case True
    then have lt: "unat first + unat i < 4096" using u by (simp add: word_less_nat_alt L1_ENTRIES_def)
    have e: "section_entry (unat first + unat i) flags = push_bit 20 (first + i) OR flags"
      by (simp add: section_entry_def)
    show ?thesis
      using 2 True u lt by (auto simp: section_addr nth_list_update e [simplified])
  next
    case False
    then have "4096 \<le> unat first + unat i" using u by (simp add: word_less_nat_alt L1_ENTRIES_def)
    with False "2.prems"(2) show ?thesis by simp
  qed
qed auto

lemma mmu_map_nth:
  assumes "length t = 4096" and "k < 4096" and "len \<noteq> 0" and "unat len \<le> 2 ^ 32 - 2 ^ 20"
  shows "mmu_map base len flags t ! k =
    (if unat base div 2 ^ 20 \<le> k \<and> k < unat base div 2 ^ 20 + (unat len + (2 ^ 20 - 1)) div 2 ^ 20
     then section_entry k flags else t ! k)"
proof -
  let ?n = "(len + MMU_SECTION_SIZE - 1) div MMU_SECTION_SIZE"
  have s0: "0 < unat len" using assms(3) by (simp add: unat_gt_0)
  have "len + MMU_SECTION_SIZE - 1 = len + 0xFFFFF" by (simp add: MMU_SECTION_SIZE_def)
  moreover have "unat (len + 0xFFFFF) = unat len + (2 ^ 20 - 1)"
    using assms(4) by (simp add: unat_word_ariths)
  ultimately have "unat (len + MMU_SECTION_SIZE - 1) = unat len + (2 ^ 20 - 1)" by (simp only:)
  moreover have "unat MMU_SECTION_SIZE = 2 ^ 20" by (simp add: MMU_SECTION_SIZE_def)
  ultimately have n: "unat ?n = (unat len + (2 ^ 20 - 1)) div 2 ^ 20"
    by (simp only: unat_div)
  have "2 ^ 20 \<le> unat len + (2 ^ 20 - 1)" using s0 by simp
  then have "1 \<le> (unat len + (2 ^ 20 - 1)) div 2 ^ 20" by (simp add: div_greater_zero_iff Suc_le_eq)
  with n have n0: "?n \<noteq> 0" by (metis not_one_le_zero unsigned_0)
  have f: "unat (drop_bit SECTION_SHIFT base) = unat base div 2 ^ 20"
    unfolding SECTION_SHIFT_def by (rule unat_drop_bit)
  have "unat base div 2 ^ 20 < 4096"
    using unat_u32_bound [of base] by (simp add: div_less_iff_less_mult)
  moreover have "(unat len + (2 ^ 20 - 1)) div 2 ^ 20 \<le> 4096"
    using assms(4) by (simp add: div_le_mono [of _ "4096 * 2 ^ 20 + (2 ^ 20 - 1)", THEN order_trans])
  ultimately have "unat (drop_bit SECTION_SHIFT base) + unat (0 :: u32) + unat ?n < 2 ^ 32"
    unfolding f n by simp
  from map_loop_nth [OF assms(1,2) this] show ?thesis
    using n0 by (simp add: mmu_map_def f n)
qed

lemma length_mmu_map [simp]: "length (mmu_map base len flags t) = length t"
  by (simp add: mmu_map_def Let_def)

text \<open>The count is computed in 32 bits: more than 4095 MiB map one section only.\<close>

lemma mmu_map_huge: "mmu_map base 0xFFFFFFFF flags t = mmu_map base 1 flags t"
  by (simp add: mmu_map_def Let_def MMU_SECTION_SIZE_def)

section \<open>Translation\<close>

text \<open>A section descriptor of the ARM926EJ-S: the physical address and the bits C and B.\<close>

definition translate :: "u32 list \<Rightarrow> u32 \<Rightarrow> (u32 \<times> u32) option" where
  "translate t va =
     (let e = t ! unat (drop_bit 20 va)
      in if e AND 3 = 2 then Some ((e AND 0xFFF00000) OR (va AND 0xFFFFF), e AND 0xC) else None)"

definition in_section :: "u32 \<Rightarrow> u32 \<Rightarrow> bool" where
  "in_section va base \<longleftrightarrow> unat va div 2 ^ 20 = unat base div 2 ^ 20"

text \<open>The map of the comment in main.c: 0 is device memory, 4 buffered, 12 cached.\<close>

definition memory_type :: "u32 \<Rightarrow> u32 option" where
  "memory_type va =
     (if in_section va L2_BUF_BASE \<or> in_section va PERIPH_BASE \<or> in_section va SYSCTRL_BASE \<or>
         in_section va FB_ADDR \<or> in_section va FB_BACK_ADDR then Some 0
      else if in_section va LOG_BASE then Some 4
      else if DDR_BASE \<le> va \<and> va < DDR_BASE + DDR_SIZE then Some 12
      else None)"

lemma push_low: "push_bit 20 x AND mask 2 = (0 :: u32)" "push_bit 20 x AND mask 4 = (0 :: u32)"
proof -
  have "push_bit n x AND mask k = (0 :: u32)" if "k \<le> n" for n k
    using that by (intro bit_word_eqI) (auto simp: bit_simps)
  then show "push_bit 20 x AND mask 2 = (0 :: u32)" "push_bit 20 x AND mask 4 = (0 :: u32)"
    by simp_all
qed

lemma push_high: "push_bit n (drop_bit n x) AND NOT (mask n) = push_bit n (drop_bit n (x :: u32))"
  by (rule bit_word_eqI) (auto simp: bit_simps)

lemma push_join: "push_bit n (drop_bit n x) OR (x AND mask n) = (x :: u32)"
  by (rule bit_word_eqI) (auto simp: bit_simps)

lemma translate_section:
  assumes "t ! unat (drop_bit 20 va) = section_entry (unat (drop_bit 20 va)) flags"
    and "flags \<in> {MMU_DEVICE, MMU_BUFFERED, MMU_CACHED}"
  shows "translate t va = Some (va, flags AND 0xC)"
proof -
  have m: "(0xFFFFF :: u32) = mask 20" "(0xFFF00000 :: u32) = NOT (mask 20)" "(3 :: u32) = mask 2"
    by (simp_all add: mask_eq_exp_minus_1)
  have f: "flags AND mask 2 = 2" "flags AND NOT (mask 20) = 0"
    using assms(2) by (auto simp: MMU_CACHED_def MMU_BUFFERED_def MMU_DEVICE_def simp flip: m)
  define p where "p = push_bit 20 (drop_bit 20 va)"
  have e: "t ! unat (drop_bit 20 va) = p OR flags" using assms(1) by (simp add: section_entry_def p_def)
  have p: "p AND mask 2 = 0" "p AND mask 4 = 0" "p AND NOT (mask 20) = p" "p OR (va AND mask 20) = va"
    unfolding p_def by (simp_all only: push_low push_high push_join)
  have "p AND 0xC = (p AND mask 4) AND 0xC" by (simp add: and.assoc mask_eq_exp_minus_1)
  then have p4: "p AND 0xC = 0" by (simp add: p)
  show ?thesis
    unfolding translate_def Let_def e m
    using f p p4 by (simp add: bit.conj_disj_distrib2)
qed

lemmas map_consts = DDR_BASE_def DDR_SIZE_def SYSCTRL_BASE_def PERIPH_BASE_def L2_BUF_BASE_def LOG_BASE_def
  FB_ADDR_def FB_BACK_ADDR_def MMU_SECTION_SIZE_def

lemma one_section: "len = MMU_SECTION_SIZE \<Longrightarrow> (unat len + (2 ^ 20 - 1)) div 2 ^ 20 = 1"
  by (simp add: MMU_SECTION_SIZE_def)

text \<open>C28: With the memory map of aipc-boot every mapped address translates to itself. The two framebuffers
  and the registers are device memory, the section of the boot log is buffered, the rest of DDR is
  cached, and nothing else is mapped.\<close>

theorem map_memory_types: "translate map_memory va = map_option (Pair va) (memory_type va)"
proof -
  define k where "k = unat (drop_bit 20 va)"
  have kd: "k = unat va div 2 ^ 20" unfolding k_def by (rule unat_drop_bit)
  have k: "k < 4096" using unat_u32_bound [of va] unfolding kd by (simp add: div_less_iff_less_mult)
  have r: "length mmu_reset = 4096" "mmu_reset ! k = 0"
    using k by (simp_all add: mmu_reset_def L1_ENTRIES_def)
  have ddr: "DDR_BASE \<le> va \<and> va < DDR_BASE + DDR_SIZE \<longleftrightarrow> 768 \<le> k \<and> k < 832"
    unfolding kd
    by (simp add: word_le_nat_alt word_less_nat_alt map_consts less_eq_div_iff_mult_less_eq div_less_iff_less_mult)
  have sec: "in_section va L2_BUF_BASE \<longleftrightarrow> k = 1152" "in_section va PERIPH_BASE \<longleftrightarrow> k = 512"
    "in_section va SYSCTRL_BASE \<longleftrightarrow> k = 128" "in_section va FB_ADDR \<longleftrightarrow> k = 827"
    "in_section va FB_BACK_ADDR \<longleftrightarrow> k = 828" "in_section va LOG_BASE \<longleftrightarrow> k = 769"
    by (simp_all add: in_section_def kd map_consts)
  have e: "map_memory ! k =
      (if k = 1152 \<or> k = 512 \<or> k = 128 then section_entry k MMU_DEVICE
       else if k = 769 then section_entry k MMU_BUFFERED
       else if k = 828 \<or> k = 827 then section_entry k MMU_DEVICE
       else if 768 \<le> k \<and> k < 832 then section_entry k MMU_CACHED else 0)"
    using k r by (simp add: map_memory_def mmu_map_nth map_consts)
  show ?thesis
  proof (cases "k = 1152 \<or> k = 512 \<or> k = 128 \<or> k = 769 \<or> k = 828 \<or> k = 827 \<or> (768 \<le> k \<and> k < 832)")
    case True
    define f where "f = (if k = 769 then MMU_BUFFERED
      else if k = 1152 \<or> k = 512 \<or> k = 128 \<or> k = 828 \<or> k = 827 then MMU_DEVICE else MMU_CACHED)"
    have f: "map_memory ! k = section_entry k f" "f \<in> {MMU_DEVICE, MMU_BUFFERED, MMU_CACHED}"
      using True by (auto simp: e f_def)
    have "memory_type va = Some (f AND 0xC)"
      using True unfolding memory_type_def ddr sec
      by (auto simp add: f_def MMU_CACHED_def MMU_BUFFERED_def MMU_DEVICE_def)
    with translate_section [of map_memory va f] f show ?thesis by (simp flip: k_def)
  next
    case False
    then have "map_memory ! k = 0" "memory_type va = None"
      unfolding e memory_type_def ddr sec by auto
    then show ?thesis by (simp add: translate_def Let_def flip: k_def)
  qed
qed

end
