(* ===== verification/Card.thy ===== *)
theory Card
  imports Storage
begin

text \<open>
  The card slot of aipc-boot (aipc-boot/card.c): a card that goes in settles and is mounted, one that
  comes out is unmounted. The card detect pin, the clock and FatFs are parameters that work on the
  state of the file layer.
\<close>

section \<open>Definitions\<close>

definition SETTLE_MS :: u32 where "SETTLE_MS = 300"
definition MOUNT_TRIES :: nat where "MOUNT_TRIES = 3"
definition MOUNT_RETRY_MS :: u32 where "MOUNT_RETRY_MS = 200"

datatype card_status = CARD_NONE | CARD_SETTLING | CARD_READY | CARD_ERROR

record 'v card_st =
  files :: "'v storage_st"
  card_state :: card_status
  settle_end :: u32

record 'v slot_ops =
  op_present :: "'v storage_st \<Rightarrow> bool \<times> 'v storage_st"
  op_timer_ms :: "'v storage_st \<Rightarrow> u32 \<times> 'v storage_st"
  op_delay_ms :: "u32 \<Rightarrow> 'v storage_st \<Rightarrow> 'v storage_st"
  op_unmount :: "'v storage_st \<Rightarrow> 'v storage_st"

text \<open>\<open>for (i = 0; i < MOUNT_TRIES; i++)\<close>; \<open>first\<close> is \<open>i == 0\<close>. The return code of the last try.\<close>

fun mount_loop :: "('v, 'o) fatfs \<Rightarrow> 'v slot_ops \<Rightarrow> nat \<Rightarrow> bool \<Rightarrow> int \<Rightarrow> 'v storage_st \<Rightarrow> int \<times> 'v storage_st" where
  "mount_loop ff e 0 first rc s = (rc, s)"
| "mount_loop ff e (Suc n) first rc s =
     (let s1 = (if first then s else op_delay_ms e MOUNT_RETRY_MS s);
          (rc1, s2) = storage_mount ff s1
      in if rc1 = 0 then (0, s2) else mount_loop ff e n False rc1 s2)"

definition mount :: "('v, 'o) fatfs \<Rightarrow> 'v slot_ops \<Rightarrow> 'v card_st \<Rightarrow> 'v card_st" where
  "mount ff e s =
     (let (rc, f) = mount_loop ff e MOUNT_TRIES True 0 (files s)
      in if rc = 0 then s\<lparr>files := f, card_state := CARD_READY\<rparr>
         else s\<lparr>files := log_rc rc (log_puts (cs ''card: mount'') f), card_state := CARD_ERROR\<rparr>)"

definition card_init :: "('v, 'o) fatfs \<Rightarrow> 'v slot_ops \<Rightarrow> 'v card_st \<Rightarrow> bool \<times> 'v card_st" where
  "card_init ff e s =
     (let was = card_state s;
          (present, f) = op_present e (files s);
          s1 = s\<lparr>files := f\<rparr>;
          s2 = (if present then mount ff e s1 else s1\<lparr>card_state := CARD_NONE\<rparr>)
      in (card_state s2 \<noteq> was, s2))"

definition card_poll :: "('v, 'o) fatfs \<Rightarrow> 'v slot_ops \<Rightarrow> 'v card_st \<Rightarrow> bool \<times> 'v card_st" where
  "card_poll ff e s =
     (let (present, f) = op_present e (files s);
          s1 = s\<lparr>files := f\<rparr>
      in if \<not> present then
           (if card_state s1 = CARD_NONE then (False, s1)
            else (True, s1\<lparr>files := op_unmount e f, card_state := CARD_NONE\<rparr>))
         else
           (case card_state s1 of
              CARD_NONE \<Rightarrow>
                let (now, f1) = op_timer_ms e f
                in (False, s1\<lparr>files := f1, card_state := CARD_SETTLING, settle_end := now + SETTLE_MS\<rparr>)
            | CARD_SETTLING \<Rightarrow>
                let (now, f1) = op_timer_ms e f; s2 = s1\<lparr>files := f1\<rparr>
                in if sint (settle_end s2 - now) > 0 then (False, s2) else (True, mount ff e s2)
            | _ \<Rightarrow> (False, s1)))"

section \<open>Transitions\<close>

lemma mount_result: "card_state (mount ff e s) = CARD_READY \<or> card_state (mount ff e s) = CARD_ERROR"
  by (simp add: mount_def Let_def split: prod.splits)

text \<open>Mounted at the first of at most three tries that succeeds.\<close>

lemma mount_loop_zero:
  "mount_loop ff e n first rc s = (0, t) \<Longrightarrow> rc \<noteq> 0 \<or> 0 < n \<Longrightarrow> \<exists>u. storage_mount ff u = (0, t)"
  by (induction ff e n first rc s rule: mount_loop.induct)
    (auto simp: Let_def split: prod.splits if_splits)

lemma mount_ready:
  "card_state (mount ff e s) = CARD_READY \<Longrightarrow> \<exists>u. storage_mount ff u = (0, files (mount ff e s))"
  using mount_loop_zero [of ff e MOUNT_TRIES True 0 "files s"]
  by (auto simp: mount_def MOUNT_TRIES_def Let_def split: prod.splits if_splits)

lemma card_poll_changes:
  assumes "card_poll ff e s = (r, s')"
  shows "r \<longleftrightarrow> card_state s' \<noteq> card_state s \<and> card_state s' \<noteq> CARD_SETTLING"
  using assms mount_result [of ff e]
  by (cases "card_state s")
    (auto simp: card_poll_def Let_def split: prod.splits if_splits; metis card_status.distinct)+

section \<open>The settle time\<close>

text \<open>A clock of milliseconds that never goes back.\<close>

definition slot_clock :: "('v, 'o) fatfs \<Rightarrow> 'v slot_ops \<Rightarrow> ('v storage_st \<Rightarrow> nat) \<Rightarrow> bool" where
  "slot_clock ff e clock \<longleftrightarrow>
     (\<forall>f. clock f \<le> clock (snd (op_present e f))) \<and>
     (\<forall>f. clock f \<le> clock (snd (op_timer_ms e f)) \<and>
        fst (op_timer_ms e f) = of_nat (clock (snd (op_timer_ms e f)))) \<and>
     (\<forall>d f. clock f \<le> clock (op_delay_ms e d f)) \<and> (\<forall>f. clock f \<le> clock (snd (storage_mount ff f))) \<and>
     (\<forall>f c. clock (log_putc c f) = clock f)"

text \<open>Polls from the one that finds a new card on, at clock \<open>c0\<close>, as long as the card settles.\<close>

inductive settling :: "('v, 'o) fatfs \<Rightarrow> 'v slot_ops \<Rightarrow> ('v storage_st \<Rightarrow> nat) \<Rightarrow> nat \<Rightarrow> 'v card_st \<Rightarrow> bool"
  for ff e clock c0 where
  insert: "card_state s = CARD_NONE \<Longrightarrow> card_poll ff e s = (r, s') \<Longrightarrow> card_state s' = CARD_SETTLING \<Longrightarrow>
    c0 = clock (files s') \<Longrightarrow> settling ff e clock c0 s'"
| wait: "settling ff e clock c0 s \<Longrightarrow> card_poll ff e s = (r, s') \<Longrightarrow> card_state s' = CARD_SETTLING \<Longrightarrow>
    settling ff e clock c0 s'"

lemma settling_inv:
  assumes "slot_clock ff e clock"
  shows "settling ff e clock c0 s \<Longrightarrow>
    card_state s = CARD_SETTLING \<and> settle_end s = of_nat (c0 + 300) \<and> c0 \<le> clock (files s)"
proof (induction rule: settling.induct)
  case (insert s r s')
  then show ?case
    using assms
    by (auto simp: card_poll_def Let_def slot_clock_def SETTLE_MS_def split: prod.splits if_splits)
      (metis fst_conv snd_conv)
next
  case (wait s r s')
  obtain p f where p: "op_present e (files s) = (p, f)" by fastforce
  obtain now f1 where t: "op_timer_ms e f = (now, f1)" by fastforce
  have "clock (files s) \<le> clock f" "clock f \<le> clock f1"
    using assms p t unfolding slot_clock_def by (metis snd_conv)+
  moreover have "files s' = f1" "settle_end s' = settle_end s"
    using wait p t mount_result [of ff e "s\<lparr>files := f1\<rparr>"]
    by (auto simp: card_poll_def Let_def split: if_splits)
  ultimately show ?case using wait by simp
qed

lemma clock_log_puts:
  "slot_clock ff e clock \<Longrightarrow> clock (log_puts xs f) = clock f"
  by (simp add: slot_clock_def log_puts_def) (induction xs arbitrary: f; simp)

lemma clock_log_rc: "slot_clock ff e clock \<Longrightarrow> clock (log_rc rc f) = clock f"
  using clock_log_puts [of ff e clock] by (simp add: log_rc_def log_dec_numeral) (simp add: slot_clock_def)

lemma clock_mount_loop:
  assumes "slot_clock ff e clock"
  shows "mount_loop ff e n first rc f = (rc', f') \<Longrightarrow> clock f \<le> clock f'"
proof (induction n arbitrary: first rc f)
  case (Suc n)
  define f1 where "f1 = (if first then f else op_delay_ms e MOUNT_RETRY_MS f)"
  obtain rc1 f2 where m: "storage_mount ff f1 = (rc1, f2)" by fastforce
  have "clock f \<le> clock f1" "clock f1 \<le> clock f2"
    using assms m unfolding slot_clock_def f1_def by (auto simp: dest: spec [of _ f1]) (metis snd_conv)+
  then show ?case using Suc m unfolding f1_def
    by (auto simp: Let_def split: if_splits intro: order_trans)
qed simp

lemma clock_mount: "slot_clock ff e clock \<Longrightarrow> clock (files s) \<le> clock (files (mount ff e s))"
  using clock_mount_loop [of ff e clock MOUNT_TRIES True 0 "files s"]
  by (auto simp: mount_def Let_def clock_log_rc clock_log_puts split: prod.splits)

lemma settle_sign:
  "0 < sint (of_nat (c0 + 300) - of_nat c :: u32) \<longleftrightarrow> c < c0 + 300"
  if "c0 \<le> c" "c < c0 + 300 + 2 ^ 31"
proof -
  have "of_nat (c0 + 300) - of_nat c = (word_of_int (int (c0 + 300) - int c) :: u32)"
    by simp
  then have "sint (of_nat (c0 + 300) - of_nat c :: u32) = signed_take_bit 31 (int (c0 + 300) - int c)"
    by (simp only: sint_sbintrunc') simp
  also have "\<dots> = int (c0 + 300) - int c"
    using that by (intro signed_take_bit_int_eq_self) auto
  finally show ?thesis by auto
qed

section \<open>Properties\<close>


text \<open>A card that is always there, a clock that counts polls in steps of 200 ms, and a volume that mounts.\<close>

definition demo_slot :: "nat slot_ops" where
  "demo_slot = \<lparr>op_present = (\<lambda>f. (True, f)),
     op_timer_ms = (\<lambda>f. (of_nat (vol f + 200), f\<lparr>vol := vol f + 200\<rparr>)),
     op_delay_ms = (\<lambda>d f. f\<lparr>vol := vol f + unat d\<rparr>), op_unmount = (\<lambda>f. f)\<rparr>"

definition demo_fs :: "(nat, unit) fatfs" where
  "demo_fs = \<lparr>ff_mount = (\<lambda>f. (0, f)), ff_getfree = (\<lambda>f. (0, 0, f)),
     ff_open = (\<lambda>n w f. (4, \<lparr>fobj = (), fptr = 0, objsize = 0, cltbl = False\<rparr>, f)),
     ff_read = (\<lambda>o' n f. (0, [], o', f)), ff_write = (\<lambda>o' d f. (0, 0, o', f)),
     ff_lseek = (\<lambda>o' p f. (0, o', f)), ff_linkmap = (\<lambda>o' f. (0, o', f)), ff_close = (\<lambda>o' f. (0, f)),
     ff_unlink = (\<lambda>n f. (0, f)), ff_rename = (\<lambda>a b f. (0, f))\<rparr>"

definition demo_card :: "nat card_st" where
  "demo_card = \<lparr>files = \<lparr>ddr = (\<lambda>_. 0), log_ptr = 0, log_end = 0, uart = [], vol = 0, card_ready = False,
     single_blocks = False, bounce = [], clmt = [], csize = 0, database = 0, n_fatent = 0, fs_type = 0\<rparr>,
     card_state = CARD_NONE, settle_end = 0\<rparr>"

lemma demo_clock: "slot_clock demo_fs demo_slot vol"
  by (simp add: slot_clock_def demo_slot_def demo_fs_def storage_mount_def Let_def log_putc_def)


end
