(* ===== verification/Fbcon.thy ===== *)
theory Fbcon
  imports Prelude
begin

text \<open>
  The text console on a framebuffer (lib/fbcon.c), which the firmware patcher and openNBOOT print on. The
  framebuffer is a map from pixel addresses to colours; the glyph table is a parameter. The invariant
  keeps every store inside the rectangle of the console, below its banner.
\<close>

section \<open>State\<close>

record fb_st =
  gFramebuffer :: u32
  gWidth :: u32
  gHeight :: u32
  gRowPixels :: u32
  y_cursor :: u32
  x_cursor :: u32
  scale_factor :: u8
  bannerHeight :: u32
  basecolor :: u16
  fgcolor :: u16
  opaque :: bool
  pixels :: "u32 \<Rightarrow> u16"

type_synonym font = "u8 \<Rightarrow> u32 \<Rightarrow> u8"

definition SCALE_FACTOR :: "fb_st \<Rightarrow> u32" where "SCALE_FACTOR s = ucast (scale_factor s)"
definition LEFT_MARGIN :: "fb_st \<Rightarrow> u32" where "LEFT_MARGIN s = 4 * ucast (scale_factor s)"
definition ROW_HEIGHT :: "fb_st \<Rightarrow> u32" where "ROW_HEIGHT s = 1 + 8 * SCALE_FACTOR s"

text \<open>\<open>gFramebuffer[ind] = colour\<close>\<close>

definition put_pixel :: "u32 \<Rightarrow> u16 \<Rightarrow> fb_st \<Rightarrow> fb_st" where
  "put_pixel ind colour s = s\<lparr>pixels := (pixels s)(gFramebuffer s + 2 * ind := colour)\<rparr>"

section \<open>Operations\<close>

text \<open>The two loops of a fill; no counter passes its bound.\<close>

definition screen_fill_rows :: "u32 \<Rightarrow> u32 \<Rightarrow> fb_st \<Rightarrow> fb_st" where
  "screen_fill_rows from to s =
     (if \<not> opaque s then s
      else fold (\<lambda>y. fold (\<lambda>x s. put_pixel (of_nat x + of_nat y * gRowPixels s) (basecolor s) s)
             [0..<unat (gWidth s)]) [unat from..<min (unat to) (unat (gHeight s))] s)"

definition screen_clear_all :: "fb_st \<Rightarrow> fb_st" where
  "screen_clear_all s =
     (let s1 = s\<lparr>y_cursor := bannerHeight s, x_cursor := LEFT_MARGIN s\<rparr>
      in screen_fill_rows (bannerHeight s1) (gHeight s1) s1)"

definition screen_clear_row :: "fb_st \<Rightarrow> fb_st" where
  "screen_clear_row s = screen_fill_rows (y_cursor s) (y_cursor s + ROW_HEIGHT s) s"

text \<open>The body of the two loops over a glyph.\<close>

definition glyph_pixel :: "font \<Rightarrow> u8 \<Rightarrow> nat \<Rightarrow> nat \<Rightarrow> fb_st \<Rightarrow> fb_st" where
  "glyph_pixel font c x y s =
     (let ind = (of_nat x + x_cursor s) + (of_nat y + y_cursor s) * gRowPixels s
      in if bit (font (c AND 0x7F) (of_nat y div SCALE_FACTOR s)) (unat (of_nat x div SCALE_FACTOR s))
         then put_pixel ind (fgcolor s) s
         else if opaque s then put_pixel ind (basecolor s) s else s)"

definition draw_glyph :: "font \<Rightarrow> u8 \<Rightarrow> fb_st \<Rightarrow> fb_st" where
  "draw_glyph font c s =
     fold (\<lambda>x. fold (\<lambda>y. glyph_pixel font c x y) [0..<unat (8 * SCALE_FACTOR s)])
       [0..<unat (8 * SCALE_FACTOR s)] s"

definition new_row :: "fb_st \<Rightarrow> fb_st" where
  "new_row s =
     (let y = (if gHeight s < y_cursor s + 2 * ROW_HEIGHT s then bannerHeight s else y_cursor s + ROW_HEIGHT s)
      in screen_clear_row (s\<lparr>y_cursor := y, x_cursor := LEFT_MARGIN s\<rparr>))"

definition screen_putc :: "font \<Rightarrow> u8 \<Rightarrow> fb_st \<Rightarrow> fb_st" where
  "screen_putc font c s =
     (if gFramebuffer s = 0 then s
      else if c = 8 then
        let x = (if 8 * SCALE_FACTOR s < x_cursor s then x_cursor s - 8 * SCALE_FACTOR s else 0)
        in s\<lparr>x_cursor := if x < LEFT_MARGIN s then LEFT_MARGIN s else x\<rparr>
      else
        let s1 = (if c = 10 \<or> gWidth s - LEFT_MARGIN s < x_cursor s + 8 * SCALE_FACTOR s then new_row s else s)
        in if c = 10 then s1
           else if c = 13 then screen_clear_row (s1\<lparr>x_cursor := LEFT_MARGIN s1\<rparr>)
           else let s2 = draw_glyph font c s1 in s2\<lparr>x_cursor := x_cursor s2 + 8 * SCALE_FACTOR s2\<rparr>)"

definition screen_write :: "font \<Rightarrow> bytes \<Rightarrow> fb_st \<Rightarrow> fb_st" where
  "screen_write font str = fold (screen_putc font) str"

definition screen_puts :: "font \<Rightarrow> bytes \<Rightarrow> fb_st \<Rightarrow> fb_st" where
  "screen_puts font str = screen_putc font 10 \<circ> screen_write font str"

definition screen_mark_banner :: "fb_st \<Rightarrow> fb_st" where
  "screen_mark_banner s = s\<lparr>bannerHeight := y_cursor s\<rparr>"

definition screen_set_color :: "u16 \<Rightarrow> fb_st \<Rightarrow> fb_st" where
  "screen_set_color colour s = s\<lparr>fgcolor := colour\<rparr>"

definition screen_set_row :: "u32 \<Rightarrow> fb_st \<Rightarrow> fb_st" where
  "screen_set_row n s =
     screen_clear_row (s\<lparr>y_cursor := bannerHeight s + n * ROW_HEIGHT s, x_cursor := LEFT_MARGIN s\<rparr>)"

definition screen_init ::
  "u32 \<Rightarrow> u32 \<Rightarrow> u32 \<Rightarrow> u32 \<Rightarrow> u32 \<Rightarrow> u32 \<Rightarrow> u8 \<Rightarrow> u16 \<Rightarrow> bool \<Rightarrow> fb_st \<Rightarrow> fb_st" where
  "screen_init fb row_pixels x0 y0 width height scale base is_opaque s =
     (let s1 = s\<lparr>opaque := is_opaque, gFramebuffer := fb + 2 * (x0 + y0 * row_pixels), gRowPixels := row_pixels,
           gWidth := width, gHeight := height, scale_factor := scale, basecolor := base, fgcolor := NOT base,
           bannerHeight := 0\<rparr>
      in (screen_clear_all s1)\<lparr>y_cursor := 0\<rparr>)"

section \<open>The rectangle\<close>

text \<open>The cursor leaves room for a row, and the margins for one character.\<close>

definition console_ok :: "fb_st \<Rightarrow> bool" where
  "console_ok s \<longleftrightarrow> 0 < scale_factor s \<and> 16 * unat (scale_factor s) \<le> unat (gWidth s) \<and> gWidth s \<le> gRowPixels s \<and>
     unat (gRowPixels s) * unat (gHeight s) < 2 ^ 30 \<and> bannerHeight s \<le> y_cursor s \<and>
     unat (y_cursor s) + 8 * unat (scale_factor s) \<le> unat (gHeight s) \<and> x_cursor s \<le> gWidth s"

text \<open>The addresses of the pixels of the console from a row on.\<close>

definition area :: "fb_st \<Rightarrow> nat \<Rightarrow> u32 set" where
  "area s low = {gFramebuffer s + 2 * of_nat (x + y * unat (gRowPixels s)) | x y.
     x < unat (gWidth s) \<and> low \<le> y \<and> y < unat (gHeight s)}"

text \<open>Everything but the pixels and the cursor is kept, and only pixels of the area change.\<close>

definition draws :: "fb_st \<Rightarrow> fb_st \<Rightarrow> bool" where
  "draws s t \<longleftrightarrow> gFramebuffer t = gFramebuffer s \<and> gWidth t = gWidth s \<and> gHeight t = gHeight s \<and>
     gRowPixels t = gRowPixels s \<and> scale_factor t = scale_factor s \<and> bannerHeight t = bannerHeight s \<and>
     opaque t = opaque s \<and> basecolor t = basecolor s \<and>
     (\<forall>a. a \<notin> area s (unat (bannerHeight s)) \<longrightarrow> pixels t a = pixels s a)"

lemma area_cong: "gFramebuffer t = gFramebuffer s \<Longrightarrow> gWidth t = gWidth s \<Longrightarrow> gHeight t = gHeight s \<Longrightarrow>
    gRowPixels t = gRowPixels s \<Longrightarrow> area t low = area s low"
  by (simp add: area_def)

lemma draws_refl: "draws s s"
  by (simp add: draws_def)

lemma draws_trans: "draws s t \<Longrightarrow> draws t u \<Longrightarrow> draws s u"
  using area_cong [of t s] by (simp add: draws_def)

lemma draws_fold:
  assumes "\<And>x t. x \<in> set xs \<Longrightarrow> draws s t \<Longrightarrow> P t \<Longrightarrow> draws t (f x t) \<and> P (f x t)"
  shows "P s \<Longrightarrow> draws s (fold f xs s) \<and> P (fold f xs s)"
proof -
  have "draws s t \<Longrightarrow> P t \<Longrightarrow> set ys \<subseteq> set xs \<Longrightarrow> draws s (fold f ys t) \<and> P (fold f ys t)" for ys t
  proof (induction ys arbitrary: t)
    case (Cons y ys)
    then have "draws t (f y t) \<and> P (f y t)" using assms [of y t] by simp
    with Cons show ?case using draws_trans [of s t "f y t"] by simp
  qed simp
  from this [of s xs] show "P s \<Longrightarrow> draws s (fold f xs s) \<and> P (fold f xs s)" by (simp add: draws_refl)
qed

text \<open>Stores at a column and row of the console.\<close>

lemma put_pixel_draws:
  assumes "x < unat (gWidth s)" "unat (bannerHeight s) \<le> y" "y < unat (gHeight s)"
    and "ind = of_nat (x + y * unat (gRowPixels s))"
  shows "draws s (put_pixel ind colour s)"
  using assms by (auto simp: draws_def put_pixel_def area_def)

lemma put_pixel_cursor [simp]:
  "x_cursor (put_pixel ind colour s) = x_cursor s" "y_cursor (put_pixel ind colour s) = y_cursor s"
  by (simp_all add: put_pixel_def)

lemma fill_draws:
  assumes "bannerHeight s \<le> from"
  shows "draws s (screen_fill_rows from to s) \<and> x_cursor (screen_fill_rows from to s) = x_cursor s \<and>
    y_cursor (screen_fill_rows from to s) = y_cursor s"
proof -
  let ?P = "\<lambda>t. x_cursor t = x_cursor s \<and> y_cursor t = y_cursor s"
  let ?row = "\<lambda>y t. fold (\<lambda>x s. put_pixel (of_nat x + of_nat y * gRowPixels s) (basecolor s) s)
             [0..<unat (gWidth s)] t"
  have row: "draws t (?row y t) \<and> ?P (?row y t)"
    if y: "y \<in> set [unat from..<min (unat to) (unat (gHeight s))]" and t: "draws s t" "?P t" for y t
  proof (rule draws_fold [where P = ?P])
    fix x u assume x: "x \<in> set [0..<unat (gWidth s)]" and u: "draws t u" "?P u"
    have d: "draws s u" by (rule draws_trans [OF t(1) u(1)])
    have "draws u (put_pixel (of_nat x + of_nat y * gRowPixels u) (basecolor u) u)"
      using x y assms d by (intro put_pixel_draws [of x _ y]) (auto simp: draws_def word_le_nat_alt)
    then show "draws u (put_pixel (of_nat x + of_nat y * gRowPixels u) (basecolor u) u) \<and>
      ?P (put_pixel (of_nat x + of_nat y * gRowPixels u) (basecolor u) u)"
      using u(2) by simp
  qed (use t in simp)
  have "draws s (fold ?row [unat from..<min (unat to) (unat (gHeight s))] s) \<and>
      ?P (fold ?row [unat from..<min (unat to) (unat (gHeight s))] s)"
    by (rule draws_fold) (use row in blast)+
  then show ?thesis by (simp add: screen_fill_rows_def draws_refl)
qed

lemma scale_units:
  "unat (SCALE_FACTOR s) = unat (scale_factor s)" "unat (8 * SCALE_FACTOR s) = 8 * unat (scale_factor s)"
  "unat (LEFT_MARGIN s) = 4 * unat (scale_factor s)" "unat (ROW_HEIGHT s) = 1 + 8 * unat (scale_factor s)"
  "unat (2 * ROW_HEIGHT s) = 2 + 16 * unat (scale_factor s)"
proof -
  have b: "unat (scale_factor s) < 256" using unsigned_less [of "scale_factor s"] by simp
  then have "unat (ucast (scale_factor s) :: u32) = unat (scale_factor s)"
    by (simp add: unsigned_ucast_eq take_bit_nat_eq_self)
  with b show "unat (SCALE_FACTOR s) = unat (scale_factor s)"
    "unat (8 * SCALE_FACTOR s) = 8 * unat (scale_factor s)"
    "unat (LEFT_MARGIN s) = 4 * unat (scale_factor s)" "unat (ROW_HEIGHT s) = 1 + 8 * unat (scale_factor s)"
    "unat (2 * ROW_HEIGHT s) = 2 + 16 * unat (scale_factor s)"
    by (simp_all add: SCALE_FACTOR_def LEFT_MARGIN_def ROW_HEIGHT_def unat_word_ariths)
qed

lemma glyph_draws:
  assumes "unat (x_cursor s) + 8 * unat (scale_factor s) \<le> unat (gWidth s)"
    and "unat (y_cursor s) + 8 * unat (scale_factor s) \<le> unat (gHeight s)" and "bannerHeight s \<le> y_cursor s"
  shows "draws s (draw_glyph font c s) \<and> x_cursor (draw_glyph font c s) = x_cursor s \<and>
    y_cursor (draw_glyph font c s) = y_cursor s"
proof -
  let ?P = "\<lambda>t. x_cursor t = x_cursor s \<and> y_cursor t = y_cursor s"
  have n: "unat (8 * SCALE_FACTOR s) = 8 * unat (scale_factor s)"
    by (rule scale_units)
  have px: "draws t (glyph_pixel font c x y t) \<and> ?P (glyph_pixel font c x y t)"
    if "x < 8 * unat (scale_factor s)" "y < 8 * unat (scale_factor s)" "draws s t" "?P t" for x y t
  proof -
    have i: "(of_nat x + x_cursor t) + (of_nat y + y_cursor t) * gRowPixels t =
        of_nat ((x + unat (x_cursor s)) + (y + unat (y_cursor s)) * unat (gRowPixels t))"
      using that(4) by simp
    have "draws t (put_pixel ((of_nat x + x_cursor t) + (of_nat y + y_cursor t) * gRowPixels t) col t)" for col
      using that assms
      by (intro put_pixel_draws [OF _ _ _ i]) (auto simp: draws_def word_le_nat_alt)
    with that(4) show ?thesis by (simp add: glyph_pixel_def Let_def draws_refl)
  qed
  show ?thesis
    unfolding draw_glyph_def n
  proof (rule draws_fold [where P = ?P], rule draws_fold [where P = ?P])
    fix x t y u
    assume "x \<in> set [0..<8 * unat (scale_factor s)]" "y \<in> set [0..<8 * unat (scale_factor s)]"
      "draws s t" "draws t u" "?P u"
    then show "draws u (glyph_pixel font c x y u) \<and> ?P (glyph_pixel font c x y u)"
      by (intro px) (auto intro: draws_trans)
  qed simp_all
qed

lemma console_bounds:
  assumes "console_ok s"
  shows "unat (y_cursor s) < 2 ^ 30" "unat (x_cursor s) < 2 ^ 30" "unat (scale_factor s) < 256"
    "0 < unat (scale_factor s)"
proof -
  have z: "0 < unat (scale_factor s)" using assms by (simp add: console_ok_def word_less_nat_alt)
  then have pos: "0 < unat (gRowPixels s)" "0 < unat (gHeight s)"
    using assms by (auto simp: console_ok_def word_le_nat_alt)
  have m: "unat (gRowPixels s) * unat (gHeight s) < 2 ^ 30" using assms by (simp add: console_ok_def)
  have "unat (gHeight s) \<le> unat (gRowPixels s) * unat (gHeight s)" "unat (gRowPixels s) \<le> unat (gRowPixels s) * unat (gHeight s)"
    using pos by simp_all
  then have "unat (gHeight s) < 2 ^ 30" "unat (gRowPixels s) < 2 ^ 30" using m by linarith+
  then show "unat (y_cursor s) < 2 ^ 30" "unat (x_cursor s) < 2 ^ 30"
    using assms by (auto simp: console_ok_def word_le_nat_alt)
  show "0 < unat (scale_factor s)" "unat (scale_factor s) < 256"
    using z unsigned_less [of "scale_factor s"] by simp_all
qed

lemma console_frame:
  "draws s t \<Longrightarrow> console_ok t \<longleftrightarrow> console_ok (s\<lparr>y_cursor := y_cursor t, x_cursor := x_cursor t\<rparr>)"
  by (simp add: draws_def console_ok_def)

lemma draws_cursor: "draws s t \<Longrightarrow> draws (s\<lparr>y_cursor := y, x_cursor := x\<rparr>) t \<and> draws s (t\<lparr>y_cursor := y, x_cursor := x\<rparr>)"
  by (simp add: draws_def area_def)

lemma clear_row_ok:
  assumes "console_ok (s\<lparr>y_cursor := y, x_cursor := x\<rparr>)"
  shows "draws s (screen_clear_row (s\<lparr>y_cursor := y, x_cursor := x\<rparr>)) \<and>
    console_ok (screen_clear_row (s\<lparr>y_cursor := y, x_cursor := x\<rparr>)) \<and>
    x_cursor (screen_clear_row (s\<lparr>y_cursor := y, x_cursor := x\<rparr>)) = x"
proof -
  let ?s = "s\<lparr>y_cursor := y, x_cursor := x\<rparr>"
  have "draws ?s (screen_clear_row ?s)" "x_cursor (screen_clear_row ?s) = x" "y_cursor (screen_clear_row ?s) = y"
    using assms fill_draws [of ?s "y_cursor ?s" "y_cursor ?s + ROW_HEIGHT ?s"]
    by (simp_all add: screen_clear_row_def console_ok_def)
  moreover have "draws s ?s" using draws_cursor [OF draws_refl] by blast
  ultimately show ?thesis using assms draws_trans console_frame [of ?s "screen_clear_row ?s"] by auto
qed

lemma new_row_ok:
  assumes "console_ok s"
  shows "draws s (new_row s) \<and> console_ok (new_row s) \<and> x_cursor (new_row s) = LEFT_MARGIN s"
proof -
  define y where "y = (if gHeight s < y_cursor s + 2 * ROW_HEIGHT s then bannerHeight s else y_cursor s + ROW_HEIGHT s)"
  note b = console_bounds [OF assms]
  have "unat (y_cursor s + ROW_HEIGHT s) = unat (y_cursor s) + (1 + 8 * unat (scale_factor s))"
    "unat (y_cursor s + 2 * ROW_HEIGHT s) = unat (y_cursor s) + (2 + 16 * unat (scale_factor s))"
    using b(1,3) by (simp_all add: unat_word_ariths(1) scale_units)
  then have "console_ok (s\<lparr>y_cursor := y, x_cursor := LEFT_MARGIN s\<rparr>)"
    using assms b by (auto simp: y_def console_ok_def word_le_nat_alt word_less_nat_alt scale_units)
  from clear_row_ok [OF this] show ?thesis by (simp add: new_row_def Let_def y_def)
qed

lemma putc_ok:
  assumes "console_ok s"
  shows "draws s (screen_putc font c s) \<and> console_ok (screen_putc font c s)"
proof -
  have left: "LEFT_MARGIN s \<le> gWidth s"
    using assms by (simp add: console_ok_def word_le_nat_alt scale_units)
  define s1 where "s1 = (if c = 10 \<or> gWidth s - LEFT_MARGIN s < x_cursor s + 8 * SCALE_FACTOR s then new_row s else s)"
  have s1: "draws s s1" "console_ok s1"
    using new_row_ok [OF assms] assms by (auto simp: s1_def draws_refl)
  have fit: "unat (x_cursor s1) + 8 * unat (scale_factor s1) \<le> unat (gWidth s1)"
  proof (cases "c = 10 \<or> gWidth s - LEFT_MARGIN s < x_cursor s + 8 * SCALE_FACTOR s")
    case True
    then have "x_cursor s1 = LEFT_MARGIN s" using new_row_ok [OF assms] by (simp add: s1_def)
    then show ?thesis using s1 by (simp add: draws_def console_ok_def scale_units)
  next
    case False
    have "unat (x_cursor s + 8 * SCALE_FACTOR s) = unat (x_cursor s) + 8 * unat (scale_factor s)"
      using console_bounds [OF assms] by (simp add: unat_word_ariths(1) scale_units)
    then show ?thesis
      using False left by (auto simp: s1_def word_less_nat_alt unat_sub not_less)
  qed
  consider "gFramebuffer s = 0" | "gFramebuffer s \<noteq> 0" "c = 8" | "gFramebuffer s \<noteq> 0" "c = 10"
    | "gFramebuffer s \<noteq> 0" "c = 13" | "gFramebuffer s \<noteq> 0" "c \<noteq> 8" "c \<noteq> 10" "c \<noteq> 13" by blast
  then show ?thesis
  proof cases
    case 1 then show ?thesis using assms by (simp add: screen_putc_def draws_refl)
  next
    case 2
    have x: "(if 8 * SCALE_FACTOR s < x_cursor s then x_cursor s - 8 * SCALE_FACTOR s else 0) \<le> gWidth s"
      using assms by (auto simp: console_ok_def word_le_nat_alt word_less_nat_alt unat_sub)
    have "draws s (s\<lparr>x_cursor := z\<rparr>)" "z \<le> gWidth s \<Longrightarrow> console_ok (s\<lparr>x_cursor := z\<rparr>)" for z
      using assms by (simp_all add: draws_def console_ok_def)
    then show ?thesis using 2 x left by (simp add: screen_putc_def Let_def)
  next
    case 3 then show ?thesis using s1 by (simp add: screen_putc_def s1_def Let_def)
  next
    case 4
    have e: "s1\<lparr>y_cursor := y_cursor s1, x_cursor := LEFT_MARGIN s1\<rparr> = s1\<lparr>x_cursor := LEFT_MARGIN s1\<rparr>" by simp
    have "console_ok (s1\<lparr>y_cursor := y_cursor s1, x_cursor := LEFT_MARGIN s1\<rparr>)"
      using s1(2) by (simp add: console_ok_def word_le_nat_alt scale_units)
    note c = clear_row_ok [OF this, unfolded e]
    show ?thesis
      using 4 c draws_trans [OF s1(1)] unfolding screen_putc_def s1_def [symmetric] Let_def by simp
  next
    case 5
    have "draws s1 (draw_glyph font c s1)" "x_cursor (draw_glyph font c s1) = x_cursor s1"
      "y_cursor (draw_glyph font c s1) = y_cursor s1"
      using glyph_draws [OF fit, of font c] s1(2) by (simp_all add: console_ok_def)
    then have g: "draws s1 (draw_glyph font c s1)"
      "console_ok ((draw_glyph font c s1)\<lparr>x_cursor := x_cursor (draw_glyph font c s1) + 8 * SCALE_FACTOR (draw_glyph font c s1)\<rparr>)"
      using s1(2) fit console_bounds [OF s1(2)]
      by (simp_all add: console_ok_def draws_def SCALE_FACTOR_def [of "draw_glyph font c s1"]
          SCALE_FACTOR_def [of s1, symmetric] word_le_nat_alt unat_word_ariths(1) scale_units)
    have "draws s (t\<lparr>x_cursor := z\<rparr>)" if "draws s t" for t z
      using that by (simp add: draws_def)
    with g draws_trans [OF s1(1) g(1)] 5 show ?thesis
      unfolding screen_putc_def s1_def [symmetric] Let_def by simp
  qed
qed

lemma mark_banner_ok: "console_ok s \<Longrightarrow> console_ok (screen_mark_banner s)"
  by (simp add: screen_mark_banner_def console_ok_def)

lemma init_ok:
  assumes "0 < scale" "16 * unat scale \<le> unat width" "width \<le> row_pixels" "8 * unat scale \<le> unat height"
    and "unat row_pixels * unat height < 2 ^ 30"
  shows "console_ok (screen_init fb row_pixels x0 y0 width height scale base op s)"
proof -
  define s1 where "s1 = s\<lparr>opaque := op, gFramebuffer := fb + 2 * (x0 + y0 * row_pixels), gRowPixels := row_pixels,
    gWidth := width, gHeight := height, scale_factor := scale, basecolor := base, fgcolor := NOT base,
    bannerHeight := 0, y_cursor := 0\<rparr>"
  define s2 where "s2 = s1\<lparr>x_cursor := LEFT_MARGIN s1\<rparr>"
  have e: "screen_init fb row_pixels x0 y0 width height scale base op s =
      (screen_fill_rows 0 height s2)\<lparr>y_cursor := 0\<rparr>"
    by (simp add: screen_init_def screen_clear_all_def Let_def s1_def s2_def LEFT_MARGIN_def)
  have "draws s2 (screen_fill_rows 0 height s2)" "x_cursor (screen_fill_rows 0 height s2) = LEFT_MARGIN s1"
    using fill_draws [of s2 0 height] by (simp_all add: s2_def s1_def)
  then show ?thesis
    using assms unfolding e
    by (simp add: console_ok_def draws_def s2_def s1_def word_le_nat_alt scale_units)
qed

text \<open>C19: Whatever text is printed, the console stores only to pixels of its rectangle, from the row below
  its banner on, and keeps its cursor where the next character fits.\<close>

theorem screen_write_inside:
  assumes "console_ok s"
  shows "console_ok (screen_write font str s) \<and>
    (\<forall>a. pixels (screen_write font str s) a \<noteq> pixels s a \<longrightarrow> a \<in> area s (unat (bannerHeight s)))"
proof -
  have "draws s (screen_write font str s) \<and> console_ok (screen_write font str s)"
    unfolding screen_write_def by (rule draws_fold) (use assms putc_ok in blast)+
  then show ?thesis by (auto simp: draws_def)
qed

text \<open>The console of the second stage, over the whole panel.\<close>

theorem screen_write_inside_witness:
  "let s = screen_init 0x33B00000 800 0 0 800 480 1 0 False
         \<lparr>gFramebuffer = 0, gWidth = 0, gHeight = 0, gRowPixels = 0, y_cursor = 0, x_cursor = 0, scale_factor = 0,
          bannerHeight = 0, basecolor = 0, fgcolor = 0, opaque = False, pixels = \<lambda>_. 0\<rparr>
   in console_ok (screen_write (\<lambda>_ _. 0x55) (cs ''nkpf'') (screen_mark_banner s))"
  unfolding Let_def
  by (intro screen_write_inside [THEN conjunct1] mark_banner_ok init_ok) simp_all

end
