(* ===== verification/CfwPrint.thy ===== *)
theory CfwPrint
  imports Sink
begin

text \<open>
  The console of the CFW patcher (cfw/core/printf.c). The characters that \<open>out\<close> gives to the boot log
  and to the screen are the list \<open>console\<close>; the stores of those two into the log window and the
  framebuffer are not part of \<open>cmem\<close>. A panic of the first stage leaves its text in the result that
  aipc-boot reads. \<open>panic\<close> does not return: callers give \<open>None\<close>.
\<close>

section \<open>State\<close>

datatype cfw_stage = CFW_EBOOT | CFW_NK

text \<open>\<open>message\<close> and \<open>status\<close> are \<open>*cfw_eboot_result\<close>; \<open>captured\<close> is what was stored through \<open>capture\<close>
  since it was set.\<close>

record con_st =
  cmem :: mem
  stage :: cfw_stage
  console :: bytes
  captured :: bytes
  capture_left :: u32
  message :: bytes
  status :: int

datatype parg = A_int u32 | A_str bytes

definition MESSAGE_BYTES :: u32 where "MESSAGE_BYTES = 96"

section \<open>Output\<close>

definition out :: "u8 \<Rightarrow> 'z con_st_scheme \<Rightarrow> 'z con_st_scheme" where
  "out c s =
     (let s1 = s\<lparr>console := console s @ [c]\<rparr>
      in if 1 < capture_left s1
         then s1\<lparr>captured := captured s1 @ [c], message := captured s1 @ [c],
                 capture_left := capture_left s1 - 1\<rparr>
         else s1)"

text \<open>The digits of the loop \<open>do ... while (v)\<close>, the lowest first. No caller has a base below 2.\<close>

function num_digits :: "u32 \<Rightarrow> u32 \<Rightarrow> bytes" where
  "num_digits base v =
     (let d = v mod base; c = (if d < 10 then 48 + ucast d else 65 + ucast d - 10)
      in if base < 2 \<or> v div base = 0 then [c] else c # num_digits base (v div base))"
  by pat_completeness auto
termination
proof (relation "measure (\<lambda>(base, v). unat v)", simp)
  fix base v d :: u32 and c :: u8
  assume a: "\<not> (base < 2 \<or> v div base = 0)"
  then have "2 \<le> unat base" by (simp add: word_less_nat_alt)
  moreover have "0 < unat v" using a by (cases "v = 0") (auto simp: unat_gt_0)
  ultimately have "unat (v div base) < unat v" by (simp add: unat_div)
  then show "((base, v div base), (base, v)) \<in> measure (\<lambda>(base, v). unat v)" by simp
qed

declare num_digits.simps [simp del]

definition out_num :: "u32 \<Rightarrow> u32 \<Rightarrow> u32 \<Rightarrow> u8 \<Rightarrow> 'z con_st_scheme \<Rightarrow> 'z con_st_scheme" where
  "out_num v base width pad =
     (let ds = num_digits base v
      in fold out (rev ds) \<circ> fold out (replicate (unat width - length ds) pad))"

definition is_digit :: "u8 \<Rightarrow> bool" where
  "is_digit c \<longleftrightarrow> 48 \<le> c \<and> c \<le> 57"

definition arg_int :: "parg list \<Rightarrow> u32" where
  "arg_int as = (case as of A_int v # _ \<Rightarrow> v | _ \<Rightarrow> 0)"

definition arg_str :: "parg list \<Rightarrow> bytes" where
  "arg_str as = (case as of A_str t # _ \<Rightarrow> t | _ \<Rightarrow> [])"

text \<open>One conversion, without its \<open>%\<close>, flag and width. An argument of the wrong kind is undefined in C.\<close>

definition convert :: "u8 \<Rightarrow> u32 \<Rightarrow> u8 \<Rightarrow> parg list \<Rightarrow> 'z con_st_scheme \<Rightarrow> parg list \<times> 'z con_st_scheme" where
  "convert c width pad as s =
     (if c = of_char CHR ''c'' then (tl as, out (ucast (arg_int as)) s)
      else if c = of_char CHR ''s'' then (tl as, fold out (arg_str as) s)
      else if c = of_char CHR ''u'' then (tl as, out_num (arg_int as) 10 width pad s)
      else if c = of_char CHR ''x'' \<or> c = of_char CHR ''X'' then (tl as, out_num (arg_int as) 16 width pad s)
      else if c = of_char CHR ''p''
      then (tl as, out_num (arg_int as) 16 8 (of_char CHR ''0'') (out (of_char CHR ''x'') (out (of_char CHR ''0'') s)))
      else if c = of_char CHR ''%'' then (as, out c s)
      else (as, out (of_char CHR ''?'') s))"

definition width_of :: "bytes \<Rightarrow> u32" where
  "width_of ds = fold (\<lambda>c w. w * 10 + (ucast c - 48)) ds 0"

text \<open>No format of the sources ends within a conversion.\<close>

function vprintf :: "bytes \<Rightarrow> parg list \<Rightarrow> 'z con_st_scheme \<Rightarrow> 'z con_st_scheme" where
  "vprintf fmt as s =
     (case fmt of
        [] \<Rightarrow> s
      | c # f \<Rightarrow>
          if c \<noteq> of_char CHR ''%'' then vprintf f as (out c s)
          else
            let pad = (case f of d # _ \<Rightarrow> if d = 48 then 48 else 32 | [] \<Rightarrow> 32);
                width = width_of (takeWhile is_digit f)
            in (case dropWhile is_digit f of
                  [] \<Rightarrow> out (of_char CHR ''?'') s
                | d # g \<Rightarrow> let (as', s') = convert d width pad as s in vprintf g as' s'))"
  by pat_completeness auto
termination
proof (relation "measure (\<lambda>(fmt, as, s). length fmt)", simp, simp, goal_cases)
  case (1 fmt as s c f pad w d g p as' s')
  have "length (dropWhile is_digit f) \<le> length f" by (rule length_dropWhile_le)
  with 1 show ?case by simp
qed

declare vprintf.simps [simp del]

definition printf :: "string \<Rightarrow> parg list \<Rightarrow> 'z con_st_scheme \<Rightarrow> 'z con_st_scheme" where
  "printf fmt as = vprintf (cs fmt) as"

text \<open>What \<open>panic\<close> leaves, up to \<open>cfw_eboot_return\<close> or the endless loop.\<close>

definition panic :: "string \<Rightarrow> parg list \<Rightarrow> 'z con_st_scheme \<Rightarrow> 'z con_st_scheme" where
  "panic fmt as s =
     (if stage s = CFW_EBOOT
      then let s1 = (printf ''panic: '' [] s)\<lparr>captured := [], capture_left := MESSAGE_BYTES\<rparr>;
               s2 = (vprintf (cs fmt) as s1)\<lparr>capture_left := 0\<rparr>
           in (out 10 s2)\<lparr>status := - 1\<rparr>
      else printf ''System halted.'' [] (out 10 (vprintf (cs fmt) as (printf ''panic: '' [] (out 10 s)))))"

section \<open>The text of a format\<close>

text \<open>The capture is a sink that is full one byte before the end, for the terminator.\<close>

definition capture_room :: "'z con_st_scheme \<Rightarrow> nat" where
  "capture_room s = unat (capture_left s) - 1"

interpretation capture_sink: bounded_sink out captured capture_room "\<lambda>_. True"
proof
  fix s :: "'z con_st_scheme" and c
  have "unat (capture_left s - 1) = unat (capture_left s) - 1" if "1 < capture_left s"
    using that by (simp add: unat_sub word_le_nat_alt word_less_nat_alt)
  then show "captured (out c s) = (if capture_room s = 0 then captured s else captured s @ [c])"
    "capture_room (out c s) = capture_room s - 1"
    by (auto simp: out_def capture_room_def Let_def word_less_nat_alt)
qed simp_all

definition num_text :: "u32 \<Rightarrow> u32 \<Rightarrow> u32 \<Rightarrow> u8 \<Rightarrow> bytes" where
  "num_text v base width pad =
     replicate (unat width - length (num_digits base v)) pad @ rev (num_digits base v)"

lemma out_num_fold: "out_num v base width pad s = fold out (num_text v base width pad) s"
  by (simp add: out_num_def num_text_def Let_def)

text \<open>The characters of a conversion and of a format, as a function of the arguments.\<close>

definition convert_text :: "u8 \<Rightarrow> u32 \<Rightarrow> u8 \<Rightarrow> parg list \<Rightarrow> bytes" where
  "convert_text c width pad as =
     (if c = of_char CHR ''c'' then [ucast (arg_int as)]
      else if c = of_char CHR ''s'' then arg_str as
      else if c = of_char CHR ''u'' then num_text (arg_int as) 10 width pad
      else if c = of_char CHR ''x'' \<or> c = of_char CHR ''X'' then num_text (arg_int as) 16 width pad
      else if c = of_char CHR ''p'' then cs ''0x'' @ num_text (arg_int as) 16 8 48
      else if c = of_char CHR ''%'' then [c]
      else cs ''?'')"

definition convert_args :: "u8 \<Rightarrow> parg list \<Rightarrow> parg list" where
  "convert_args c as = (if c \<in> set (cs ''csuxXp'') then tl as else as)"

lemma convert_fold: "convert c width pad as s = (convert_args c as, fold out (convert_text c width pad as) s)"
  by (auto simp: convert_def convert_text_def convert_args_def out_num_fold)

function format_text :: "bytes \<Rightarrow> parg list \<Rightarrow> bytes" where
  "format_text fmt as =
     (case fmt of
        [] \<Rightarrow> []
      | c # f \<Rightarrow>
          if c \<noteq> of_char CHR ''%'' then c # format_text f as
          else
            let pad = (case f of d # _ \<Rightarrow> if d = 48 then 48 else 32 | [] \<Rightarrow> 32);
                width = width_of (takeWhile is_digit f)
            in (case dropWhile is_digit f of
                  [] \<Rightarrow> cs ''?''
                | d # g \<Rightarrow> convert_text d width pad as @ format_text g (convert_args d as)))"
  by pat_completeness auto
termination
proof (relation "measure (\<lambda>(fmt, as). length fmt)", simp, simp, goal_cases)
  case (1 fmt as c f pad w d g)
  have "length (dropWhile is_digit f) \<le> length f" by (rule length_dropWhile_le)
  with 1 show ?case by simp
qed

declare format_text.simps [simp del]

lemma vprintf_text: "vprintf fmt as s = fold out (format_text fmt as) s"
proof (induction fmt as s rule: vprintf.induct)
  case (1 fmt as s)
  show ?case
  proof (cases fmt)
    case (Cons c f)
    show ?thesis
    proof (cases "c = of_char CHR ''%''")
      case False
      with 1(1) [OF Cons False] Cons show ?thesis
        by (simp add: vprintf.simps [of "x # y" for x y] format_text.simps [of "x # y" for x y])
    next
      case True
      show ?thesis
      proof (cases "dropWhile is_digit f")
        case (Cons d g)
        from 1(2) [OF \<open>fmt = c # f\<close> _ refl refl Cons refl convert_fold [symmetric]] True show ?thesis
          using Cons unfolding \<open>fmt = c # f\<close>
          by (simp add: vprintf.simps [of "x # y" for x y] format_text.simps [of "x # y" for x y] convert_fold Let_def)
      next
        case Nil
        then show ?thesis
          using True unfolding \<open>fmt = c # f\<close>
          by (simp add: vprintf.simps [of "x # y" for x y] format_text.simps [of "x # y" for x y]
              del: dropWhile_eq_Nil_conv)
      qed
    qed
  qed (simp add: vprintf.simps format_text.simps)
qed

lemma out_fields [simp]:
  "cmem (out c s) = cmem s" "stage (out c s) = stage s" "status (out c s) = status s"
  "console (out c s) = console s @ [c]" "con_st.more (out c s) = con_st.more s"
  by (simp_all add: out_def Let_def)

lemma fold_out_fields [simp]:
  "cmem (fold out xs s) = cmem s" "stage (fold out xs s) = stage s" "status (fold out xs s) = status s"
  "console (fold out xs s) = console s @ xs" "con_st.more (fold out xs s) = con_st.more s"
  by (induction xs arbitrary: s) simp_all

lemma fold_out_message:
  "message s = captured s \<or> captured s = [] \<Longrightarrow> 1 < capture_left s \<Longrightarrow> xs \<noteq> [] \<Longrightarrow>
   message (fold out xs s) = captured (fold out xs s)"
proof (induction xs arbitrary: s)
  case (Cons c xs)
  have m: "message (out c s) = captured (out c s)"
    using Cons.prems(2) by (simp add: out_def Let_def)
  have "message t = captured t \<Longrightarrow> message (fold out ys t) = captured (fold out ys t)" for ys and t :: "'z con_st_scheme"
    by (induction ys arbitrary: t) (simp_all add: out_def Let_def)
  from this [OF m, of xs] show ?case by simp
qed simp

section \<open>Properties\<close>

text \<open>C33: A panic of the first stage leaves in the result the status -1 and the formatted text, cut to
  what fits the 96 bytes of the message with its terminator, and never stores behind them.\<close>

theorem panic_message:
  assumes "stage s = CFW_EBOOT" and "format_text (cs fmt) as \<noteq> []"
  shows "status (panic fmt as s) = - 1 \<and> message (panic fmt as s) = take 95 (format_text (cs fmt) as) \<and>
    cmem (panic fmt as s) = cmem s"
proof -
  define s1 where "s1 = (printf ''panic: '' [] s)\<lparr>captured := [], capture_left := MESSAGE_BYTES\<rparr>"
  define s2 where "s2 = vprintf (cs fmt) as s1"
  have s1: "captured s1 = []" "capture_room s1 = 95" "1 < capture_left s1" "cmem s1 = cmem s"
    by (simp_all add: s1_def capture_room_def MESSAGE_BYTES_def printf_def vprintf_text)
  have "message s2 = captured s2"
    unfolding s2_def vprintf_text using s1 assms(2) by (intro fold_out_message) simp_all
  moreover have "captured s2 = take 95 (format_text (cs fmt) as)"
    unfolding s2_def vprintf_text using capture_sink.view_fold [where s = s1] s1 by simp
  moreover have "panic fmt as s = (out 10 (s2\<lparr>capture_left := 0\<rparr>))\<lparr>status := - 1\<rparr>"
    using assms(1) by (simp add: panic_def Let_def s1_def s2_def)
  moreover have "cmem s2 = cmem s" unfolding s2_def vprintf_text using s1 by simp
  ultimately show ?thesis by (simp add: out_def Let_def)
qed

theorem panic_message_witness:
  "let s = \<lparr>cmem = \<lambda>_. 0, stage = CFW_EBOOT, console = [], captured = [], capture_left = 0, message = [], status = 0\<rparr>
   in status (panic ''Missing patch: %s'' [A_str (cs ''irq'')] s) = - 1 \<and>
      message (panic ''Missing patch: %s'' [A_str (cs ''irq'')] s) = cs ''Missing patch: irq''"
proof -
  let ?s = "\<lparr>cmem = \<lambda>_. 0, stage = CFW_EBOOT, console = [], captured = [], capture_left = 0, message = [], status = 0\<rparr>"
  have "format_text (cs ''Missing patch: %s'') [A_str (cs ''irq'')] = cs ''Missing patch: irq''"
    by (simp add: format_text.simps convert_text_def convert_args_def arg_str_def is_digit_def)
  with panic_message [of ?s "''Missing patch: %s''" "[A_str (cs ''irq'')]"] show ?thesis by simp
qed

end
