(* ===== verification/Pf.thy ===== *)
theory Pf
  imports CfwPrint Hw
begin

text \<open>
  The patch finder (lib/pf.c): it scans a range of words for masked patterns and calls back where one
  matches. A callback is a tag with an interpreter, because the structures hold function pointers.
  A program gives \<open>None\<close> when it has panicked. The patchset is the list of its patches, from
  \<open>patch_head\<close> on; the memory that \<open>malloc\<close> of cfw/core/core.c hands out is only counted.
\<close>

section \<open>State\<close>

record 'cb pf_patch =
  pf_callback :: 'cb
  is_required :: bool
  has_fired :: bool
  should_match :: bool
  pairs :: "(u32 \<times> u32) list"
  pf_name :: bytes

record pf_range =
  va :: u32
  rsize :: u32
  cacheable_base :: u32

record 'cb pf_st = con_st +
  set_patches :: "'cb pf_patch list"
  set_required :: bool
  arena_used :: u32

type_synonym ('cb, 'z, 'a) pf = "(('cb, 'z) pf_st_scheme, 'a) state"

definition panicM :: "string \<Rightarrow> parg list \<Rightarrow> ('cb, 'z, 'a option) pf" where
  "panicM fmt as = do { modify (panic fmt as); State_Monad.return None }"

definition ARENA_SIZE :: u32 where "ARENA_SIZE = 4096"

definition malloc :: "u32 \<Rightarrow> ('cb, 'z, unit option) pf" where
  "malloc n = do {
     used \<leftarrow> gets arena_used;
     let k = (n + 7) AND NOT 7;
     if ARENA_SIZE - used < k then panicM ''cfw: out of memory'' []
     else do { modify (\<lambda>s. s\<lparr>arena_used := used + k\<rparr>); State_Monad.return (Some ()) } }"

section \<open>Patchsets\<close>

text \<open>\<open>sizeof\<close> of the two structures on the target.\<close>

definition PATCHSET_BYTES :: u32 where "PATCHSET_BYTES = 8"
definition MASKMATCH_BYTES :: u32 where "MASKMATCH_BYTES = 24"

definition pf_patchset_create :: "('cb, 'z, unit option) pf" where
  "pf_patchset_create = do {
     r \<leftarrow> malloc PATCHSET_BYTES;
     case r of None \<Rightarrow> State_Monad.return None
     | Some _ \<Rightarrow> do {
         modify (\<lambda>s. s\<lparr>set_patches := [], set_required := True\<rparr>);
         State_Monad.return (Some ()) } }"

text \<open>The index of the first word with a bit outside its mask.\<close>

fun bad_mask :: "nat \<Rightarrow> u32 list \<Rightarrow> u32 list \<Rightarrow> nat option" where
  "bad_mask i (m # ms) (k # ks) = (if m AND k \<noteq> m then Some i else bad_mask (i + 1) ms ks)"
| "bad_mask i _ _ = None"

definition pf_maskmatch :: "string \<Rightarrow> u32 list \<Rightarrow> u32 list \<Rightarrow> bool \<Rightarrow> 'cb \<Rightarrow> ('cb, 'z, unit option) pf" where
  "pf_maskmatch name matches masks required callback =
     (case bad_mask 0 matches masks of
        Some i \<Rightarrow> panicM ''Bad maskmatch: %s (index %u)'' [A_str (cs name), A_int (of_nat i)]
      | None \<Rightarrow> do {
          r \<leftarrow> malloc (MASKMATCH_BYTES + 8 * of_nat (length matches));
          case r of None \<Rightarrow> State_Monad.return None
          | Some _ \<Rightarrow> do {
              modify (\<lambda>s. s\<lparr>set_patches := \<lparr>pf_callback = callback, is_required = required, has_fired = False,
                should_match = True, pairs = zip matches masks, pf_name = cs name\<rparr> # set_patches s\<rparr>);
              State_Monad.return (Some ()) } })"

definition pf_disable_patch :: "'cb pf_patch \<Rightarrow> 'cb pf_patch" where
  "pf_disable_patch p = p\<lparr>should_match := False\<rparr>"

definition pf_enable_patch :: "'cb pf_patch \<Rightarrow> 'cb pf_patch" where
  "pf_enable_patch p = p\<lparr>should_match := True\<rparr>"

definition pf_ptr_to_va :: "pf_range \<Rightarrow> u32 \<Rightarrow> u32" where
  "pf_ptr_to_va rng p = va rng + (p - cacheable_base rng)"

section \<open>Matching\<close>

text \<open>Short patterns are compared with the eight words that were read ahead, longer ones with memory.
  \<open>i\<close> is the loop index.\<close>

fun pf_maskmatch_match_32 :: "nat \<Rightarrow> u32 list \<Rightarrow> mem \<Rightarrow> u32 \<Rightarrow> nat \<Rightarrow> (u32 \<times> u32) list \<Rightarrow> bool" where
  "pf_maskmatch_match_32 cnt preread m stream i [] = True"
| "pf_maskmatch_match_32 cnt preread m stream i ((v, k) # ps) =
     (if (if cnt < 8 then preread ! i else ld32 m (stream + 4 * of_nat i)) AND k \<noteq> v then False
      else pf_maskmatch_match_32 cnt preread m stream (i + 1) ps)"

definition pf_maskmatch_match ::
  "('cb \<Rightarrow> nat \<Rightarrow> u32 \<Rightarrow> ('cb, 'z, bool option) pf) \<Rightarrow> nat \<Rightarrow> u32 list \<Rightarrow> u32 \<Rightarrow> ('cb, 'z, unit option) pf" where
  "pf_maskmatch_match run j preread stream = do {
     p \<leftarrow> gets (\<lambda>s. set_patches s ! j);
     m \<leftarrow> gets cmem;
     if pf_maskmatch_match_32 (length (pairs p)) preread m stream 0 (pairs p)
     then do {
       r \<leftarrow> run (pf_callback p) j stream;
       case r of None \<Rightarrow> State_Monad.return None
       | Some fired \<Rightarrow> do {
           whenM fired (modify (\<lambda>s. s\<lparr>set_patches := (set_patches s)[j := (set_patches s ! j)\<lparr>has_fired := True\<rparr>]\<rparr>));
           State_Monad.return (Some ()) } }
     else State_Monad.return (Some ()) }"

text \<open>\<open>while (patch)\<close>; the list holds the indices of the patches.\<close>

fun pf_match_all ::
  "('cb \<Rightarrow> nat \<Rightarrow> u32 \<Rightarrow> ('cb, 'z, bool option) pf) \<Rightarrow> nat list \<Rightarrow> u32 list \<Rightarrow> u32 \<Rightarrow> ('cb, 'z, unit option) pf" where
  "pf_match_all run [] preread stream = State_Monad.return (Some ())"
| "pf_match_all run (j # js) preread stream = do {
     p \<leftarrow> gets (\<lambda>s. set_patches s ! j);
     r \<leftarrow> (if should_match p then pf_maskmatch_match run j preread stream else State_Monad.return (Some ()));
     case r of None \<Rightarrow> State_Monad.return None | Some _ \<Rightarrow> pf_match_all run js preread stream }"

text \<open>The loop over the range; the list holds the values of \<open>index\<close>.\<close>

fun pf_scan ::
  "('cb \<Rightarrow> nat \<Rightarrow> u32 \<Rightarrow> ('cb, 'z, bool option) pf) \<Rightarrow> u32 \<Rightarrow> u32 list \<Rightarrow> nat list \<Rightarrow> ('cb, 'z, unit option) pf" where
  "pf_scan run base reads [] = State_Monad.return (Some ())"
| "pf_scan run base reads (i # is) = do {
     n \<leftarrow> gets (\<lambda>s. length (set_patches s));
     r \<leftarrow> pf_match_all run [0..<n] reads (base + 4 * of_nat i);
     case r of None \<Rightarrow> State_Monad.return None
     | Some _ \<Rightarrow> do {
         w \<leftarrow> gets (\<lambda>s. ld32 (cmem s) (base + 4 * of_nat (i + 8)));
         pf_scan run base (tl reads @ [w]) is } }"

definition pf_apply_32 ::
  "('cb \<Rightarrow> nat \<Rightarrow> u32 \<Rightarrow> ('cb, 'z, bool option) pf) \<Rightarrow> pf_range \<Rightarrow> ('cb, 'z, unit option) pf" where
  "pf_apply_32 run rng = do {
     reads \<leftarrow> gets (\<lambda>s. map (\<lambda>i. ld32 (cmem s) (cacheable_base rng + 4 * of_nat i)) [0..<8]);
     pf_scan run (cacheable_base rng) reads [0..<unat (drop_bit 2 (rsize rng))] }"

definition pf_apply ::
  "('cb \<Rightarrow> nat \<Rightarrow> u32 \<Rightarrow> ('cb, 'z, bool option) pf) \<Rightarrow> pf_range \<Rightarrow> ('cb, 'z, unit option) pf" where
  "pf_apply run rng = do {
     r \<leftarrow> pf_apply_32 run rng;
     case r of None \<Rightarrow> State_Monad.return None
     | Some _ \<Rightarrow> do {
         missing \<leftarrow> gets (\<lambda>s. if set_required s
           then find (\<lambda>p. is_required p \<and> \<not> has_fired p) (set_patches s) else None);
         case missing of None \<Rightarrow> State_Monad.return (Some ())
         | Some p \<Rightarrow> panicM ''Missing patch: %s'' [A_str (pf_name p)] } }"

definition pf_patchset_destroy :: "('cb, 'z, unit) pf" where
  "pf_patchset_destroy = modify (\<lambda>s. s\<lparr>set_patches := []\<rparr>)"

section \<open>A patch that must match once\<close>

definition pattern_at :: "(u32 \<times> u32) list \<Rightarrow> mem \<Rightarrow> u32 \<Rightarrow> bool" where
  "pattern_at ps m a \<longleftrightarrow> (\<forall>i < length ps. ld32 m (a + 4 * of_nat i) AND snd (ps ! i) = fst (ps ! i))"

lemma match_long:
  "8 \<le> cnt \<Longrightarrow> pf_maskmatch_match_32 cnt preread m a k ps \<longleftrightarrow> pattern_at ps m (a + 4 * of_nat k)"
proof (induction ps arbitrary: k)
  case (Cons p ps)
  have "pattern_at (p # ps) m b \<longleftrightarrow> ld32 m b AND snd p = fst p \<and> pattern_at ps m (b + 4)" for b
  proof -
    have "b + 4 * of_nat (Suc i) = b + 4 + 4 * of_nat i" for i by (simp add: algebra_simps)
    then show ?thesis by (auto simp: pattern_at_def All_less_Suc2 add.assoc simp del: of_nat_Suc)
  qed
  moreover have "a + 4 * of_nat (k + 1) = a + 4 * of_nat k + 4" by (simp add: algebra_simps)
  ultimately show ?case using Cons by (cases p) (simp add: add.assoc del: of_nat_Suc of_nat_add)
qed (simp add: pattern_at_def)

text \<open>A callback that turns matches down on a condition, panics on a second match, and changes memory.\<close>

definition once :: "('cb \<Rightarrow> nat \<Rightarrow> u32 \<Rightarrow> ('cb, 'z, bool option) pf) \<Rightarrow> 'cb \<Rightarrow> (u32 \<Rightarrow> mem \<Rightarrow> bool) \<Rightarrow>
    (u32 \<Rightarrow> mem \<Rightarrow> mem) \<Rightarrow> bool" where
  "once run cb cond eff \<longleftrightarrow> (\<forall>j a s.
     (\<not> cond a (cmem s) \<longrightarrow> run_state (run cb j a) s = (Some False, s)) \<and>
     (cond a (cmem s) \<and> has_fired (set_patches s ! j) \<longrightarrow> fst (run_state (run cb j a) s) = None) \<and>
     (cond a (cmem s) \<and> \<not> has_fired (set_patches s ! j) \<longrightarrow>
        (\<exists>s'. run_state (run cb j a) s = (Some True, s') \<and> cmem s' = eff a (cmem s) \<and>
           set_patches s' = set_patches s \<and> set_required s' = set_required s)))"

definition hit :: "'cb pf_patch \<Rightarrow> (u32 \<Rightarrow> mem \<Rightarrow> bool) \<Rightarrow> u32 \<Rightarrow> mem \<Rightarrow> nat \<Rightarrow> bool" where
  "hit p cond base m i \<longleftrightarrow>
     pattern_at (pairs p) m (base + 4 * of_nat i) \<and> cond (base + 4 * of_nat i) m"

text \<open>One index of the scan with a single long patch.\<close>

lemma scan_index:
  assumes o: "once run (pf_callback p) cond eff" and len: "8 \<le> length (pairs p)" and "should_match p"
    and set: "set_patches s = [p]"
  obtains (no) "\<not> hit p cond base (cmem s) i"
      "run_state (pf_match_all run [0..<length (set_patches s)] reads (base + 4 * of_nat i)) s = (Some (), s)"
    | (twice) t where "hit p cond base (cmem s) i" "has_fired p"
      "run_state (pf_match_all run [0..<length (set_patches s)] reads (base + 4 * of_nat i)) s = (None, t)"
    | (fire) t where "hit p cond base (cmem s) i" "\<not> has_fired p"
      "run_state (pf_match_all run [0..<length (set_patches s)] reads (base + 4 * of_nat i)) s = (Some (), t)"
      "cmem t = eff (base + 4 * of_nat i) (cmem s)" "set_patches t = [p\<lparr>has_fired := True\<rparr>]"
      "set_required t = set_required s"
proof -
  let ?a = "base + 4 * of_nat i"
  let ?run = "pf_match_all run [0..<length (set_patches s)] reads ?a"
  note defs = pf_maskmatch_match_def run_simps match_long [OF len, of reads "cmem s" ?a 0 "pairs p"]
  have m: "run_state ?run s = run_state (pf_maskmatch_match run 0 reads ?a) s \<or>
      run_state ?run s = run_state (pf_maskmatch_match run 0 reads ?a) s"
    using set assms(3) by (simp add: run_simps split: prod.splits option.splits)
  have e: "run_state ?run s = run_state (pf_maskmatch_match run 0 reads ?a) s" using m by blast
  consider "\<not> pattern_at (pairs p) (cmem s) ?a" | "pattern_at (pairs p) (cmem s) ?a" "\<not> cond ?a (cmem s)"
    | "pattern_at (pairs p) (cmem s) ?a" "cond ?a (cmem s)" "has_fired p"
    | "pattern_at (pairs p) (cmem s) ?a" "cond ?a (cmem s)" "\<not> has_fired p"
    by blast
  then show ?thesis
  proof cases
    case 1
    then show ?thesis using set assms(3) by (intro no) (simp_all only: e, simp_all add: hit_def defs)
  next
    case 2
    have "run_state (run (pf_callback p) 0 ?a) s = (Some False, s)"
      using o 2(2) unfolding once_def by blast
    then show ?thesis using 2 set assms(3) by (intro no) (simp_all only: e, simp_all add: hit_def defs)
  next
    case 3
    have "fst (run_state (run (pf_callback p) 0 ?a) s) = None"
      using o 3 set unfolding once_def by simp
    then obtain t where "run_state (run (pf_callback p) 0 ?a) s = (None, t)" by (metis prod.collapse)
    then show ?thesis using 3 set assms(3) by (intro twice [of t]) (simp_all only: e, simp_all add: hit_def defs)
  next
    case 4
    obtain t where t: "run_state (run (pf_callback p) 0 ?a) s = (Some True, t)" "cmem t = eff ?a (cmem s)"
      "set_patches t = [p]" "set_required t = set_required s"
      using o 4 set unfolding once_def by fastforce
    then show ?thesis using 4 set assms(3)
      by (intro fire [of "t\<lparr>set_patches := [p\<lparr>has_fired := True\<rparr>]\<rparr>"])
        (simp_all only: e, simp_all add: hit_def defs)
  qed
qed

lemma scan_fired:
  assumes o: "once run (pf_callback p) cond eff" and len: "8 \<le> length (pairs p)" and sm: "should_match p"
    and f: "has_fired p"
  shows "set_patches s = [p] \<Longrightarrow>
    (if \<exists>i \<in> set ks. hit p cond base (cmem s) i then fst (run_state (pf_scan run base reads ks) s) = None
     else run_state (pf_scan run base reads ks) s = (Some (), s))"
proof (induction ks arbitrary: reads)
  case (Cons i ks)
  show ?case
  proof (rule scan_index [OF o len sm Cons.prems, of base i reads], goal_cases)
    case 1
    then show ?case using Cons by (auto simp: run_simps split: prod.splits)
  next
    case (2 t)
    then show ?case using Cons.prems by (auto simp: run_simps)
  qed (use f in simp)
qed (simp add: run_simps)

lemma scan_fresh:
  assumes o: "once run (pf_callback p) cond eff" and len: "8 \<le> length (pairs p)" and sm: "should_match p"
    and f: "\<not> has_fired p"
  shows "set_patches s = [p] \<Longrightarrow>
    (case find (hit p cond base (cmem s)) ks of
       None \<Rightarrow> run_state (pf_scan run base reads ks) s = (Some (), s)
     | Some i \<Rightarrow> let m = eff (base + 4 * of_nat i) (cmem s)
         in if \<exists>k \<in> set (tl (dropWhile (\<lambda>k. \<not> hit p cond base (cmem s) k) ks)). hit p cond base m k
            then fst (run_state (pf_scan run base reads ks) s) = None
            else \<exists>t. run_state (pf_scan run base reads ks) s = (Some (), t) \<and> cmem t = m \<and>
              set_patches t = [p\<lparr>has_fired := True\<rparr>] \<and> set_required t = set_required s)"
proof (induction ks arbitrary: reads)
  case (Cons i ks)
  show ?case
  proof (rule scan_index [OF o len sm Cons.prems, of base i reads], goal_cases)
    case 1
    have e: "run_state (pf_scan run base reads (i # ks)) s =
        run_state (pf_scan run base (tl reads @ [ld32 (cmem s) (base + 4 * of_nat (i + 8))]) ks) s"
      using 1(2) by (simp add: run_simps)
    have d: "find (hit p cond base (cmem s)) (i # ks) = find (hit p cond base (cmem s)) ks"
      "dropWhile (\<lambda>k. \<not> hit p cond base (cmem s) k) (i # ks) =
       dropWhile (\<lambda>k. \<not> hit p cond base (cmem s) k) ks"
      using 1(1) by simp_all
    show ?case
      using Cons.IH [OF Cons.prems, of "tl reads @ [ld32 (cmem s) (base + 4 * of_nat (i + 8))]"]
      unfolding e d .
  next
    case (3 t)
    let ?p = "p\<lparr>has_fired := True\<rparr>"
    have h: "hit ?p cond base = hit p cond base" by (simp add: hit_def fun_eq_iff)
    have e: "run_state (pf_scan run base reads (i # ks)) s =
        run_state (pf_scan run base (tl reads @ [ld32 (cmem t) (base + 4 * of_nat (i + 8))]) ks) t"
      using 3(3) by (simp add: run_simps)
    have "once run (pf_callback ?p) cond eff" "8 \<le> length (pairs ?p)" "should_match ?p" "has_fired ?p"
      using o len sm by simp_all
    from scan_fired [OF this 3(5), of ks base "tl reads @ [ld32 (cmem t) (base + 4 * of_nat (i + 8))]"] show ?case
      using 3(1,4,5,6) h unfolding e by (auto simp: Let_def split: if_splits)
  qed (use f in simp)
qed (simp add: run_simps)

lemma find_skip:
  "\<forall>x \<in> set xs. \<not> P x \<Longrightarrow> find P (xs @ ys) = find P ys \<and>
     dropWhile (\<lambda>k. \<not> P k) (xs @ ys) = dropWhile (\<lambda>k. \<not> P k) ys"
  by (induction xs) simp_all

lemma first_index:
  assumes "i < n" "P i" "\<And>k. k < i \<Longrightarrow> \<not> P k"
  shows "find P [0..<n] = Some i" "tl (dropWhile (\<lambda>k. \<not> P k) [0..<n]) = [Suc i..<n]"
proof -
  have u: "[0..<n] = [0..<i] @ i # [Suc i..<n]"
    using assms(1) upt_add_eq_append [of 0 i "n - i"] by (simp add: upt_conv_Cons)
  have "\<forall>x \<in> set [0..<i]. \<not> P x" using assms(3) by simp
  note skip = find_skip [OF this]
  show "find P [0..<n] = Some i" "tl (dropWhile (\<lambda>k. \<not> P k) [0..<n]) = [Suc i..<n]"
    unfolding u using assms(2) skip by simp_all
qed

lemma pf_apply_single:
  assumes "once run (pf_callback p) cond eff" and "8 \<le> length (pairs p)"
    and "should_match p \<and> is_required p \<and> \<not> has_fired p" and "set_patches s = [p]" and "set_required s"
    and "n = unat (drop_bit 2 (rsize rng))" and "base = cacheable_base rng"
    and "run_state (pf_apply run rng) s = (r, t)"
  shows "(r = Some () \<longleftrightarrow> (\<exists>i < n. hit p cond base (cmem s) i \<and> (\<forall>k < i. \<not> hit p cond base (cmem s) k) \<and>
      (\<forall>k. i < k \<and> k < n \<longrightarrow> \<not> hit p cond base (eff (base + 4 * of_nat i) (cmem s)) k))) \<and>
    (\<forall>i < n. r = Some () \<and> hit p cond base (cmem s) i \<and> (\<forall>k < i. \<not> hit p cond base (cmem s) k) \<longrightarrow>
      cmem t = eff (base + 4 * of_nat i) (cmem s))"
proof -
  define reads where "reads = map (\<lambda>i. ld32 (cmem s) (base + 4 * of_nat i)) [0..<8]"
  define scan where "scan = run_state (pf_scan run base reads [0..<n]) s"
  have run: "run_state (pf_apply_32 run rng) s = scan"
    by (simp add: pf_apply_32_def run_simps scan_def reads_def assms(6,7))
  have rest: "run_state (pf_apply run rng) s = (case scan of (None, u) \<Rightarrow> (None, u)
      | (Some _, u) \<Rightarrow> (case (if set_required u then find (\<lambda>p. is_required p \<and> \<not> has_fired p) (set_patches u) else None)
          of None \<Rightarrow> (Some (), u) | Some q \<Rightarrow> run_state (panicM ''Missing patch: %s'' [A_str (pf_name q)]) u))"
    by (simp add: pf_apply_def run_simps run split: prod.splits option.splits)
  note fresh = scan_fresh [OF assms(1,2) _ _ assms(4), where base = base and ks = "[0..<n]" and reads = reads]
  show ?thesis
  proof (cases "\<exists>i < n. hit p cond base (cmem s) i")
    case False
    then have "find (hit p cond base (cmem s)) [0..<n] = None" by (simp add: find_None_iff)
    then have "scan = (Some (), s)" using fresh assms(3) by (simp add: scan_def)
    then have "r = None" using rest assms by (simp add: panicM_def run_simps)
    with False show ?thesis by auto
  next
    case True
    define i where "i = (LEAST i. i < n \<and> hit p cond base (cmem s) i)"
    have i: "i < n" "hit p cond base (cmem s) i" using LeastI_ex [OF True] by (simp_all add: i_def)
    have least: "\<not> hit p cond base (cmem s) k" if "k < i" for k
      using not_less_Least [of k "\<lambda>i. i < n \<and> hit p cond base (cmem s) i"] that i(1) by (auto simp flip: i_def)
    have uniq: "j = i" if "hit p cond base (cmem s) j" "\<forall>k < j. \<not> hit p cond base (cmem s) k" for j
      using that i least by (metis linorder_neqE_nat)
    define m where "m = eff (base + 4 * of_nat i) (cmem s)"
    note fi = first_index [OF i(1), of "hit p cond base (cmem s)", OF i(2) least]
    show ?thesis
    proof (cases "\<exists>k \<in> set [Suc i..<n]. hit p cond base m k")
      case True
      then have "fst scan = None" using fresh fi assms(3) by (simp add: scan_def m_def Let_def)
      then have "r = None" using rest assms(8) by (cases scan) simp
      moreover have "\<exists>k. i < k \<and> k < n \<and> hit p cond base m k" using True by (auto simp: Suc_le_eq)
      ultimately show ?thesis using uniq unfolding m_def by blast
    next
      case False
      then obtain u where "scan = (Some (), u)" "cmem u = m" "set_patches u = [p\<lparr>has_fired := True\<rparr>]"
        using fresh fi assms(3) by (auto simp add: scan_def m_def Let_def)
      then have "r = Some ()" "cmem t = m" using rest assms(8) by (auto split: if_splits)
      moreover have "\<forall>k. i < k \<and> k < n \<longrightarrow> \<not> hit p cond base m k" using False by (auto simp: Suc_le_eq)
      ultimately show ?thesis using uniq i least unfolding m_def by blast
    qed
  qed
qed

text \<open>C15: Applying a patchset with one required pattern of at least eight words succeeds exactly when its
  callback takes one place of the range and, with the change made, no later one; then memory is changed
  by that callback at that place and nowhere else. A missing or a second match ends in a panic.\<close>

theorem pf_apply_once:
  assumes "once run (pf_callback p) cond eff" and "8 \<le> length (pairs p)"
    and "should_match p \<and> is_required p \<and> \<not> has_fired p" and "set_patches s = [p]" and "set_required s"
    and "n = unat (drop_bit 2 (rsize rng))" and "base = cacheable_base rng"
    and "run_state (pf_apply run rng) s = (r, t)"
  shows "(r = Some () \<longleftrightarrow> (\<exists>i < n. hit p cond base (cmem s) i \<and> (\<forall>k < i. \<not> hit p cond base (cmem s) k) \<and>
      (\<forall>k. i < k \<and> k < n \<longrightarrow> \<not> hit p cond base (eff (base + 4 * of_nat i) (cmem s)) k))) \<and>
    (\<forall>i < n. r = Some () \<and> hit p cond base (cmem s) i \<and> (\<forall>k < i. \<not> hit p cond base (cmem s) k) \<longrightarrow>
      cmem t = eff (base + 4 * of_nat i) (cmem s))"
  by (rule pf_apply_single [OF assms])

text \<open>A callback that stores a word where it matches.\<close>

definition mark :: "unit \<Rightarrow> nat \<Rightarrow> u32 \<Rightarrow> (unit, unit, bool option) pf" where
  "mark cb j a = do {
     fired \<leftarrow> gets (\<lambda>s. has_fired (set_patches s ! j));
     if fired then State_Monad.return None
     else do { modify (\<lambda>s. s\<lparr>cmem := st32 (cmem s) a 0xE12FFF1E\<rparr>); State_Monad.return (Some True) } }"

definition mark_st :: "unit pf_st" where
  "mark_st = \<lparr>cmem = \<lambda>_. 0, stage = CFW_NK, console = [], captured = [], capture_left = 0, message = [], status = 0,
     set_patches = [\<lparr>pf_callback = (), is_required = True, has_fired = False, should_match = True,
       pairs = replicate 8 (0, 0xFFFFFFFF), pf_name = cs ''mark''\<rparr>], set_required = True, arena_used = 0\<rparr>"

lemma ld32_zero: "ld32 (\<lambda>_. 0) a = 0"
  by (simp add: ld32_def of_le32_def Let_def)

theorem pf_apply_once_witness:
  "let (r, t) = run_state (pf_apply mark \<lparr>va = 0x80038000, rsize = 4, cacheable_base = 0x30038000\<rparr>) mark_st
   in r = Some () \<and> cmem t = st32 (\<lambda>_. 0) 0x30038000 0xE12FFF1E"
proof -
  let ?rng = "\<lparr>va = 0x80038000, rsize = 4, cacheable_base = 0x30038000\<rparr>"
  let ?eff = "\<lambda>a m. st32 m a 0xE12FFF1E"
  define p :: "unit pf_patch" where "p = hd (set_patches mark_st)"
  obtain r t where r: "run_state (pf_apply mark ?rng) mark_st = (r, t)" by fastforce
  have o: "once mark (pf_callback p) (\<lambda>_ _. True) ?eff"
    by (simp add: once_def mark_def run_simps)
  have p: "8 \<le> length (pairs p)" "should_match p \<and> is_required p \<and> \<not> has_fired p" "set_patches mark_st = [p]"
    "set_required mark_st"
    by (simp_all add: p_def mark_st_def)
  have n: "1 = unat (drop_bit 2 (rsize ?rng))" by (simp add: unat_drop_bit)
  have h: "hit p (\<lambda>_ _. True) 0x30038000 (cmem mark_st) 0"
    by (simp add: hit_def pattern_at_def p_def mark_st_def ld32_zero)
  from pf_apply_once [OF o p n refl r] h show ?thesis
    by (simp add: r) (simp add: mark_st_def)
qed

end
