(* ===== verification/Rom.thy ===== *)
theory Rom
  imports Pf
begin

text \<open>
  The module table of the Windows CE kernel image (cfw/nkpf/romimage.c): the patcher looks up the code
  section of a module in the image that EBOOT has loaded.
\<close>

section \<open>Definitions\<close>

definition NK_VA_OFFSET :: u32 where "NK_VA_OFFSET = 0x50000000"
definition NK_DDR_VA :: u32 where "NK_DDR_VA = 0x80000000"
definition NK_DDR_END :: u32 where "NK_DDR_END = 0x84000000"

definition ECEC_MAGIC :: u32 where "ECEC_MAGIC = 0x43454345"
definition ROMHDR_BYTES :: u32 where "ROMHDR_BYTES = 0x54"
definition TOC_BYTES :: u32 where "TOC_BYTES = 32"
definition O32_BYTES :: u32 where "O32_BYTES = 24"
definition SCN_CODE :: u32 where "SCN_CODE = 0x00000020"
definition SCN_COMPRESSED :: u32 where "SCN_COMPRESSED = 0x00002000"
definition HDR_NUMMODS :: u32 where "HDR_NUMMODS = 4"
definition TOC_NAME :: u32 where "TOC_NAME = 4"
definition TOC_E32 :: u32 where "TOC_E32 = 5"
definition TOC_O32 :: u32 where "TOC_O32 = 6"
definition O32_VSIZE :: u32 where "O32_VSIZE = 0"
definition O32_PSIZE :: u32 where "O32_PSIZE = 2"
definition O32_DATAPTR :: u32 where "O32_DATAPTR = 3"
definition O32_REALADDR :: u32 where "O32_REALADDR = 4"
definition O32_FLAGS :: u32 where "O32_FLAGS = 5"

definition nk_static_va :: "u32 \<Rightarrow> u32 \<Rightarrow> bool" where
  "nk_static_va a n \<longleftrightarrow> NK_DDR_VA \<le> a \<and> a < NK_DDR_END \<and> n \<le> NK_DDR_END - a"

definition nk_ptr :: "u32 \<Rightarrow> u32" where
  "nk_ptr a = a - NK_VA_OFFSET"

text \<open>\<open>p[i]\<close> of a word pointer\<close>

definition word_at :: "mem \<Rightarrow> u32 \<Rightarrow> u32 \<Rightarrow> u32" where
  "word_at m p i = ld32 m (p + 4 * i)"

definition ascii_lower :: "u8 \<Rightarrow> u8" where
  "ascii_lower c = (if 65 \<le> c \<and> c \<le> 90 then c + 32 else c)"

fun name_loop :: "mem \<Rightarrow> u32 \<Rightarrow> bytes \<Rightarrow> bool" where
  "name_loop m s [] = (m s = 0)"
| "name_loop m s (c # name) = (if ascii_lower (m s) \<noteq> c then False else name_loop m (s + 1) name)"

definition name_is :: "mem \<Rightarrow> u32 \<Rightarrow> bytes \<Rightarrow> bool" where
  "name_is m a name = (if nk_static_va a 1 then name_loop m (nk_ptr a) name else False)"

definition romhdr :: "('cb, 'z, u32 option) pf" where
  "romhdr = do {
     m \<leftarrow> gets cmem;
     let nk = nk_ptr 0x80200000;
     let hdr = word_at m nk (0x44 div 4);
     if word_at m nk (0x40 div 4) \<noteq> ECEC_MAGIC then panicM ''No ECEC signature in NK'' []
     else if \<not> nk_static_va hdr ROMHDR_BYTES then panicM ''Bad ROMHDR pointer %p'' [A_int hdr]
     else State_Monad.return (Some (nk_ptr hdr)) }"

text \<open>The loop over the sections: \<open>Inl\<close> for two code sections, else \<open>code\<close>.\<close>

fun code_section :: "mem \<Rightarrow> u32 \<Rightarrow> nat \<Rightarrow> u32 option \<Rightarrow> unit + u32 option" where
  "code_section m o32 0 code = Inr code"
| "code_section m o32 (Suc n) code =
     (if word_at m o32 O32_FLAGS AND SCN_CODE = 0 then code_section m (o32 + O32_BYTES) n code
      else if code \<noteq> None then Inl ()
      else code_section m (o32 + O32_BYTES) n (Some o32))"

text \<open>The body of the loop for the module that was asked for: a panic format, or the range.\<close>

definition module_range_of :: "mem \<Rightarrow> u32 \<Rightarrow> string + pf_range" where
  "module_range_of m toc =
     (if \<not> nk_static_va (word_at m toc TOC_E32) 2 then Inl ''%s: bad e32''
      else
        let e32 = nk_ptr (word_at m toc TOC_E32);
            nobj = (ucast (of_le16 (m e32) (m (e32 + 1))) :: u32);
            o32 = word_at m toc TOC_O32
        in if 32 < nobj \<or> \<not> nk_static_va o32 (nobj * O32_BYTES) then Inl ''%s: bad o32''
           else
             (case code_section m (nk_ptr o32) (unat nobj) None of
                Inl _ \<Rightarrow> Inl ''%s: two code sections''
              | Inr None \<Rightarrow> Inl ''%s: no code section''
              | Inr (Some code) \<Rightarrow>
                  if word_at m code O32_FLAGS AND SCN_COMPRESSED \<noteq> 0 \<or>
                     word_at m code O32_PSIZE < word_at m code O32_VSIZE \<or>
                     \<not> nk_static_va (word_at m code O32_DATAPTR) (word_at m code O32_VSIZE)
                  then Inl ''%s: code section not in place''
                  else Inr \<lparr>va = word_at m code O32_REALADDR, rsize = word_at m code O32_VSIZE AND NOT 3,
                            cacheable_base = nk_ptr (word_at m code O32_DATAPTR)\<rparr>))"

fun toc_loop :: "bytes \<Rightarrow> nat \<Rightarrow> u32 \<Rightarrow> ('cb, 'z, pf_range option option) pf" where
  "toc_loop module 0 toc = State_Monad.return (Some None)"
| "toc_loop module (Suc n) toc = do {
     m \<leftarrow> gets cmem;
     if \<not> name_is m (word_at m toc TOC_NAME) module then toc_loop module n (toc + TOC_BYTES)
     else
       (case module_range_of m toc of
          Inl e \<Rightarrow> do { modify (panic e [A_str module]); State_Monad.return None }
        | Inr rng \<Rightarrow> State_Monad.return (Some (Some rng))) }"

definition rom_code_range :: "bytes \<Rightarrow> ('cb, 'z, pf_range option option) pf" where
  "rom_code_range module = do {
     r \<leftarrow> romhdr;
     case r of None \<Rightarrow> State_Monad.return None
     | Some hdr \<Rightarrow> do {
         m \<leftarrow> gets cmem;
         let n = word_at m hdr HDR_NUMMODS;
         let toc_va = hdr + NK_VA_OFFSET + ROMHDR_BYTES;
         if 512 < n \<or> \<not> nk_static_va toc_va (n * TOC_BYTES) then panicM ''Bad ROM module table'' []
         else toc_loop module (unat n) (nk_ptr toc_va) } }"

section \<open>Lookups\<close>

lemma nk_static_range:
  assumes "nk_static_va a n"
  shows "0x30000000 \<le> unat (nk_ptr a)" "unat (nk_ptr a) + unat n \<le> 0x34000000"
proof -
  have a: "0x80000000 \<le> unat a" "unat a < 0x84000000" "unat n \<le> unat (NK_DDR_END - a)"
    using assms by (simp_all add: nk_static_va_def NK_DDR_VA_def NK_DDR_END_def word_le_nat_alt word_less_nat_alt)
  have "unat (NK_DDR_END - a) = 0x84000000 - unat a"
    using a(2) by (simp add: NK_DDR_END_def unat_sub word_le_nat_alt)
  moreover have "unat (nk_ptr a) = unat a - 0x50000000"
    using a(1) by (simp add: nk_ptr_def NK_VA_OFFSET_def unat_sub word_le_nat_alt)
  ultimately show "0x30000000 \<le> unat (nk_ptr a)" "unat (nk_ptr a) + unat n \<le> 0x34000000"
    using a by simp_all
qed

lemma align_down: "unat (w AND NOT 3 :: u32) \<le> unat w" "4 dvd unat (w AND NOT 3 :: u32)"
proof -
  show "unat (w AND NOT 3 :: u32) \<le> unat w"
    by (simp add: word_and_le2 flip: word_le_nat_alt)
  have "(w AND NOT 3) AND 3 = 0" by (rule bit_word_eqI) (auto simp: bit_simps)
  then show "4 dvd unat (w AND NOT 3 :: u32)" by (simp only: aligned_iff)
qed

text \<open>The address of an entry of the table, and the first one with a name.\<close>

definition toc_entry :: "u32 \<Rightarrow> nat \<Rightarrow> u32" where
  "toc_entry toc i = toc + TOC_BYTES * of_nat i"

lemma toc_loop_result:
  "run_state (toc_loop module n toc) s =
    (case find (\<lambda>i. name_is (cmem s) (word_at (cmem s) (toc_entry toc i) TOC_NAME) module) [0..<n] of
       None \<Rightarrow> (Some None, s)
     | Some i \<Rightarrow> (case module_range_of (cmem s) (toc_entry toc i) of
         Inl e \<Rightarrow> (None, panic e [A_str module] s) | Inr rng \<Rightarrow> (Some (Some rng), s)))"
proof (induction n arbitrary: toc)
  case (Suc n)
  have u: "[0..<Suc n] = 0 # map Suc [0..<n]" by (simp add: upt_conv_Cons map_Suc_upt del: upt_Suc)
  have f: "find P (map Suc xs) = map_option Suc (find (\<lambda>i. P (Suc i)) xs)" for P xs
    by (induction xs) simp_all
  have e: "toc_entry toc 0 = toc" "toc_entry toc (Suc i) = toc_entry (toc + TOC_BYTES) i" for i
    by (simp_all add: toc_entry_def algebra_simps)
  show ?case
    unfolding u by (simp add: run_simps f e Suc del: upt_Suc split: sum.splits option.splits)
qed (simp add: run_simps)

lemma module_range_in_place:
  assumes "module_range_of m toc = Inr rng"
  shows "0x30000000 \<le> unat (cacheable_base rng)" "unat (cacheable_base rng) + unat (rsize rng) \<le> 0x34000000"
    "4 dvd unat (rsize rng)"
proof -
  obtain code where c: "nk_static_va (word_at m code O32_DATAPTR) (word_at m code O32_VSIZE)"
    "rng = \<lparr>va = word_at m code O32_REALADDR, rsize = word_at m code O32_VSIZE AND NOT 3,
            cacheable_base = nk_ptr (word_at m code O32_DATAPTR)\<rparr>"
    using assms by (auto simp: module_range_of_def Let_def split: if_splits sum.splits option.splits)
  from nk_static_range [OF c(1)] align_down [of "word_at m code O32_VSIZE"] show
    "0x30000000 \<le> unat (cacheable_base rng)" "unat (cacheable_base rng) + unat (rsize rng) \<le> 0x34000000"
    "4 dvd unat (rsize rng)"
    unfolding c(2) by simp_all
qed

section \<open>Properties\<close>


text \<open>An image with one module, named \<open>a\<close>, whose code section has 16 bytes.\<close>

definition word_mem :: "(u32 \<Rightarrow> u32) \<Rightarrow> mem" where
  "word_mem tab a = le32 (tab (a AND NOT 3)) ! unat (a AND 3)"

definition demo_words :: "u32 \<Rightarrow> u32" where
  "demo_words a =
     (if a = 0x30200040 then ECEC_MAGIC else if a = 0x30200044 then 0x80300000
      else if a = 0x30300010 then 1 else if a = 0x30300064 then 0x80400000
      else if a = 0x30300068 then 0x80400100 else if a = 0x3030006C then 0x80400200
      else if a = 0x30400000 then 0x61 else if a = 0x30400100 then 1
      else if a = 0x30400200 then 16 else if a = 0x30400208 then 16
      else if a = 0x3040020C then 0x80500000 else if a = 0x30400210 then 0x8C000000
      else if a = 0x30400214 then SCN_CODE else 0)"

definition demo_nk :: "unit pf_st" where
  "demo_nk = \<lparr>cmem = word_mem demo_words, stage = CFW_NK, console = [], captured = [], capture_left = 0,
     message = [], status = 0, set_patches = [], set_required = False, arena_used = 0\<rparr>"

lemma ld32_word_mem:
  assumes "a AND 3 = 0" shows "ld32 (word_mem tab) a = tab a"
proof -
  have o: "(a + k) AND NOT 3 = a \<and> (a + k) AND 3 = k" if "k \<in> {0, 1, 2, 3}" for k
  proof -
    have "a AND k = 0"
    proof (rule bit_word_eqI)
      fix n assume "n < LENGTH(32)"
      have "\<not> (bit a n \<and> bit (3 :: u32) n)" using assms by (metis bit_0_eq bit_and_iff bot_apply bot_bool_def)
      moreover have "bit k n \<Longrightarrow> bit (3 :: u32) n" using that
        by (auto simp: bit_numeral_rec bit_1_iff split: nat.splits)
      ultimately show "bit (a AND k) n = bit 0 n" by (auto simp: bit_simps)
    qed
    then have "a + k = a OR k" by (intro disjunctive_add) (metis bit_0_eq bit_and_iff bot_apply bot_bool_def)
    moreover have "k AND 3 = k" "k AND NOT 3 = 0" using that by auto
    ultimately show ?thesis using assms aligned_low_bits [OF assms] by (simp add: bit.conj_disj_distrib2)
  qed
  from o [of 0] o [of 1] o [of 2] o [of 3] show ?thesis
    by (simp add: ld32_aligned [OF assms] word_mem_def le32_def of_le32_bytes)
qed

lemma demo_lookup:
  "run_state (rom_code_range (cs ''a'')) demo_nk =
     (Some (Some \<lparr>va = 0x8C000000, rsize = 16, cacheable_base = 0x30500000\<rparr>), demo_nk)"
proof -
  have m: "cmem demo_nk = word_mem demo_words" by (simp add: demo_nk_def)
  have w: "word_at (word_mem demo_words) p i = demo_words (p + 4 * i)" if "(p + 4 * i) AND 3 = 0" for p i
    unfolding word_at_def by (rule ld32_word_mem [OF that])
  note cdefs = nk_ptr_def NK_VA_OFFSET_def nk_static_va_def NK_DDR_VA_def NK_DDR_END_def
  have h: "run_state romhdr demo_nk = (Some 0x30300000, demo_nk)"
    by (simp add: romhdr_def run_simps Let_def m w demo_words_def cdefs ROMHDR_BYTES_def)
  have n: "name_is (word_mem demo_words) 0x80400000 (cs ''a'')"
    by (simp add: name_is_def cdefs word_mem_def demo_words_def le32_def ascii_lower_def)
  have r: "module_range_of (word_mem demo_words) 0x30300054 =
      Inr \<lparr>va = 0x8C000000, rsize = 16, cacheable_base = 0x30500000\<rparr>"
  proof -
    have e: "of_le16 (word_mem demo_words 0x30400100) (word_mem demo_words 0x30400101) = 1"
      by (simp add: word_mem_def demo_words_def le32_def of_le16_def)
    have c: "code_section (word_mem demo_words) 0x30400200 (Suc 0) None = Inr (Some 0x30400200)"
      by (simp add: w demo_words_def O32_FLAGS_def SCN_CODE_def)
    show ?thesis
      by (simp add: module_range_of_def Let_def w demo_words_def cdefs e c TOC_E32_def TOC_O32_def O32_BYTES_def
          O32_FLAGS_def O32_PSIZE_def O32_VSIZE_def O32_DATAPTR_def O32_REALADDR_def SCN_CODE_def
          SCN_COMPRESSED_def)
  qed
  have "run_state (toc_loop (cs ''a'') (Suc 0) 0x30300054) demo_nk =
      (Some (Some \<lparr>va = 0x8C000000, rsize = 16, cacheable_base = 0x30500000\<rparr>), demo_nk)"
    using n r by (simp add: run_simps m w demo_words_def TOC_NAME_def)
  then show ?thesis
    by (simp add: rom_code_range_def run_simps h m Let_def w demo_words_def HDR_NUMMODS_def TOC_BYTES_def
        ROMHDR_BYTES_def cdefs)
qed


end
