(* ===== verification/Cfw.thy ===== *)
theory Cfw
  imports Rom
begin

text \<open>
  The patcher for the original firmware (cfw/core, cfw/components, cfw/eboot, cfw/nkpf). Its first stage
  patches EBOOT, among others so that EBOOT jumps to the second stage, which patches the loaded kernel.
  The image that WinCE runs later (the resident) and the addresses that the linker assigns are parameters.
\<close>

section \<open>State and parameters\<close>

datatype callback = Handoff | Check | Irq | Ioctl | Hold1582 | Hold188 | Rtc

record cfw_st = "callback pf_st" +
  cfw_enable :: u32
  cfw_range :: "pf_range option"
  found :: bool
  installed :: bool

type_synonym 'a cfw = "(cfw_st, 'a) state"

text \<open>Symbols: the entry of the second stage, and in the resident the hooks and the words for them.\<close>

record cfw_syms =
  nk_entry :: u32
  irq_hook :: u32
  irq_orig :: u32
  ioctl_hook :: u32
  ioctl_resume :: u32
  nk_resident :: bytes

definition EXACT :: u32 where "EXACT = 0xFFFFFFFF"
definition NK_RESIDENT_PHYS :: u32 where "NK_RESIDENT_PHYS = 0x3019C000"
definition NK_RESIDENT_MAX :: u32 where "NK_RESIDENT_MAX = 0x00004000"
definition NK_RESIDENT_VA :: u32 where "NK_RESIDENT_VA = NK_RESIDENT_PHYS + NK_VA_OFFSET"
definition EBOOT_CODE_VA :: u32 where "EBOOT_CODE_VA = 0x80038000"
definition CFW_FIX :: u32 where "CFW_FIX = 1"
definition CFW_EXTRA :: u32 where "CFW_EXTRA = 2"
definition CFW_DEFAULT_ON :: u32 where "CFW_DEFAULT_ON = 4"

definition say :: "string \<Rightarrow> parg list \<Rightarrow> unit cfw" where
  "say fmt as = modify (printf (fmt @ [CHR 0x0A]) as)"

definition put_word :: "u32 \<Rightarrow> u32 \<Rightarrow> unit cfw" where
  "put_word a v = modify (\<lambda>s. s\<lparr>cmem := st32 (cmem s) a v\<rparr>)"

definition cfw_patch_once :: "nat \<Rightarrow> unit option cfw" where
  "cfw_patch_once j = do {
     p \<leftarrow> gets (\<lambda>s. set_patches s ! j);
     if has_fired p then panicM ''%s: Found twice'' [A_str (pf_name p)]
     else do { say ''  %s'' [A_str (pf_name p)]; State_Monad.return (Some ()) } }"

definition ldr_literal :: "mem \<Rightarrow> u32 \<Rightarrow> u32" where
  "ldr_literal m ldr = ldr + 8 + (ld32 m ldr AND 0xFFF)"

section \<open>Patterns\<close>

definition handoff_match :: "u32 list" where
  "handoff_match =
    [0xE3A01070, 0xEE011F10, 0xE1A00000, 0xE1A0F002, 0xE1A00000, 0xE3A02000, 0xEE082F17, 0xE1A0F000,
     0xE1A0F00E]"

definition handoff_mask :: "u32 list" where
  "handoff_mask =
    [EXACT, EXACT, EXACT, EXACT, EXACT, EXACT, EXACT, EXACT, EXACT]"

definition check_match :: "u32 list" where
  "check_match =
    [0xE92D4030, 0xE3A04003, 0xEB000000, 0xEB000000, 0xE3500000, 0x1A000000, 0xEB000000, 0xE3A05000,
     0xE3855001, 0xE1500005, 0xCA000000]"

definition check_mask :: "u32 list" where
  "check_mask =
    [EXACT, EXACT, 0xFF000000, 0xFF000000, EXACT, 0xFF000000, 0xFF000000, 0xFFFFF000, EXACT, EXACT,
     0xFF000000]"

definition irq_match :: "u32 list" where
  "irq_match =
    [0xE24EE004, 0xE92D500F, 0xE28E0000, 0xE3500080, 0x3B000000, 0xE14F1000, 0xE92D0002, 0xE1A0000E,
     0xE321F093, 0xE92D4000, 0xE92D0001, 0xE59FC000, 0xE1A0E00F, 0xE12FFF1C]"

definition irq_mask :: "u32 list" where
  "irq_mask =
    [EXACT, EXACT, 0xFFFFF000, EXACT, 0xFF000000, EXACT, EXACT, EXACT, EXACT, EXACT, EXACT,
     0xFFFFF000, EXACT, EXACT]"

definition ioctl_match :: "u32 list" where
  "ioctl_match =
    [0xE92D4FF0, 0xE24DD008, 0xE1A09003, 0xE1A0A002, 0xE1A0B001, 0xE1A07000, 0xE59F6000, 0xE3A08000,
     0xE3A05000, 0xE596E008]"

definition ioctl_mask :: "u32 list" where
  "ioctl_mask =
    [EXACT, EXACT, EXACT, EXACT, EXACT, EXACT, 0xFFFFF000, EXACT, EXACT, EXACT]"

definition hold1582_match :: "u32 list" where
  "hold1582_match =
    [0xE3E03801, 0xE5802098, 0xE5803094, 0xE3E03000, 0xE580307C, 0xE3E03000]"

definition hold1582_mask :: "u32 list" where
  "hold1582_mask =
    [EXACT, EXACT, EXACT, EXACT, EXACT, EXACT]"

definition hold1582_to :: "u32 list" where
  "hold1582_to =
    [0xE3822C02, 0xE1E03002, 0xE5802098, 0xE5803094, 0xE3E03000, 0xE580307C]"

definition hold188_match :: "u32 list" where
  "hold188_match =
    [0xE3E03000, 0xE580308C, 0xE3E03000, 0xE3A02000, 0xE5803094, 0xE58020E0, 0xE58020E4, 0xE58020E8,
     0xE3E03000, 0xE58020EC, 0xE58030F0, 0xE3E03000, 0xE58030F4, 0xE3E03000, 0xE58030F8, 0xE3E03000,
     0xE58030FC, 0xE5802080, 0xE5802088, 0xE5802090, 0xE5802098]"

definition hold188_mask :: "u32 list" where
  "hold188_mask =
    [EXACT, EXACT, EXACT, EXACT, EXACT, EXACT, EXACT, EXACT, EXACT, EXACT, EXACT, EXACT, EXACT,
     EXACT, EXACT, EXACT, EXACT, EXACT, EXACT, EXACT, EXACT]"

definition hold188_out_to :: "u32 list" where
  "hold188_out_to =
    [0xE58030FC, 0xE5802080, 0xE5802088, 0xE5802090, 0xE3A02C02]"

definition rtc_match :: "u32 list" where
  "rtc_match =
    [0xE92D4000, 0xE59F4000, 0xE3A01000, 0xE5943068, 0xE3530000, 0x0A000000, 0xE59F3000, 0xE5933000,
     0xE3530000, 0x059F2000, 0x05923000, 0x02833001, 0x05823000, 0x08BD4000, 0x012FFF1E]"

definition rtc_mask :: "u32 list" where
  "rtc_mask =
    [0xFFFFF000, 0xFFFFF000, EXACT, EXACT, EXACT, 0xFF000000, 0xFFFFF000, EXACT, EXACT, 0xFFFFF000,
     EXACT, EXACT, EXACT, 0xFFFFF000, EXACT]"

definition HANDOFF_JUMP :: u32 where "HANDOFF_JUMP = 7"
definition LDR_PC_PC_MINUS4 :: u32 where "LDR_PC_PC_MINUS4 = 0xE51FF004"
definition MOV_R0_1 :: u32 where "MOV_R0_1 = 0xE3A00001"
definition BX_LR :: u32 where "BX_LR = 0xE12FFF1E"
definition IRQ_LDR_IP :: u32 where "IRQ_LDR_IP = 11"
definition IOCTL_LDR_TABLE :: u32 where "IOCTL_LDR_TABLE = 6"
definition HOLD188_DIR :: u32 where "HOLD188_DIR = 2"
definition MVN_R3_0x200 :: u32 where "MVN_R3_0x200 = 0xE3E03C02"
definition HOLD188_OUT :: u32 where "HOLD188_OUT = 15"
definition BOOTARGS_RTC_PRESENT :: u32 where "BOOTARGS_RTC_PRESENT = 0xA0020848"
definition ARM_BX_LR :: u32 where "ARM_BX_LR = 0xE12FFF1E"
definition LDR_FLAG :: u32 where "LDR_FLAG = 6"
definition POP_EARLY :: u32 where "POP_EARLY = 13"

section \<open>Callbacks\<close>

text \<open>\<open>j\<close> is the patch and \<open>a\<close> the address of the match.\<close>

definition handoff_callback :: "cfw_syms \<Rightarrow> nat \<Rightarrow> u32 \<Rightarrow> bool option cfw" where
  "handoff_callback y j a = do {
     r \<leftarrow> cfw_patch_once j;
     case r of None \<Rightarrow> State_Monad.return None
     | Some _ \<Rightarrow> do {
         put_word (a + 4 * (HANDOFF_JUMP + 1)) (nk_entry y);
         put_word (a + 4 * HANDOFF_JUMP) LDR_PC_PC_MINUS4;
         State_Monad.return (Some True) } }"

definition check_callback :: "nat \<Rightarrow> u32 \<Rightarrow> bool option cfw" where
  "check_callback j a = do {
     r \<leftarrow> cfw_patch_once j;
     case r of None \<Rightarrow> State_Monad.return None
     | Some _ \<Rightarrow> do {
         put_word a MOV_R0_1;
         put_word (a + 4) BX_LR;
         State_Monad.return (Some True) } }"

definition res_word :: "u32 \<Rightarrow> u32 \<Rightarrow> unit cfw" where
  "res_word a v = put_word (nk_ptr a) v"

definition irq_callback :: "cfw_syms \<Rightarrow> nat \<Rightarrow> u32 \<Rightarrow> bool option cfw" where
  "irq_callback y j a = do {
     m \<leftarrow> gets cmem;
     let lit = ldr_literal m (a + 4 * IRQ_LDR_IP);
     if \<not> nk_static_va (ld32 m lit) 4 then State_Monad.return (Some False)
     else do {
       r \<leftarrow> cfw_patch_once j;
       case r of None \<Rightarrow> State_Monad.return None
       | Some _ \<Rightarrow> do {
           res_word (irq_orig y) (ld32 m lit);
           v \<leftarrow> gets (\<lambda>s. ld32 (cmem s) lit);
           say ''  irq handler %p'' [A_int v];
           put_word lit (irq_hook y);
           State_Monad.return (Some True) } } }"

definition ioctl_callback :: "cfw_syms \<Rightarrow> nat \<Rightarrow> u32 \<Rightarrow> bool option cfw" where
  "ioctl_callback y j a = do {
     m \<leftarrow> gets cmem;
     rng \<leftarrow> gets cfw_range;
     let table = ld32 m (ldr_literal m (a + 4 * IOCTL_LDR_TABLE));
     let entry = (case rng of Some rg \<Rightarrow> pf_ptr_to_va rg a | None \<Rightarrow> 0);
     if \<not> nk_static_va table 4 \<or> ld32 m (nk_ptr table) AND 0xFFFF0000 \<noteq> 0x01010000
     then State_Monad.return (Some False)
     else do {
       r \<leftarrow> cfw_patch_once j;
       case r of None \<Rightarrow> State_Monad.return None
       | Some _ \<Rightarrow> do {
           res_word (ioctl_resume y) (entry + 4);
           put_word a (0xEA000000 OR (drop_bit 2 (ioctl_hook y - entry - 8) AND 0x00FFFFFF));
           say ''  OEMIoControl %p'' [A_int entry];
           State_Monad.return (Some True) } } }"

fun put_words :: "u32 \<Rightarrow> u32 list \<Rightarrow> unit cfw" where
  "put_words dst [] = State_Monad.return ()"
| "put_words dst (w # ws) = do { put_word dst w; put_words (dst + 4) ws }"

definition hold1582_callback :: "nat \<Rightarrow> u32 \<Rightarrow> bool option cfw" where
  "hold1582_callback j a = do {
     r \<leftarrow> cfw_patch_once j;
     case r of None \<Rightarrow> State_Monad.return None
     | Some _ \<Rightarrow> do {
         modify (\<lambda>s. s\<lparr>found := True\<rparr>);
         put_words a hold1582_to;
         State_Monad.return (Some True) } }"

definition hold188_callback :: "nat \<Rightarrow> u32 \<Rightarrow> bool option cfw" where
  "hold188_callback j a = do {
     r \<leftarrow> cfw_patch_once j;
     case r of None \<Rightarrow> State_Monad.return None
     | Some _ \<Rightarrow> do {
         modify (\<lambda>s. s\<lparr>found := True\<rparr>);
         put_word (a + 4 * HOLD188_DIR) MVN_R3_0x200;
         put_words (a + 4 * HOLD188_OUT) hold188_out_to;
         State_Monad.return (Some True) } }"

definition rtc_stall_fix_callback :: "nat \<Rightarrow> u32 \<Rightarrow> bool option cfw" where
  "rtc_stall_fix_callback j a = do {
     m \<leftarrow> gets cmem;
     rng \<leftarrow> gets cfw_range;
     if ld32 m a AND 0xFFFF \<noteq> ld32 m (a + 4 * POP_EARLY) AND 0xFFFF \<or>
        ld32 m (ldr_literal m (a + 4 * LDR_FLAG)) \<noteq> BOOTARGS_RTC_PRESENT
     then State_Monad.return (Some False)
     else do {
       r \<leftarrow> cfw_patch_once j;
       case r of None \<Rightarrow> State_Monad.return None
       | Some _ \<Rightarrow> do {
           put_word a ARM_BX_LR;
           say ''  RTC poll %p'' [A_int (case rng of Some rg \<Rightarrow> pf_ptr_to_va rg a | None \<Rightarrow> 0)];
           State_Monad.return (Some True) } } }"

definition run_callback :: "cfw_syms \<Rightarrow> callback \<Rightarrow> nat \<Rightarrow> u32 \<Rightarrow> bool option cfw" where
  "run_callback y cb =
     (case cb of
        Handoff \<Rightarrow> handoff_callback y | Check \<Rightarrow> check_callback | Irq \<Rightarrow> irq_callback y
      | Ioctl \<Rightarrow> ioctl_callback y | Hold1582 \<Rightarrow> hold1582_callback | Hold188 \<Rightarrow> hold188_callback
      | Rtc \<Rightarrow> rtc_stall_fix_callback)"

section \<open>Components\<close>

definition battery_check_skip_patch :: "unit option cfw" where
  "battery_check_skip_patch = pf_maskmatch ''battery check'' check_match check_mask True Check"

definition irq_patch :: "unit option cfw" where
  "irq_patch = pf_maskmatch ''irq'' irq_match irq_mask True Irq"

definition ioctl_patch :: "unit option cfw" where
  "ioctl_patch = pf_maskmatch ''ioctl'' ioctl_match ioctl_mask True Ioctl"

definition power_hold_patch :: "unit option cfw" where
  "power_hold_patch = do {
     r \<leftarrow> pf_maskmatch ''power hold v1.58.2'' hold1582_match hold1582_mask False Hold1582;
     case r of None \<Rightarrow> State_Monad.return None
     | Some _ \<Rightarrow> pf_maskmatch ''power hold v1.88'' hold188_match hold188_mask False Hold188 }"

definition power_hold_finish :: "unit option cfw" where
  "power_hold_finish = do {
     f \<leftarrow> gets found;
     if f then State_Monad.return (Some ()) else panicM ''Missing patch: power hold'' [] }"

definition rtc_stall_fix_patch :: "unit option cfw" where
  "rtc_stall_fix_patch = pf_maskmatch ''rtc_stall_fix'' rtc_match rtc_mask True Rtc"

definition cfw_nk_resident_install :: "cfw_syms \<Rightarrow> unit cfw" where
  "cfw_nk_resident_install y = do {
     i \<leftarrow> gets installed;
     whenM (\<not> i) (do {
       modify (\<lambda>s. s\<lparr>installed := True,
         cmem := mem_put (mem_put (cmem s) NK_RESIDENT_PHYS (replicate (unat NK_RESIDENT_MAX) 0))
           NK_RESIDENT_PHYS (nk_resident y)\<rparr>);
       say ''  nk resident %p'' [A_int NK_RESIDENT_VA] }) }"

text \<open>A patch: its stage, its ROM module, and what adds its patterns.\<close>

record cfw_component =
  c_id :: string
  c_flags :: u32
  c_init :: "unit cfw option"
  c_finish :: "unit option cfw option"
  c_patches :: "(cfw_stage \<times> string \<times> unit option cfw) list"

definition cfw_power_hold :: cfw_component where
  "cfw_power_hold = \<lparr>c_id = ''power_hold'', c_flags = CFW_FIX OR CFW_DEFAULT_ON, c_init = None,
     c_finish = Some power_hold_finish, c_patches = [(CFW_EBOOT, '''', power_hold_patch)]\<rparr>"

definition cfw_battery_check_skip :: cfw_component where
  "cfw_battery_check_skip = \<lparr>c_id = ''battery_check_skip'', c_flags = CFW_FIX OR CFW_DEFAULT_ON, c_init = None,
     c_finish = None, c_patches = [(CFW_EBOOT, '''', battery_check_skip_patch)]\<rparr>"

definition cfw_rtc_stall_fix :: cfw_component where
  "cfw_rtc_stall_fix = \<lparr>c_id = ''rtc_stall_fix'', c_flags = CFW_FIX OR CFW_DEFAULT_ON, c_init = None,
     c_finish = None, c_patches = [(CFW_NK, ''nk.exe'', rtc_stall_fix_patch)]\<rparr>"

definition cfw_diag :: "cfw_syms \<Rightarrow> cfw_component" where
  "cfw_diag y = \<lparr>c_id = ''diag'', c_flags = CFW_EXTRA, c_init = Some (cfw_nk_resident_install y),
     c_finish = None, c_patches = [(CFW_NK, ''nk.exe'', irq_patch), (CFW_NK, ''nk.exe'', ioctl_patch)]\<rparr>"

definition cfw_components :: "cfw_syms \<Rightarrow> cfw_component list" where
  "cfw_components y = [cfw_power_hold, cfw_battery_check_skip, cfw_rtc_stall_fix, cfw_diag y]"

section \<open>Running the components\<close>

definition has_stage :: "cfw_component \<Rightarrow> cfw_stage \<Rightarrow> bool" where
  "has_stage c st = list_ex (\<lambda>(ps, _, _). ps = st) (c_patches c)"

text \<open>The loop over the patches of a component.\<close>

fun run_patches :: "cfw_syms \<Rightarrow> cfw_stage \<Rightarrow> (string \<Rightarrow> pf_range option cfw) \<Rightarrow>
    (cfw_stage \<times> string \<times> unit option cfw) list \<Rightarrow> unit option cfw" where
  "run_patches y st range_of [] = State_Monad.return (Some ())"
| "run_patches y st range_of ((ps, module, patch) # rest) =
     (if ps \<noteq> st then run_patches y st range_of rest
      else do {
        g \<leftarrow> range_of module;
        case g of None \<Rightarrow> State_Monad.return None
        | Some rng \<Rightarrow> do {
            c \<leftarrow> pf_patchset_create;
            case c of None \<Rightarrow> State_Monad.return None
            | Some _ \<Rightarrow> do {
                p \<leftarrow> patch;
                case p of None \<Rightarrow> State_Monad.return None
                | Some _ \<Rightarrow> do {
                    modify (\<lambda>s. s\<lparr>cfw_range := Some rng\<rparr>);
                    r \<leftarrow> pf_apply (run_callback y) rng;
                    case r of None \<Rightarrow> State_Monad.return None
                    | Some _ \<Rightarrow> do {
                        modify (\<lambda>s. s\<lparr>cfw_range := None\<rparr>);
                        pf_patchset_destroy;
                        modify (\<lambda>s. s\<lparr>arena_used := 0\<rparr>);
                        run_patches y st range_of rest } } } } })"

fun run_components :: "cfw_syms \<Rightarrow> cfw_stage \<Rightarrow> (string \<Rightarrow> pf_range option cfw) \<Rightarrow> nat \<Rightarrow>
    cfw_component list \<Rightarrow> unit option cfw" where
  "run_components y st range_of i [] = State_Monad.return (Some ())"
| "run_components y st range_of i (c # rest) = do {
     en \<leftarrow> gets cfw_enable;
     if \<not> bit en i \<or> \<not> has_stage c st then run_components y st range_of (i + 1) rest
     else do {
       say ''%s'' [A_str (cs (c_id c))];
       (case c_init c of None \<Rightarrow> State_Monad.return () | Some f \<Rightarrow> f);
       r \<leftarrow> run_patches y st range_of (c_patches c);
       case r of None \<Rightarrow> State_Monad.return None
       | Some _ \<Rightarrow> do {
           f \<leftarrow> (case c_finish c of None \<Rightarrow> State_Monad.return (Some ()) | Some f \<Rightarrow> f);
           case f of None \<Rightarrow> State_Monad.return None
           | Some _ \<Rightarrow> run_components y st range_of (i + 1) rest } } }"

definition cfw_run :: "cfw_syms \<Rightarrow> cfw_stage \<Rightarrow> (string \<Rightarrow> pf_range option cfw) \<Rightarrow> unit option cfw" where
  "cfw_run y st range_of = run_components y st range_of 0 (cfw_components y)"

section \<open>The two stages\<close>

definition handoff_patch :: "cfw_syms \<Rightarrow> pf_range \<Rightarrow> unit option cfw" where
  "handoff_patch y rng = do {
     c \<leftarrow> pf_patchset_create;
     case c of None \<Rightarrow> State_Monad.return None
     | Some _ \<Rightarrow> do {
         p \<leftarrow> pf_maskmatch ''handoff to nkpf'' handoff_match handoff_mask True Handoff;
         case p of None \<Rightarrow> State_Monad.return None
         | Some _ \<Rightarrow> do {
             modify (\<lambda>s. s\<lparr>cfw_range := Some rng\<rparr>);
             r \<leftarrow> pf_apply (run_callback y) rng;
             case r of None \<Rightarrow> State_Monad.return None
             | Some _ \<Rightarrow> do {
                 modify (\<lambda>s. s\<lparr>cfw_range := None\<rparr>);
                 pf_patchset_destroy;
                 State_Monad.return (Some ()) } } } }"

text \<open>\<open>args\<close>: where EBOOT is, its size, and the enabled components.\<close>

record cfw_eboot_args =
  a_code :: u32
  a_bytes :: u32
  a_enable :: u32

definition eboot_main :: "cfw_syms \<Rightarrow> cfw_eboot_args \<Rightarrow> int option cfw" where
  "eboot_main y args = do {
     modify (\<lambda>s. s\<lparr>stage := CFW_EBOOT, status := 0, message := []\<rparr>);
     say ''cfw: eboot stage'' [];
     if drop_bit (length (cfw_components y)) (a_enable args) \<noteq> 0
     then panicM ''Unknown components 0x%x'' [A_int (a_enable args)]
     else do {
       modify (\<lambda>s. s\<lparr>cfw_enable := a_enable args\<rparr>);
       let rng = \<lparr>va = EBOOT_CODE_VA, rsize = a_bytes args AND NOT 3, cacheable_base = a_code args\<rparr>;
       r \<leftarrow> cfw_run y CFW_EBOOT (\<lambda>_. State_Monad.return (Some rng));
       case r of None \<Rightarrow> State_Monad.return None
       | Some _ \<Rightarrow> do {
           h \<leftarrow> handoff_patch y rng;
           case h of None \<Rightarrow> State_Monad.return None | Some _ \<Rightarrow> State_Monad.return (Some 0) } } }"

text \<open>The entries in assembly clear \<open>.bss\<close>, which \<open>cfw_enable\<close> is not part of. A panic of the first stage comes
  back through \<open>cfw_eboot_return\<close> with -1.\<close>

definition clear_bss :: "unit cfw" where
  "clear_bss = modify (\<lambda>s. s\<lparr>capture_left := 0, captured := [], set_patches := [], arena_used := 0,
     cfw_range := None, found := False, installed := False\<rparr>)"

definition eboot_stage :: "cfw_syms \<Rightarrow> cfw_eboot_args \<Rightarrow> int cfw" where
  "eboot_stage y args = do {
     clear_bss;
     r \<leftarrow> eboot_main y args;
     State_Monad.return (case r of None \<Rightarrow> - 1 | Some v \<Rightarrow> v) }"

definition module_range :: "string \<Rightarrow> pf_range option cfw" where
  "module_range module = do {
     r \<leftarrow> rom_code_range (cs module);
     case r of None \<Rightarrow> State_Monad.return None
     | Some None \<Rightarrow> panicM ''No ROM module %s'' [A_str (cs module)]
     | Some (Some rng) \<Rightarrow> State_Monad.return (Some rng) }"

definition nkpf_main :: "cfw_syms \<Rightarrow> u32 \<Rightarrow> unit option cfw" where
  "nkpf_main y entry = do {
     modify (\<lambda>s. s\<lparr>stage := CFW_NK\<rparr>);
     say ''nkpf'' [];
     say ''NK entry %p'' [A_int entry];
     r \<leftarrow> cfw_run y CFW_NK module_range;
     case r of None \<Rightarrow> State_Monad.return None
     | Some _ \<Rightarrow> do { say ''Booting NK'' []; State_Monad.return (Some ()) } }"

text \<open>The entry of the second stage, up to the jump to \<open>r0\<close>; the cache maintenance is left out.\<close>

definition nk_stage :: "cfw_syms \<Rightarrow> u32 \<Rightarrow> u32 option cfw" where
  "nk_stage y entry = do {
     clear_bss;
     r \<leftarrow> nkpf_main y entry;
     State_Monad.return (case r of None \<Rightarrow> None | Some _ \<Rightarrow> Some entry) }"

end
