(* ===== verification/CfwProps.thy ===== *)
theory CfwProps
  imports Cfw
begin

text \<open>
  What the first stage of the firmware patcher does: the jump to the second stage is planted exactly when
  the code it replaces is found once, and the status that aipc-boot reads agrees with the return value.
\<close>

section \<open>Frames of the console\<close>

lemma fold_out_pf [simp]:
  "set_patches (fold out xs s) = set_patches s" "set_required (fold out xs s) = set_required s"
  "arena_used (fold out xs s) = arena_used s"
proof -
  have "set_patches (out c s) = set_patches s" "set_required (out c s) = set_required s"
    "arena_used (out c s) = arena_used s" for c and s :: "('a, 'b) pf_st_scheme"
    by (simp_all add: out_def Let_def)
  then show "set_patches (fold out xs s) = set_patches s" "set_required (fold out xs s) = set_required s"
    "arena_used (fold out xs s) = arena_used s"
    by (induction xs arbitrary: s) simp_all
qed

lemma run_say [run_simps]: "run_state (say fmt as) s = ((), fold out (format_text (cs (fmt @ [CHR 0x0A])) as) s)"
  by (simp add: say_def printf_def vprintf_text run_simps)

lemma run_patch_once:
  "run_state (cfw_patch_once j) s =
     (if has_fired (set_patches s ! j)
      then (None, panic ''%s: Found twice'' [A_str (pf_name (set_patches s ! j))] s)
      else (Some (), fold out (format_text (cs (''  %s'' @ [CHR 0x0A])) [A_str (pf_name (set_patches s ! j))]) s))"
  by (simp add: cfw_patch_once_def panicM_def run_simps)

section \<open>The jump to the second stage\<close>

lemma ld32_st32_other:
  assumes "a AND 3 = 0" "b AND 3 = 0" "a \<noteq> b"
  shows "ld32 (st32 m a v) b = ld32 m b"
proof -
  have "\<not> unat (b + k - a) < 4" if "k \<in> {0, 1, 2, 3}" for k :: u32
  proof
    assume l: "unat (b + k - a) < 4"
    have "4 dvd unat a" "4 dvd unat b" using assms(1,2) by (simp_all add: aligned_iff)
    then obtain p q where pq: "unat a = 4 * p" "unat b = 4 * q" by (auto simp: dvd_def)
    have k: "unat (b + k) = unat b + unat k" "unat k < 4"
      using that pq(2) unat_u32_bound [of b] by (auto simp: unat_word_ariths)
    have "unat (b + k - a) = (if unat a \<le> unat (b + k) then unat (b + k) - unat a
        else 2 ^ 32 + unat (b + k) - unat a)"
      using unat_u32_bound [of a] unat_u32_bound [of "b + k"]
      by (auto simp: unat_sub_if_size word_size)
    moreover have "p \<noteq> q" using assms(3) pq by (auto simp: word_unat_eq_iff)
    ultimately show False
      using l k pq unat_u32_bound [of a] by (auto split: if_splits)
  qed
  from this [of 0] this [of 1] this [of 2] this [of 3] show ?thesis
    using assms by (simp add: ld32_aligned st32_aligned add.commute)
qed

lemma once_handoff:
  "once (run_callback y) Handoff (\<lambda>_ _. True)
     (\<lambda>a m. st32 (st32 m (a + 32) (nk_entry y)) (a + 28) LDR_PC_PC_MINUS4)"
  by (simp add: once_def run_callback_def handoff_callback_def run_patch_once run_simps put_word_def
      HANDOFF_JUMP_def)

text \<open>The nine words at index \<open>i\<close>.\<close>

definition word_no :: "mem \<Rightarrow> u32 \<Rightarrow> nat \<Rightarrow> u32" where
  "word_no m base q = ld32 m (base + 4 * of_nat q)"

definition handoff_at :: "mem \<Rightarrow> u32 \<Rightarrow> nat \<Rightarrow> bool" where
  "handoff_at m base i \<longleftrightarrow> (\<forall>j < 9. word_no m base (i + j) = handoff_match ! j)"

definition plant :: "u32 \<Rightarrow> u32 \<Rightarrow> nat \<Rightarrow> mem \<Rightarrow> mem" where
  "plant entry base i m =
     st32 (st32 m (base + 4 * of_nat (i + 8)) entry) (base + 4 * of_nat (i + 7)) LDR_PC_PC_MINUS4"

lemma word_index: "base + 4 * of_nat i + 4 * of_nat j = base + 4 * of_nat (i + j :: nat)" for base :: u32
  by (simp add: algebra_simps)

lemma hit_handoff:
  assumes "pairs p = zip handoff_match handoff_mask"
  shows "hit p (\<lambda>_ _. True) base m i \<longleftrightarrow> handoff_at m base i"
proof -
  have "(0xFFFFFFFF :: u32) = - 1" by simp
  then have "x AND 0xFFFFFFFF = x" for x :: u32 by (simp only: and.right_neutral)
  moreover have "length handoff_match = 9" "length handoff_mask = 9"
    by (simp_all add: handoff_match_def handoff_mask_def)
  moreover have "handoff_mask ! j = 0xFFFFFFFF" if "j < 9" for j
  proof -
    have "j \<in> {0, 1, 2, 3, 4, 5, 6, 7, 8}" using that by auto
    then show ?thesis by (auto simp: handoff_mask_def EXACT_def)
  qed
  ultimately show ?thesis
    unfolding hit_def pattern_at_def handoff_at_def word_no_def word_index assms
    by (simp del: of_nat_add)
qed

lemma word_no_plant:
  assumes "base AND 3 = 0" "q < 2 ^ 29" "i < 2 ^ 28"
  shows "word_no (plant entry base i m) base q =
     (if q = i + 7 then LDR_PC_PC_MINUS4 else if q = i + 8 then entry else word_no m base q)"
proof -
  have al: "(base + 4 * of_nat k) AND 3 = 0" for k
  proof -
    have "4 dvd unat (base + 4 * of_nat k)"
      using assms(1) by (simp add: aligned_iff unat_word_ariths mod_mod_trivial dvd_mod)
    then show ?thesis by (simp only: aligned_iff)
  qed
  have inj: "base + 4 * of_nat a = base + 4 * of_nat b \<longleftrightarrow> a = b" if "a < 2 ^ 29" "b < 2 ^ 29" for a b :: nat
  proof -
    have "unat (4 * of_nat k :: u32) = 4 * k" if "k < 2 ^ 29" for k :: nat
      using that by (simp add: unat_word_ariths unat_of_nat)
    with that show ?thesis by (metis add_left_cancel mult_cancel1 zero_neq_numeral)
  qed
  have i: "i + 7 < 2 ^ 29" "i + 8 < 2 ^ 29" using assms(3) by simp_all
  have ne: "base + 4 * of_nat (i + 7) \<noteq> base + 4 * of_nat q" if "q \<noteq> i + 7"
    using inj [OF i(1) assms(2)] that by metis
  have ne': "base + 4 * of_nat (i + 8) \<noteq> base + 4 * of_nat q" if "q \<noteq> i + 8"
    using inj [OF i(2) assms(2)] that by metis
  have ne2: "base + 4 * of_nat (i + 7) \<noteq> base + 4 * of_nat (i + 8)"
    using inj [OF i] by simp
  note al7 = al [of "i + 7"] and al8 = al [of "i + 8"]
  consider "q = i + 7" | "q = i + 8" | "q \<noteq> i + 7" "q \<noteq> i + 8" by blast
  then show ?thesis
  proof cases
    case 1 then show ?thesis unfolding word_no_def plant_def by (simp only: ld32_st32_same [OF al7] simp_thms if_True)
  next
    case 2 then show ?thesis unfolding word_no_def plant_def
      by (simp only: ld32_st32_other [OF al7 al8 ne2] ld32_st32_same [OF al8]) simp
  next
    case 3 then show ?thesis unfolding word_no_def plant_def
      by (simp only: ld32_st32_other [OF al7 al ne] ld32_st32_other [OF al8 al ne'] simp_thms if_False)
  qed
qed

lemma handoff_distinct: "0 < j \<Longrightarrow> j < 9 \<Longrightarrow> handoff_match ! j \<noteq> 0xE3A01070"
proof -
  assume "0 < j" "j < 9"
  then have "j \<in> {1, 2, 3, 4, 5, 6, 7, 8}" by auto
  then show ?thesis by (auto simp: handoff_match_def)
qed

lemma handoff_apart:
  assumes "word_no m base i = handoff_match ! 0" "\<And>j. 0 < j \<Longrightarrow> j < 9 \<Longrightarrow> word_no m base (k + j) \<noteq> 0xE3A01070"
    and "k < i"
  shows "k + 9 \<le> i"
proof (rule ccontr)
  assume "\<not> k + 9 \<le> i"
  then have "i = k + (i - k)" "0 < i - k" "i - k < 9" using assms(3) by simp_all
  with assms(2) [of "i - k"] assms(1) show False by (simp add: handoff_match_def)
qed

lemma handoff_after:
  assumes "base AND 3 = 0" "k < 2 ^ 28" "i < k" "handoff_at m base i" "entry \<noteq> 0xE3A01070"
  shows "handoff_at (plant entry base i m) base k \<longleftrightarrow> handoff_at m base k"
proof -
  have w: "word_no (plant entry base i m) base q =
     (if q = i + 7 then LDR_PC_PC_MINUS4 else if q = i + 8 then entry else word_no m base q)"
    if "q < 2 ^ 29" for q
    using assms that by (intro word_no_plant) simp_all
  have old: "word_no m base (i + j) \<noteq> 0xE3A01070" if "0 < j" "j < 9" for j
    using assms(4) handoff_distinct that by (simp add: handoff_at_def)
  have new: "word_no (plant entry base i m) base (i + j) \<noteq> 0xE3A01070" if "0 < j" "j < 9" for j
    using old [OF that] assms(2,3,5) that by (simp add: w LDR_PC_PC_MINUS4_def)
  have far: "handoff_at (plant entry base i m) base k \<longleftrightarrow> handoff_at m base k" if "i + 9 \<le> k"
    using that assms(2) by (simp add: handoff_at_def w)
  have "handoff_at x base k \<Longrightarrow> word_no x base k = handoff_match ! 0" for x
    by (auto simp: handoff_at_def dest: spec [of _ 0])
  then show ?thesis
    using far handoff_apart [OF _ old assms(3)] handoff_apart [OF _ new assms(3)] by blast
qed

text \<open>What the stage sets up: one required patch over an empty arena.\<close>

definition handoff_set :: "callback pf_patch" where
  "handoff_set = \<lparr>pf_callback = Handoff, is_required = True, has_fired = False, should_match = True,
     pairs = zip handoff_match handoff_mask, pf_name = cs ''handoff to nkpf''\<rparr>"

lemma run_handoff_patch:
  assumes "arena_used s = 0"
  shows "run_state (handoff_patch y rng) s =
    (let (r, t) = run_state (pf_apply (run_callback y) rng) (s\<lparr>arena_used := 104,
        set_patches := [handoff_set], set_required := True, cfw_range := Some rng\<rparr>)
     in case r of None \<Rightarrow> (None, t) | Some _ \<Rightarrow> (Some (), t\<lparr>cfw_range := None, set_patches := []\<rparr>))"
proof -
  have "bad_mask 0 handoff_match handoff_mask = None"
    by (simp add: handoff_match_def handoff_mask_def EXACT_def)
  moreover have "length handoff_match = 9" by (simp add: handoff_match_def)
  ultimately have "run_state (handoff_patch y rng) s = run_state (do {
      r \<leftarrow> pf_apply (run_callback y) rng;
      case r of None \<Rightarrow> State_Monad.return None
      | Some _ \<Rightarrow> do {
          modify (\<lambda>s. s\<lparr>cfw_range := None\<rparr>); pf_patchset_destroy; State_Monad.return (Some ()) } })
      (s\<lparr>arena_used := 104, set_patches := [handoff_set], set_required := True, cfw_range := Some rng\<rparr>)"
    using assms
    by (cases s) (simp add: handoff_patch_def pf_patchset_create_def pf_maskmatch_def malloc_def run_simps Let_def
        PATCHSET_BYTES_def MASKMATCH_BYTES_def ARENA_SIZE_def handoff_set_def)
  then show ?thesis
    by (simp add: run_bind pf_patchset_destroy_def run_simps split: prod.split option.split)
qed

text \<open>C14: The first stage hands over to the second exactly when the code that EBOOT uses to start the
  kernel is found at one place of the range; then only two words behind it change, to a jump and
  the entry of the second stage. With no such place, or two, the stage panics.\<close>

theorem handoff_patch_exact:
  assumes "arena_used s = 0" and "base = cacheable_base rng" and "base AND 3 = 0"
    and "n = unat (drop_bit 2 (rsize rng))" and "n \<le> 2 ^ 28" and "nk_entry y \<noteq> 0xE3A01070"
    and "run_state (handoff_patch y rng) s = (r, t)"
  shows "(r = Some () \<longleftrightarrow> (\<exists>!i. i < n \<and> handoff_at (cmem s) base i)) \<and>
    (\<forall>i < n. r = Some () \<and> handoff_at (cmem s) base i \<longrightarrow> cmem t = plant (nk_entry y) base i (cmem s))"
proof -
  define s' where "s' = s\<lparr>arena_used := 104, set_patches := [handoff_set], set_required := True,
    cfw_range := Some rng\<rparr>"
  define eff where "eff = (\<lambda>a m. st32 (st32 m (a + 32) (nk_entry y)) (a + 28) LDR_PC_PC_MINUS4)"
  obtain x u where u: "run_state (pf_apply (run_callback y) rng) s' = (x, u)" by fastforce
  have res: "r = x" "cmem t = cmem u"
    using assms(7) u unfolding run_handoff_patch [OF assms(1)] s'_def [symmetric]
    by (auto split: option.splits)
  have o: "once (run_callback y) (pf_callback handoff_set) (\<lambda>_ _. True) eff"
    unfolding eff_def using once_handoff by (simp add: handoff_set_def)
  have p: "8 \<le> length (pairs handoff_set)"
    "should_match handoff_set \<and> is_required handoff_set \<and> \<not> has_fired handoff_set"
    "set_patches s' = [handoff_set]" "set_required s'" "cmem s' = cmem s"
    by (simp_all add: handoff_set_def handoff_match_def handoff_mask_def s'_def)
  have e: "eff (base + 4 * of_nat i) m = plant (nk_entry y) base i m" for i m
    by (simp add: eff_def plant_def algebra_simps)
  have h: "hit handoff_set (\<lambda>_ _. True) base m = handoff_at m base" for m
    by (rule ext, rule hit_handoff) (simp add: handoff_set_def)
  note single = pf_apply_single [OF o p(1-4) assms(4,2) u, unfolded h e p(5), folded res]
  have after: "handoff_at (plant (nk_entry y) base i (cmem s)) base k \<longleftrightarrow> handoff_at (cmem s) base k"
    if "i < k" "k < n" "handoff_at (cmem s) base i" for i k
    using handoff_after [OF assms(3) _ that(1,3) assms(6)] that(2) assms(5) by simp
  have ex1: "(\<exists>i < n. P i \<and> (\<forall>k < i. \<not> P k) \<and> (\<forall>k. i < k \<and> k < n \<longrightarrow> \<not> P k)) \<longleftrightarrow> (\<exists>!i. i < n \<and> P i)"
    for P :: "nat \<Rightarrow> bool"
  proof
    assume "\<exists>i < n. P i \<and> (\<forall>k < i. \<not> P k) \<and> (\<forall>k. i < k \<and> k < n \<longrightarrow> \<not> P k)"
    then obtain i where "i < n" "P i" "\<forall>k < i. \<not> P k" "\<forall>k. i < k \<and> k < n \<longrightarrow> \<not> P k" by blast
    then show "\<exists>!i. i < n \<and> P i"
      by (intro ex1I [of _ i]) (simp, metis nat_neq_iff)
  next
    assume "\<exists>!i. i < n \<and> P i"
    then obtain i where i: "i < n" "P i" and u: "\<And>k. k < n \<Longrightarrow> P k \<Longrightarrow> k = i" by blast
    have "\<not> P k" if "k < n" "k \<noteq> i" for k using u that by blast
    moreover have "k < n" if "k < i" for k using that i(1) by (rule less_trans)
    ultimately show "\<exists>i < n. P i \<and> (\<forall>k < i. \<not> P k) \<and> (\<forall>k. i < k \<and> k < n \<longrightarrow> \<not> P k)"
      using i by (intro exI [of _ i]) blast
  qed
  have iff: "r = Some () \<longleftrightarrow> (\<exists>!i. i < n \<and> handoff_at (cmem s) base i)"
  proof -
    have "(\<forall>k. i < k \<and> k < n \<longrightarrow> \<not> handoff_at (plant (nk_entry y) base i (cmem s)) base k) \<longleftrightarrow>
        (\<forall>k. i < k \<and> k < n \<longrightarrow> \<not> handoff_at (cmem s) base k)" if "handoff_at (cmem s) base i" for i
      using after that by blast
    then show ?thesis unfolding ex1 [symmetric] using single [THEN conjunct1] by (simp cong: conj_cong)
  qed
  moreover have "cmem t = plant (nk_entry y) base i (cmem s)"
    if "i < n" "r = Some ()" "handoff_at (cmem s) base i" for i
    using that single iff by (metis (no_types, lifting) less_trans)
  ultimately show ?thesis by blast
qed

text \<open>A range of one word, at which the code is found.\<close>

definition demo_eboot :: cfw_st where
  "demo_eboot = \<lparr>cmem = word_mem (\<lambda>a. let j = unat (drop_bit 2 (a - 0x30038000)) in if j < 9 then handoff_match ! j else 0),
     stage = CFW_EBOOT, console = [], captured = [], capture_left = 0, message = [], status = 0,
     set_patches = [], set_required = False, arena_used = 0, cfw_enable = 0, cfw_range = None, found = False,
     installed = False\<rparr>"

definition demo_syms :: cfw_syms where
  "demo_syms = \<lparr>nk_entry = 0x30198000, irq_hook = 0, irq_orig = 0, ioctl_hook = 0, ioctl_resume = 0,
     nk_resident = []\<rparr>"

theorem handoff_patch_exact_witness:
  "let (r, t) = run_state (handoff_patch demo_syms \<lparr>va = EBOOT_CODE_VA, rsize = 4, cacheable_base = 0x30038000\<rparr>)
       demo_eboot
   in r = Some () \<and> cmem t = plant 0x30198000 0x30038000 0 (cmem demo_eboot)"
proof -
  let ?rng = "\<lparr>va = EBOOT_CODE_VA, rsize = 4, cacheable_base = 0x30038000\<rparr>"
  obtain r t where r: "run_state (handoff_patch demo_syms ?rng) demo_eboot = (r, t)" by fastforce
  have n: "1 = unat (drop_bit 2 (rsize ?rng))" by (simp add: unat_drop_bit)
  have h: "handoff_at (cmem demo_eboot) 0x30038000 0"
  proof (unfold handoff_at_def, intro allI impI)
    fix j :: nat assume "j < 9"
    then have j: "j \<in> {0, 1, 2, 3, 4, 5, 6, 7, 8}" by auto
    then have "(0x30038000 + 4 * of_nat j :: u32) AND 3 = 0" by auto
    from ld32_word_mem [OF this] j show "word_no (cmem demo_eboot) 0x30038000 (0 + j) = handoff_match ! j"
      by (auto simp: word_no_def demo_eboot_def unat_drop_bit)
  qed
  have "\<exists>!i. i < 1 \<and> handoff_at (cmem demo_eboot) 0x30038000 i" using h by auto
  with handoff_patch_exact [OF _ _ _ n _ _ r] h show ?thesis
    by (simp add: r) (simp add: demo_eboot_def demo_syms_def)
qed

section \<open>The result of the first stage\<close>

text \<open>A program that leaves the status 0, or panics and leaves -1.\<close>

definition honest :: "('cb, 'z, 'a option) pf \<Rightarrow> bool" where
  "honest m \<longleftrightarrow> (\<forall>s r t. stage s = CFW_EBOOT \<and> status s = 0 \<and> run_state m s = (r, t) \<longrightarrow>
     (if r = None then status t = - 1 else stage t = CFW_EBOOT \<and> status t = 0))"

named_theorems honest_rules \<open>programs whose status agrees with their result\<close>

lemma honest_panic [honest_rules]: "honest (panicM fmt as)"
  by (simp add: honest_def panicM_def run_simps panic_def Let_def)

lemma honest_return [honest_rules]: "honest (State_Monad.return (Some x))"
  by (simp add: honest_def run_simps)

lemma honest_chain:
  assumes m: "honest m" and f: "\<And>x. honest (f x)"
  shows "honest (do { r \<leftarrow> m; case r of None \<Rightarrow> State_Monad.return None | Some x \<Rightarrow> f x })"
proof (unfold honest_def, intro allI impI, elim conjE)
  fix s r t assume s: "stage s = CFW_EBOOT" "status s = 0"
    and r: "run_state (do { r \<leftarrow> m; case r of None \<Rightarrow> State_Monad.return None | Some x \<Rightarrow> f x }) s = (r, t)"
  obtain x u where x: "run_state m s = (x, u)" by fastforce
  then have u: "if x = None then status u = - 1 else stage u = CFW_EBOOT \<and> status u = 0"
    using m s unfolding honest_def by blast
  show "if r = None then status t = - 1 else stage t = CFW_EBOOT \<and> status t = 0"
  proof (cases x)
    case None then show ?thesis using r x u by (simp add: run_simps)
  next
    case (Some v)
    then have "run_state (f v) u = (r, t)" "stage u = CFW_EBOOT" "status u = 0" using r x u by (simp_all add: run_simps)
    then show ?thesis using f [of v] unfolding honest_def by blast
  qed
qed

lemma honest_quiet:
  assumes m: "keeps (\<lambda>s. (stage s, status s)) m" and f: "\<And>x. honest (f x)"
  shows "honest (State_Monad.bind m f)"
proof (unfold honest_def, intro allI impI, elim conjE)
  fix s r t assume s: "stage s = CFW_EBOOT" "status s = 0" and r: "run_state (State_Monad.bind m f) s = (r, t)"
  obtain x u where x: "run_state m s = (x, u)" by fastforce
  then have "stage u = CFW_EBOOT" "status u = 0" using m s by (auto simp: keeps_def dest: spec [of _ s])
  moreover have "run_state (f x) u = (r, t)" using r x by (simp add: run_simps)
  ultimately show "if r = None then status t = - 1 else stage t = CFW_EBOOT \<and> status t = 0"
    using f [of x] unfolding honest_def by blast
qed

lemma honest_if [honest_rules]: "honest m \<Longrightarrow> honest n \<Longrightarrow> honest (if c then m else n)"
  by simp

lemma honest_Let [honest_rules]: "honest (f x) \<Longrightarrow> honest (let y = x in f y)"
  by simp

lemma quiet_rules [keeps_rules]:
  "keeps f (gets h)"
  "(\<And>s. f (g s) = f s) \<Longrightarrow> keeps f (modify g)"
  "keeps f m \<Longrightarrow> keeps f (whenM c m)"
  by (simp_all add: keeps_def run_simps)

lemma quiet_say [keeps_rules]: "keeps (\<lambda>s. (stage s, status s)) (say fmt as)"
  by (simp add: keeps_def run_simps)

lemma honest_option [honest_rules]:
  "honest m \<Longrightarrow> (\<And>x. honest (f x)) \<Longrightarrow> honest (case opt of None \<Rightarrow> m | Some x \<Rightarrow> f x)"
  by (cases opt) simp_all

lemma honest_malloc [honest_rules]: "honest (malloc n)"
  unfolding malloc_def
  by (rule honest_chain | rule honest_quiet | intro honest_rules keeps_rules | simp)+

lemma honest_create [honest_rules]: "honest pf_patchset_create"
  unfolding pf_patchset_create_def
  by (rule honest_chain | rule honest_quiet | intro honest_rules keeps_rules | simp)+

lemma honest_maskmatch [honest_rules]: "honest (pf_maskmatch name vs ks required cb)"
  unfolding pf_maskmatch_def
  by (rule honest_chain | rule honest_quiet | intro honest_rules keeps_rules | simp)+

lemma honest_match_all:
  assumes "\<And>cb j a. honest (run cb j a)"
  shows "honest (pf_match_all run js reads a)"
proof (induction js)
  case (Cons j js)
  have "honest (pf_maskmatch_match run j reads a)"
    unfolding pf_maskmatch_match_def
    by (rule honest_chain | rule honest_quiet | rule assms | intro honest_rules keeps_rules | simp)+
  with Cons show ?case
    unfolding pf_match_all.simps
    by (intro honest_quiet honest_chain honest_if honest_return keeps_rules)
qed (simp add: honest_return)

lemma honest_apply:
  assumes "\<And>cb j a. honest (run cb j a)"
  shows "honest (pf_apply run rng)"
proof -
  have "honest (pf_scan run base reads is)" for base reads "is"
  proof (induction "is" arbitrary: reads)
    case (Cons i "is")
    show ?case
      unfolding pf_scan.simps
      by (rule honest_chain | rule honest_quiet | rule honest_match_all | rule assms | rule Cons
          | intro keeps_rules)+
  qed (simp add: honest_return)
  then have "honest (pf_apply_32 run rng)"
    unfolding pf_apply_32_def by (intro honest_quiet keeps_rules)
  then show ?thesis
    unfolding pf_apply_def
    by (rule honest_chain) (rule honest_quiet | intro honest_rules keeps_rules)+
qed

lemma honest_patch_once [honest_rules]: "honest (cfw_patch_once j)"
  unfolding cfw_patch_once_def
  by (rule honest_quiet | intro honest_rules keeps_rules)+

lemma quiet_put [keeps_rules]:
  "keeps (\<lambda>s. (stage s, status s)) (put_word a v)"
  "keeps (\<lambda>s. (stage s, status s)) (res_word a v)"
  "keeps (\<lambda>s. (stage s, status s)) (put_words a vs)"
proof -
  show p: "keeps (\<lambda>s. (stage s, status s)) (put_word a v)" for a v
    by (simp add: put_word_def keeps_def run_simps)
  then show "keeps (\<lambda>s. (stage s, status s)) (res_word a v)" by (simp add: res_word_def)
  show "keeps (\<lambda>s. (stage s, status s)) (put_words a vs)"
    by (induction vs arbitrary: a) (simp_all add: p keeps_bind keeps_return)
qed

lemma honest_callback: "honest (run_callback y cb j a)"
  unfolding run_callback_def handoff_callback_def check_callback_def irq_callback_def ioctl_callback_def
    hold1582_callback_def hold188_callback_def rtc_stall_fix_callback_def
  by (cases cb; simp only: callback.case)
    (rule honest_chain | rule honest_quiet | intro honest_rules keeps_rules | simp)+

text \<open>A component of the stage: what it calls agrees with the status.\<close>

definition honest_component :: "cfw_component \<Rightarrow> bool" where
  "honest_component c \<longleftrightarrow>
     (\<forall>f. c_init c = Some f \<longrightarrow> keeps (\<lambda>s. (stage s, status s)) f) \<and>
     (\<forall>f. c_finish c = Some f \<longrightarrow> honest f) \<and> (\<forall>(ps, module, p) \<in> set (c_patches c). honest p)"

lemma honest_components: "c \<in> set (cfw_components y) \<Longrightarrow> honest_component c"
proof -
  have "honest battery_check_skip_patch" "honest irq_patch" "honest ioctl_patch" "honest power_hold_patch"
    "honest rtc_stall_fix_patch" "honest power_hold_finish"
    unfolding battery_check_skip_patch_def irq_patch_def ioctl_patch_def power_hold_patch_def
      rtc_stall_fix_patch_def power_hold_finish_def
    by (rule honest_chain | rule honest_quiet | intro honest_rules keeps_rules)+
  moreover have "keeps (\<lambda>s. (stage s, status s)) (cfw_nk_resident_install y)"
    unfolding cfw_nk_resident_install_def by (intro keeps_rules) simp
  ultimately show "c \<in> set (cfw_components y) \<Longrightarrow> honest_component c"
    by (auto simp: cfw_components_def cfw_power_hold_def cfw_battery_check_skip_def cfw_rtc_stall_fix_def
        cfw_diag_def honest_component_def)
qed

lemma honest_patches:
  assumes "\<And>module. honest (range_of module)"
  shows "\<forall>(ps, module, p) \<in> set patches. honest p \<Longrightarrow> honest (run_patches y st range_of patches)"
proof (induction patches)
  case (Cons q patches)
  obtain ps module p where q: "q = (ps, module, p)" by (cases q)
  have p: "honest p" and rest: "honest (run_patches y st range_of patches)" using Cons q by simp_all
  show ?case
    unfolding q run_patches.simps
    by (intro honest_if honest_chain honest_quiet keeps_rules assms honest_create p rest honest_apply honest_callback)
      (simp_all add: pf_patchset_destroy_def keeps_def run_simps)
qed (simp add: honest_return)

lemma honest_run_components:
  assumes "\<And>module. honest (range_of module)"
  shows "\<forall>c \<in> set comps. honest_component c \<Longrightarrow> honest (run_components y st range_of i comps)"
proof (induction comps arbitrary: i)
  case (Cons c comps)
  have init: "keeps (\<lambda>s. (stage s, status s)) (case c_init c of None \<Rightarrow> State_Monad.return () | Some f \<Rightarrow> f)"
    using Cons.prems by (auto simp: honest_component_def keeps_return split: option.split)
  have finish: "honest (case c_finish c of None \<Rightarrow> State_Monad.return (Some ()) | Some f \<Rightarrow> f)"
    using Cons.prems by (auto simp: honest_component_def honest_return split: option.split)
  have patches: "honest (run_patches y st range_of (c_patches c))"
    using Cons.prems assms by (intro honest_patches) (simp_all add: honest_component_def)
  show ?case
    unfolding run_components.simps
    using Cons by (intro honest_quiet [OF quiet_rules(1)] honest_if honest_quiet [OF quiet_say]
        honest_quiet [OF init] honest_chain patches finish) simp_all
qed (simp add: honest_return)

lemma honest_handoff_patch: "honest (handoff_patch y rng)"
  unfolding handoff_patch_def
  by (intro honest_chain honest_quiet keeps_rules honest_create honest_maskmatch honest_apply honest_callback honest_return)
    (simp_all add: pf_patchset_destroy_def keeps_def run_simps)

text \<open>C27: The first stage always returns; it returns 0 with the status 0, or -1 with the status -1 when any of
  its patches panicked, whatever image it is given.\<close>

theorem eboot_stage_status:
  "let (r, t) = run_state (eboot_stage y args) s in r = status t \<and> (r = 0 \<or> r = - 1)"
proof -
  define start :: "cfw_st \<Rightarrow> cfw_st" where "start = (\<lambda>s. s\<lparr>stage := CFW_EBOOT, status := 0, message := []\<rparr>)"
  obtain m where m: "eboot_main y args = State_Monad.bind (modify start) (\<lambda>_. m)" "honest m"
    "yields (\<lambda>r. r = None \<or> r = Some 0) m"
  proof
    show "eboot_main y args = State_Monad.bind (modify start) (\<lambda>_. do {
      say ''cfw: eboot stage'' [];
      if drop_bit (length (cfw_components y)) (a_enable args) \<noteq> 0
      then panicM ''Unknown components 0x%x'' [A_int (a_enable args)]
      else do {
        modify (\<lambda>s. s\<lparr>cfw_enable := a_enable args\<rparr>);
        let rng = \<lparr>va = EBOOT_CODE_VA, rsize = a_bytes args AND NOT 3, cacheable_base = a_code args\<rparr>;
        r \<leftarrow> cfw_run y CFW_EBOOT (\<lambda>_. State_Monad.return (Some rng));
        case r of None \<Rightarrow> State_Monad.return None
        | Some _ \<Rightarrow> do {
            h \<leftarrow> handoff_patch y rng;
            case h of None \<Rightarrow> State_Monad.return None | Some _ \<Rightarrow> State_Monad.return (Some 0) } } })"
      (is "_ = State_Monad.bind _ (\<lambda>_. ?m)")
      by (simp add: eboot_main_def start_def)
    show "honest ?m"
      unfolding cfw_run_def
      by (intro honest_quiet [OF quiet_say] honest_if honest_panic honest_quiet [OF quiet_rules(2)] honest_Let
          honest_chain honest_run_components ballI honest_components honest_handoff_patch honest_return) simp_all
    show "yields (\<lambda>r. r = None \<or> r = Some 0) ?m"
      by (auto simp: yields_def run_simps panicM_def Let_def split: prod.splits option.splits)
  qed
  define s0 where "s0 = start (s\<lparr>capture_left := 0, captured := [], set_patches := [], arena_used := 0,
    cfw_range := None, found := False, installed := False\<rparr>)"
  have s0: "stage s0 = CFW_EBOOT" "status s0 = 0" by (simp_all add: s0_def start_def)
  obtain r t where r: "run_state m s0 = (r, t)" by fastforce
  have "r = None \<or> r = Some 0" using yieldsD [OF m(3), of s0] r by simp
  moreover have "if r = None then status t = - 1 else stage t = CFW_EBOOT \<and> status t = 0"
    using m(2) s0 r unfolding honest_def by blast
  moreover have "run_state (eboot_stage y args) s = (case r of None \<Rightarrow> - 1 | Some v \<Rightarrow> v, t)"
    using r by (simp add: eboot_stage_def clear_bss_def m(1) run_simps s0_def)
  ultimately show ?thesis by (auto split: if_splits)
qed

end
