(* ===== verification/Boot.thy ===== *)
theory Boot
  imports CfwProps Soc Sd Storage Entries
begin

text \<open>
  The actions of the boot menu (aipc-boot/boot.c): a Linux kernel from the card with its tag list, a payload,
  and the original system from NAND, patched by CFW. A jump that does not return is an outcome. Leaving
  the caches and the timer on or off is a parameter, and so is what a called payload does.
\<close>

section \<open>Definitions\<close>

definition IMAGE_BASE :: u32 where "IMAGE_BASE = 0x33000000"
definition ZIMAGE_DST :: u32 where "ZIMAGE_DST = 0x30008000"
definition ZIMAGE_MAX :: u32 where "ZIMAGE_MAX = IMAGE_BASE - ZIMAGE_DST"
definition ATAGS_ADDR :: u32 where "ATAGS_ADDR = 0x30000100"
definition ATAG_CORE :: u32 where "ATAG_CORE = 0x54410001"
definition ATAG_CMDLINE :: u32 where "ATAG_CMDLINE = 0x54410009"
definition EBOOT_DST :: u32 where "EBOOT_DST = 0x30037FD4"
definition EBOOT_BYTES :: u32 where "EBOOT_BYTES = 0x00064000"
definition EBOOT_CODE :: u32 where "EBOOT_CODE = EBOOT_DST + 0x2C"
definition CFW_PHYS :: u32 where "CFW_PHYS = 0x30190000"
definition BOOT_ECFW :: int where "BOOT_ECFW = - 20"

datatype leave = Jump_payload u32 | Jump_linux u32 u32 | Jump_eboot

text \<open>The state of the drivers with \<open>cfw_message\<close>.\<close>

record 'h boot_st = "'h sd_st" +
  cfw_message :: bytes

type_synonym ('h, 'a) boot = "('h boot_st, 'a) state"

section \<open>Payloads\<close>

definition boot_jump :: "('z log_st_scheme \<Rightarrow> 'z log_st_scheme) \<Rightarrow> u32 \<Rightarrow> 'z log_st_scheme \<Rightarrow> leave \<times> 'z log_st_scheme" where
  "boot_jump quiesce entry s = (Jump_payload entry, quiesce (log_puts (cs ''payload: entering'' @ [10]) s))"

definition payload_call ::
  "('z log_st_scheme \<Rightarrow> 'z log_st_scheme) \<Rightarrow> (u32 \<Rightarrow> 'z log_st_scheme \<Rightarrow> 'z log_st_scheme) \<Rightarrow>
   ('z log_st_scheme \<Rightarrow> 'z log_st_scheme) \<Rightarrow> u32 \<Rightarrow> 'z log_st_scheme \<Rightarrow> 'z log_st_scheme" where
  "payload_call quiesce call_payload boot_hw_init entry s =
     log_puts (cs ''payload: returned'' @ [10])
       (boot_hw_init (call_payload entry (quiesce (log_puts (cs ''payload: calling'' @ [10]) s))))"

section \<open>Linux\<close>

definition build_atags :: "bytes \<Rightarrow> mem \<Rightarrow> mem" where
  "build_atags cmd m =
     (let len = of_nat (length cmd) + 1;
          t = ATAGS_ADDR;
          m1 = st32 m t 2;
          m2 = st32 m1 (t + 4) ATAG_CORE;
          m3 = st32 m2 (t + 8) (2 + (len + 3) div 4);
          m4 = st32 m3 (t + 12) ATAG_CMDLINE;
          m5 = mem_put m4 (t + 16) (replicate (unat ((len + 3) AND NOT 3)) 0);
          m6 = mem_put m5 (t + 16) (cmd @ [0]);
          t2 = t + 16 + 4 * ((len + 3) div 4);
          m7 = st32 m6 t2 0
      in st32 m7 (t2 + 4) 0)"

text \<open>The return code and the bytes at \<open>ZIMAGE_DST\<close>.\<close>

definition linux_load ::
  "('v, 'o) fatfs \<Rightarrow> 'v sd_ops \<Rightarrow> entry \<Rightarrow> 'v storage_st \<Rightarrow> int \<times> bytes \<times> 'v storage_st" where
  "linux_load ff sd e s = storage_load ff sd (kernel e) ZIMAGE_DST ZIMAGE_MAX (log_detach s)"

definition linux_enter ::
  "('z log_st_scheme \<Rightarrow> 'z log_st_scheme) \<Rightarrow> entry \<Rightarrow> 'z log_st_scheme \<Rightarrow> leave \<times> 'z log_st_scheme" where
  "linux_enter quiesce e s =
     (let s1 = log_puts (cs ''linux: entering'' @ [10]) s
      in if cmdline e = [] then (Jump_payload ZIMAGE_DST, quiesce s1)
         else (Jump_linux ZIMAGE_DST ATAGS_ADDR, quiesce (s1\<lparr>ddr := build_atags (cs (cmdline e)) (ddr s1)\<rparr>)))"

section \<open>The original system\<close>

definition cfw_component_on :: "skeys \<Rightarrow> cfw_component \<Rightarrow> bool" where
  "cfw_component_on ks c =
     (let on = settings_cfw (c_id c) ks in if on < 0 then c_flags c AND CFW_DEFAULT_ON \<noteq> 0 else on \<noteq> 0)"

text \<open>\<open>for (i = 0; i < cfw_component_count(); i++)\<close> over the components of the image\<close>

fun cfw_mask_loop :: "skeys \<Rightarrow> nat \<Rightarrow> cfw_component list \<Rightarrow> u32 \<Rightarrow> u32" where
  "cfw_mask_loop ks i [] mk = mk"
| "cfw_mask_loop ks i (c # rest) mk =
     cfw_mask_loop ks (i + 1) rest (if cfw_component_on ks c then mk OR push_bit i 1 else mk)"

definition cfw_mask :: "cfw_syms \<Rightarrow> skeys \<Rightarrow> u32" where
  "cfw_mask y ks = cfw_mask_loop ks 0 (cfw_components y) 0"

definition wince_power_held :: "cfw_syms \<Rightarrow> skeys \<Rightarrow> bool \<Rightarrow> bool" where
  "wince_power_held y ks cfw =
     (if cfw then
        (case find (\<lambda>c. c_id c = ''power_hold'') (cfw_components y) of
           Some c \<Rightarrow> cfw_component_on ks c
         | None \<Rightarrow> False)
      else False)"

text \<open>What the linked image brings: its symbols, its bytes and its initialised data.\<close>

record cfw_image =
  i_syms :: cfw_syms
  i_bytes :: bytes
  i_data :: cfw_st

text \<open>The stage runs on the same memory. It has a log of its own, which starts the window again and does not
  overlap the code that is patched.\<close>

definition after_cfw :: "cfw_st \<Rightarrow> 'h boot_st \<Rightarrow> 'h boot_st" where
  "after_cfw t s =
     (let l = log_puts (console t) (log_init (s\<lparr>ddr := cmem t\<rparr>))
      in l\<lparr>log_ptr := log_ptr s, log_end := log_end s\<rparr>)"

definition cfw_eboot_stage :: "cfw_image \<Rightarrow> skeys \<Rightarrow> ('h, int) boot" where
  "cfw_eboot_stage img ks = do {
     modify (\<lambda>s. s\<lparr>ddr := mem_put (ddr s) CFW_PHYS (i_bytes img)\<rparr>);
     m \<leftarrow> gets ddr;
     let args = \<lparr>a_code = EBOOT_CODE, a_bytes = EBOOT_BYTES - 0x2C, a_enable = cfw_mask (i_syms img) ks\<rparr>;
     let (rc, t) = run_state (eboot_stage (i_syms img) args) ((i_data img)\<lparr>cmem := m, console := []\<rparr>);
     modify (after_cfw t);
     if rc \<noteq> 0 then do {
       modify (\<lambda>s. (log_putc 10 (log_puts (message t) (log_puts (cs ''cfw: '') s)))\<lparr>cfw_message := message t\<rparr>);
       State_Monad.return BOOT_ECFW }
     else State_Monad.return 0 }"

definition wince_prepare :: "'h bus \<Rightarrow> cfw_image \<Rightarrow> skeys \<Rightarrow> bool \<Rightarrow> ('h, int option) boot" where
  "wince_prepare b img ks cfw = do {
     sd_release_pins b;
     nf_hw_init b;
     nand_init b;
     rc \<leftarrow> nand_probe_geometry b;
     if rc \<noteq> 0 then do {
       modify (\<lambda>s. log_rc rc (log_puts (cs ''nand: geometry'') s));
       State_Monad.return (Some rc) }
     else do {
       r \<leftarrow> nand_load_image b IPL_START_BLOCK EBOOT_BYTES;
       case r of None \<Rightarrow> State_Monad.return None
       | Some (rc1, data) \<Rightarrow> do {
           modify (\<lambda>s. s\<lparr>ddr := mem_put (ddr s) EBOOT_DST data\<rparr>);
           if rc1 \<noteq> 0 then do {
             modify (\<lambda>s. log_rc rc1 (log_puts (cs ''nand: eboot load'') s));
             State_Monad.return (Some rc1) }
           else if cfw then do { rc2 \<leftarrow> cfw_eboot_stage img ks; State_Monad.return (Some rc2) }
           else State_Monad.return (Some 0) } } }"

definition wince_enter :: "('z log_st_scheme \<Rightarrow> 'z log_st_scheme) \<Rightarrow> 'z log_st_scheme \<Rightarrow> leave \<times> 'z log_st_scheme" where
  "wince_enter quiesce s = (Jump_eboot, quiesce (log_puts (cs ''eboot: entering'' @ [10]) s))"

section \<open>The tag list\<close>

text \<open>A reader of the list: the command line in it, and whether it ends with an empty tag.\<close>

fun cstr :: "nat \<Rightarrow> mem \<Rightarrow> u32 \<Rightarrow> bytes" where
  "cstr 0 m a = []"
| "cstr (Suc n) m a = (if m a = 0 then [] else m a # cstr n m (a + 1))"

fun tag_cmdline :: "nat \<Rightarrow> mem \<Rightarrow> u32 \<Rightarrow> bytes option" where
  "tag_cmdline 0 m a = None"
| "tag_cmdline (Suc n) m a =
     (if ld32 m (a + 4) = ATAG_CMDLINE then Some (cstr (4 * unat (ld32 m a) - 8) m (a + 8))
      else if ld32 m (a + 4) = 0 then None
      else tag_cmdline n m (a + 4 * ld32 m a))"

fun tags_closed :: "nat \<Rightarrow> mem \<Rightarrow> u32 \<Rightarrow> bool" where
  "tags_closed 0 m a = False"
| "tags_closed (Suc n) m a =
     (if ld32 m (a + 4) = 0 then ld32 m a = 0 else 2 \<le> ld32 m a \<and> tags_closed n m (a + 4 * ld32 m a))"

lemma mem_put_over:
  assumes "length ys \<le> length xs" "length xs \<le> 2 ^ 32"
  shows "mem_put (mem_put m a xs) a ys = mem_put m a (ys @ drop (length ys) xs)"
  using assms by (intro ext) (simp add: mem_put_apply nth_append)

lemma st32_put: "a AND 3 = 0 \<Longrightarrow> st32 m a v = mem_put m a (le32 v)"
  unfolding st32_def by (simp only: aligned_low_bits)

text \<open>The bytes of the list for a command line of \<open>w\<close> words.\<close>

definition atag_bytes :: "bytes \<Rightarrow> nat \<Rightarrow> bytes" where
  "atag_bytes cmd w = le32 2 @ le32 ATAG_CORE @ le32 (2 + of_nat w) @ le32 ATAG_CMDLINE @
     (cmd @ replicate (4 * w - length cmd) 0) @ le32 0 @ le32 0"

lemma build_atags_bytes:
  assumes "length cmd \<le> 255" "w = (length cmd + 4) div 4"
  shows "build_atags cmd m = mem_put m ATAGS_ADDR (atag_bytes cmd w)"
proof -
  have w: "length cmd + 1 \<le> 4 * w" "4 * w \<le> length cmd + 4" "w \<le> 64" using assms by (auto simp: div_le_mono)
  have len: "(of_nat (length cmd) + 1 + 3 :: u32) = of_nat (length cmd + 4)" by simp
  have u: "unat (of_nat (length cmd + 4) :: u32) = length cmd + 4"
    using assms(1) by (simp add: unat_of_nat del: of_nat_add)
  have d: "(of_nat (length cmd + 4) :: u32) div 4 = of_nat w"
    using w u by (simp only: word_unat_eq_iff unat_div u) (simp add: assms(2) unat_of_nat)
  have r: "unat ((of_nat (length cmd + 4) :: u32) AND NOT 3) = 4 * w"
  proof -
    let ?x = "of_nat (length cmd + 4) :: u32"
    have "?x AND NOT 3 = ?x AND NOT (?x AND 3)" by (rule bit_word_eqI) (auto simp: bit_simps)
    also have "\<dots> = ?x - (?x AND 3)"
      by (rule disjunctive_diff [symmetric]) (simp add: bit_simps)
    finally have "unat (?x AND NOT 3) = unat ?x - unat (?x AND 3)"
      using u by (simp add: unat_sub word_and_le1 word_and_le2)
    then show ?thesis by (simp only: and_3_mod u assms(2) minus_mod_eq_mult_div)
  qed
  define h where "h = le32 2 @ le32 ATAG_CORE @ le32 (2 + of_nat w) @ le32 ATAG_CMDLINE"
  define body where "body = cmd @ replicate (4 * w - length cmd) 0"
  have lens: "length h = 16" "length body = 4 * w" using w by (simp_all add: h_def body_def le32_def)
  have al: "ATAGS_ADDR AND 3 = 0" "(ATAGS_ADDR + 4) AND 3 = 0" "(ATAGS_ADDR + 8) AND 3 = 0" "(ATAGS_ADDR + 12) AND 3 = 0"
    by (simp_all add: ATAGS_ADDR_def)
  have head: "st32 (st32 (st32 (st32 m ATAGS_ADDR 2) (ATAGS_ADDR + 4) ATAG_CORE) (ATAGS_ADDR + 8) (2 + of_nat w))
      (ATAGS_ADDR + 12) ATAG_CMDLINE = mem_put m ATAGS_ADDR h"
    unfolding h_def st32_put [OF al(1)] st32_put [OF al(2)] st32_put [OF al(3)] st32_put [OF al(4)]
    by (simp add: le32_def add.commute)
  have lay: "mem_put (mem_put x (ATAGS_ADDR + 16) (replicate (4 * w) 0)) (ATAGS_ADDR + 16) (cmd @ [0]) =
      mem_put x (ATAGS_ADDR + 16) body" for x
  proof -
    have "(cmd @ [0]) @ drop (length (cmd @ [0])) (replicate (4 * w) 0) = body"
      using w by (simp add: body_def Suc_diff_Suc flip: replicate_Suc)
    then show ?thesis using w by (simp add: mem_put_over)
  qed
  have al2: "(ATAGS_ADDR + 16 + 4 * of_nat w) AND 3 = 0" "(ATAGS_ADDR + 16 + 4 * of_nat w + 4) AND 3 = 0"
    using w by (simp_all add: aligned_iff ATAGS_ADDR_def unat_word_ariths unat_of_nat)
  have "build_atags cmd m = mem_put (mem_put (mem_put (mem_put m ATAGS_ADDR h) (ATAGS_ADDR + 16) body)
      (ATAGS_ADDR + 16 + 4 * of_nat w) (le32 0)) (ATAGS_ADDR + 16 + 4 * of_nat w + 4) (le32 0)"
    unfolding build_atags_def Let_def len d r head lay st32_put [OF al2(1)] st32_put [OF al2(2)] by simp
  also have "\<dots> = mem_put m ATAGS_ADDR (((h @ body) @ le32 0) @ le32 0)"
  proof -
    have "ATAGS_ADDR + 16 = ATAGS_ADDR + of_nat (length h)"
      "ATAGS_ADDR + 16 + 4 * of_nat w = ATAGS_ADDR + of_nat (length (h @ body))"
      "ATAGS_ADDR + 16 + 4 * of_nat w + 4 = ATAGS_ADDR + of_nat (length ((h @ body) @ le32 0))"
      by (simp_all add: lens le32_def)
    then show ?thesis by (simp only: mem_put_append)
  qed
  finally show ?thesis by (simp add: atag_bytes_def h_def body_def)
qed

lemma mem_put_nth:
  "k < length bs \<Longrightarrow> length bs < 2 ^ 32 \<Longrightarrow> mem_put m a bs (a + of_nat k) = bs ! k"
  by (simp add: mem_put_apply unat_of_nat)

lemma ld32_piece:
  assumes "bs = pre @ le32 v @ post" "4 dvd length pre" "length bs < 2 ^ 32" "a AND 3 = 0"
  shows "ld32 (mem_put m a bs) (a + of_nat (length pre)) = v"
proof -
  let ?a = "a + of_nat (length pre)"
  have al: "?a AND 3 = 0"
    using assms(2,4) by (simp add: aligned_iff unat_word_ariths unat_of_nat dvd_mod)
  have n: "mem_put m a bs (?a + of_nat j) = le32 v ! j" if "j < 4" for j
    using mem_put_nth [of "length pre + j" bs m a] that assms(1,3)
    by (simp add: add.assoc nth_append)
  show ?thesis
    using n [of 0] n [of 1] n [of 2] n [of 3]
    unfolding ld32_aligned [OF al] by (simp add: le32_def of_le32_bytes)
qed

lemma cstr_nth:
  "(\<And>i. i < length cmd \<Longrightarrow> m (a + of_nat i) = cmd ! i) \<Longrightarrow> m (a + of_nat (length cmd)) = 0 \<Longrightarrow>
   length cmd < n \<Longrightarrow> 0 \<notin> set cmd \<Longrightarrow> cstr n m a = cmd"
proof (induction cmd arbitrary: n a)
  case Nil then show ?case by (cases n) simp_all
next
  case (Cons c cmd)
  then obtain n' where n: "n = Suc n'" by (cases n) simp_all
  have "cstr n' m (a + 1) = cmd"
  proof (rule Cons.IH)
    fix i assume "i < length cmd"
    then show "m (a + 1 + of_nat i) = cmd ! i" using Cons.prems(1) [of "Suc i"] by (simp add: add.assoc)
  next
    show "m (a + 1 + of_nat (length cmd)) = 0" using Cons.prems(2) by (simp add: add.assoc)
  qed (use Cons.prems n in simp_all)
  moreover have "m a = c" "c \<noteq> 0" using Cons.prems(1) [of 0] Cons.prems(4) by auto
  ultimately show ?case by (simp add: n)
qed

text \<open>C22: The kernel finds in the tag list the command line of the entry, the list ends with an empty tag,
  and it lies below the kernel: no byte below the list or from the kernel on changes.\<close>

theorem atags_round_trip:
  assumes "length cmd \<le> 255" and "0 \<notin> set cmd"
  shows "tag_cmdline 2 (build_atags cmd m) ATAGS_ADDR = Some cmd \<and> tags_closed 3 (build_atags cmd m) ATAGS_ADDR \<and>
    (\<forall>a. a < ATAGS_ADDR \<or> ZIMAGE_DST \<le> a \<longrightarrow> build_atags cmd m a = m a)"
proof -
  define w where "w = (length cmd + 4) div 4"
  define bs where "bs = atag_bytes cmd w"
  have w: "length cmd < 4 * w" "w \<le> 64" using assms(1) by (auto simp: w_def)
  have b: "build_atags cmd m = mem_put m ATAGS_ADDR bs"
    using build_atags_bytes [OF assms(1) w_def] by (simp add: bs_def)
  define body where "body = cmd @ replicate (4 * w - length cmd) 0"
  define h where "h = le32 2 @ le32 ATAG_CORE @ le32 (2 + of_nat w) @ le32 ATAG_CMDLINE"
  have bs: "bs = h @ body @ le32 0 @ le32 0" by (simp add: bs_def atag_bytes_def h_def body_def)
  have len: "length body = 4 * w" "length h = 16" using w by (simp_all add: body_def h_def le32_def)
  then have L: "length bs = 24 + 4 * w" "length bs < 2 ^ 32" using w by (simp_all add: bs le32_def)
  have al: "ATAGS_ADDR AND 3 = 0" by (simp add: ATAGS_ADDR_def)
  define rest where "rest = body @ le32 0 @ le32 0"
  have lle: "length (le32 v) = 4" for v by (simp add: le32_def)
  note piece = ld32_piece [OF _ _ L(2) al, of _ _ _ m]
  have r: "ld32 (mem_put m ATAGS_ADDR bs) ATAGS_ADDR = 2"
    "ld32 (mem_put m ATAGS_ADDR bs) (ATAGS_ADDR + 4) = ATAG_CORE"
    "ld32 (mem_put m ATAGS_ADDR bs) (ATAGS_ADDR + 8) = 2 + of_nat w"
    "ld32 (mem_put m ATAGS_ADDR bs) (ATAGS_ADDR + 12) = ATAG_CMDLINE"
    using piece [of "[]" 2 "le32 ATAG_CORE @ le32 (2 + of_nat w) @ le32 ATAG_CMDLINE @ rest"]
      piece [of "le32 2" ATAG_CORE "le32 (2 + of_nat w) @ le32 ATAG_CMDLINE @ rest"]
      piece [of "le32 2 @ le32 ATAG_CORE" "2 + of_nat w" "le32 ATAG_CMDLINE @ rest"]
      piece [of "le32 2 @ le32 ATAG_CORE @ le32 (2 + of_nat w)" ATAG_CMDLINE rest]
    by (simp_all add: bs h_def lle flip: rest_def)
  have e: "ld32 (mem_put m ATAGS_ADDR bs) (ATAGS_ADDR + 8 + 4 * (2 + of_nat w)) = 0"
    "ld32 (mem_put m ATAGS_ADDR bs) (ATAGS_ADDR + 8 + 4 * (2 + of_nat w) + 4) = 0"
    using piece [of "h @ body" 0 "le32 0"] piece [of "h @ body @ le32 0" 0 "[]"]
    by (simp_all add: bs len lle algebra_simps)
  have n: "mem_put m ATAGS_ADDR bs (ATAGS_ADDR + 16 + of_nat i) = body ! i" if "i < 4 * w" for i
  proof -
    have "mem_put m ATAGS_ADDR bs (ATAGS_ADDR + of_nat (16 + i)) = bs ! (16 + i)"
      using that L by (intro mem_put_nth) simp_all
    then show ?thesis using that len by (simp add: bs nth_append add.assoc)
  qed
  have u: "4 * unat (2 + of_nat w :: u32) - 8 = 4 * w"
  proof -
    have "unat (2 + of_nat w :: u32) = 2 + w" using w(2) by (simp add: unat_word_ariths unat_of_nat)
    then show ?thesis by simp
  qed
  have c: "cstr (4 * w) (mem_put m ATAGS_ADDR bs) (ATAGS_ADDR + 16) = cmd"
    using n w assms(2) by (intro cstr_nth) (simp_all add: body_def nth_append)
  have ne: "ATAG_CORE \<noteq> ATAG_CMDLINE" "ATAG_CORE \<noteq> 0" "ATAG_CMDLINE \<noteq> 0" by (simp_all add: ATAG_CORE_def ATAG_CMDLINE_def)
  have two: "(2 :: u32) \<le> 2 + of_nat w"
    using w(2) by (simp add: word_le_nat_alt unat_word_ariths unat_of_nat)
  have off: "\<not> unat (a - ATAGS_ADDR) < length bs" if "a < ATAGS_ADDR \<or> ZIMAGE_DST \<le> a" for a
    using that L(1) w(2) unat_diff_window [of "unat ATAGS_ADDR" "length bs" a]
    by (auto simp: ATAGS_ADDR_def ZIMAGE_DST_def word_less_nat_alt word_le_nat_alt)
  show ?thesis
    unfolding b using r e c ne two u off L
    by (simp add: numeral_2_eq_2 numeral_3_eq_3 add.assoc mem_put_apply)
qed

theorem atags_round_trip_witness:
  "tag_cmdline 2 (build_atags (cs ''quiet'') (\<lambda>_. 0xFF)) ATAGS_ADDR = Some (cs ''quiet'')"
  using atags_round_trip [of "cs ''quiet''" "\<lambda>_. 0xFF"] by simp

section \<open>The enable mask\<close>

lemma cfw_mask_bit:
  "i + length comps \<le> 32 \<Longrightarrow> bit (cfw_mask_loop ks i comps mk) k \<longleftrightarrow>
     bit mk k \<or> (i \<le> k \<and> k < i + length comps \<and> cfw_component_on ks (comps ! (k - i)))"
proof (induction comps arbitrary: i mk)
  case (Cons c comps)
  then show ?case
    by (cases "k = i"; cases "i \<le> k") (auto simp: bit_simps nth_Cons' Suc_le_eq)
qed auto

text \<open>The stage never refuses the mask, and a bit is set exactly for the components that are on.\<close>

lemma cfw_mask_on:
  "bit (cfw_mask y ks) k \<longleftrightarrow> k < length (cfw_components y) \<and> cfw_component_on ks (cfw_components y ! k)"
proof -
  have "length (cfw_components y) = 4" by (simp add: cfw_components_def)
  then show ?thesis using cfw_mask_bit [of 0 "cfw_components y" ks 0 k] by (simp add: cfw_mask_def)
qed

lemma cfw_mask_known: "drop_bit (length (cfw_components y)) (cfw_mask y ks) = 0"
  by (rule bit_word_eqI) (simp add: bit_simps cfw_mask_on)

section \<open>The hand-over\<close>

text \<open>The words of the code hold the start of the kernel, with the jump to the second stage in it.\<close>

definition handed_over :: "u32 \<Rightarrow> mem \<Rightarrow> bool" where
  "handed_over entry m \<longleftrightarrow> (\<exists>i < 102389. (\<forall>j < 7. word_no m EBOOT_CODE (i + j) = handoff_match ! j) \<and>
     word_no m EBOOT_CODE (i + 7) = LDR_PC_PC_MINUS4 \<and> word_no m EBOOT_CODE (i + 8) = entry)"

lemma handoff_patch_some:
  assumes r: "run_state (handoff_patch y rng) s = (Some (), t)"
  obtains i where "i < unat (drop_bit 2 (rsize rng))" "handoff_at (cmem s) (cacheable_base rng) i"
    "cmem t = plant (nk_entry y) (cacheable_base rng) i (cmem s)"
proof -
  define eff where "eff = (\<lambda>a m. st32 (st32 m (a + 32) (nk_entry y)) (a + 28) LDR_PC_PC_MINUS4)"
  have "bad_mask 0 handoff_match handoff_mask = None" "length handoff_match = 9"
    by (simp_all add: handoff_match_def handoff_mask_def EXACT_def)
  then obtain a u where u: "run_state (pf_apply (run_callback y) rng)
      (s\<lparr>arena_used := a, set_patches := [handoff_set], set_required := True, cfw_range := Some rng\<rparr>) = (Some (), u)"
    "cmem t = cmem u"
    using r
    by (cases s) (auto simp: handoff_patch_def pf_patchset_create_def pf_maskmatch_def malloc_def panicM_def run_simps
        Let_def handoff_set_def pf_patchset_destroy_def split: if_splits prod.splits option.splits)
  have o: "once (run_callback y) (pf_callback handoff_set) (\<lambda>_ _. True) eff"
    unfolding eff_def using once_handoff by (simp add: handoff_set_def)
  have p: "8 \<le> length (pairs handoff_set)"
    "should_match handoff_set \<and> is_required handoff_set \<and> \<not> has_fired handoff_set"
    by (simp_all add: handoff_set_def handoff_match_def handoff_mask_def)
  have h: "hit handoff_set (\<lambda>_ _. True) b m = handoff_at m b" for m b
    by (rule ext, rule hit_handoff) (simp add: handoff_set_def)
  have e: "eff (b + 4 * of_nat i) m = plant (nk_entry y) b i m" for b i m
    by (simp add: eff_def plant_def algebra_simps)
  from pf_apply_single [OF o p _ _ refl refl u(1)] u(2) that show ?thesis
    unfolding h e by (auto simp del: of_nat_add)
qed

lemma eboot_stage_planted:
  assumes "run_state (eboot_stage y args) s = (0, t)"
  obtains m i where "i < unat (drop_bit 2 (a_bytes args AND NOT 3))" "handoff_at m (a_code args) i"
    "cmem t = plant (nk_entry y) (a_code args) i m"
proof -
  obtain u where "run_state (handoff_patch y \<lparr>va = EBOOT_CODE_VA, rsize = a_bytes args AND NOT 3,
      cacheable_base = a_code args\<rparr>) u = (Some (), t)"
    using assms
    by (auto simp: eboot_stage_def eboot_main_def run_simps Let_def panicM_def split: prod.splits option.splits if_splits)
  from handoff_patch_some [OF this] that show ?thesis by auto
qed

lemma log_puts_below:
  assumes "log_good s" "a < LOG_BASE"
  shows "ddr (log_puts xs s) a = ddr s a"
proof -
  have "log_good t \<Longrightarrow> ddr (fold log_putc xs t) a = ddr t a" for t :: "'a log_st_scheme"
  proof (induction xs arbitrary: t)
    case (Cons c xs)
    have "ddr (log_putc c t) a = ddr t a"
      using Cons.prems assms(2) by (auto simp: log_putc_def log_good_def Let_def)
    then show ?case using Cons log_sink.good_putc [of t c] by simp
  qed simp
  from this [OF assms(1)] show ?thesis by (simp add: log_puts_def)
qed

lemma word_no_below:
  assumes "\<And>a. a < LOG_BASE \<Longrightarrow> m a = m' a" "q < 110000"
  shows "word_no m EBOOT_CODE q = word_no m' EBOOT_CODE q"
proof -
  have c: "EBOOT_CODE = 0x30038000" by (simp add: EBOOT_CODE_def EBOOT_DST_def)
  have al: "(EBOOT_CODE + 4 * of_nat q) AND 3 = 0"
    using assms(2) by (simp add: c aligned_iff unat_word_ariths unat_of_nat)
  have "EBOOT_CODE + 4 * of_nat q + k < LOG_BASE" if "k \<in> {0, 1, 2, 3}" for k
    using that assms(2) by (auto simp: c LOG_BASE_def word_less_nat_alt unat_word_ariths unat_of_nat)
  from this [of 0] this [of 1] this [of 2] this [of 3] show ?thesis
    unfolding word_no_def ld32_aligned [OF al] by (simp add: assms(1))
qed

lemma handed_over_plant:
  assumes "handoff_at m EBOOT_CODE i" "i < 102389"
    and "\<And>a. a < LOG_BASE \<Longrightarrow> m' a = plant entry EBOOT_CODE i m a"
  shows "handed_over entry m'"
proof -
  have al: "EBOOT_CODE AND 3 = 0" by (simp add: EBOOT_CODE_def EBOOT_DST_def)
  have w: "word_no m' EBOOT_CODE (i + j) = (if j = 7 then LDR_PC_PC_MINUS4 else if j = 8 then entry
      else word_no m EBOOT_CODE (i + j))" if "j < 9" for j
    using that assms(2) word_no_below [of m' "plant entry EBOOT_CODE i m" "i + j"] assms(3)
    by (simp add: word_no_plant [OF al])
  show ?thesis
    unfolding handed_over_def using w assms(1,2) by (intro exI [of _ i]) (auto simp: handoff_at_def)
qed

lemma uart_log_puts: "uart (log_puts xs s) = uart s @ xs"
  unfolding log_puts_def by (induction xs arbitrary: s) simp_all

text \<open>C4: aipc-boot starts a patched EBOOT only when the first stage has planted the jump to the second one in it:
  with the return code 0 the code in DDR holds the kernel start with that jump. Any other result of the
  stage gives BOOT_ECFW, and its message goes to the log and to the menu.\<close>

theorem cfw_eboot_stage_hands_over:
  "let (rc, t) = run_state (cfw_eboot_stage img ks) s
   in rc = 0 \<and> handed_over (nk_entry (i_syms img)) (ddr t) \<and> cfw_message t = cfw_message s \<or>
      rc = BOOT_ECFW \<and> (\<exists>before. uart t = before @ cs ''cfw: '' @ cfw_message t @ [10])"
proof -
  define m where "m = mem_put (ddr s) CFW_PHYS (i_bytes img)"
  define args where "args = \<lparr>a_code = EBOOT_CODE, a_bytes = EBOOT_BYTES - 0x2C, a_enable = cfw_mask (i_syms img) ks\<rparr>"
  obtain rc t where t: "run_state (eboot_stage (i_syms img) args) ((i_data img)\<lparr>cmem := m, console := []\<rparr>) = (rc, t)"
    by fastforce
  define u where "u = after_cfw t (s\<lparr>ddr := m\<rparr>)"
  have run: "run_state (cfw_eboot_stage img ks) s =
      (if rc \<noteq> 0 then (BOOT_ECFW, (log_putc 10 (log_puts (message t) (log_puts (cs ''cfw: '') u)))\<lparr>cfw_message := message t\<rparr>)
       else (0, u))"
    using t by (simp add: cfw_eboot_stage_def run_simps Let_def m_def args_def u_def)
  show ?thesis
  proof (cases "rc = 0")
    case True
    obtain p i where i: "i < unat (drop_bit 2 (a_bytes args AND NOT 3))" "handoff_at p (a_code args) i"
      "cmem t = plant (nk_entry (i_syms img)) (a_code args) i p"
      using eboot_stage_planted t True by blast
    have n: "unat (drop_bit 2 (a_bytes args AND NOT 3)) = 102389"
      by (simp add: args_def EBOOT_BYTES_def unat_drop_bit)
    have below: "ddr u a = cmem t a" if "a < LOG_BASE" for a
      using that log_puts_below [OF log_init_good that, of "console t" "s\<lparr>ddr := cmem t\<rparr>"]
      by (auto simp: u_def after_cfw_def Let_def log_init_def)
    have "cfw_message u = cfw_message s"
    proof -
      have "cfw_message (log_puts xs v) = cfw_message v" for xs and v :: "'a boot_st"
        by (rule log_puts_frame) (simp add: log_putc_def Let_def)
      then show ?thesis by (simp add: u_def after_cfw_def Let_def log_init_def)
    qed
    moreover have "handed_over (nk_entry (i_syms img)) (ddr u)"
      using handed_over_plant [of p i "ddr u"] i n below by (simp add: args_def)
    ultimately show ?thesis using True run by simp
  next
    case False
    then show ?thesis using run by (simp add: uart_log_puts)
  qed
qed

end
