(* ===== verification/Spec2Isabelle.thy ===== *)
theory Spec2Isabelle
  imports Ecc Trace Timer MusbWire Entries Kbd Payload Nboot Mmu Card Fbcon Boot
begin

text \<open>
  Verification of the bare-metal images of aipc-os (src/baremetal): openNBOOT, the first loader; aipc-boot, the boot
  menu; gdbstub, a debugger stub over USB; cfw, a patcher for the original system; and the drivers in lib/ that they
  share.

  \<^bold>\<open>How the parts interact.\<close> openNBOOT (\<open>Nboot\<close>) tries the SD card (\<open>Sd\<close>, \<open>Fat\<close>) and falls back to NAND (\<open>Nand\<close>,
  \<open>Ecc\<close>); board setup is in \<open>Soc\<close>, messages go to the boot log (\<open>Log\<close>). aipc-boot reads its settings (\<open>Ini\<close>,
  \<open>Settings\<close>) and menu entries (\<open>Entries\<close>) through the file layer (\<open>Storage\<close>), takes keys from the USB keyboard
  (\<open>Ch374\<close>, \<open>Kbd\<close>, with \<open>Timer\<close>), watches the card slot (\<open>Card\<close>), maps its memory (\<open>Mmu\<close>), loads ELF payloads
  (\<open>Payload\<close>) and starts Linux, payloads or the original system (\<open>Boot\<close>). For the original system it runs the first
  stage of cfw on EBOOT in DDR (\<open>Cfw\<close>), which finds code by pattern (\<open>Pf\<close>) and plants a jump to the second stage; that
  one looks up the modules of the kernel (\<open>Rom\<close>) and patches them. gdbstub takes packets from the host over USB (\<open>Musb\<close>),
  decodes them and runs commands
  (\<open>Reply\<close>, \<open>RspCmd\<close>, \<open>Rsp\<close>), steps with the next-pc decoder (\<open>Step\<close>) and traces into a DDR buffer (\<open>Trace\<close>).

  \<^bold>\<open>How the code is modelled.\<close> Machine integers keep their width. Static variables are the fields of records; the
  records of one image form a chain of extensions (log, hardware, NAND, card, FAT). A handler is a function from state
  to state, a driver is a program of the state monad over an arbitrary register bus. Buffers that a function fills are
  part of its result: the bytes stored from the destination on. Names are those of the C code; a loop has a name of
  its own. Return codes are integers as in C; functions that may not return give an option.

  \<^item> \<open>Prelude\<close>: machine types, byte buffers, little-endian encodings, memory as a function of addresses.
  \<^item> \<open>Sink\<close>: a bounded character sink as a locale, interpreted for the boot log and for the trace buffer, with the
    number printers that both use.
  \<^item> \<open>Hw\<close>: the register bus as a parameter; rules for frames (\<open>keeps\<close>), results for every hardware (\<open>yields\<close>),
    invariants (\<open>preserves\<close>) and pre- and postconditions (\<open>triple\<close>) of state-monad programs.
  \<^item> \<open>Ecc\<close> (lib/ecc.c): the position decoder is exact, and applying the reported positions gives the data back.
  \<^item> \<open>Log\<close> (lib/log.c), \<open>Trace\<close> (gdbstub/trace.c): what a later stage or a restart still finds in the window, bounds of
    the window, no DDR write after \<open>log_detach\<close>.
  \<^item> \<open>Timer\<close> (lib/timer.c): elapsed milliseconds over the wrapping 26-bit counter; delays end and are long enough.
  \<^item> \<open>Step\<close> (gdbstub/step.c): branch targets, block loads, the barrel shifter, alignment of the decoded pc.
  \<^item> \<open>Reply\<close>, \<open>RspCmd\<close>, \<open>Rsp\<close> (gdbstub/rsp.c): the server; \<open>RspSpec\<close> is the abstract reply and effect of every command;
    \<open>RspProps\<close> has the refinement, the safety of the buffers and of the frames for every byte stream, checksums, round
    trips of memory, registers and breakpoints, and single steps.
  \<^item> \<open>Musb\<close>, \<open>MusbProps\<close>, \<open>MusbWire\<close> (gdbstub/musb.c, main.c): the USB driver with the server in its state. The variables
    keep their types whatever the controller answers; on a controller that transmits as documented, messages and
    descriptors go on the wire whole and in order, and the line coding comes back as it was set.
  \<^item> \<open>Ini\<close>, \<open>Settings\<close>, \<open>Entries\<close> (aipc-boot/ini.c, settings.c, entries.c): saved settings load again; every entry list
    satisfies its invariant.
  \<^item> \<open>Ch374\<close>, \<open>Kbd\<close> (lib/ch374.c, aipc-boot/kbd.c): the event queue as a locale with its interpretation, the invariant of
    the driver for every hardware, reports as differences of key sets.
  \<^item> \<open>Sd\<close> (lib/sd.c): the card driver; whatever calls happen, releasing the pads restores them.
  \<^item> \<open>Storage\<close> (aipc-boot/storage.c): atomic save, exact reads on both read paths with their fallbacks.
  \<^item> \<open>Payload\<close> (aipc-boot/payload.c): a load touches no protected byte; the list of payloads is sorted.
  \<^item> \<open>Fat\<close> (lib/fat.c): a loaded file is the bytes of its cluster chain, by reference to a description of the volume
    without cache; the loops end on every hardware.
  \<^item> \<open>Nand\<close> (lib/nand.c): a loaded image is the data of the good blocks; the geometry after a probe; the loops end on
    every hardware.
  \<^item> \<open>Soc\<close>, \<open>Nboot\<close> (lib/soc.c, opennboot/main.c): openNBOOT always ends in a hand-over or a halt, and touches NAND only
    with the shared pads restored.

  \<^item> \<open>Mmu\<close> (lib/mmu.c, map_memory of aipc-boot/main.c): the memory type of every address.
  \<^item> \<open>Card\<close> (aipc-boot/card.c): the slot settles, then mounts; a poll reports every change.
  \<^item> \<open>Fbcon\<close> (lib/fbcon.c): the console stays in its rectangle.
  \<^item> \<open>CfwPrint\<close> (cfw/core/printf.c): output as a function of format and arguments; the capture of a panic is an
    interpretation of the locale of \<open>Sink\<close>.
  \<^item> \<open>Pf\<close> (lib/pf.c), \<open>Rom\<close> (cfw/nkpf/romimage.c): a required pattern must match once; a code section lies in place.
  \<^item> \<open>Cfw\<close>, \<open>CfwProps\<close> (cfw/core, components, eboot, nkpf): the patches, the two stages, the jump from the first to the
    second, and the status of the first.
  \<^item> \<open>Boot\<close> (aipc-boot/boot.c): the tag list for Linux; EBOOT is started with CFW only when the jump is in it.

  \<^bold>\<open>Bounds and fuel.\<close> Polling loops have the limits of the code (\<open>WAIT_LIMIT\<close>, \<open>NF_WAIT_LIMIT\<close>, \<open>DMA_WAIT_LIMIT\<close> and
  the others) as the number of their rounds. The loop that sends a message over USB has the length of the message as
  fuel, and each round sends at least a byte. Three more loops have fuel, and lemmas show that it is never used up: the search
  of a FAT32 root directory (4097 rounds, each scans at least one of 4096 sectors), the load of a file (its size plus
  one, each round loads at least a byte) and the load of an image (its length plus 17, each round loads a page or skips
  one of at most 16 blocks). Waiting for the timer has fuel too; the delay property shows that it ends when the counter
  runs.

  \<^bold>\<open>Parameters.\<close> The hardware is a register bus with an arbitrary state. FatFs and LVGL are third-party: the calls of FatFs
  are the fields of a record that storage.c uses, its documented behaviour a hypothesis of the theorems that need it.
  \<open>Storage\<close> uses the card driver through a record of its operations on blocks of bytes, because a multiple-block read
  delivers its data by DMA. Named hypotheses state what the code relies on (\<open>pad_law\<close>, \<open>sd_card_law\<close>, \<open>flash_law\<close>, \<open>file_laws\<close>
  and the others), and each property that has one comes with a concrete instance.

  The addresses that the linker assigns to the CFW image are parameters, and so are the glyphs of the console, the code
  of a payload that is called and the switching of caches.

  \<^bold>\<open>Not modelled.\<close> The menu pages and fonts of aipc-boot (LVGL objects and generated tables), its main loop, battery,
  power and system information; the panel of lib/; assembly; the part of CFW that runs inside the original system; the
  Doom port and the hardware probes; the host tools. Busy loops without effect on the state are left out of the drivers.
\<close>

end
